(* ===== verification/Prelude.thy ===== *)
theory Prelude
  imports Main "HOL-Library.Char_ord" "HOL-Library.List_Lexorder"
begin

section \<open>Shared vocabulary: Python exceptions, strings, containers\<close>

text \<open>
  What every component uses of Python itself.
  \<^item> \<open>exc\<close> lists the exceptions the modelled code raises, with their messages; a
    fallible function returns \<open>exc + 'a\<close>, \<open>Inl\<close> for a raise.
  \<^item> a Python \<open>str\<close> is a \<open>string\<close>: one \<open>char\<close> per code point, for text whose code
    points are below 256 (Latin-1).  White space and case are those of \<open>str.isspace\<close> and
    \<open>str.lower\<close> on that range.
  \<^item> \<open>dedup\<close> is \<open>tuple(dict.fromkeys(xs))\<close>, \<open>alookup\<close> and \<open>aset\<close> are reading and
    writing a \<open>dict\<close> kept in insertion order.
  The collections \<open>py_str\<close> and \<open>res_simps\<close> gather the rewrite rules that component proofs
  hand to the simplifier.
\<close>

named_theorems py_str "facts about the string functions of the standard library"
named_theorems res_simps "how the exception monad reduces"

subsection \<open>Exceptions\<close>

datatype exc =
    ValueError string
  | OverflowError string
  | ZeroDivisionError
  | TypeError string
  | KeyError string
  | AuthenticationError string
  | AuthenticationUnavailable string
  | AuthorizationError string
  | PersistenceError string
  | ScopeNotFound string
  | IdempotencyConflict string
  | OperationalConflict string
  | ProvisioningConflict string
  | IntegrityError
  | ForecastError string
  | ConfigurationError string
  | PayloadValidationError string
  | ConnectorPolicyError string
  | GovernedEventError string
  | SignatureVerificationError string
  | TimestampSkewError string
  | ReplayDetectedError string
  | WebhookIdempotencyConflict string
  | ReplayProtectionUnavailable string
  | PreservationError string
  | HTTPException nat string

type_synonym 'a res = "exc + 'a"

definition rbind :: "'a res \<Rightarrow> ('a \<Rightarrow> 'b res) \<Rightarrow> 'b res" where
  "rbind m f = (case m of Inl e \<Rightarrow> Inl e | Inr v \<Rightarrow> f v)"

definition guard_else :: "bool \<Rightarrow> exc \<Rightarrow> 'a res \<Rightarrow> 'a res" where
  "guard_else ok e k = (if ok then k else Inl e)"

text \<open>\<open>try: m  except ...: raise ...\<close>: the handlers as a function on exceptions.\<close>

definition map_exc :: "(exc \<Rightarrow> exc) \<Rightarrow> 'a res \<Rightarrow> 'a res" where
  "map_exc h m = (case m of Inl e \<Rightarrow> Inl (h e) | Inr v \<Rightarrow> Inr v)"

fun rmap :: "('a \<Rightarrow> 'b res) \<Rightarrow> 'a list \<Rightarrow> 'b list res" where
  "rmap f [] = Inr []"
| "rmap f (x # xs) = rbind (f x) (\<lambda>y. rbind (rmap f xs) (\<lambda>ys. Inr (y # ys)))"

lemma rbind_simps [simp, res_simps]:
  "rbind (Inl e) f = Inl e"
  "rbind (Inr v) f = f v"
  by (simp_all add: rbind_def)

lemma rbind_Inr_iff [res_simps]:
  "rbind m f = Inr w \<longleftrightarrow> (\<exists>v. m = Inr v \<and> f v = Inr w)"
  by (cases m) simp_all

lemma rbind_Inl_iff [res_simps]:
  "rbind m f = Inl e \<longleftrightarrow> m = Inl e \<or> (\<exists>v. m = Inr v \<and> f v = Inl e)"
  by (cases m) simp_all

lemma guard_else_simps [simp, res_simps]:
  "guard_else True e k = k"
  "guard_else False e k = Inl e"
  by (simp_all add: guard_else_def)

lemma guard_else_Inr_iff [res_simps]:
  "guard_else ok e k = Inr w \<longleftrightarrow> ok \<and> k = Inr w"
  by (cases ok) simp_all

lemma map_exc_simps [simp, res_simps]:
  "map_exc h (Inl e) = Inl (h e)"
  "map_exc h (Inr v) = Inr v"
  by (simp_all add: map_exc_def)

lemma map_exc_Inr_iff [res_simps]: "map_exc h m = Inr v \<longleftrightarrow> m = Inr v"
  by (cases m) simp_all

lemma map_exc_Inl_iff: "map_exc h m = Inl e \<longleftrightarrow> (\<exists>e'. m = Inl e' \<and> e = h e')"
  by (cases m) auto

lemma guard_else_Inl_iff: "guard_else ok x k = Inl e \<longleftrightarrow> (if ok then k = Inl e else x = e)"
  by (cases ok) auto

lemma rmap_Inr_length: "rmap f xs = Inr ys \<Longrightarrow> length ys = length xs"
  by (induction xs arbitrary: ys) (auto simp: res_simps)

lemma rmap_Inr_all2: "rmap f xs = Inr ys \<longleftrightarrow> list_all2 (\<lambda>x y. f x = Inr y) xs ys"
proof (induction xs arbitrary: ys)
  case Nil
  then show ?case by auto
next
  case (Cons x xs)
  then show ?case by (auto simp: res_simps list_all2_Cons1)
qed

subsection \<open>Characters and strings\<close>

definition code :: "char \<Rightarrow> nat" where
  "code c = of_char c"

definition py_isspace :: "char \<Rightarrow> bool" where
  "py_isspace c = (code c \<in> {9, 10, 11, 12, 13, 28, 29, 30, 31, 32, 133, 160})"

definition is_lower :: "char \<Rightarrow> bool" where
  "is_lower c = (97 \<le> code c \<and> code c \<le> 122)"

definition is_upper :: "char \<Rightarrow> bool" where
  "is_upper c = (65 \<le> code c \<and> code c \<le> 90)"

definition is_digit :: "char \<Rightarrow> bool" where
  "is_digit c = (48 \<le> code c \<and> code c \<le> 57)"

definition is_alnum :: "char \<Rightarrow> bool" where
  "is_alnum c = (is_lower c \<or> is_upper c \<or> is_digit c)"

definition lower_char :: "char \<Rightarrow> char" where
  "lower_char c = (if is_upper c \<or> (192 \<le> code c \<and> code c \<le> 222 \<and> code c \<noteq> 215)
                   then char_of (code c + 32) else c)"

definition py_lower :: "string \<Rightarrow> string" where
  "py_lower s = map lower_char s"

text \<open>
  \<open>str.upper\<close>; the images of the micro sign and of y with diaeresis lie outside the modelled
  characters and are left as they are (they match no identifier either way).
\<close>

definition upper_char :: "char \<Rightarrow> string" where
  "upper_char c =
     (if is_lower c \<or> (224 \<le> code c \<and> code c \<le> 254 \<and> code c \<noteq> 247) then [char_of (code c - 32)]
      else if code c = 223 then ''SS'' else [c])"

definition py_upper :: "string \<Rightarrow> string" where
  "py_upper s = concat (map upper_char s)"

definition lstrip :: "string \<Rightarrow> string" where
  "lstrip s = dropWhile py_isspace s"

definition rstrip :: "string \<Rightarrow> string" where
  "rstrip s = rev (dropWhile py_isspace (rev s))"

definition strip :: "string \<Rightarrow> string" where
  "strip s = rstrip (lstrip s)"

text \<open>\<open>s.split()\<close>: maximal runs of characters that are not white space.\<close>

function words_of :: "(char \<Rightarrow> bool) \<Rightarrow> string \<Rightarrow> string list" where
  "words_of p s =
     (let t = dropWhile (\<lambda>c. \<not> p c) s
      in if t = [] then [] else takeWhile p t # words_of p (dropWhile p t))"
  by pat_completeness auto
termination
proof (relation "measure (\<lambda>(p, s). length s)", goal_cases)
  case 1
  then show ?case by simp
next
  case (2 p s t)
  from \<open>t \<noteq> []\<close> \<open>t = dropWhile (\<lambda>c. \<not> p c) s\<close> have hd: "p (hd t)"
    using hd_dropWhile by metis
  with \<open>t \<noteq> []\<close> have "length (dropWhile p t) < length t"
    by (cases t) (auto simp: le_imp_less_Suc length_dropWhile_le)
  also have "length t \<le> length s"
    using \<open>t = dropWhile (\<lambda>c. \<not> p c) s\<close> by (simp add: length_dropWhile_le)
  finally show ?case by simp
qed

declare words_of.simps [simp del]

definition split_ws :: "string \<Rightarrow> string list" where
  "split_ws s = words_of (\<lambda>c. \<not> py_isspace c) s"

fun join :: "string \<Rightarrow> string list \<Rightarrow> string" where
  "join sep [] = []"
| "join sep [x] = x"
| "join sep (x # y # xs) = x @ sep @ join sep (y # xs)"

text \<open>\<open>" ".join(s.split())\<close>, the normalisation of names, summaries and questions.\<close>

definition squeeze :: "string \<Rightarrow> string" where
  "squeeze s = join '' '' (split_ws s)"

lemma lstrip_Nil [py_str]: "lstrip [] = []"
  by (simp add: lstrip_def)

lemma hd_lstrip [py_str]: "lstrip s \<noteq> [] \<Longrightarrow> \<not> py_isspace (hd (lstrip s))"
  unfolding lstrip_def by (rule hd_dropWhile)

lemma last_rstrip [py_str]: "rstrip s \<noteq> [] \<Longrightarrow> \<not> py_isspace (last (rstrip s))"
  unfolding rstrip_def using hd_dropWhile [of py_isspace "rev s"]
  by (simp add: last_rev)

lemma rstrip_prefix: "\<exists>t. s = rstrip s @ t"
proof -
  have "rev s = takeWhile py_isspace (rev s) @ dropWhile py_isspace (rev s)" by simp
  then have "s = rev (dropWhile py_isspace (rev s)) @ rev (takeWhile py_isspace (rev s))"
    by (metis rev_append rev_rev_ident)
  then show ?thesis unfolding rstrip_def by blast
qed

lemma rstrip_id: "s = [] \<or> \<not> py_isspace (last s) \<Longrightarrow> rstrip s = s"
  unfolding rstrip_def by (cases s rule: rev_cases) auto

lemma strip_hd: "strip s \<noteq> [] \<Longrightarrow> \<not> py_isspace (hd (strip s))"
proof -
  assume ne: "strip s \<noteq> []"
  obtain t where t: "lstrip s = strip s @ t"
    unfolding strip_def using rstrip_prefix by blast
  with ne have "hd (lstrip s) = hd (strip s)" and "lstrip s \<noteq> []"
    by (auto simp: hd_append)
  then show ?thesis using hd_lstrip by metis
qed

lemma strip_idem [simp, py_str]: "strip (strip s) = strip s"
proof (cases "strip s = []")
  case True
  moreover have "strip [] = []" by (simp add: strip_def lstrip_def rstrip_def)
  ultimately show ?thesis by simp
next
  case False
  then have "lstrip (strip s) = strip s"
    using strip_hd [of s] unfolding lstrip_def by (cases "strip s") auto
  moreover have "\<not> py_isspace (last (strip s))"
    using False last_rstrip unfolding strip_def by blast
  ultimately show ?thesis
    using rstrip_id [of "strip s"] by (simp add: strip_def [of "strip s"])
qed

lemma strip_eq_Nil_iff [py_str]: "strip s = [] \<longleftrightarrow> (\<forall>c \<in> set s. py_isspace c)"
proof -
  have "strip s = [] \<longleftrightarrow> dropWhile py_isspace (rev (lstrip s)) = []"
    by (simp add: strip_def rstrip_def)
  also have "\<dots> \<longleftrightarrow> (\<forall>c \<in> set (lstrip s). py_isspace c)"
    by (simp add: dropWhile_eq_Nil_conv)
  also have "\<dots> \<longleftrightarrow> lstrip s = []"
    using hd_lstrip [of s] by (cases "lstrip s") auto
  also have "\<dots> \<longleftrightarrow> (\<forall>c \<in> set s. py_isspace c)"
    by (simp add: lstrip_def dropWhile_eq_Nil_conv)
  finally show ?thesis .
qed

lemma strip_nonblank: "c \<in> set s \<Longrightarrow> \<not> py_isspace c \<Longrightarrow> strip s \<noteq> []"
  by (auto simp: strip_eq_Nil_iff)

lemma length_strip_le [py_str]: "length (strip s) \<le> length s"
  unfolding strip_def rstrip_def lstrip_def
  by (metis length_dropWhile_le length_rev order_trans)

subsection \<open>Decimal notation\<close>

definition digit_char :: "nat \<Rightarrow> char" where
  "digit_char d = char_of (48 + d)"

fun show_nat :: "nat \<Rightarrow> string" where
  "show_nat n = (if n < 10 then [digit_char n] else show_nat (n div 10) @ [digit_char (n mod 10)])"

declare show_nat.simps [simp del]

definition show_int :: "int \<Rightarrow> string" where
  "show_int i = (if i < 0 then ''-'' @ show_nat (nat (- i)) else show_nat (nat i))"

subsection \<open>Containers\<close>

text \<open>\<open>tuple(dict.fromkeys(xs))\<close>: the first occurrence of every element, in order.\<close>

fun dedup :: "'a list \<Rightarrow> 'a list" where
  "dedup [] = []"
| "dedup (x # xs) = x # removeAll x (dedup xs)"

lemma set_dedup [simp]: "set (dedup xs) = set xs"
  by (induction xs) auto

lemma distinct_dedup [simp]: "distinct (dedup xs)"
  by (induction xs) (auto simp: distinct_removeAll)

lemma dedup_distinct: "distinct xs \<Longrightarrow> dedup xs = xs"
  by (induction xs) (auto simp: removeAll_id)

lemma dedup_idem [simp]: "dedup (dedup xs) = dedup xs"
  by (simp add: dedup_distinct)

lemma dedup_eq_Nil [simp]: "dedup xs = [] \<longleftrightarrow> xs = []"
  by (cases xs) auto

text \<open>\<open>tuple(dict.fromkeys(item.strip() for item in xs if item.strip()))\<close>.\<close>

definition clean_refs :: "string list \<Rightarrow> string list" where
  "clean_refs xs = dedup (map strip (filter (\<lambda>x. strip x \<noteq> []) xs))"

lemma clean_refs_props:
  "distinct (clean_refs xs)"
  "x \<in> set (clean_refs xs) \<Longrightarrow> x \<noteq> [] \<and> strip x = x"
  by (auto simp: clean_refs_def)

lemma clean_refs_idem [simp]: "clean_refs (clean_refs xs) = clean_refs xs"
proof -
  let ?ys = "clean_refs xs"
  have "filter (\<lambda>x. strip x \<noteq> []) ?ys = ?ys"
    using clean_refs_props(2) by (auto simp: filter_id_conv)
  moreover have "map strip ?ys = ?ys"
    using clean_refs_props(2) by (auto simp: map_idI)
  ultimately show ?thesis
    using clean_refs_props(1) by (simp add: clean_refs_def [of ?ys] dedup_distinct)
qed

fun alookup :: "('k \<times> 'v) list \<Rightarrow> 'k \<Rightarrow> 'v option" where
  "alookup [] k = None"
| "alookup ((k', v) # d) k = (if k' = k then Some v else alookup d k)"

fun aset :: "('k \<times> 'v) list \<Rightarrow> 'k \<Rightarrow> 'v \<Rightarrow> ('k \<times> 'v) list" where
  "aset [] k v = [(k, v)]"
| "aset ((k', v') # d) k v = (if k' = k then (k, v) # d else (k', v') # aset d k v)"

lemma alookup_aset [simp]: "alookup (aset d k v) k' = (if k' = k then Some v else alookup d k')"
  by (induction d k v rule: aset.induct) auto

lemma alookup_map_of: "alookup d k = map_of d k"
  by (induction d k rule: alookup.induct) auto

lemma keys_aset: "fst ` set (aset d k v) = insert k (fst ` set d)"
  by (induction d k v rule: aset.induct) auto

lemma distinct_aset: "distinct (map fst d) \<Longrightarrow> distinct (map fst (aset d k v))"
proof (induction d k v rule: aset.induct)
  case (2 k' v' d k v)
  have "fst ` set (aset d k v) = insert k (fst ` set d)" by (rule keys_aset)
  with 2 show ?case by auto
qed simp

subsection \<open>Selecting rows\<close>

text \<open>\<open>LIMIT n OFFSET m\<close> and Python's \<open>xs[m : m + n]\<close>.\<close>

definition page_of :: "nat \<Rightarrow> nat \<Rightarrow> 'a list \<Rightarrow> 'a list" where
  "page_of off lim xs = take lim (drop off xs)"

lemma set_page_of: "set (page_of off lim xs) \<subseteq> set xs"
  unfolding page_of_def by (meson order_trans set_drop_subset set_take_subset)

lemma length_page_of: "length (page_of off lim xs) = min lim (length xs - off)"
  by (simp add: page_of_def)

lemma page_of_concat:
  "page_of off (m + n) xs = page_of off m xs @ page_of (off + m) n xs"
  by (simp add: page_of_def take_add add.commute)

lemma filter_snoc: "filter P (xs @ [x]) = filter P xs @ (if P x then [x] else [])"
  by simp

lemma find_Some_filter: "List.find P xs = (case filter P xs of [] \<Rightarrow> None | x # _ \<Rightarrow> Some x)"
  by (induction xs) auto

end
