(* ===== verification/Binary64.thy ===== *)
theory Binary64
  imports Complex_Main Prelude "HOL-Library.Log_Nat"
begin

section \<open>Python floats: IEEE-754 binary64 arithmetic on rationals\<close>

text \<open>
  A finite float is the rational it denotes (\<open>Fin q\<close>); the other values are the infinities
  and NaN.  The sign of zero is not kept: no modelled code observes it.  \<open>rnd q\<close> is the float
  nearest to \<open>q\<close>, ties to even, with subnormals and overflow, so that \<open>fadd\<close>, \<open>fsub\<close>,
  \<open>fmul\<close>, \<open>fdiv\<close>, \<open>int_div\<close> (Python's \<open>int / int\<close>) and \<open>py_round\<close> compute what the
  interpreter computes.  \<open>f64 q\<close> says that \<open>q\<close> is a float.  The lemmas are what bounds
  proofs need: rounding is monotone, exact on floats and lands on floats.
\<close>

named_theorems f64_simps "constants and results that are floats"

datatype pyfloat = Fin rat | PInf | NInf | NaN

subsection \<open>Rounding\<close>

definition rhe :: "rat \<Rightarrow> int" where
  "rhe x = (let f = \<lfloor>x\<rfloor>; r = x - of_int f
            in if r < 1 / 2 then f else if 1 / 2 < r then f + 1
               else if even f then f else f + 1)"

definition flog2 :: "rat \<Rightarrow> int" where
  "flog2 q = (let (n, d) = quotient_of q; k = bitlen n - bitlen d
              in if q < 2 powi k then k - 1 else k)"

definition bexp :: "rat \<Rightarrow> int" where
  "bexp q = max (flog2 q - 52) (- 1074)"

definition rndq :: "rat \<Rightarrow> rat" where
  "rndq q = (if q = 0 then 0
             else let e = bexp \<bar>q\<bar> in sgn q * (of_int (rhe (\<bar>q\<bar> / 2 powi e)) * 2 powi e))"

definition rnd :: "rat \<Rightarrow> pyfloat" where
  "rnd q = (let r = rndq q
            in if r \<ge> 2 ^ 1024 then PInf else if r \<le> - (2 ^ 1024) then NInf else Fin r)"

definition f64 :: "rat \<Rightarrow> bool" where
  "f64 q = (rnd q = Fin q)"

fun wf_float :: "pyfloat \<Rightarrow> bool" where
  "wf_float (Fin q) = f64 q"
| "wf_float _ = True"

subsection \<open>Arithmetic\<close>

fun fneg :: "pyfloat \<Rightarrow> pyfloat" where
  "fneg (Fin a) = Fin (- a)"
| "fneg PInf = NInf"
| "fneg NInf = PInf"
| "fneg NaN = NaN"

fun fadd :: "pyfloat \<Rightarrow> pyfloat \<Rightarrow> pyfloat" where
  "fadd (Fin a) (Fin b) = rnd (a + b)"
| "fadd NaN _ = NaN"
| "fadd _ NaN = NaN"
| "fadd PInf NInf = NaN"
| "fadd NInf PInf = NaN"
| "fadd PInf _ = PInf"
| "fadd NInf _ = NInf"
| "fadd _ PInf = PInf"
| "fadd _ NInf = NInf"

definition fsub :: "pyfloat \<Rightarrow> pyfloat \<Rightarrow> pyfloat" where
  "fsub a b = fadd a (fneg b)"

definition fsigned_inf :: "rat \<Rightarrow> pyfloat" where
  "fsigned_inf s = (if s = 0 then NaN else if 0 < s then PInf else NInf)"

fun fmul :: "pyfloat \<Rightarrow> pyfloat \<Rightarrow> pyfloat" where
  "fmul (Fin a) (Fin b) = rnd (a * b)"
| "fmul NaN _ = NaN"
| "fmul _ NaN = NaN"
| "fmul (Fin a) PInf = fsigned_inf a"
| "fmul (Fin a) NInf = fsigned_inf (- a)"
| "fmul PInf (Fin b) = fsigned_inf b"
| "fmul NInf (Fin b) = fsigned_inf (- b)"
| "fmul PInf PInf = PInf"
| "fmul NInf NInf = PInf"
| "fmul PInf NInf = NInf"
| "fmul NInf PInf = NInf"

fun fdiv :: "pyfloat \<Rightarrow> pyfloat \<Rightarrow> pyfloat res" where
  "fdiv a (Fin b) =
     (if b = 0 then Inl ZeroDivisionError
      else case a of Fin q \<Rightarrow> Inr (rnd (q / b))
           | PInf \<Rightarrow> Inr (fsigned_inf b) | NInf \<Rightarrow> Inr (fsigned_inf (- b)) | NaN \<Rightarrow> Inr NaN)"
| "fdiv (Fin a) PInf = Inr (Fin 0)"
| "fdiv (Fin a) NInf = Inr (Fin 0)"
| "fdiv _ _ = Inr NaN"

fun fle :: "pyfloat \<Rightarrow> pyfloat \<Rightarrow> bool" where
  "fle (Fin a) (Fin b) = (a \<le> b)"
| "fle NaN _ = False"
| "fle _ NaN = False"
| "fle NInf _ = True"
| "fle _ PInf = True"
| "fle _ _ = False"

fun flt :: "pyfloat \<Rightarrow> pyfloat \<Rightarrow> bool" where
  "flt (Fin a) (Fin b) = (a < b)"
| "flt NaN _ = False"
| "flt _ NaN = False"
| "flt NInf NInf = False"
| "flt PInf PInf = False"
| "flt NInf _ = True"
| "flt _ PInf = True"
| "flt _ _ = False"

fun feq :: "pyfloat \<Rightarrow> pyfloat \<Rightarrow> bool" where
  "feq NaN _ = False"
| "feq _ NaN = False"
| "feq a b = (a = b)"

fun isfinite :: "pyfloat \<Rightarrow> bool" where
  "isfinite (Fin _) = True"
| "isfinite _ = False"

text \<open>Python's \<open>max(a, b)\<close> and \<open>min(a, b)\<close> keep the first argument unless the second wins.\<close>

definition fmax :: "pyfloat \<Rightarrow> pyfloat \<Rightarrow> pyfloat" where
  "fmax a b = (if flt a b then b else a)"

definition fmin :: "pyfloat \<Rightarrow> pyfloat \<Rightarrow> pyfloat" where
  "fmin a b = (if flt b a then b else a)"

fun fabs :: "pyfloat \<Rightarrow> pyfloat" where
  "fabs (Fin a) = Fin \<bar>a\<bar>"
| "fabs NaN = NaN"
| "fabs _ = PInf"

definition float_of_int :: "int \<Rightarrow> pyfloat res" where
  "float_of_int i =
     (case rnd (of_int i) of Fin q \<Rightarrow> Inr (Fin q)
      | _ \<Rightarrow> Inl (OverflowError ''int too large to convert to float''))"

definition int_div :: "int \<Rightarrow> int \<Rightarrow> pyfloat res" where
  "int_div a b =
     (if b = 0 then Inl ZeroDivisionError
      else case rnd (of_int a / of_int b) of Fin q \<Rightarrow> Inr (Fin q)
           | _ \<Rightarrow> Inl (OverflowError ''integer division result too large for a float''))"

text \<open>\<open>sum\<close> over floats compensates its rounding errors (Neumaier) since Python 3.12.\<close>

fun csum_from :: "pyfloat \<Rightarrow> pyfloat \<Rightarrow> pyfloat list \<Rightarrow> pyfloat" where
  "csum_from s c [] = (if isfinite c \<and> c \<noteq> Fin 0 then fadd s c else s)"
| "csum_from s c (x # xs) =
     (let t = fadd s x
      in csum_from t (fadd c (if fle (fabs x) (fabs s) then fadd (fsub s t) x
                              else fadd (fsub x t) s)) xs)"

definition py_sum :: "pyfloat list \<Rightarrow> pyfloat" where
  "py_sum xs = csum_from (Fin 0) (Fin 0) xs"

text \<open>\<open>round(x, n)\<close>: the nearest \<open>n\<close>-digit decimal of the exact value, as a float.\<close>

fun py_round :: "pyfloat \<Rightarrow> nat \<Rightarrow> pyfloat" where
  "py_round (Fin q) n = rnd (of_int (rhe (q * 10 ^ n)) / 10 ^ n)"
| "py_round x n = x"

text \<open>Floats other than NaN as numbers that order as they do: a finite one is below \<open>2 ^ 1024\<close>.\<close>

definition float_key :: "pyfloat \<Rightarrow> rat" where
  "float_key x = (case x of Fin q \<Rightarrow> q | PInf \<Rightarrow> 2 ^ 1024 | NInf \<Rightarrow> - (2 ^ 1024) | NaN \<Rightarrow> 0)"

subsection \<open>The nearest integer\<close>

lemma rhe_of_int [simp]: "rhe (of_int z) = z"
  by (simp add: rhe_def)

lemma rhe_floor: "\<lfloor>x\<rfloor> \<le> rhe x" "rhe x \<le> \<lfloor>x\<rfloor> + 1"
  by (auto simp: rhe_def Let_def)

lemma rhe_mono: "x \<le> y \<Longrightarrow> rhe x \<le> rhe y"
proof (cases "\<lfloor>x\<rfloor> = \<lfloor>y\<rfloor>")
  case True
  assume "x \<le> y"
  with True show ?thesis by (auto simp: rhe_def Let_def)
next
  case False
  assume "x \<le> y"
  with False have "\<lfloor>x\<rfloor> + 1 \<le> \<lfloor>y\<rfloor>"
    using floor_mono [of x y] by linarith
  with rhe_floor(2) [of x] rhe_floor(1) [of y] show ?thesis by linarith
qed

lemma rhe_nonneg: "0 \<le> x \<Longrightarrow> 0 \<le> rhe x"
  using rhe_mono [of 0 x] rhe_of_int [of 0] by simp

subsection \<open>The binary exponent\<close>

lemma powi_split: "(2::rat) powi (a + b) = 2 powi a * 2 powi b"
  by (simp add: power_int_add)

lemma powi_minus: "(2::rat) powi (a - b) = 2 powi a / 2 powi b"
  by (simp add: power_int_diff)

lemma powi_pos [simp]: "0 < (2::rat) powi a"
  by (simp add: zero_less_power_int)

lemma powi_less_iff: "(2::rat) powi a < 2 powi b \<longleftrightarrow> a < b"
  using power_int_strict_increasing [of a b "2::rat"] power_int_strict_increasing [of b a "2::rat"]
  by (cases a b rule: linorder_cases) auto

lemma powi_le_iff: "(2::rat) powi a \<le> 2 powi b \<longleftrightarrow> a \<le> b"
  using powi_less_iff [of b a] by (simp flip: not_less)

lemma powi_nat: "0 \<le> a \<Longrightarrow> (2::rat) powi a = of_int (2 ^ nat a)"
  by (simp add: power_int_def)

lemma bitlen_powi:
  assumes "0 < n"
  shows "2 powi (bitlen n - 1) \<le> (of_int n :: rat)" "(of_int n :: rat) < 2 powi (bitlen n)"
proof -
  have pos: "0 < bitlen n"
    using assms bitlen_nonneg [of n] bitlen_eq_zero_iff [of n] by linarith
  have b: "2 ^ nat (bitlen n - 1) \<le> n \<and> n < 2 ^ nat (bitlen n)"
    using assms by (rule bitlen_bounds)
  then have "(of_int (2 ^ nat (bitlen n - 1)) :: rat) \<le> of_int n"
    by (intro of_int_le_iff [THEN iffD2]) blast
  then show "2 powi (bitlen n - 1) \<le> (of_int n :: rat)"
    using powi_nat [of "bitlen n - 1"] pos by simp
  from b have "(of_int n :: rat) < of_int (2 ^ nat (bitlen n))"
    by (intro of_int_less_iff [THEN iffD2]) blast
  then show "(of_int n :: rat) < 2 powi (bitlen n)"
    using powi_nat [of "bitlen n"] pos by simp
qed

lemma flog2_bounds:
  assumes "0 < q"
  shows "2 powi (flog2 q) \<le> q" "q < 2 powi (flog2 q + 1)"
proof -
  obtain n d where nd: "quotient_of q = (n, d)" by (cases "quotient_of q")
  then have q: "q = of_int n / of_int d" and d: "0 < d"
    by (rule quotient_of_div, rule quotient_of_denom_pos)
  with assms have n: "0 < n"
    by (simp add: zero_less_divide_iff)
  let ?k = "bitlen n - bitlen d"
  have lo: "2 powi (?k - 1) < q"
  proof -
    have "(2::rat) powi (?k - 1) = 2 powi (bitlen n - 1) / 2 powi (bitlen d)"
      by (simp flip: powi_minus add: algebra_simps)
    also have "\<dots> < of_int n / of_int d"
      using bitlen_powi [OF n] bitlen_powi [OF d] d n
      by (intro frac_less2) auto
    finally show ?thesis using q by simp
  qed
  have hi: "q < 2 powi (?k + 1)"
  proof -
    have "of_int n / of_int d < (2::rat) powi (bitlen n) / 2 powi (bitlen d - 1)"
      using bitlen_powi [OF n] bitlen_powi [OF d] d n
      by (intro frac_less) auto
    also have "\<dots> = 2 powi (?k + 1)"
      by (simp flip: powi_minus add: algebra_simps)
    finally show ?thesis using q by simp
  qed
  show "2 powi (flog2 q) \<le> q" "q < 2 powi (flog2 q + 1)"
    using lo hi by (auto simp: flog2_def nd Let_def)
qed

lemma flog2_unique:
  assumes "2 powi a \<le> q" "q < 2 powi (a + 1)"
  shows "flog2 q = a"
proof -
  have "0 < q" using assms(1) powi_pos [of a] by linarith
  note b = flog2_bounds [OF this]
  have "(2::rat) powi a < 2 powi (flog2 q + 1)" using assms b by linarith
  moreover have "(2::rat) powi (flog2 q) < 2 powi (a + 1)" using assms b by linarith
  ultimately show ?thesis by (simp add: powi_less_iff)
qed

lemma flog2_mono:
  assumes "0 < p" "p \<le> q"
  shows "flog2 p \<le> flog2 q"
proof -
  have "(2::rat) powi (flog2 p) < 2 powi (flog2 q + 1)"
    using flog2_bounds(1) [OF assms(1)] flog2_bounds(2) [of q] assms by linarith
  then show ?thesis by (simp add: powi_less_iff)
qed

lemma bexp_mono: "0 < p \<Longrightarrow> p \<le> q \<Longrightarrow> bexp p \<le> bexp q"
  using flog2_mono [of p q] by (simp add: bexp_def)

subsection \<open>Rounding is monotone and exact on floats\<close>

definition mant :: "rat \<Rightarrow> rat" where
  "mant q = q / 2 powi (bexp q)"

lemma rndq_pos: "0 < q \<Longrightarrow> rndq q = of_int (rhe (mant q)) * 2 powi (bexp q)"
  by (simp add: rndq_def mant_def Let_def)

lemma rndq_0 [simp]: "rndq 0 = 0"
  by (simp add: rndq_def)

lemma rndq_minus: "rndq (- q) = - rndq q"
  by (simp add: rndq_def Let_def sgn_minus)

lemma mant_less:
  assumes "0 < q" shows "mant q < 2 ^ 53"
proof -
  have "q < 2 powi (flog2 q + 1)" by (rule flog2_bounds(2) [OF assms])
  also have "\<dots> \<le> 2 powi (bexp q + 53)" by (simp add: powi_le_iff bexp_def)
  also have "\<dots> = 2 ^ 53 * 2 powi (bexp q)" by (simp add: powi_split)
  finally show ?thesis by (simp add: mant_def pos_divide_less_eq)
qed

lemma mant_ge:
  assumes "0 < q" "- 1074 < bexp q" shows "2 ^ 52 \<le> mant q"
proof -
  have "(2::rat) ^ 52 * 2 powi (bexp q) = 2 powi (bexp q + 52)" by (simp add: powi_split)
  also have "\<dots> = 2 powi (flog2 q)" using assms(2) by (simp add: bexp_def)
  also have "\<dots> \<le> q" by (rule flog2_bounds(1) [OF assms(1)])
  finally show ?thesis by (simp add: mant_def pos_le_divide_eq)
qed

lemma rhe_le_pow: "x \<le> 2 ^ n \<Longrightarrow> rhe x \<le> 2 ^ n"
  using rhe_mono [of x "of_int (2 ^ n)"] rhe_of_int [of "2 ^ n"] by simp

lemma rhe_ge_pow: "2 ^ n \<le> x \<Longrightarrow> 2 ^ n \<le> rhe x"
  using rhe_mono [of "of_int (2 ^ n)" x] rhe_of_int [of "2 ^ n"] by simp

lemma rndq_nonneg: "0 \<le> q \<Longrightarrow> 0 \<le> rndq q"
proof (cases "q = 0")
  case False
  assume "0 \<le> q"
  with False have q: "0 < q" by simp
  have "0 \<le> rhe (mant q)" using q by (intro rhe_nonneg) (simp add: mant_def)
  with q show ?thesis by (simp add: rndq_pos)
qed simp

lemma rndq_mono_pos:
  assumes "0 < p" "p \<le> q"
  shows "rndq p \<le> rndq q"
proof -
  have q: "0 < q" using assms by simp
  have le: "bexp p \<le> bexp q" using assms by (rule bexp_mono)
  show ?thesis
  proof (cases "bexp p = bexp q")
    case True
    have "mant p \<le> mant q" using assms(2) True by (simp add: mant_def divide_right_mono)
    then have "rhe (mant p) \<le> rhe (mant q)" by (rule rhe_mono)
    then show ?thesis using True by (simp add: rndq_pos assms(1) q mult_right_mono)
  next
    case False
    with le have lt: "bexp p + 1 \<le> bexp q" by simp
    have "rhe (mant p) \<le> 2 ^ 53" using mant_less [OF assms(1)] by (intro rhe_le_pow) simp
    then have "(of_int (rhe (mant p)) :: rat) \<le> of_int (2 ^ 53)"
      by (intro of_int_le_iff [THEN iffD2])
    then have "rndq p \<le> 2 ^ 53 * 2 powi (bexp p)"
      by (simp add: rndq_pos assms(1) mult_right_mono)
    also have "\<dots> = 2 ^ 52 * 2 powi (bexp p + 1)" by (simp add: powi_split)
    also have "\<dots> \<le> 2 ^ 52 * 2 powi (bexp q)" using lt by (simp add: powi_le_iff)
    also have "\<dots> \<le> of_int (rhe (mant q)) * 2 powi (bexp q)"
    proof (rule mult_right_mono)
      have "- 1074 < bexp q" using lt by (simp add: bexp_def)
      then have "2 ^ 52 \<le> rhe (mant q)" using mant_ge [OF q] by (intro rhe_ge_pow) simp
      then have "(of_int (2 ^ 52) :: rat) \<le> of_int (rhe (mant q))"
        by (intro of_int_le_iff [THEN iffD2])
      then show "2 ^ 52 \<le> (of_int (rhe (mant q)) :: rat)" by simp
    qed simp
    finally show ?thesis by (simp add: rndq_pos q)
  qed
qed

lemma rndq_mono: "p \<le> q \<Longrightarrow> rndq p \<le> rndq q"
proof -
  assume le: "p \<le> q"
  consider "0 < p" | "q < 0" | "p \<le> 0" "0 \<le> q" by linarith
  then show ?thesis
  proof cases
    case 1
    then show ?thesis using le by (rule rndq_mono_pos)
  next
    case 2
    then have "rndq (- q) \<le> rndq (- p)" using le by (intro rndq_mono_pos) auto
    then show ?thesis by (simp add: rndq_minus)
  next
    case 3
    then have "0 \<le> rndq (- p)" "0 \<le> rndq q" by (auto intro!: rndq_nonneg)
    then show ?thesis by (simp add: rndq_minus)
  qed
qed


lemma rndq_exact_pos:
  assumes m: "0 < m" "m \<le> 2 ^ 53" and e: "- 1074 \<le> e" and x: "x = of_int m * 2 powi e"
  shows "rndq x = x"
proof -
  have xp: "0 < x" using m x by simp
  have "(of_int m :: rat) \<le> of_int (2 ^ 53)" by (intro of_int_le_iff [THEN iffD2] m(2))
  then have "x \<le> 2 ^ 53 * 2 powi e"
    unfolding x by (intro mult_right_mono) simp_all
  also have "\<dots> = 2 powi (e + 53)" by (simp add: powi_split)
  finally have up: "x \<le> 2 powi (e + 53)" .
  have "\<exists>z. mant x = of_int z"
  proof (cases "bexp x \<le> e")
    case True
    then have "mant x = of_int m * 2 powi (e - bexp x)"
      by (simp add: mant_def x powi_minus)
    also have "\<dots> = of_int (m * 2 ^ nat (e - bexp x))"
      using True by (simp add: powi_nat)
    finally show ?thesis by blast
  next
    case False
    with e have fl: "bexp x = flog2 x - 52" by (auto simp: bexp_def)
    have "(2::rat) powi (flog2 x) \<le> 2 powi (e + 53)"
      using up flog2_bounds(1) [OF xp] by linarith
    with False fl have eq: "flog2 x = e + 53" by (simp add: powi_le_iff)
    then have "x = 2 powi (e + 53)" using up flog2_bounds(1) [OF xp] by simp
    moreover have "bexp x = e + 1" using fl eq by simp
    ultimately have "mant x = 2 powi (e + 53) / 2 powi (e + 1)" unfolding mant_def by (rule arg_cong2)
    also have "\<dots> = 2 powi 52" by (simp flip: powi_minus)
    also have "\<dots> = of_int (2 ^ 52)" by simp
    finally show ?thesis by blast
  qed
  then obtain z where z: "mant x = of_int z" ..
  have "rndq x = mant x * 2 powi (bexp x)"
    unfolding rndq_pos [OF xp] z by simp
  then show ?thesis by (simp add: mant_def)
qed

lemma rndq_exact:
  assumes "\<bar>m\<bar> \<le> 2 ^ 53" "- 1074 \<le> e"
  shows "rndq (of_int m * 2 powi e) = of_int m * 2 powi e"
proof -
  consider "m = 0" | "0 < m" | "m < 0" by linarith
  then show ?thesis
  proof cases
    case 2
    then show ?thesis using assms by (intro rndq_exact_pos [of m e]) auto
  next
    case 3
    have "rndq (of_int (- m) * 2 powi e) = of_int (- m) * 2 powi e"
      using 3 assms by (intro rndq_exact_pos [of "- m" e]) auto
    then show ?thesis using rndq_minus [of "of_int m * 2 powi e"] by simp
  qed simp
qed

lemma rndq_form_pos:
  assumes "0 < q"
  shows "\<exists>m e. rndq q = of_int m * 2 powi e \<and> \<bar>m\<bar> \<le> 2 ^ 53 \<and> - 1074 \<le> e"
proof (intro exI conjI)
  show "rndq q = of_int (rhe (mant q)) * 2 powi (bexp q)" using assms by (rule rndq_pos)
  have "rhe (mant q) \<le> 2 ^ 53" using mant_less [OF assms] by (intro rhe_le_pow) simp
  moreover have "0 \<le> rhe (mant q)" using assms by (intro rhe_nonneg) (simp add: mant_def)
  ultimately show "\<bar>rhe (mant q)\<bar> \<le> 2 ^ 53" by simp
  show "- 1074 \<le> bexp q" by (simp add: bexp_def)
qed

lemma rndq_form: "\<exists>m e. rndq q = of_int m * 2 powi e \<and> \<bar>m\<bar> \<le> 2 ^ 53 \<and> - 1074 \<le> e"
proof -
  consider "q = 0" | "0 < q" | "q < 0" by linarith
  then show ?thesis
  proof cases
    case 1
    then have "rndq q = of_int 0 * 2 powi 0" by simp
    then show ?thesis by (intro exI [of _ 0] exI [of _ 0]) simp
  next
    case 2
    then show ?thesis by (rule rndq_form_pos)
  next
    case 3
    then obtain m e where "rndq (- q) = of_int m * 2 powi e" "\<bar>m\<bar> \<le> 2 ^ 53" "- 1074 \<le> e"
      using rndq_form_pos [of "- q"] by auto
    then show ?thesis
      by (intro exI [of _ "- m"] exI [of _ e]) (simp add: rndq_minus minus_equation_iff)
  qed
qed

lemma rndq_idem [simp]: "rndq (rndq q) = rndq q"
  using rndq_form [of q] rndq_exact by metis

subsection \<open>Floats as a subset of the rationals\<close>

lemma rnd_Fin_iff: "rnd q = Fin r \<longleftrightarrow> rndq q = r \<and> \<bar>r\<bar> < 2 ^ 1024"
  by (auto simp: rnd_def Let_def)

lemma rnd_not_NaN [simp]: "rnd q \<noteq> NaN"
  by (simp add: rnd_def Let_def)

lemma f64_iff: "f64 q \<longleftrightarrow> rndq q = q \<and> \<bar>q\<bar> < 2 ^ 1024"
  by (auto simp: f64_def rnd_Fin_iff)

lemma f64_rnd: "rnd q = Fin r \<Longrightarrow> f64 r"
  by (auto simp: rnd_Fin_iff f64_iff)

lemma f64I:
  assumes "\<bar>m\<bar> \<le> 2 ^ 53" "- 1074 \<le> e" "\<bar>of_int m * 2 powi e :: rat\<bar> < 2 ^ 1024"
  shows "f64 (of_int m * 2 powi e)"
  using assms by (simp add: f64_iff rndq_exact)

lemma f64_of_int: "\<bar>m\<bar> \<le> 2 ^ 53 \<Longrightarrow> f64 (of_int m)"
proof -
  assume m: "\<bar>m\<bar> \<le> 2 ^ 53"
  then have "(of_int \<bar>m\<bar> :: rat) \<le> of_int (2 ^ 53)" by (intro of_int_le_iff [THEN iffD2])
  then have "\<bar>of_int m :: rat\<bar> \<le> 2 ^ 53" by simp
  also have "(2::rat) ^ 53 < 2 ^ 1024" by (rule power_strict_increasing) simp_all
  finally have "f64 (of_int m * 2 powi 0)" using m by (intro f64I) auto
  then show ?thesis by simp
qed

lemma f64_0 [simp, f64_simps]: "f64 0"
  using f64_of_int [of 0] by simp

lemma f64_1 [simp, f64_simps]: "f64 1"
  using f64_of_int [of 1] by simp

lemma f64_minus: "f64 (- q) \<longleftrightarrow> f64 q"
  by (simp add: f64_iff rndq_minus)

lemma f64_numeral: "numeral n \<le> (2 ^ 53 :: int) \<Longrightarrow> f64 (numeral n)"
  using f64_of_int [of "numeral n"] by simp

lemma rnd_f64 [simp]: "f64 q \<Longrightarrow> rnd q = Fin q"
  by (simp add: f64_def)

lemma rnd_0 [simp]: "rnd 0 = Fin 0"
  by simp

lemma rnd_1 [simp]: "rnd 1 = Fin 1"
  by simp

text \<open>The rule behind every bound: rounding keeps a value between two floats.\<close>

lemma rnd_between:
  assumes "f64 lo" "f64 hi" "lo \<le> q" "q \<le> hi"
  shows "\<exists>r. rnd q = Fin r \<and> lo \<le> r \<and> r \<le> hi \<and> f64 r"
proof -
  have "lo \<le> rndq q" "rndq q \<le> hi"
    using rndq_mono [OF assms(3)] rndq_mono [OF assms(4)] assms(1,2) by (simp_all add: f64_iff)
  moreover have "\<bar>rndq q\<bar> < 2 ^ 1024"
    using calculation assms(1,2) by (auto simp: f64_iff abs_less_iff)
  ultimately show ?thesis
    by (auto simp: rnd_Fin_iff f64_iff)
qed

lemma rnd_unit:
  assumes "0 \<le> q" "q \<le> 1"
  shows "\<exists>r. rnd q = Fin r \<and> 0 \<le> r \<and> r \<le> 1 \<and> f64 r"
  using rnd_between [of 0 1 q] assms by simp

lemma rnd_mono_Fin: "rnd p = Fin a \<Longrightarrow> rnd q = Fin b \<Longrightarrow> p \<le> q \<Longrightarrow> a \<le> b"
  using rndq_mono [of p q] by (auto simp: rnd_Fin_iff)

lemma rnd_nonneg: "0 \<le> q \<Longrightarrow> rnd q = PInf \<or> (\<exists>r. rnd q = Fin r \<and> 0 \<le> r \<and> f64 r)"
  using rndq_nonneg [of q] by (auto simp: rnd_def Let_def f64_iff)

lemma f64_half [simp, f64_simps]: "f64 (1 / 2)"
proof -
  have "(2::rat) powi (- 1) = 1 / 2" by (simp add: power_int_minus)
  moreover have "f64 (of_int 1 * 2 powi (- 1))"
    by (rule f64I) (simp_all add: power_int_minus)
  ultimately show ?thesis by simp
qed

lemma f64_below_one:
  assumes "f64 t" "t < 1"
  shows "2 powi (- 53) \<le> 1 - t"
proof (cases "t < 1 / 2")
  case True
  have "(2::rat) powi (- 53) \<le> 2 powi (- 1)" by (simp only: powi_le_iff)
  with True show ?thesis by (simp add: power_int_minus)
next
  case False
  then have t: "0 < t" by linarith
  have "flog2 t = - 1" using False assms(2) by (intro flog2_unique) (auto simp: power_int_minus)
  then have b: "bexp t = - 53" by (simp add: bexp_def)
  have eq: "t = of_int (rhe (mant t)) * 2 powi (- 53)"
    using assms(1) rndq_pos [OF t] b by (simp add: f64_iff)
  have "of_int (rhe (mant t)) * (2::rat) powi (- 53) < 2 ^ 53 * 2 powi (- 53)"
    using assms(2) eq by (simp add: power_int_minus)
  then have "(of_int (rhe (mant t)) :: rat) < of_int (2 ^ 53)"
    by (simp add: mult_less_cancel_right)
  then have "rhe (mant t) \<le> 2 ^ 53 - 1"
    by (simp only: of_int_less_iff)
  then have "(of_int (rhe (mant t)) :: rat) \<le> of_int (2 ^ 53 - 1)"
    by (intro of_int_le_iff [THEN iffD2])
  then have "t \<le> (2 ^ 53 - 1) * 2 powi (- 53)"
    by (subst eq) (simp add: mult_right_mono)
  then show ?thesis by (simp add: power_int_minus)
qed

lemma f64_tiny: "f64 (2 powi (- 53))"
proof -
  have "f64 (of_int 1 * 2 powi (- 53))"
    by (rule f64I) (simp_all add: power_int_minus)
  then show ?thesis by simp
qed

subsection \<open>Consequences for the operations\<close>

lemma fsub_Fin [simp]: "fsub (Fin a) (Fin b) = rnd (a - b)"
  by (simp add: fsub_def)

lemma isfinite_iff: "isfinite x \<longleftrightarrow> (\<exists>q. x = Fin q)"
  by (cases x) auto

lemma int_div_unit:
  assumes "0 \<le> a" "a \<le> b" "b \<noteq> 0"
  shows "\<exists>r. int_div a b = Inr (Fin r) \<and> 0 \<le> r \<and> r \<le> 1 \<and> f64 r"
proof -
  have "0 \<le> (of_int a / of_int b :: rat)" "(of_int a / of_int b :: rat) \<le> 1"
    using assms by (auto simp: divide_le_eq_1)
  then obtain r where "rnd (of_int a / of_int b) = Fin r" "0 \<le> r" "r \<le> 1" "f64 r"
    using rnd_unit by blast
  then show ?thesis using assms(3) by (simp add: int_div_def)
qed

lemma int_div_wf:
  assumes "int_div a b = Inr x"
  shows "\<exists>r. x = Fin r \<and> f64 r"
proof -
  from assms obtain r where "rnd (of_int a / of_int b) = Fin r" "x = Fin r"
    by (auto simp: int_div_def split: if_splits pyfloat.splits)
  then show ?thesis using f64_rnd by blast
qed

lemma wf_rnd [simp]: "wf_float (rnd q)"
  by (cases "rnd q") (auto dest: f64_rnd)

lemma one_minus_unit:
  assumes "0 \<le> a" "a \<le> 1"
  shows "\<exists>r. fsub (Fin 1) (Fin a) = Fin r \<and> 0 \<le> r \<and> r \<le> 1 \<and> f64 r"
  using rnd_unit [of "1 - a"] assms by simp

lemma one_minus_pos:
  assumes "f64 t" "0 \<le> t" "t < 1"
  shows "\<exists>r. fsub (Fin 1) (Fin t) = Fin r \<and> 2 powi (- 53) \<le> r \<and> r \<le> 1 \<and> f64 r"
  using rnd_between [of "2 powi (- 53)" 1 "1 - t"] f64_below_one [of t] f64_tiny assms by simp

lemma float_of_int_huge:
  assumes "2 ^ 1024 \<le> n"
  shows "float_of_int n = Inl (OverflowError ''int too large to convert to float'')"
proof -
  have "rndq (2 ^ 1024) = (2 ^ 1024 :: rat)" using rndq_exact [of 1 1024] by (simp add: power_int_def)
  moreover have "rat_of_int (2 ^ 1024) \<le> rat_of_int n" using assms by (rule of_int_le_iff [THEN iffD2])
  ultimately have "2 ^ 1024 \<le> rndq (rat_of_int n)"
    using rndq_mono [of "2 ^ 1024" "rat_of_int n"] by (simp only: of_int_power of_int_numeral)
  then have "rnd (rat_of_int n) = PInf" by (simp add: rnd_def Let_def)
  then show ?thesis by (simp add: float_of_int_def)
qed

end
