(* ===== verification/Json.thy ===== *)
theory Json
  imports Binary64
begin

section \<open>JSON values, canonical text and digests\<close>

text \<open>
  \<open>json\<close> is what the code calls a JSON-compatible value; a \<open>dict\<close> keeps its insertion
  order.  \<open>canonical_json\<close> is \<open>json.dumps\<close> with sorted keys, compact separators,
  \<open>ensure_ascii=False\<close> and \<open>allow_nan=False\<close> (lyte/domain/canonical.py,
  lyte\_engine/core.py, the forecast modules).  \<open>float_repr\<close> is \<open>repr(float)\<close>: the shortest
  decimal that reads back as the same float (a float zero prints as \<open>0.0\<close>; the sign of zero is
  not modelled).  \<open>dumps_ascii\<close> is the same with the defaults \<open>ensure_ascii\<close> and \<open>allow_nan\<close>.  Digests are \<open>hx (text)\<close>, where the parameter
  \<open>hx\<close> is \<open>sha256(text.encode()).hexdigest()\<close>; everything below holds for any \<open>hx\<close>, and
  theory Sha256 supplies SHA-256 itself.
\<close>

datatype json =
    JNull
  | JBool bool
  | JInt int
  | JFloat pyfloat
  | JStr string
  | JList "json list"
  | JObj "(string \<times> json) list"

fun is_jstr :: "json \<Rightarrow> bool" where
  "is_jstr (JStr _) = True"
| "is_jstr _ = False"

fun jget :: "json \<Rightarrow> string \<Rightarrow> json option" where
  "jget (JObj kvs) k = alookup kvs k"
| "jget _ k = None"

text \<open>\<open>d.get(k)\<close> of a dict: \<open>None\<close> is JSON null.\<close>

definition jget_null :: "json \<Rightarrow> string \<Rightarrow> json" where
  "jget_null j k = (case jget j k of None \<Rightarrow> JNull | Some v \<Rightarrow> v)"

definition jopt :: "string option \<Rightarrow> json" where
  "jopt s = (case s of None \<Rightarrow> JNull | Some t \<Rightarrow> JStr t)"

definition jstrs :: "string list \<Rightarrow> json" where
  "jstrs xs = JList (map JStr xs)"

subsection \<open>Python equality of decoded values\<close>

text \<open>
  \<open>==\<close> on dicts ignores the order of keys, and \<open>True == 1 == 1.0\<close>; NaN does not occur in
  values that have a canonical text.
\<close>

fun jnorm :: "json \<Rightarrow> json" where
  "jnorm (JBool b) = JInt (if b then 1 else 0)"
| "jnorm (JFloat (Fin q)) = (if q = of_int \<lfloor>q\<rfloor> then JInt \<lfloor>q\<rfloor> else JFloat (Fin q))"
| "jnorm (JList xs) = JList (map jnorm xs)"
| "jnorm (JObj kvs) = JObj (sort_key fst (map (\<lambda>kv. (fst kv, jnorm (snd kv))) kvs))"
| "jnorm j = j"

definition json_eq :: "json \<Rightarrow> json \<Rightarrow> bool" where
  "json_eq a b = (jnorm a = jnorm b)"

lemma json_eq_refl [simp]: "json_eq a a"
  by (simp add: json_eq_def)

lemma json_eq_sym: "json_eq a b \<Longrightarrow> json_eq b a"
  by (simp add: json_eq_def)

lemma json_eq_trans: "json_eq a b \<Longrightarrow> json_eq b c \<Longrightarrow> json_eq a c"
  by (simp add: json_eq_def)

lemma json_eq_JStr [simp]: "json_eq (JStr s) (JStr t) \<longleftrightarrow> s = t"
  by (simp add: json_eq_def)

subsection \<open>Numbers as text\<close>

definition ndigits :: "nat \<Rightarrow> int" where
  "ndigits n = int (length (show_nat n))"

definition flog10 :: "rat \<Rightarrow> int" where
  "flog10 q = (let (n, d) = quotient_of q; k = ndigits (nat n) - ndigits (nat d)
               in if q < 10 powi k then k - 1 else k)"

text \<open>
  The \<open>n\<close>-digit decimal nearest to \<open>q > 0\<close>, as its digits and the exponent of the first
  digit.
\<close>

definition dec_digits :: "rat \<Rightarrow> nat \<Rightarrow> nat \<times> int" where
  "dec_digits q n =
     (let k = flog10 q; m = nat (rhe (q / 10 powi (k + 1 - int n)))
      in if m = 10 ^ n then (10 ^ (n - 1), k + 1) else (m, k))"

definition dec_value :: "nat \<Rightarrow> nat \<times> int \<Rightarrow> rat" where
  "dec_value n mk = of_nat (fst mk) * 10 powi (snd mk + 1 - int n)"

definition format_repr :: "string \<Rightarrow> int \<Rightarrow> string" where
  "format_repr ds k =
     (let n = int (length ds) in
      if 0 \<le> k \<and> k < 16 then
        (if n \<le> k + 1 then ds @ replicate (nat (k + 1 - n)) (CHR ''0'') @ ''.0''
         else take (nat (k + 1)) ds @ ''.'' @ drop (nat (k + 1)) ds)
      else if - 4 \<le> k \<and> k < 0 then ''0.'' @ replicate (nat (- k - 1)) (CHR ''0'') @ ds
      else take 1 ds @ (if n = 1 then [] else ''.'' @ drop 1 ds) @ ''e'' @
           (if k < 0 then ''-'' else ''+'') @
           (if \<bar>k\<bar> < 10 then ''0'' else []) @ show_nat (nat \<bar>k\<bar>))"

text \<open>The first candidate text that reads back as \<open>q\<close>.\<close>

definition repr_reads_back :: "rat \<Rightarrow> nat \<Rightarrow> bool" where
  "repr_reads_back q n =
     (let mk = dec_digits q n
      in length (show_nat (fst mk)) = n \<and> rnd (dec_value n mk) = Fin q)"

definition repr_pos :: "rat \<Rightarrow> string option" where
  "repr_pos q =
     (case List.find (repr_reads_back q) [1..<18] of
        None \<Rightarrow> None
      | Some n \<Rightarrow> (let (m, k) = dec_digits q n in Some (format_repr (show_nat m) k)))"

definition float_repr :: "rat \<Rightarrow> string option" where
  "float_repr q =
     (if q = 0 then Some ''0.0''
      else if q < 0 then map_option (\<lambda>s. ''-'' @ s) (repr_pos (- q))
      else repr_pos q)"

subsection \<open>Canonical text\<close>

definition hex_digit :: "nat \<Rightarrow> char" where
  "hex_digit d = (if d < 10 then char_of (48 + d) else char_of (87 + d))"

definition unicode_escape :: "char \<Rightarrow> string" where
  "unicode_escape c =
     [CHR 0x5C, CHR ''u'', CHR ''0'', CHR ''0'', hex_digit (code c div 16), hex_digit (code c mod 16)]"

definition escape_char :: "char \<Rightarrow> string" where
  "escape_char c =
     (if c = CHR 0x22 then [CHR 0x5C, CHR 0x22]
      else if c = CHR 0x5C then [CHR 0x5C, CHR 0x5C]
      else if code c = 8 then [CHR 0x5C, CHR ''b'']
      else if code c = 12 then [CHR 0x5C, CHR ''f'']
      else if code c = 10 then [CHR 0x5C, CHR ''n'']
      else if code c = 13 then [CHR 0x5C, CHR ''r'']
      else if code c = 9 then [CHR 0x5C, CHR ''t'']
      else if code c < 32 then unicode_escape c
      else [c])"

text \<open>With \<open>ensure_ascii=True\<close>, the default, everything above \<open>~\<close> is escaped too.\<close>

definition escape_ascii :: "char \<Rightarrow> string" where
  "escape_ascii c = (if 126 < code c then unicode_escape c else escape_char c)"

definition quote_with :: "(char \<Rightarrow> string) \<Rightarrow> string \<Rightarrow> string" where
  "quote_with esc s = CHR 0x22 # concat (map esc s) @ [CHR 0x22]"

text \<open>The error for a float that JSON cannot carry, and the names \<open>json.dumps\<close> prints
  without \<open>allow_nan=False\<close>.\<close>

abbreviation nan_error :: exc where
  "nan_error \<equiv> ValueError ''Out of range float values are not JSON compliant''"

definition strict_float :: "pyfloat \<Rightarrow> string res" where
  "strict_float x =
     (case x of Fin q \<Rightarrow> (case float_repr q of None \<Rightarrow> Inl nan_error | Some s \<Rightarrow> Inr s)
      | _ \<Rightarrow> Inl nan_error)"

definition loose_float :: "pyfloat \<Rightarrow> string res" where
  "loose_float x =
     (case x of Fin q \<Rightarrow> strict_float x | PInf \<Rightarrow> Inr ''Infinity'' | NInf \<Rightarrow> Inr ''-Infinity''
      | NaN \<Rightarrow> Inr ''NaN'')"

text \<open>Compact text of a value, given how strings and floats are printed.\<close>

fun json_text :: "(string \<Rightarrow> string) \<Rightarrow> (pyfloat \<Rightarrow> string res) \<Rightarrow> json \<Rightarrow> string res" where
  "json_text qt ft JNull = Inr ''null''"
| "json_text qt ft (JBool b) = Inr (if b then ''true'' else ''false'')"
| "json_text qt ft (JInt i) = Inr (show_int i)"
| "json_text qt ft (JFloat x) = ft x"
| "json_text qt ft (JStr s) = Inr (qt s)"
| "json_text qt ft (JList xs) =
     rbind (rmap id (map (json_text qt ft) xs)) (\<lambda>ss. Inr (CHR ''['' # join '','' ss @ '']''))"
| "json_text qt ft (JObj kvs) =
     rbind (rmap id (map (\<lambda>kv. rbind (json_text qt ft (snd kv)) (\<lambda>s. Inr (qt (fst kv) @ '':'' @ s))) kvs))
           (\<lambda>ss. Inr (CHR ''{'' # join '','' ss @ ''}''))"

text \<open>\<open>sort_keys=True\<close>: every object with its keys in code-point order.\<close>

fun sort_keys :: "json \<Rightarrow> json" where
  "sort_keys (JList xs) = JList (map sort_keys xs)"
| "sort_keys (JObj kvs) = JObj (sort_key fst (map (\<lambda>kv. (fst kv, sort_keys (snd kv))) kvs))"
| "sort_keys j = j"

definition canonical_json :: "json \<Rightarrow> string res" where
  "canonical_json j = json_text (quote_with escape_char) strict_float (sort_keys j)"

definition dumps_ascii :: "json \<Rightarrow> string res" where
  "dumps_ascii j = json_text (quote_with escape_ascii) loose_float (sort_keys j)"

subsection \<open>Digests\<close>

definition sha256_json :: "(string \<Rightarrow> string) \<Rightarrow> json \<Rightarrow> string res" where
  "sha256_json hx j = rbind (canonical_json j) (\<lambda>s. Inr (hx s))"

text \<open>Two different texts with the same digest.\<close>

definition collision :: "(string \<Rightarrow> string) \<Rightarrow> string \<Rightarrow> string \<Rightarrow> bool" where
  "collision hx s t = (s \<noteq> t \<and> hx s = hx t)"

lemma hx_eq_iff: "hx s = hx t \<longleftrightarrow> s = t \<or> collision hx s t"
  by (auto simp: collision_def)

definition is_hex64 :: "string \<Rightarrow> bool" where
  "is_hex64 s = (length s = 64 \<and> list_all (\<lambda>c. is_digit c \<or> c \<in> set ''abcdef'') s)"

text \<open>
  What the code relies on of \<open>hashlib.sha256(\<dots>).hexdigest()\<close>: 64 lowercase hexadecimal
  characters.
\<close>

locale hex_digest =
  fixes hx :: "string \<Rightarrow> string"
  assumes hex64: "is_hex64 (hx s)"
begin

lemma length_hx [simp]: "length (hx s) = 64"
  using hex64 [of s] by (simp add: is_hex64_def)

lemma hx_nonempty [simp]: "hx s \<noteq> []"
  using length_hx [of s] by (metis list.size(3) zero_neq_numeral)

lemma sha256_json_hex: "sha256_json hx j = Inr d \<Longrightarrow> is_hex64 d"
  using hex64 by (auto simp: sha256_json_def res_simps)

end

lemma sha256_json_Inr: "sha256_json hx j = Inr d \<longleftrightarrow> (\<exists>s. canonical_json j = Inr s \<and> d = hx s)"
  by (auto simp: sha256_json_def res_simps)

lemma sha256_json_Inl: "sha256_json hx j = Inl e \<longleftrightarrow> canonical_json j = Inl e"
  by (auto simp: sha256_json_def res_simps)

end
