(* ===== verification/Values.thy ===== *)
theory Values
  imports Json "HOL-Library.Word"
begin

section \<open>UUIDs and timestamps\<close>

text \<open>
  The two standard-library value types the records carry.  A UUID is its 128 bits, printed as
  \<open>str(uuid)\<close> prints it.  A \<open>datetime\<close> is a number of microseconds since the epoch, read as
  UTC when it is aware; \<open>isoformat\_z\<close> is the function of lyte/domain/canonical.py.
\<close>

subsection \<open>UUIDs\<close>

type_synonym uuid = "128 word"

fun hex_digits :: "nat \<Rightarrow> nat \<Rightarrow> string" where
  "hex_digits 0 n = []"
| "hex_digits (Suc w) n = hex_digits w (n div 16) @ [hex_digit (n mod 16)]"

definition uuid_hex :: "uuid \<Rightarrow> string" where
  "uuid_hex u = hex_digits 32 (unat u)"

definition uuid_str :: "uuid \<Rightarrow> string" where
  "uuid_str u =
     (let h = uuid_hex u
      in take 8 h @ ''-'' @ take 4 (drop 8 h) @ ''-'' @ take 4 (drop 12 h) @ ''-'' @
         take 4 (drop 16 h) @ ''-'' @ drop 20 h)"

lemma length_hex_digits [simp]: "length (hex_digits w n) = w"
  by (induction w arbitrary: n) auto

lemma hex_digit_inj: "a < 16 \<Longrightarrow> b < 16 \<Longrightarrow> hex_digit a = hex_digit b \<Longrightarrow> a = b"
proof -
  assume ab: "a < 16" "b < 16" and eq: "hex_digit a = hex_digit b"
  have code_hex: "of_char (hex_digit d) = (if d < 10 then 48 + d else 87 + d)" if "d < 16" for d
    using that by (simp add: hex_digit_def)
  from eq have "(of_char (hex_digit a) :: nat) = of_char (hex_digit b)" by simp
  with ab show "a = b" by (simp add: code_hex split: if_splits)
qed

lemma hex_digits_inj:
  "a < 16 ^ w \<Longrightarrow> b < 16 ^ w \<Longrightarrow> hex_digits w a = hex_digits w b \<Longrightarrow> a = b"
proof (induction w arbitrary: a b)
  case 0
  then show ?case by simp
next
  case (Suc w)
  then have "a div 16 = b div 16"
    by (intro Suc.IH) (auto simp: less_mult_imp_div_less mult.commute)
  moreover have "a mod 16 = b mod 16"
    using Suc.prems by (intro hex_digit_inj) auto
  ultimately show ?case by (metis div_mult_mod_eq)
qed

lemma uuid_hex_inj: "uuid_hex a = uuid_hex b \<Longrightarrow> a = b"
proof -
  assume eq: "uuid_hex a = uuid_hex b"
  have "unat u < 16 ^ 32" for u :: uuid
    using unsigned_less [where ?'a = nat, of u] by simp
  with eq have "unat a = unat b"
    unfolding uuid_hex_def by (intro hex_digits_inj [of _ 32]) auto
  then show "a = b" by (simp add: word_unat_eq_iff)
qed

lemma uuid_str_inj [simp]: "uuid_str a = uuid_str b \<longleftrightarrow> a = b"
proof
  assume eq: "uuid_str a = uuid_str b"
  define pick where "pick s = take 8 s @ take 4 (drop 9 s) @ take 4 (drop 14 s) @
    take 4 (drop 19 s) @ drop 24 s" for s :: string
  have "pick (uuid_str u) = uuid_hex u" for u
  proof -
    have len: "length (uuid_hex u) = 32" by (simp add: uuid_hex_def)
    let ?h = "uuid_hex u"
    have "take 8 ?h @ take 4 (drop 8 ?h) @ take 4 (drop 12 ?h) @ take 4 (drop 16 ?h) @ drop 20 ?h = ?h"
      using append_take_drop_id [of 8 ?h] append_take_drop_id [of 4 "drop 8 ?h"]
        append_take_drop_id [of 4 "drop 12 ?h"] append_take_drop_id [of 4 "drop 16 ?h"]
      by simp
    then show ?thesis by (simp add: pick_def uuid_str_def Let_def len)
  qed
  with eq have "uuid_hex a = uuid_hex b" by metis
  then show "a = b" by (rule uuid_hex_inj)
qed simp

text \<open>
  \<open>uuid.UUID(text)\<close>: the prefixes \<open>urn:\<close> and \<open>uuid:\<close>, braces and hyphens are dropped, then
  32 characters must be left that \<open>int(\<dots>, 16)\<close> reads.
\<close>

fun py_replace_fuel :: "nat \<Rightarrow> string \<Rightarrow> string \<Rightarrow> string \<Rightarrow> string" where
  "py_replace_fuel 0 old new s = s"
| "py_replace_fuel (Suc n) old new s =
     (case s of [] \<Rightarrow> []
      | c # cs \<Rightarrow> if take (length old) s = old
                  then new @ py_replace_fuel n old new (drop (length old) s)
                  else c # py_replace_fuel n old new cs)"

definition py_replace :: "string \<Rightarrow> string \<Rightarrow> string \<Rightarrow> string" where
  "py_replace old new s = py_replace_fuel (length s) old new s"

definition hex_value :: "char \<Rightarrow> nat option" where
  "hex_value c = (if is_digit c then Some (code c - 48)
                  else if 97 \<le> code c \<and> code c \<le> 102 then Some (code c - 87)
                  else if 65 \<le> code c \<and> code c \<le> 70 then Some (code c - 55) else None)"

text \<open>Digits with single underscores between them, as \<open>int\<close> accepts them.\<close>

fun read_hex :: "nat \<Rightarrow> bool \<Rightarrow> string \<Rightarrow> nat option" where
  "read_hex acc ok [] = (if ok then Some acc else None)"
| "read_hex acc ok (c # cs) =
     (if c = CHR ''_'' then (if ok then read_hex acc False cs else None)
      else case hex_value c of None \<Rightarrow> None | Some d \<Rightarrow> read_hex (16 * acc + d) True cs)"

definition py_int16 :: "string \<Rightarrow> int option" where
  "py_int16 s =
     (let t = strip s;
          neg = (take 1 t = ''-'');
          u = (if take 1 t = ''-'' \<or> take 1 t = ''+'' then drop 1 t else t);
          v = (if take 2 u = ''0x'' \<or> take 2 u = ''0X''
               then (if take 1 (drop 2 u) = ''_'' then drop 3 u else drop 2 u) else u)
      in case read_hex 0 False v of None \<Rightarrow> None
         | Some n \<Rightarrow> Some (if neg then - int n else int n))"

definition uuid_parse :: "string \<Rightarrow> uuid res" where
  "uuid_parse s =
     (let brace = (\<lambda>c. c = CHR ''{'' \<or> c = CHR ''}'');
          a = py_replace ''uuid:'' '''' (py_replace ''urn:'' '''' s);
          b = rev (dropWhile brace (rev (dropWhile brace a)));
          h = py_replace ''-'' '''' b
      in if length h \<noteq> 32 then Inl (ValueError ''badly formed hexadecimal UUID string'')
         else case py_int16 h of
                None \<Rightarrow> Inl (ValueError ''invalid literal for int() with base 16'')
              | Some i \<Rightarrow> if 0 \<le> i then Inr (word_of_int i)
                          else Inl (ValueError ''int is out of range (need a 128-bit value)''))"

subsection \<open>Timestamps\<close>

datatype datetime = Aware int | Naive int

fun is_aware :: "datetime \<Rightarrow> bool" where
  "is_aware (Aware _) = True"
| "is_aware (Naive _) = False"

fun micros :: "datetime \<Rightarrow> int" where
  "micros (Aware t) = t"
| "micros (Naive t) = t"

definition pad_left :: "nat \<Rightarrow> string \<Rightarrow> string" where
  "pad_left w s = replicate (w - length s) (CHR ''0'') @ s"

text \<open>The proleptic Gregorian date of a day number (day 0 is 1970-01-01).\<close>

definition civil :: "int \<Rightarrow> int \<times> int \<times> int" where
  "civil day =
     (let z = day + 719468; era = z div 146097; doe = z mod 146097;
          yoe = (doe - doe div 1460 + doe div 36524 - doe div 146096) div 365;
          doy = doe - (365 * yoe + yoe div 4 - yoe div 100);
          mp = (5 * doy + 2) div 153;
          m = (if mp < 10 then mp + 3 else mp - 9)
      in (yoe + era * 400 + (if m \<le> 2 then 1 else 0), m, doy - (153 * mp + 2) div 5 + 1))"

definition iso_utc :: "int \<Rightarrow> string" where
  "iso_utc t =
     (let us = t mod 1000000; s = t div 1000000; sod = s mod 86400;
          (y, m, d) = civil (s div 86400)
      in pad_left 4 (show_int y) @ ''-'' @ pad_left 2 (show_int m) @ ''-'' @
         pad_left 2 (show_int d) @ ''T'' @ pad_left 2 (show_int (sod div 3600)) @ '':'' @
         pad_left 2 (show_int (sod div 60 mod 60)) @ '':'' @ pad_left 2 (show_int (sod mod 60)) @
         (if us = 0 then [] else ''.'' @ pad_left 6 (show_int us)) @ ''Z'')"

fun isoformat_z :: "datetime \<Rightarrow> string res" where
  "isoformat_z (Aware t) = Inr (iso_utc t)"
| "isoformat_z (Naive t) = Inl (ValueError ''timestamps must be timezone-aware'')"

definition iso_opt :: "datetime option \<Rightarrow> json res" where
  "iso_opt d = (case d of None \<Rightarrow> Inr JNull | Some t \<Rightarrow> rbind (isoformat_z t) (\<lambda>s. Inr (JStr s)))"

lemma isoformat_z_aware: "isoformat_z d = Inr s \<Longrightarrow> is_aware d"
  by (cases d) auto

lemma isoformat_z_Inr_iff: "(\<exists>s. isoformat_z d = Inr s) \<longleftrightarrow> is_aware d"
  by (cases d) auto

lemma iso_opt_Inr_iff: "(\<exists>j. iso_opt d = Inr j) \<longleftrightarrow> (\<forall>t. d = Some t \<longrightarrow> is_aware t)"
proof (cases d)
  case (Some t)
  then show ?thesis by (cases t) (auto simp: iso_opt_def)
qed (simp add: iso_opt_def)

end
