(* ===== verification/Canonical.thy ===== *)
theory Canonical
  imports Values "HOL-Library.Multiset"
begin

section \<open>Canonical text determines the value\<close>

text \<open>
  The digests of the receipts are digests of canonical text.  That a digest says anything about
  the value rests on the text being unambiguous: two values with the same text are equal up
  to the order of keys.  The locale \<open>json_encoder\<close> states what a printer of strings and
  floats must satisfy for that, and both encoders the program uses are instances.
\<close>

subsection \<open>Decimal text\<close>

definition of_digits :: "string \<Rightarrow> nat" where
  "of_digits ds = foldl (\<lambda>a c. 10 * a + (code c - 48)) 0 ds"

lemma code_char_of [simp]: "n < 256 \<Longrightarrow> code (char_of n) = n"
  by (simp add: code_def)

lemma is_digit_digit_char [simp]: "d < 10 \<Longrightarrow> is_digit (digit_char d)"
  by (simp add: is_digit_def digit_char_def)

lemma code_digit_char [simp]: "d < 10 \<Longrightarrow> code (digit_char d) = 48 + d"
  by (simp add: digit_char_def)

lemma of_digits_snoc [simp]: "of_digits (ds @ [c]) = 10 * of_digits ds + (code c - 48)"
  by (simp add: of_digits_def)

lemma of_digits_Nil [simp]: "of_digits [] = 0"
  by (simp add: of_digits_def)

lemma of_digits_show_nat [simp]: "of_digits (show_nat n) = n"
proof (induction n rule: show_nat.induct)
  case (1 n)
  have single: "of_digits [c] = code c - 48" for c
    using of_digits_snoc [of "[]" c] by simp
  show ?case
    using 1 by (subst show_nat.simps) (auto simp: single)
qed

lemma show_nat_digits [simp]: "list_all is_digit (show_nat n)"
proof (induction n rule: show_nat.induct)
  case (1 n)
  then show ?case by (subst show_nat.simps) auto
qed

lemma show_nat_nonempty [simp]: "show_nat n \<noteq> []"
  by (subst show_nat.simps) simp

lemma show_nat_inj [simp]: "show_nat m = show_nat n \<longleftrightarrow> m = n"
  by (metis of_digits_show_nat)

lemma digit_not_minus: "\<not> is_digit (CHR ''-'')"
  by (simp add: is_digit_def code_def)

lemma hd_show_nat [simp]: "is_digit (hd (show_nat n))"
  using show_nat_digits [of n] show_nat_nonempty [of n] by (cases "show_nat n") auto

lemma show_int_inj [simp]: "show_int i = show_int j \<longleftrightarrow> i = j"
proof -
  have "show_nat n \<noteq> CHR ''-'' # s" for n s
    using hd_show_nat [of n] digit_not_minus by (metis list.sel(1))
  then show ?thesis
    by (auto simp: show_int_def dest!: sym [of "CHR ''-'' # _"])
qed

lemma of_digits_zeros_left: "of_digits (replicate n (CHR ''0'') @ ds) = of_digits ds"
proof -
  have "foldl (\<lambda>a c. 10 * a + (code c - 48)) 0 (replicate n (CHR ''0'')) = (0::nat)"
    by (induction n) (simp_all add: code_def)
  then show ?thesis by (simp add: of_digits_def)
qed

lemma of_digits_zeros_right: "of_digits (ds @ replicate n (CHR ''0'')) = of_digits ds * 10 ^ n"
proof (induction n)
  case (Suc n)
  have eq: "ds @ replicate (Suc n) (CHR ''0'') = (ds @ replicate n (CHR ''0'')) @ [CHR ''0'']"
    by (simp add: replicate_append_same)
  have "of_digits (ds @ replicate (Suc n) (CHR ''0'')) = 10 * of_digits (ds @ replicate n (CHR ''0''))"
    unfolding eq of_digits_snoc by (simp add: code_def)
  with Suc show ?case by simp
qed simp

subsection \<open>Reading a float text\<close>

definition read_exp :: "string \<Rightarrow> int" where
  "read_exp e = (if take 1 e = ''-'' then - int (of_digits (drop 1 e)) else int (of_digits (drop 1 e)))"

definition read_dec :: "string \<Rightarrow> rat" where
  "read_dec s =
     (let m = takeWhile (\<lambda>c. c \<noteq> CHR ''e'') s; e = drop (Suc (length m)) s;
          ip = takeWhile (\<lambda>c. c \<noteq> CHR ''.'') m; fp = drop (Suc (length ip)) m
      in of_nat (of_digits (ip @ fp)) * 10 powi (read_exp e - int (length fp)))"

lemma digit_char_neqs:
  assumes "is_digit c"
  shows "c \<noteq> CHR ''e''" "c \<noteq> CHR ''.''" "c \<noteq> CHR ''-''" "c \<noteq> CHR ''+''"
  using assms by (auto simp: is_digit_def code_def)

lemma digits_no_e: "list_all is_digit ds \<Longrightarrow> \<forall>c \<in> set ds. c \<noteq> CHR ''e'' \<and> c \<noteq> CHR ''.''"
  by (auto simp: list_all_iff dest: digit_char_neqs)

lemma takeWhile_upto: "\<forall>c \<in> set m. P c \<Longrightarrow> \<not> P d \<Longrightarrow> takeWhile P (m @ d # e) = m"
  by (induction m) auto

text \<open>Reading \<open>ip\<close>, \<open>ip.fp\<close> and either with an exponent.\<close>

lemma read_dec_point:
  assumes "list_all is_digit ip" "list_all is_digit fp"
  shows "read_dec (ip @ ''.'' @ fp) = of_nat (of_digits (ip @ fp)) * 10 powi (- int (length fp))"
proof -
  let ?s = "ip @ ''.'' @ fp"
  have "\<forall>c \<in> set ?s. c \<noteq> CHR ''e''"
    using digits_no_e [OF assms(1)] digits_no_e [OF assms(2)] by auto
  then have m: "takeWhile (\<lambda>c. c \<noteq> CHR ''e'') ?s = ?s" by (simp add: takeWhile_eq_all_conv)
  have ip: "takeWhile (\<lambda>c. c \<noteq> CHR ''.'') ?s = ip"
    using digits_no_e [OF assms(1)] by (simp add: takeWhile_append2)
  show ?thesis unfolding read_dec_def m Let_def ip by (simp add: read_exp_def)
qed

lemma read_dec_exp:
  assumes "list_all is_digit ip" "list_all is_digit fp" "x = '''' \<and> fp = [] \<or> x = ''.''"
  shows "read_dec (ip @ x @ fp @ CHR ''e'' # e) =
         of_nat (of_digits (ip @ fp)) * 10 powi (read_exp e - int (length fp))"
proof -
  let ?m = "ip @ x @ fp"
  have "\<forall>c \<in> set ?m. c \<noteq> CHR ''e''"
    using digits_no_e [OF assms(1)] digits_no_e [OF assms(2)] assms(3) by fastforce
  then have m: "takeWhile (\<lambda>c. c \<noteq> CHR ''e'') (?m @ CHR ''e'' # e) = ?m"
    by (rule takeWhile_upto) simp
  have ip: "takeWhile (\<lambda>c. c \<noteq> CHR ''.'') ?m = ip"
  proof (cases "x = []")
    case True
    then show ?thesis using digits_no_e [OF assms(1)] assms(3) by (simp add: takeWhile_eq_all_conv)
  next
    case False
    then have x: "x = ''.''" using assms(3) by blast
    show ?thesis
      using takeWhile_upto [of ip "\<lambda>c. c \<noteq> CHR ''.''" "CHR ''.''" fp] digits_no_e [OF assms(1)]
      by (simp add: x)
  qed
  have fp: "drop (Suc (length ip)) ?m = fp" using assms(3) by auto
  have e: "drop (Suc (length ?m)) (?m @ CHR ''e'' # e) = e" by simp
  have whole: "ip @ x @ fp @ CHR ''e'' # e = ?m @ CHR ''e'' # e" by simp
  show ?thesis unfolding whole read_dec_def Let_def m e ip fp by (rule refl)
qed

lemma read_format_repr:
  assumes ds: "list_all is_digit ds" "ds \<noteq> []"
  shows "read_dec (format_repr ds k) = of_nat (of_digits ds) * 10 powi (k + 1 - int (length ds))"
proof -
  let ?n = "int (length ds)"
  have zeros: "list_all is_digit (replicate j (CHR ''0''))" for j
    by (induction j) (simp_all add: is_digit_def code_def)
  have parts: "list_all is_digit (take j ds)" "list_all is_digit (drop j ds)" for j
    using ds by (metis append_take_drop_id list_all_append)+
  consider (int) "0 \<le> k" "k < 16" "?n \<le> k + 1" | (point) "0 \<le> k" "k < 16" "k + 1 < ?n"
    | (small) "- 4 \<le> k" "k < 0" | (exp) "k < - 4 \<or> 16 \<le> k"
    by linarith
  then show ?thesis
  proof cases
    case int
    let ?z = "nat (k + 1 - ?n)"
    have "format_repr ds k = (ds @ replicate ?z (CHR ''0'')) @ ''.'' @ ''0''"
      using int by (simp add: format_repr_def)
    moreover have "list_all is_digit (ds @ replicate ?z (CHR ''0''))" "list_all is_digit ''0''"
      using ds zeros by (simp_all add: is_digit_def code_def)
    ultimately have "read_dec (format_repr ds k) =
        of_nat (of_digits ((ds @ replicate ?z (CHR ''0'')) @ ''0'')) * 10 powi (- 1)"
      using read_dec_point by fastforce
    also have "of_digits ((ds @ replicate ?z (CHR ''0'')) @ ''0'') = of_digits ds * 10 ^ ?z * 10"
      using of_digits_zeros_right [of ds ?z] of_digits_snoc [of "ds @ replicate ?z (CHR ''0'')" "CHR ''0''"]
      by (simp add: code_def)
    also have "of_nat (of_digits ds * 10 ^ ?z * 10) * 10 powi (- 1 :: int) =
        (of_nat (of_digits ds) * 10 ^ ?z :: rat)"
      by (simp add: power_int_minus)
    also have "(10::rat) ^ ?z = 10 powi (k + 1 - ?n)"
      using int by (simp add: power_int_def)
    finally show ?thesis by simp
  next
    case point
    let ?a = "nat (k + 1)"
    have "format_repr ds k = take ?a ds @ ''.'' @ drop ?a ds"
      using point by (simp add: format_repr_def)
    with read_dec_point [OF parts] have "read_dec (format_repr ds k) =
        of_nat (of_digits ds) * 10 powi (- int (length (drop ?a ds)))" by (simp only: append_take_drop_id)
    moreover have "- int (length (drop ?a ds)) = k + 1 - ?n" using point by simp
    ultimately show ?thesis by (simp only:)
  next
    case small
    let ?z = "replicate (nat (- k - 1)) (CHR ''0'')"
    have "format_repr ds k = ''0'' @ ''.'' @ (?z @ ds)"
      using small by (simp add: format_repr_def)
    moreover have "list_all is_digit ''0''" "list_all is_digit (?z @ ds)"
      using ds zeros by (simp_all add: is_digit_def code_def)
    ultimately have "read_dec (format_repr ds k) =
        of_nat (of_digits (''0'' @ ?z @ ds)) * 10 powi (- int (length (?z @ ds)))"
      using read_dec_point [of "''0''" "?z @ ds"] by simp
    moreover have "of_digits (''0'' @ ?z @ ds) = of_digits ds"
      using of_digits_zeros_left [of "Suc (nat (- k - 1))" ds] by simp
    moreover have "- int (length (?z @ ds)) = k + 1 - ?n" using small by simp
    ultimately show ?thesis by simp
  next
    case exp
    let ?x = "if ?n = 1 then [] else ''.''" and ?fp = "drop 1 ds"
    let ?e = "(if k < 0 then ''-'' else ''+'') @ (if \<bar>k\<bar> < 10 then ''0'' else []) @ show_nat (nat \<bar>k\<bar>)"
    have fr: "format_repr ds k = take 1 ds @ ?x @ ?fp @ CHR ''e'' # ?e"
      using exp by (auto simp: format_repr_def)
    have x: "?x = '''' \<and> ?fp = [] \<or> ?x = ''.''" by auto
    have dig: "of_digits (''0'' @ show_nat m) = m" for m
      using of_digits_zeros_left [of 1 "show_nat m"] by simp
    have "read_exp ?e = k"
      using dig by (auto simp: read_exp_def)
    with read_dec_exp [OF parts x, of 1 ?e] fr have "read_dec (format_repr ds k) =
        of_nat (of_digits ds) * 10 powi (k - int (length ?fp))"
      by (metis append_take_drop_id)
    moreover have "k - int (length ?fp) = k + 1 - ?n"
      using ds by (cases ds) auto
    ultimately show ?thesis by (simp only:)
  qed
qed

subsection \<open>Tokens\<close>

definition tokch :: "char \<Rightarrow> bool" where
  "tokch c = (is_alnum c \<or> c = CHR ''.'' \<or> c = CHR ''-'' \<or> c = CHR ''+'')"

definition int_token :: "string \<Rightarrow> bool" where
  "int_token s = list_all (\<lambda>c. is_digit c \<or> c = CHR ''-'') s"

definition float_token :: "string \<Rightarrow> bool" where
  "float_token s \<longleftrightarrow> s \<noteq> [] \<and> list_all tokch s \<and> \<not> int_token s \<and>
     s \<noteq> ''null'' \<and> s \<noteq> ''true'' \<and> s \<noteq> ''false''"

lemma tokch_digit [simp]: "is_digit c \<Longrightarrow> tokch c"
  by (simp add: tokch_def is_alnum_def)

lemma tokch_chars [simp]:
  "tokch (CHR ''e'')" "tokch (CHR ''.'')" "tokch (CHR ''-'')" "tokch (CHR ''+'')" "tokch (CHR ''0'')"
  by (simp_all add: tokch_def is_alnum_def is_lower_def is_digit_def code_def)

lemma tokch_digits: "list_all is_digit ds \<Longrightarrow> list_all tokch ds"
  by (auto simp: list_all_iff)

lemma show_int_token: "int_token (show_int i)" "show_int i \<noteq> []" "list_all tokch (show_int i)"
  using tokch_digits [OF show_nat_digits, of "nat (- i)"] tokch_digits [OF show_nat_digits, of "nat i"]
    show_nat_digits [of "nat (- i)"] show_nat_digits [of "nat i"]
  by (auto simp: show_int_def int_token_def list_all_iff)

lemma repr_pos_text:
  assumes "repr_pos q = Some s"
  shows "rnd (read_dec s) = Fin q" "s \<noteq> []" "is_digit (hd s)" "list_all tokch s" "\<not> int_token s"
proof -
  obtain n where found: "List.find (repr_reads_back q) [1..<18] = Some n"
    using assms unfolding repr_pos_def by (cases "List.find (repr_reads_back q) [1..<18]") simp_all
  then have n: "repr_reads_back q n" by (auto simp: find_Some_iff)
  obtain m k where mk: "dec_digits q n = (m, k)" by (cases "dec_digits q n")
  let ?ds = "show_nat m"
  have sk: "s = format_repr ?ds k" using assms found mk by (simp add: repr_pos_def)
  have len: "length ?ds = n" and val: "rnd (dec_value n (m, k)) = Fin q"
    using n by (simp_all add: repr_reads_back_def mk)
  show "rnd (read_dec s) = Fin q"
    using val len read_format_repr [of ?ds k] by (simp add: sk dec_value_def)
  have dot: "\<not> is_digit (CHR ''.'')" "\<not> is_digit (CHR ''e'')" and zero: "is_digit (CHR ''0'')"
    by (simp_all add: is_digit_def code_def)
  have ds: "list_all tokch ?ds" by (simp add: tokch_digits)
  have parts: "list_all tokch (take j ?ds)" "list_all tokch (drop j ?ds)" for j
    using ds by (metis append_take_drop_id list_all_append)+
  have nat_ds: "list_all tokch (show_nat j)" for j by (simp add: tokch_digits)
  have zeros: "list_all tokch (replicate j (CHR ''0''))" for j by (induction j) simp_all
  obtain d r where dr: "?ds = d # r" "is_digit d"
    using show_nat_nonempty [of m] hd_show_nat [of m] by (cases ?ds) auto
  show "s \<noteq> []" "is_digit (hd s)"
    using dr zero by (auto simp: sk format_repr_def Let_def hd_append take_Cons' split: if_splits)
  show "list_all tokch s"
    unfolding sk format_repr_def Let_def using ds parts nat_ds zeros by simp
  show "\<not> int_token s"
    unfolding sk format_repr_def Let_def int_token_def using dot by (simp add: list_all_iff)
qed

lemma float_repr_token:
  assumes "float_repr q = Some s"
  shows "float_token s"
proof -
  have notnum: "\<not> is_digit (CHR ''n'')" "\<not> is_digit (CHR ''t'')" "\<not> is_digit (CHR ''f'')" "\<not> is_digit (CHR ''.'')"
    by (simp_all add: is_digit_def code_def)
  show ?thesis
  proof (cases "q = 0")
    case True
    then have "s = ''0.0''" using assms by (simp add: float_repr_def)
    then show ?thesis using notnum by (simp add: float_token_def int_token_def)
  next
    case False
    show ?thesis
    proof (cases "q < 0")
      case True
      then obtain t where "repr_pos (- q) = Some t" "s = CHR ''-'' # t"
        using assms False by (auto simp: float_repr_def)
      then show ?thesis using repr_pos_text [of "- q" t] by (auto simp: float_token_def int_token_def)
    next
      case nonneg: False
      then have "repr_pos q = Some s" using assms False by (simp add: float_repr_def)
      then show ?thesis using repr_pos_text [of q s] notnum by (auto simp: float_token_def)
    qed
  qed
qed

lemma float_repr_inj:
  assumes "float_repr p = Some s" "float_repr q = Some s"
  shows "p = q"
proof -
  have zero: "rnd (read_dec ''0.0'') = Fin 0"
    using read_dec_point [of "''0''" "''0''"]
    by (simp add: is_digit_def code_def of_digits_def)
  have nz: "repr_pos q \<noteq> Some ''0.0''" if "q \<noteq> 0" for q
    using repr_pos_text(1) [of q "''0.0''"] zero that by auto
  have minus: "repr_pos q \<noteq> Some (CHR ''-'' # t)" for q t
    using repr_pos_text(3) digit_not_minus by force
  have inj: "repr_pos p = Some t \<Longrightarrow> repr_pos q = Some t \<Longrightarrow> p = q" for p q t
    using repr_pos_text(1) by (metis pyfloat.inject)
  show ?thesis
  proof (cases "p = 0 \<or> q = 0")
    case True
    moreover have "0 = r" if "float_repr r = Some ''0.0''" for r
      using that nz by (auto simp: float_repr_def split: if_splits)
    moreover have "float_repr 0 = Some ''0.0''" by (simp add: float_repr_def)
    ultimately show ?thesis using assms by (metis option.inject)
  next
    case False
    show ?thesis
    proof (cases "p < 0"; cases "q < 0")
      assume "p < 0" "q < 0"
      with assms False inj show ?thesis by (auto simp: float_repr_def) (metis minus_equation_iff)
    next
      assume "p < 0" "\<not> q < 0"
      with assms False minus show ?thesis by (auto simp: float_repr_def)
    next
      assume "\<not> p < 0" "q < 0"
      with assms False minus show ?thesis by (auto simp: float_repr_def)
    next
      assume "\<not> p < 0" "\<not> q < 0"
      with assms False inj show ?thesis by (auto simp: float_repr_def)
    qed
  qed
qed

subsection \<open>Joined texts\<close>

definition stops :: "string \<Rightarrow> bool" where
  "stops u = (u = [] \<or> hd u \<in> {CHR '','', CHR '']'', CHR ''}''})"

definition starts :: "string \<Rightarrow> bool" where
  "starts s = (s \<noteq> [] \<and> hd s \<notin> {CHR '','', CHR '']'', CHR ''}''})"

lemma not_tokch [simp]:
  "\<not> tokch (CHR '','')" "\<not> tokch (CHR '']'')" "\<not> tokch (CHR ''}'')" "\<not> tokch (CHR ''['')"
  "\<not> tokch (CHR ''{'')" "\<not> tokch (CHR 0x22)"
  by (simp_all add: tokch_def is_alnum_def is_lower_def is_upper_def is_digit_def code_def)

lemma join_tail: "join '','' (x # xs) = x @ concat (map (\<lambda>y. CHR '','' # y) xs)"
  by (induction xs arbitrary: x) auto

lemma tails_inj:
  assumes "\<And>s t u v. s \<in> set ss \<Longrightarrow> t \<in> set ts \<Longrightarrow> s @ u = t @ v \<Longrightarrow> stops u \<Longrightarrow> stops v \<Longrightarrow> s = t"
    and "c = CHR '']'' \<or> c = CHR ''}''"
    and "concat (map (\<lambda>y. CHR '','' # y) ss) @ c # u = concat (map (\<lambda>y. CHR '','' # y) ts) @ c # v"
  shows "ss = ts \<and> u = v"
  using assms
proof (induction ss arbitrary: ts)
  case Nil
  then show ?case by (cases ts) auto
next
  case (Cons s ss)
  show ?case
  proof (cases ts)
    case Nil
    then show ?thesis using Cons.prems by auto
  next
    case (Cons t ts')
    let ?r = "concat (map (\<lambda>y. CHR '','' # y) ss) @ c # u"
    let ?r' = "concat (map (\<lambda>y. CHR '','' # y) ts') @ c # v"
    have eq: "s @ ?r = t @ ?r'" using Cons.prems(3) Cons by simp
    have st: "stops (concat (map (\<lambda>y. CHR '','' # y) zs) @ c # w)" for zs w
      using Cons.prems(2) by (cases zs) (auto simp: stops_def)
    have "s = t" using Cons.prems(1) [OF _ _ eq st st] Cons by simp
    moreover from this have "?r = ?r'" using eq by simp
    then have "ss = ts' \<and> u = v"
      using Cons.IH [of ts'] Cons.prems(1,2) Cons by (metis list.set_intros(2))
    ultimately show ?thesis using Cons by simp
  qed
qed

lemma join_inj:
  assumes sd: "\<And>s t u v. s \<in> set ss \<Longrightarrow> t \<in> set ts \<Longrightarrow> s @ u = t @ v \<Longrightarrow> stops u \<Longrightarrow> stops v \<Longrightarrow> s = t"
    and c: "c = CHR '']'' \<or> c = CHR ''}''"
    and start: "\<And>s. s \<in> set ss \<union> set ts \<Longrightarrow> starts s"
    and eq: "join '','' ss @ c # u = join '','' ts @ c # v"
  shows "ss = ts \<and> u = v"
proof -
  have first: "join '','' (x # xs) @ w \<noteq> c # w'" if "starts x" for x xs w w'
    using that c by (cases x) (auto simp: join_tail starts_def)
  show ?thesis
  proof (cases ss; cases ts)
    fix s ss' t ts'
    assume split: "ss = s # ss'" "ts = t # ts'"
    from eq have "concat (map (\<lambda>y. CHR '','' # y) ss) @ c # u = concat (map (\<lambda>y. CHR '','' # y) ts) @ c # v"
      by (simp add: split join_tail)
    with sd c show ?thesis by (rule tails_inj)
  next
    fix t ts'
    assume split: "ss = []" "ts = t # ts'"
    then have "starts t" using start by simp
    from first [OF this, of ts' "c # v" u] eq show ?thesis by (simp add: split)
  next
    fix s ss'
    assume split: "ss = s # ss'" "ts = []"
    then have "starts s" using start by simp
    from first [OF this, of ss' "c # u" v] eq show ?thesis by (simp add: split)
  next
    assume "ss = []" "ts = []"
    with eq show ?thesis by simp
  qed
qed

lemma rmap_id_map: "rmap id (map f xs) = rmap f xs"
  by (induction xs) auto

subsection \<open>Unambiguous encoders\<close>

locale json_encoder =
  fixes qt :: "string \<Rightarrow> string" and ft :: "pyfloat \<Rightarrow> string res"
  assumes qt_prefix: "qt s @ u = qt t @ v \<Longrightarrow> s = t \<and> u = v"
    and qt_hd: "qt s \<noteq> [] \<and> hd (qt s) = CHR 0x22"
    and ft_token: "ft x = Inr s \<Longrightarrow> float_token s"
    and ft_inj: "ft x = Inr s \<Longrightarrow> ft y = Inr s \<Longrightarrow> x = y"
begin

definition atom :: "json \<Rightarrow> bool" where
  "atom j = (case j of JStr _ \<Rightarrow> False | JList _ \<Rightarrow> False | JObj _ \<Rightarrow> False | _ \<Rightarrow> True)"

lemma words_tokens:
  "list_all tokch ''null''" "list_all tokch ''true''" "list_all tokch ''false''"
  "\<not> int_token ''null''" "\<not> int_token ''true''" "\<not> int_token ''false''"
  by (simp_all add: tokch_def is_alnum_def is_lower_def int_token_def is_digit_def code_def)

lemma atom_text:
  assumes "atom a" "json_text qt ft a = Inr s"
  shows "s \<noteq> [] \<and> list_all tokch s"
proof (cases a)
  case (JFloat x)
  then show ?thesis using assms ft_token by (simp add: float_token_def)
next
  case (JBool x)
  then show ?thesis using assms words_tokens by (cases x) auto
next
  case (JInt i)
  then show ?thesis using assms show_int_token by auto
qed (use assms words_tokens in \<open>auto simp: atom_def\<close>)

lemma atom_inj:
  assumes "atom a" "atom b" "json_text qt ft a = Inr s" "json_text qt ft b = Inr s"
  shows "a = b"
proof -
  have "\<not> (json_text qt ft (JFloat x) = Inr s \<and> s \<in> {''null'', ''true'', ''false'', show_int i})" for x i
    using ft_token [of x s] show_int_token(1) [of i] by (auto simp: float_token_def)
  moreover have "show_int i \<notin> {''null'', ''true'', ''false''}" for i
    using show_int_token(1) [of i] words_tokens by auto
  ultimately show ?thesis
    using assms ft_inj by (cases a; cases b) (auto simp: atom_def split: if_splits)
qed

lemma nonatom_hd:
  assumes "\<not> atom a" "json_text qt ft a = Inr s"
  shows "s \<noteq> [] \<and> hd s = (case a of JStr _ \<Rightarrow> CHR 0x22 | JList _ \<Rightarrow> CHR ''['' | _ \<Rightarrow> CHR ''{'')"
  using assms qt_hd by (cases a) (auto simp: atom_def rbind_Inr_iff)

lemma text_hd_tokch:
  assumes "json_text qt ft a = Inr s"
  shows "s \<noteq> [] \<and> (tokch (hd s) \<longleftrightarrow> atom a)"
proof (cases "atom a")
  case True
  then show ?thesis using atom_text [OF True assms] by (cases s) auto
next
  case False
  then show ?thesis using nonatom_hd [OF False assms] by (auto simp: atom_def split: json.splits)
qed

lemma text_starts: "json_text qt ft a = Inr s \<Longrightarrow> starts s"
  using text_hd_tokch [of a s] nonatom_hd [of a s]
  by (cases "atom a") (auto simp: starts_def atom_def split: json.splits)

lemma texts_inj:
  assumes "\<And>x y s. x \<in> set xs \<Longrightarrow> y \<in> set ys \<Longrightarrow> f x = Inr s \<Longrightarrow> f y = Inr s \<Longrightarrow> x = y"
    and "rmap f xs = Inr ss" "rmap f ys = Inr ss"
  shows "xs = ys"
proof (rule list.rel_eq [THEN fun_cong, THEN fun_cong, THEN iffD1])
  have "list_all2 (\<lambda>x s. f x = Inr s) xs ss" "list_all2 (\<lambda>y s. f y = Inr s) ys ss"
    using assms(2,3) by (simp_all add: rmap_Inr_all2)
  then show "list_all2 (=) xs ys"
    using assms(1) by (auto simp: list_all2_conv_all_nth)
qed

lemma rmap_member: "rmap f xs = Inr ss \<Longrightarrow> s \<in> set ss \<Longrightarrow> \<exists>x \<in> set xs. f x = Inr s"
  by (auto simp: rmap_Inr_all2 list_all2_conv_all_nth set_conv_nth)

lemma span_token:
  assumes "list_all tokch s" "list_all tokch t" "s @ u = t @ v" "stops u" "stops v"
  shows "s = t \<and> u = v"
proof -
  have span: "takeWhile tokch (x @ w) = x" if "list_all tokch x" "stops w" for x w
  proof -
    have "takeWhile tokch w = []" using that(2) by (cases w) (auto simp: stops_def)
    with that(1) show ?thesis by (simp add: list_all_iff takeWhile_append2)
  qed
  have "s = takeWhile tokch (t @ v)"
    using span [OF assms(1,4)] assms(3) by simp
  then show ?thesis using span [OF assms(2,5)] assms(3) by simp
qed

lemma same_hd:
  assumes "json_text qt ft a = Inr s" "json_text qt ft b = Inr t" "s @ u = t @ v"
  shows "hd s = hd t" "atom a \<longleftrightarrow> atom b"
proof -
  have "s \<noteq> []" "t \<noteq> []" using assms(1,2) text_hd_tokch by blast+
  then show eq: "hd s = hd t" using assms(3) by (metis hd_append2)
  show "atom a \<longleftrightarrow> atom b"
    using text_hd_tokch [OF assms(1)] text_hd_tokch [OF assms(2)] eq by simp
qed

lemma atom_case:
  assumes "atom a" "json_text qt ft a = Inr s" "json_text qt ft b = Inr t" "s @ u = t @ v"
    "stops u" "stops v"
  shows "a = b \<and> u = v"
proof -
  have "atom b" using same_hd(2) [OF assms(2-4)] assms(1) by simp
  then show ?thesis
    using atom_text [OF assms(1,2)] atom_text [OF _ assms(3)] span_token [OF _ _ assms(4-6)]
      atom_inj assms(1-3) by metis
qed

lemma same_shape:
  assumes "json_text qt ft a = Inr s" "json_text qt ft b = Inr t" "s @ u = t @ v" "\<not> atom a"
  shows "case a of JStr _ \<Rightarrow> \<exists>y. b = JStr y | JList _ \<Rightarrow> \<exists>ys. b = JList ys | JObj _ \<Rightarrow> \<exists>kvs. b = JObj kvs
         | _ \<Rightarrow> True"
  using nonatom_hd [OF assms(4,1)] nonatom_hd [OF _ assms(2)] same_hd [OF assms(1-3)] assms(4)
  by (cases a; cases b) (auto simp: atom_def)

definition pair_text :: "string \<times> json \<Rightarrow> string res" where
  "pair_text kv = rbind (json_text qt ft (snd kv)) (\<lambda>s. Inr (qt (fst kv) @ '':'' @ s))"

lemma json_text_JList:
  "json_text qt ft (JList xs) = Inr s \<longleftrightarrow>
     (\<exists>ss. rmap (json_text qt ft) xs = Inr ss \<and> s = CHR ''['' # join '','' ss @ '']'')"
  by (auto simp: rbind_Inr_iff rmap_id_map)

lemma json_text_JObj:
  "json_text qt ft (JObj kvs) = Inr s \<longleftrightarrow>
     (\<exists>ss. rmap pair_text kvs = Inr ss \<and> s = CHR ''{'' # join '','' ss @ ''}'')"
  by (auto simp: rbind_Inr_iff rmap_id_map pair_text_def [abs_def])

text \<open>
  The two bracketed cases: if the members are self-delimiting, so is the bracketed list of
  them.
\<close>

lemma bracketed:
  assumes sd: "\<And>x y s t u v. x \<in> set xs \<Longrightarrow> f x = Inr s \<Longrightarrow> f y = Inr t \<Longrightarrow> s @ u = t @ v \<Longrightarrow>
                 stops u \<Longrightarrow> stops v \<Longrightarrow> x = y \<and> u = v"
    and start: "\<And>x s. f x = Inr s \<Longrightarrow> starts s"
    and c: "c = CHR '']'' \<or> c = CHR ''}''"
    and texts: "rmap f xs = Inr ss" "rmap f ys = Inr ts"
    and eq: "join '','' ss @ c # u = join '','' ts @ c # v"
  shows "xs = ys \<and> u = v"
proof -
  have step: "s = t" if mem: "s \<in> set ss" "t \<in> set ts" and app: "s @ u = t @ v" "stops u" "stops v" for s t u v
  proof -
    obtain x y where "x \<in> set xs" "f x = Inr s" "f y = Inr t"
      using rmap_member [OF texts(1) mem(1)] rmap_member [OF texts(2) mem(2)] by blast
    with sd app have "u = v" by blast
    with app(1) show "s = t" by simp
  qed
  have "starts s" if "s \<in> set ss \<union> set ts" for s
    using that rmap_member [OF texts(1)] rmap_member [OF texts(2)] start by blast
  with step c eq have same: "ss = ts \<and> u = v" by (intro join_inj) blast+
  have "x = y" if "x \<in> set xs" "f x = Inr s" "f y = Inr s" for x y s
    using sd [OF that, of "[]" "[]"] by (simp add: stops_def)
  then have "xs = ys" using texts same by (intro texts_inj [of xs ys f ss]) auto
  with same show ?thesis by simp
qed

lemma text_self_delimiting:
  assumes "json_text qt ft a = Inr s" "json_text qt ft b = Inr t" "s @ u = t @ v" "stops u" "stops v"
  shows "a = b \<and> u = v"
  using assms
proof (induction a arbitrary: b s t u v)
  case (JStr x)
  have "\<exists>y. b = JStr y" using same_shape [OF JStr.prems(1-3)] by (simp add: atom_def)
  then obtain y where b: "b = JStr y" by blast
  have "qt x @ u = qt y @ v" using JStr.prems(1-3) by (simp add: b)
  from qt_prefix [OF this] show ?case by (simp add: b)
next
  case (JList xs)
  have "\<exists>ys. b = JList ys" using same_shape [OF JList.prems(1-3)] by (simp add: atom_def)
  then obtain ys where b: "b = JList ys" by blast
  obtain ss ts where texts: "rmap (json_text qt ft) xs = Inr ss" "rmap (json_text qt ft) ys = Inr ts"
    and st: "s = CHR ''['' # join '','' ss @ '']''" "t = CHR ''['' # join '','' ts @ '']''"
    using JList.prems(1,2) unfolding b json_text_JList by (elim exE conjE)
  have "join '','' ss @ CHR '']'' # u = join '','' ts @ CHR '']'' # v"
    using JList.prems(3) by (simp add: st)
  with JList.IH text_starts texts have "xs = ys \<and> u = v"
    by (intro bracketed [where f = "json_text qt ft" and c = "CHR '']''"]) blast+
  then show ?case by (simp add: b)
next
  case (JObj kvs)
  have "\<exists>lvs. b = JObj lvs" using same_shape [OF JObj.prems(1-3)] by (simp add: atom_def)
  then obtain lvs where b: "b = JObj lvs" by blast
  obtain ss ts where texts: "rmap pair_text kvs = Inr ss" "rmap pair_text lvs = Inr ts"
    and st: "s = CHR ''{'' # join '','' ss @ ''}''" "t = CHR ''{'' # join '','' ts @ ''}''"
    using JObj.prems(1,2) unfolding b json_text_JObj by (elim exE conjE)
  have eq: "join '','' ss @ CHR ''}'' # u = join '','' ts @ CHR ''}'' # v"
    using JObj.prems(3) by (simp add: st)
  have start: "pair_text kv = Inr s \<Longrightarrow> starts s" for kv s
    using qt_hd [of "fst kv"] by (auto simp: pair_text_def rbind_Inr_iff starts_def)
  have sd: "x = y \<and> u = v" if x: "x \<in> set kvs" and pts: "pair_text x = Inr s" "pair_text y = Inr t"
    and app: "s @ u = t @ v" and stop: "stops u" "stops v" for x y s t u v
  proof -
    obtain s' t' where s': "json_text qt ft (snd x) = Inr s'" "s = qt (fst x) @ '':'' @ s'"
      and t': "json_text qt ft (snd y) = Inr t'" "t = qt (fst y) @ '':'' @ t'"
      using pts by (auto simp: pair_text_def rbind_Inr_iff)
    from app have "qt (fst x) @ ('':'' @ s' @ u) = qt (fst y) @ ('':'' @ t' @ v)"
      by (simp add: s'(2) t'(2))
    from qt_prefix [OF this] have "fst x = fst y" "s' @ u = t' @ v" by simp_all
    moreover from JObj.IH [OF x _ s'(1) t'(1) this(2) stop]
    have "snd x = snd y \<and> u = v" by (cases x) auto
    ultimately show ?thesis by (simp add: prod_eq_iff)
  qed
  have "kvs = lvs \<and> u = v"
    by (rule bracketed [OF _ start _ texts eq]) (use sd in blast)+
  then show ?case by (simp add: b)
qed (rule atom_case, simp add: atom_def, assumption+)+

theorem text_inj:
  "json_text qt ft a = Inr s \<Longrightarrow> json_text qt ft b = Inr s \<Longrightarrow> a = b"
  using text_self_delimiting [of a s b s "[]" "[]"] by (simp add: stops_def)

end

subsection \<open>The two encoders\<close>

lemma quote_with_prefix:
  assumes esc: "\<And>c d u v. esc c @ u = esc d @ v \<Longrightarrow> c = d"
    and hd: "\<And>c. esc c \<noteq> [] \<and> hd (esc c) \<noteq> CHR 0x22"
    and eq: "quote_with esc s @ u = quote_with esc t @ v"
  shows "s = t \<and> u = v"
proof -
  have quote_first: "esc c @ w \<noteq> CHR 0x22 # w'" for c w w'
    using hd [of c] by (cases "esc c") auto
  have "concat (map esc s) @ CHR 0x22 # u = concat (map esc t) @ CHR 0x22 # v"
    using eq by (simp add: quote_with_def)
  then show ?thesis
  proof (induction s arbitrary: t)
    case Nil
    then show ?case using quote_first by (cases t) (auto dest: sym)
  next
    case (Cons c s)
    obtain d t' where t: "t = d # t'"
      using Cons.prems quote_first by (cases t) auto
    have app: "esc c @ (concat (map esc s) @ CHR 0x22 # u) = esc d @ (concat (map esc t') @ CHR 0x22 # v)"
      using Cons.prems by (simp add: t)
    then have "c = d" by (rule esc)
    with app have "concat (map esc s) @ CHR 0x22 # u = concat (map esc t') @ CHR 0x22 # v" by simp
    from Cons.IH [OF this] \<open>c = d\<close> t show ?case by simp
  qed
qed

lemma code_inj: "code c = code d \<longleftrightarrow> c = d"
  by (simp add: code_def)

lemma code_less [simp]: "code c < 256"
  by (simp add: code_def)

lemma code_eqD: "code c = n \<Longrightarrow> char_of n = c"
  by (auto simp: code_def)

lemma hex_value_hex_digit: "d < 16 \<Longrightarrow> hex_value (hex_digit d) = Some d"
  by (simp add: hex_value_def hex_digit_def is_digit_def)

text \<open>Reading the first character of an escaped text.\<close>

definition unescape :: "string \<Rightarrow> char" where
  "unescape s =
     (if hd s \<noteq> CHR 0x5C then hd s
      else let d = s ! 1 in
        if d = CHR ''b'' then char_of (8::nat) else if d = CHR ''f'' then char_of (12::nat)
        else if d = CHR ''n'' then char_of (10::nat) else if d = CHR ''r'' then char_of (13::nat)
        else if d = CHR ''t'' then char_of (9::nat)
        else if d = CHR ''u'' then char_of (16 * the (hex_value (s ! 4)) + the (hex_value (s ! 5)))
        else d)"

lemma unescape_unicode: "unescape (unicode_escape c @ u) = c"
proof -
  have "hex_value (hex_digit (code c div 16)) = Some (code c div 16)"
    "hex_value (hex_digit (code c mod 16)) = Some (code c mod 16)"
    using code_less [of c] by (simp_all add: hex_value_hex_digit less_mult_imp_div_less)
  moreover have "char_of (code c) = c" by (simp add: code_def)
  ultimately show ?thesis by (simp add: unescape_def unicode_escape_def)
qed

lemma unescape_escape: "unescape (escape_char c @ u) = c"
proof -
  show ?thesis
  proof (cases "escape_char c = unicode_escape c")
    case True
    then show ?thesis by (simp add: unescape_unicode)
  next
    case False
    have named: "unescape (CHR 0x5C # d # u) = e" if "d \<noteq> CHR ''u''"
      "e = (if d = CHR ''b'' then char_of (8::nat) else if d = CHR ''f'' then char_of (12::nat)
            else if d = CHR ''n'' then char_of (10::nat) else if d = CHR ''r'' then char_of (13::nat)
            else if d = CHR ''t'' then char_of (9::nat) else d)" for d e
      unfolding that(2) by (simp add: unescape_def that(1))
    have plain: "unescape (c # u) = c" if "c \<noteq> CHR 0x5C" using that by (simp add: unescape_def)
    show ?thesis
      using False plain unfolding escape_char_def
      by (simp add: named code_eqD split: if_splits)
  qed
qed

lemma unescape_ascii: "unescape (escape_ascii c @ u) = c"
  by (simp add: escape_ascii_def unescape_unicode unescape_escape)

lemma escape_char_hd: "escape_char c \<noteq> [] \<and> hd (escape_char c) \<noteq> CHR 0x22"
  by (simp add: escape_char_def unicode_escape_def)

lemma escape_ascii_hd: "escape_ascii c \<noteq> [] \<and> hd (escape_ascii c) \<noteq> CHR 0x22"
  using escape_char_hd [of c] by (simp add: escape_ascii_def unicode_escape_def)

lemma strict_float_Inr: "strict_float x = Inr s \<longleftrightarrow> (\<exists>q. x = Fin q \<and> float_repr q = Some s)"
  by (cases x) (auto simp: strict_float_def split: option.splits)

interpretation strict: json_encoder "quote_with escape_char" strict_float
proof
  fix s u t v assume "quote_with escape_char s @ u = quote_with escape_char t @ v"
  then show "s = t \<and> u = v"
    by (rule quote_with_prefix [rotated 2]) (metis unescape_escape, rule escape_char_hd)
next
  show "quote_with escape_char s \<noteq> [] \<and> hd (quote_with escape_char s) = CHR 0x22" for s
    by (simp add: quote_with_def)
next
  show "strict_float x = Inr s \<Longrightarrow> float_token s" for x s
    by (auto simp: strict_float_Inr float_repr_token)
next
  show "strict_float x = Inr s \<Longrightarrow> strict_float y = Inr s \<Longrightarrow> x = y" for x y s
    by (auto simp: strict_float_Inr dest: float_repr_inj)
qed

lemma loose_names: "float_token ''Infinity''" "float_token ''-Infinity''" "float_token ''NaN''"
  by (simp_all add: float_token_def int_token_def tokch_def is_alnum_def is_lower_def is_upper_def
        is_digit_def code_def)

lemma float_repr_not_name:
  "float_repr q \<noteq> Some ''Infinity''" "float_repr q \<noteq> Some ''-Infinity''" "float_repr q \<noteq> Some ''NaN''"
proof -
  have no: "\<not> is_digit (CHR ''I'')" "\<not> is_digit (CHR ''N'')" "\<not> is_digit (CHR ''-'')"
    by (simp_all add: is_digit_def code_def)
  show "float_repr q \<noteq> Some ''Infinity''" "float_repr q \<noteq> Some ''-Infinity''" "float_repr q \<noteq> Some ''NaN''"
    using no repr_pos_text(3) [of q] repr_pos_text(3) [of "- q"]
    unfolding float_repr_def by (force split: if_splits)+
qed

interpretation loose: json_encoder "quote_with escape_ascii" loose_float
proof
  fix s u t v assume "quote_with escape_ascii s @ u = quote_with escape_ascii t @ v"
  then show "s = t \<and> u = v"
    by (rule quote_with_prefix [rotated 2]) (metis unescape_ascii, rule escape_ascii_hd)
next
  show "quote_with escape_ascii s \<noteq> [] \<and> hd (quote_with escape_ascii s) = CHR 0x22" for s
    by (simp add: quote_with_def)
next
  show "loose_float x = Inr s \<Longrightarrow> float_token s" for x s
    using loose_names strict.ft_token [of x s] by (cases x) (auto simp: loose_float_def)
next
  show "loose_float x = Inr s \<Longrightarrow> loose_float y = Inr s \<Longrightarrow> x = y" for x y s
    using float_repr_not_name strict.ft_inj [of x s y]
    by (cases x; cases y) (auto simp: loose_float_def strict_float_Inr)
qed

lemma canonical_json_inj:
  "canonical_json a = Inr s \<Longrightarrow> canonical_json b = Inr s \<Longrightarrow> sort_keys a = sort_keys b"
  unfolding canonical_json_def by (rule strict.text_inj)

lemma dumps_ascii_inj:
  "dumps_ascii a = Inr s \<Longrightarrow> dumps_ascii b = Inr s \<Longrightarrow> sort_keys a = sort_keys b"
  unfolding dumps_ascii_def by (rule loose.text_inj)

subsection \<open>Which values have a text\<close>

fun json_floats :: "json \<Rightarrow> pyfloat set" where
  "json_floats (JFloat x) = {x}"
| "json_floats (JList xs) = (\<Union>x \<in> set xs. json_floats x)"
| "json_floats (JObj kvs) = (\<Union>kv \<in> set kvs. json_floats (snd kv))"
| "json_floats _ = {}"

lemma json_floats_sort_keys [simp]: "json_floats (sort_keys j) = json_floats j"
  by (induction j rule: sort_keys.induct) auto

lemma rmap_total: "(\<And>x. x \<in> set xs \<Longrightarrow> \<exists>y. f x = Inr y) \<Longrightarrow> \<exists>ys. rmap f xs = Inr ys"
  by (induction xs) fastforce+

lemma json_text_total:
  "(\<And>x. x \<in> json_floats j \<Longrightarrow> \<exists>s. ft x = Inr s) \<Longrightarrow> \<exists>s. json_text qt ft j = Inr s"
proof (induction j)
  case (JList xs)
  have "\<exists>s. json_text qt ft x = Inr s" if "x \<in> set xs" for x
    using JList.IH [OF that] JList.prems that by auto
  then obtain ss where "rmap (json_text qt ft) xs = Inr ss" using rmap_total by blast
  then show ?case by (simp add: rmap_id_map)
next
  case (JObj kvs)
  let ?f = "\<lambda>kv. rbind (json_text qt ft (snd kv)) (\<lambda>s. Inr (qt (fst kv) @ '':'' @ s))"
  have "\<exists>s. ?f kv = Inr s" if "kv \<in> set kvs" for kv
  proof -
    have "\<exists>s. ft x = Inr s" if "x \<in> json_floats (snd kv)" for x
      using that \<open>kv \<in> set kvs\<close> JObj.prems [of x] by auto
    moreover have "snd kv \<in> Basic_BNFs.snds kv" by (cases kv) simp
    ultimately have "\<exists>s. json_text qt ft (snd kv) = Inr s"
      using JObj.IH \<open>kv \<in> set kvs\<close> by blast
    then show ?thesis by auto
  qed
  then have "\<exists>ss. rmap ?f kvs = Inr ss" by (rule rmap_total)
  then obtain ss where "rmap ?f kvs = Inr ss" by (elim exE)
  then show ?case by (simp add: rmap_id_map)
qed auto

lemma rmap_Inr_member: "rmap f xs = Inr ys \<Longrightarrow> x \<in> set xs \<Longrightarrow> \<exists>y. f x = Inr y"
  by (induction xs arbitrary: ys) (auto simp: rbind_Inr_iff)

lemma json_text_floats:
  "json_text qt ft j = Inr s \<Longrightarrow> x \<in> json_floats j \<Longrightarrow> \<exists>t. ft x = Inr t"
proof (induction j arbitrary: s)
  case (JList xs)
  obtain ss where ss: "rmap (json_text qt ft) xs = Inr ss"
    using JList.prems(1) by (auto simp: rbind_Inr_iff rmap_id_map)
  obtain y where "y \<in> set xs" "x \<in> json_floats y" using JList.prems(2) by auto
  then show ?case using JList.IH rmap_Inr_member [OF ss] by blast
next
  case (JObj kvs)
  let ?f = "\<lambda>kv. rbind (json_text qt ft (snd kv)) (\<lambda>s. Inr (qt (fst kv) @ '':'' @ s))"
  obtain ss where ss: "rmap ?f kvs = Inr ss"
    using JObj.prems(1) by (auto simp: rbind_Inr_iff rmap_id_map)
  obtain kv where kv: "kv \<in> set kvs" "x \<in> json_floats (snd kv)" using JObj.prems(2) by auto
  obtain t where "json_text qt ft (snd kv) = Inr t"
    using rmap_Inr_member [OF ss kv(1)] by (auto simp: rbind_Inr_iff)
  moreover have "snd kv \<in> Basic_BNFs.snds kv" by (cases kv) simp
  ultimately show ?case using JObj.IH kv by blast
qed auto

text \<open>A value has a canonical text exactly if each of its floats has one.\<close>

lemma canonical_json_ok_iff:
  "(\<exists>s. canonical_json j = Inr s) \<longleftrightarrow> (\<forall>x \<in> json_floats j. \<exists>t. strict_float x = Inr t)"
proof
  assume "\<exists>s. canonical_json j = Inr s"
  then show "\<forall>x \<in> json_floats j. \<exists>t. strict_float x = Inr t"
    unfolding canonical_json_def using json_text_floats json_floats_sort_keys by metis
next
  assume "\<forall>x \<in> json_floats j. \<exists>t. strict_float x = Inr t"
  then show "\<exists>s. canonical_json j = Inr s"
    unfolding canonical_json_def by (intro json_text_total) simp
qed

lemma canonical_json_total: "json_floats j = {} \<Longrightarrow> \<exists>s. canonical_json j = Inr s"
  unfolding canonical_json_def by (rule json_text_total) simp

lemma dumps_ascii_total: "json_floats j = {} \<Longrightarrow> \<exists>s. dumps_ascii j = Inr s"
  unfolding dumps_ascii_def by (rule json_text_total) simp

subsection \<open>Order of keys\<close>

lemma sort_key_mset:
  assumes "mset xs = mset ys" "distinct (map fst xs)"
  shows "sort_key fst xs = sort_key fst ys"
proof -
  have "inj_on fst (set ys)" using assms by (metis distinct_map mset_eq_setD)
  then show ?thesis
    using sort_key_inj_key_eq [of ys "sort_key fst xs" fst] assms by simp
qed

text \<open>
  An object whose members are listed in another order, at the top level.
\<close>

lemma canonical_json_perm:
  assumes "mset kvs = mset lvs" "distinct (map fst kvs)"
  shows "canonical_json (JObj kvs) = canonical_json (JObj lvs)"
proof -
  let ?f = "\<lambda>kv. (fst kv, sort_keys (snd kv))"
  have "mset (map ?f kvs) = mset (map ?f lvs)" using assms(1) by simp
  moreover have "distinct (map fst (map ?f kvs))" using assms(2) by (simp add: comp_def)
  ultimately have "sort_key fst (map ?f kvs) = sort_key fst (map ?f lvs)" by (rule sort_key_mset)
  then show ?thesis by (simp add: canonical_json_def)
qed

lemma dumps_ascii_perm:
  assumes "mset kvs = mset lvs" "distinct (map fst kvs)"
  shows "dumps_ascii (JObj kvs) = dumps_ascii (JObj lvs)"
proof -
  let ?f = "\<lambda>kv. (fst kv, sort_keys (snd kv))"
  have "mset (map ?f kvs) = mset (map ?f lvs)" using assms(1) by simp
  moreover have "distinct (map fst (map ?f kvs))" using assms(2) by (simp add: comp_def)
  ultimately have "sort_key fst (map ?f kvs) = sort_key fst (map ?f lvs)" by (rule sort_key_mset)
  then show ?thesis by (simp add: dumps_ascii_def)
qed

subsection \<open>Properties\<close>

text \<open>C28: Equal digests mean equal values: if two JSON values have the same digest under
  \<open>sha256_json\<close>, then they are equal up to the order of keys at every depth, or the hash
  function collides on their two different canonical texts.  No two values share a text: an
  integer is never printed like a float, a string like a number, a nested list like a flat
  one.\<close>

theorem digest_determines_value:
  assumes "sha256_json hx a = Inr d" and "sha256_json hx b = Inr d"
  shows "sort_keys a = sort_keys b \<or>
         (\<exists>s t. canonical_json a = Inr s \<and> canonical_json b = Inr t \<and> collision hx s t)"
proof -
  obtain s t where st: "canonical_json a = Inr s" "canonical_json b = Inr t" "hx s = hx t"
    using assms unfolding sha256_json_Inr by metis
  show ?thesis
  proof (cases "s = t")
    case True
    then show ?thesis using canonical_json_inj st by blast
  next
    case False
    then show ?thesis using st unfolding collision_def by blast
  qed
qed

definition example_json :: json where
  "example_json = JObj [(''b'', JStr ''x''), (''a'', JList [JInt 1])]"

definition example_swapped :: json where
  "example_swapped = JObj [(''a'', JList [JInt 1]), (''b'', JStr ''x'')]"

lemma example_digests:
  "\<exists>d. sha256_json id example_json = Inr d \<and> sha256_json id example_swapped = Inr d"
proof -
  have "canonical_json example_json = canonical_json example_swapped"
    unfolding example_json_def example_swapped_def by (rule canonical_json_perm) simp_all
  moreover obtain s where s: "canonical_json example_json = Inr s"
    unfolding canonical_json_def example_json_def by simp
  ultimately have "canonical_json example_swapped = Inr s" by simp
  with s have "sha256_json id example_json = Inr s" "sha256_json id example_swapped = Inr s"
    unfolding sha256_json_def by (simp_all only: rbind_simps id_apply)
  then show ?thesis by blast
qed

theorem digest_determines_value_witness: "sort_keys example_json = sort_keys example_swapped"
proof -
  obtain d where "sha256_json id example_json = Inr d" "sha256_json id example_swapped = Inr d"
    using example_digests by blast
  from digest_determines_value [OF this] show ?thesis by (simp add: collision_def)
qed

end
