(* ===== verification/Truth.thy ===== *)
theory Truth
  imports Canonical
begin

section \<open>Truth labels and truth values (lyte/domain/truth.py)\<close>

text \<open>
  \<open>truth_label\<close> is the enum, \<open>tv_make\<close> is the dataclass constructor with its
  \<open>\_\_post\_init\_\_\<close>: it normalises the fields and refuses a value that its label does not
  permit.  The invariant \<open>tv_ok\<close> is what every constructed value satisfies.
\<close>

datatype truth_label = MEASURED | REPORTED | MODELED | SAMPLE | ROADMAP | UNAVAILABLE

fun label_value :: "truth_label \<Rightarrow> string" where
  "label_value MEASURED = ''MEASURED''"
| "label_value REPORTED = ''REPORTED''"
| "label_value MODELED = ''MODELED''"
| "label_value SAMPLE = ''SAMPLE''"
| "label_value ROADMAP = ''ROADMAP''"
| "label_value UNAVAILABLE = ''UNAVAILABLE''"

definition all_labels :: "truth_label list" where
  "all_labels = [MEASURED, REPORTED, MODELED, SAMPLE, ROADMAP, UNAVAILABLE]"

text \<open>\<open>TruthLabel(text)\<close>.\<close>

definition label_of :: "string \<Rightarrow> truth_label res" where
  "label_of s = (case List.find (\<lambda>l. label_value l = s) all_labels of
                   None \<Rightarrow> Inl (ValueError (s @ '' is not a valid TruthLabel'')) | Some l \<Rightarrow> Inr l)"

lemma label_value_inj [simp]: "label_value a = label_value b \<longleftrightarrow> a = b"
  by (cases a; cases b) simp_all

lemma label_of_value [simp]: "label_of (label_value l) = Inr l"
  by (cases l) (simp_all add: label_of_def all_labels_def)

record 'a truth_value =
  tv_value :: "'a option"
  tv_label :: truth_label
  tv_reason :: "string option"
  tv_refs :: "string list"
  tv_observed :: "datetime option"
  tv_meta :: "(string \<times> json) list"

definition norm_reason :: "string option \<Rightarrow> string option" where
  "norm_reason r = (case r of None \<Rightarrow> None | Some s \<Rightarrow> if strip s = [] then None else Some (strip s))"

definition tv_make ::
  "'a option \<Rightarrow> truth_label \<Rightarrow> string option \<Rightarrow> string list \<Rightarrow> datetime option \<Rightarrow>
   (string \<times> json) list \<Rightarrow> 'a truth_value res" where
  "tv_make v l reason refs obs meta =
     (let r = norm_reason reason;
          t = \<lparr>tv_value = v, tv_label = l, tv_reason = r, tv_refs = clean_refs refs,
               tv_observed = obs, tv_meta = meta\<rparr>;
          finish = (case obs of None \<Rightarrow> Inr t | Some d \<Rightarrow> rbind (isoformat_z d) (\<lambda>_. Inr t))
      in if l = UNAVAILABLE then
           (if v \<noteq> None then Inl (ValueError ''UNAVAILABLE values must be null'')
            else if r = None then Inl (ValueError ''UNAVAILABLE values require a reason'')
            else finish)
         else if v = None then Inl (ValueError (label_value l @ '' values cannot be null''))
         else finish)"

definition tv_available :: "'a truth_value \<Rightarrow> bool" where
  "tv_available t = (tv_label t \<noteq> UNAVAILABLE)"

definition tv_unavailable ::
  "string \<Rightarrow> string list \<Rightarrow> (string \<times> json) list \<Rightarrow> 'a truth_value res" where
  "tv_unavailable reason refs meta = tv_make None UNAVAILABLE (Some reason) refs None meta"

definition tv_to_dict :: "('a \<Rightarrow> json) \<Rightarrow> 'a truth_value \<Rightarrow> json res" where
  "tv_to_dict enc t =
     rbind (iso_opt (tv_observed t)) (\<lambda>obs.
       Inr (JObj [(''value'', case tv_value t of None \<Rightarrow> JNull | Some v \<Rightarrow> enc v),
                  (''truth_label'', JStr (label_value (tv_label t))),
                  (''reason'', jopt (tv_reason t)),
                  (''evidence_refs'', jstrs (tv_refs t)),
                  (''observed_at'', obs),
                  (''metadata'', JObj (tv_meta t))]))"

definition tv_ok :: "'a truth_value \<Rightarrow> bool" where
  "tv_ok t \<longleftrightarrow>
     (tv_value t = None \<longleftrightarrow> tv_label t = UNAVAILABLE) \<and>
     (tv_label t = UNAVAILABLE \<longrightarrow> tv_reason t \<noteq> None) \<and>
     (\<forall>r. tv_reason t = Some r \<longrightarrow> r \<noteq> [] \<and> strip r = r) \<and>
     clean_refs (tv_refs t) = tv_refs t \<and>
     (\<forall>d. tv_observed t = Some d \<longrightarrow> is_aware d)"

lemma norm_reason_Some: "norm_reason r = Some s \<Longrightarrow> s \<noteq> [] \<and> strip s = s"
  by (auto simp: norm_reason_def split: option.splits if_splits)

lemma tv_make_ok: "tv_make v l reason refs obs meta = Inr t \<Longrightarrow> tv_ok t"
  by (cases obs)
     (auto simp: tv_make_def tv_ok_def Let_def res_simps isoformat_z_aware
           split: if_splits dest: norm_reason_Some)

lemma tv_make_fields:
  "tv_make v l reason refs obs meta = Inr t \<Longrightarrow>
     tv_value t = v \<and> tv_label t = l \<and> tv_reason t = norm_reason reason \<and> tv_observed t = obs"
  by (auto simp: tv_make_def Let_def res_simps split: if_splits option.splits)

text \<open>Reading the fields back constructs the same value again.\<close>

lemma tv_make_idem:
  assumes "tv_make v l reason refs obs meta = Inr t"
  shows "tv_make (tv_value t) (tv_label t) (tv_reason t) (tv_refs t) (tv_observed t) (tv_meta t) = Inr t"
proof -
  have norm: "norm_reason (norm_reason reason) = norm_reason reason"
    by (auto simp: norm_reason_def split: option.splits)
  show ?thesis
    using assms norm
    by (cases obs) (auto simp: tv_make_def Let_def res_simps split: if_splits)
qed

lemma tv_unavailable_iff:
  "(\<exists>t. tv_unavailable reason refs meta = Inr t) \<longleftrightarrow> strip reason \<noteq> []"
  by (auto simp: tv_unavailable_def tv_make_def norm_reason_def Let_def)

end
