(* ===== verification/Contracts.thy ===== *)
theory Contracts
  imports Truth
begin

section \<open>Scopes, receipt drafts and operational drafts (lyte/domain)\<close>

text \<open>
  The input contracts of the persistence layer.  Every constructor validates and normalises
  its fields, and returns the exception of the check that fails first.  The sensitive-field
  screen \<open>is\_sensitive\_key\<close> is modelled for ASCII keys, where NFKC normalisation is the
  identity and case folding is lower-casing.
\<close>

subsection \<open>Integers in text\<close>

text \<open>\<open>int(text)\<close>: white space around, a sign, digits with single underscores between them, at most
  4300 of them.\<close>

fun read_digits :: "nat \<Rightarrow> bool \<Rightarrow> string \<Rightarrow> nat option" where
  "read_digits acc ok [] = (if ok then Some acc else None)"
| "read_digits acc ok (c # cs) =
     (if c = CHR ''_'' then (if ok then read_digits acc False cs else None)
      else if is_digit c then read_digits (10 * acc + (code c - 48)) True cs else None)"

fun py_int_str :: "string \<Rightarrow> int option" where
  "py_int_str s =
     (let t = strip s; u = (if take 1 t = ''-'' \<or> take 1 t = ''+'' then drop 1 t else t) in
      if length (filter is_digit u) > 4300 then None
      else case read_digits 0 False u of None \<Rightarrow> None
             | Some n \<Rightarrow> Some (if take 1 t = ''-'' then - int n else int n))"

subsection \<open>Slugs and scopes (scope.py)\<close>

record scope =
  sc_tenant :: uuid
  sc_workspace :: uuid

definition scope_to_dict :: "scope \<Rightarrow> (string \<times> json) list" where
  "scope_to_dict s = [(''tenant_id'', JStr (uuid_str (sc_tenant s))),
                      (''workspace_id'', JStr (uuid_str (sc_workspace s)))]"

definition slug_char :: "char \<Rightarrow> bool" where
  "slug_char c = (is_lower c \<or> is_digit c)"

text \<open>\<open>^[a-z0-9][a-z0-9-]{1,62}[a-z0-9]$\<close>\<close>

definition slug_ok :: "string \<Rightarrow> bool" where
  "slug_ok s = (3 \<le> length s \<and> length s \<le> 64 \<and> slug_char (hd s) \<and> slug_char (last s) \<and>
                list_all (\<lambda>c. slug_char c \<or> c = CHR ''-'') s)"

definition validate_slug :: "string \<Rightarrow> string \<Rightarrow> string res" where
  "validate_slug value name =
     (let normalized = py_lower (strip value)
      in if slug_ok normalized then Inr normalized
         else Inl (ValueError (name @ '' must be 3-64 lowercase letters, digits, or internal hyphens'')))"

record tenant_spec =
  tsp_slug :: string
  tsp_name :: string
  tsp_id :: uuid

text \<open>\<open>fresh\<close> is the UUID that \<open>uuid4()\<close> draws when no identifier is given.\<close>

definition mk_tenant_spec :: "string \<Rightarrow> string \<Rightarrow> uuid option \<Rightarrow> uuid \<Rightarrow> tenant_spec res" where
  "mk_tenant_spec slug name oid fresh =
     (let clean = squeeze name
      in if clean = [] \<or> 200 < length clean
         then Inl (ValueError ''tenant name must contain 1-200 characters'')
         else rbind (validate_slug slug ''tenant slug'') (\<lambda>s.
           Inr \<lparr>tsp_slug = s, tsp_name = clean,
                tsp_id = (case oid of None \<Rightarrow> fresh | Some i \<Rightarrow> i)\<rparr>))"

record workspace_spec =
  wsp_tenant :: uuid
  wsp_slug :: string
  wsp_name :: string
  wsp_id :: uuid

definition mk_workspace_spec ::
  "uuid \<Rightarrow> string \<Rightarrow> string \<Rightarrow> uuid option \<Rightarrow> uuid \<Rightarrow> workspace_spec res" where
  "mk_workspace_spec tenant slug name oid fresh =
     (let clean = squeeze name
      in if clean = [] \<or> 200 < length clean
         then Inl (ValueError ''workspace name must contain 1-200 characters'')
         else rbind (validate_slug slug ''workspace slug'') (\<lambda>s.
           Inr \<lparr>wsp_tenant = tenant, wsp_slug = s, wsp_name = clean,
                wsp_id = (case oid of None \<Rightarrow> fresh | Some i \<Rightarrow> i)\<rparr>))"

subsection \<open>Sensitive fields (receipts.py)\<close>

definition sensitive_keys :: "string list" where
  "sensitive_keys =
     [''apikey'', ''accesstoken'', ''authtoken'', ''authorization'', ''bearertoken'',
      ''clientsecret'', ''cookie'', ''credential'', ''credentials'', ''csrftoken'', ''idtoken'',
      ''oauthtoken'', ''passphrase'', ''passwd'', ''password'', ''privatekey'',
      ''proxyauthorization'', ''refreshtoken'', ''secret'', ''sessiontoken'', ''setcookie'',
      ''token'', ''xsrftoken'']"

text \<open>The two \<open>re.sub\<close> calls put an underscore at every camel-case boundary.\<close>

fun split_acronym :: "string \<Rightarrow> string" where
  "split_acronym (a # b # c # s) =
     (if is_upper a \<and> is_upper b \<and> is_lower c then a # CHR ''_'' # split_acronym (b # c # s)
      else a # split_acronym (b # c # s))"
| "split_acronym s = s"

fun split_camel :: "string \<Rightarrow> string" where
  "split_camel (a # b # s) =
     (if (is_lower a \<or> is_digit a) \<and> is_upper b then a # CHR ''_'' # split_camel (b # s)
      else a # split_camel (b # s))"
| "split_camel s = s"

text \<open>\<open>re.findall(r"[a-z0-9]+", \<dots>.casefold())\<close> and the test on its last words.\<close>

definition key_words :: "string \<Rightarrow> string list" where
  "key_words s = words_of slug_char (py_lower s)"

definition last_two :: "string list \<Rightarrow> string" where
  "last_two ws = concat (drop (length ws - 2) ws)"

definition sensitive_words :: "string list \<Rightarrow> bool" where
  "sensitive_words ws = (ws \<noteq> [] \<and> (last ws \<in> set sensitive_keys \<or> last_two ws \<in> set sensitive_keys))"

definition is_sensitive_key :: "string \<Rightarrow> bool" where
  "is_sensitive_key key =
     (let normalized = strip key
      in sensitive_words (key_words normalized) \<or>
         sensitive_words (key_words (split_camel (split_acronym normalized))))"

text \<open>
  The recursive screen of a payload.  \<open>assert\_items\<close> is its loop over a mapping,
  \<open>assert\_elems\<close> its loop over a list.
\<close>

fun assert_no_sensitive_keys :: "string \<Rightarrow> json \<Rightarrow> unit res"
and assert_items :: "string \<Rightarrow> (string \<times> json) list \<Rightarrow> unit res"
and assert_elems :: "string \<Rightarrow> nat \<Rightarrow> json list \<Rightarrow> unit res" where
  "assert_no_sensitive_keys path (JObj kvs) = assert_items path kvs"
| "assert_no_sensitive_keys path (JList xs) = assert_elems path 0 xs"
| "assert_no_sensitive_keys path _ = Inr ()"
| "assert_items path [] = Inr ()"
| "assert_items path ((k, v) # kvs) =
     (if is_sensitive_key k
      then Inl (ValueError (''sensitive field is forbidden at '' @ path @ ''.'' @ k))
      else rbind (assert_no_sensitive_keys (path @ ''.'' @ k) v) (\<lambda>_. assert_items path kvs))"
| "assert_elems path i [] = Inr ()"
| "assert_elems path i (x # xs) =
     rbind (assert_no_sensitive_keys (path @ ''['' @ show_nat i @ '']'') x)
           (\<lambda>_. assert_elems path (Suc i) xs)"

text \<open>All keys of a value, at every depth.\<close>

fun json_keys :: "json \<Rightarrow> string set" where
  "json_keys (JObj kvs) = (\<Union>kv \<in> set kvs. insert (fst kv) (json_keys (snd kv)))"
| "json_keys (JList xs) = (\<Union>x \<in> set xs. json_keys x)"
| "json_keys _ = {}"

lemma assert_no_sensitive_iff:
  "assert_no_sensitive_keys path j = Inr () \<longleftrightarrow> (\<forall>k \<in> json_keys j. \<not> is_sensitive_key k)"
  "assert_items path kvs = Inr () \<longleftrightarrow> (\<forall>k \<in> json_keys (JObj kvs). \<not> is_sensitive_key k)"
  "assert_elems path i xs = Inr () \<longleftrightarrow> (\<forall>k \<in> json_keys (JList xs). \<not> is_sensitive_key k)"
  by (induction path j and path kvs and path i xs
        rule: assert_no_sensitive_keys_assert_items_assert_elems.induct)
     (auto simp: res_simps ball_Un)

subsection \<open>Keys in snake case\<close>

text \<open>
  A key made of lower-case words joined by underscores is split into just these words, so the
  screen decides it by its last two.
\<close>

abbreviation word_chars :: string where
  "word_chars \<equiv> ''abcdefghijklmnopqrstuvwxyz0123456789''"

definition plain_word :: "string \<Rightarrow> bool" where
  "plain_word w \<longleftrightarrow> w \<noteq> [] \<and> set w \<subseteq> set word_chars"

lemma word_chars: "list_all (\<lambda>c. slug_char c \<and> \<not> is_upper c \<and> \<not> py_isspace c \<and> lower_char c = c) word_chars"
  by code_simp

lemma word_char:
  assumes "c \<in> set word_chars"
  shows "slug_char c" "\<not> is_upper c" "\<not> py_isspace c" "lower_char c = c"
  using word_chars assms unfolding list_all_iff by blast+

lemma underscore: "\<not> slug_char (CHR ''_'')" "\<not> is_upper (CHR ''_'')" "\<not> py_isspace (CHR ''_'')" "lower_char (CHR ''_'') = CHR ''_''"
  by code_simp+

lemma join_chars: "set (join sep ws) \<subseteq> set sep \<union> (\<Union>w \<in> set ws. set w)"
  by (induction sep ws rule: join.induct) auto

lemma snake_chars:
  assumes "list_all plain_word ws" "c \<in> set (join ''_'' ws)"
  shows "\<not> is_upper c" "\<not> py_isspace c" "lower_char c = c"
proof -
  have "c = CHR ''_'' \<or> c \<in> set word_chars"
    using join_chars [of "''_''" ws] assms by (fastforce simp: list_all_iff plain_word_def)
  then show "\<not> is_upper c" "\<not> py_isspace c" "lower_char c = c" using word_char underscore by blast+
qed

lemma words_of_snake:
  "list_all plain_word ws \<Longrightarrow> words_of slug_char (join ''_'' ws) = ws"
proof (induction "''_''" ws rule: join.induct)
  case 1
  then show ?case by (subst words_of.simps) simp
next
  case (2 w)
  then have w: "w \<noteq> []" "\<forall>c \<in> set w. slug_char c" using word_char(1) by (auto simp: plain_word_def)
  then have "dropWhile (\<lambda>c. \<not> slug_char c) w = w" by (cases w) simp_all
  then show ?case using w by (subst words_of.simps) (simp add: words_of.simps [of _ "[]"] takeWhile_eq_all_conv [THEN iffD2] dropWhile_eq_Nil_conv [THEN iffD2])
next
  case (3 w v vs)
  let ?rest = "CHR ''_'' # join ''_'' (v # vs)"
  have w: "w \<noteq> []" "\<forall>c \<in> set w. slug_char c" using 3 word_char(1) by (auto simp: plain_word_def)
  have "dropWhile (\<lambda>c. \<not> slug_char c) (w @ ?rest) = w @ ?rest" using w by (cases w) simp_all
  moreover have "takeWhile slug_char (w @ ?rest) = w" "dropWhile slug_char (w @ ?rest) = ?rest"
    using w underscore(1) by (simp_all add: takeWhile_append2 dropWhile_append2)
  moreover have "words_of slug_char ?rest = words_of slug_char (join ''_'' (v # vs))"
    using underscore(1) by (subst (1 2) words_of.simps) simp
  moreover have "words_of slug_char (join ''_'' (v # vs)) = v # vs" using 3 by simp
  ultimately show ?case using w by (subst words_of.simps) (simp add: Let_def)
qed

lemma split_plain: "\<forall>c \<in> set s. \<not> is_upper c \<Longrightarrow> split_acronym s = s \<and> split_camel s = s"
proof -
  assume plain: "\<forall>c \<in> set s. \<not> is_upper c"
  have "split_acronym s = s" using plain by (induction s rule: split_acronym.induct) auto
  moreover have "split_camel s = s" using plain by (induction s rule: split_camel.induct) auto
  ultimately show ?thesis ..
qed

lemma snake_key:
  assumes "list_all plain_word ws"
  shows "is_sensitive_key (join ''_'' ws) \<longleftrightarrow> sensitive_words ws"
proof -
  let ?k = "join ''_'' ws"
  note c = snake_chars [OF assms]
  have "lstrip ?k = ?k" unfolding lstrip_def using c(2) by (cases ?k) auto
  moreover have "rstrip ?k = ?k" by (rule rstrip_id) (use c(2) last_in_set in blast)
  ultimately have strip: "strip ?k = ?k" by (simp add: strip_def)
  have "key_words ?k = ws" unfolding key_words_def py_lower_def
    using map_idI [of ?k lower_char] c(3) words_of_snake [OF assms] by simp
  then show ?thesis using split_plain [of ?k] c(1) by (simp add: is_sensitive_key_def strip)
qed

lemmas snake_simps = plain_word_def sensitive_words_def last_two_def sensitive_keys_def

subsection \<open>Receipt drafts (receipts.py)\<close>

text \<open>\<open>^[a-z][a-z0-9_.:-]{0,127}$\<close>\<close>

definition name_char :: "char \<Rightarrow> bool" where
  "name_char c = (is_lower c \<or> is_digit c \<or> c \<in> set ''_.:-'')"

definition name_ok :: "string \<Rightarrow> bool" where
  "name_ok s = (s \<noteq> [] \<and> length s \<le> 128 \<and> is_lower (hd s) \<and> list_all name_char s)"

record receipt_draft =
  rd_kind :: string
  rd_subject_type :: string
  rd_subject_id :: string
  rd_payload :: "(string \<times> json) list"
  rd_label :: truth_label
  rd_refs :: "string list"

definition mk_receipt_draft ::
  "string \<Rightarrow> string \<Rightarrow> string \<Rightarrow> (string \<times> json) list \<Rightarrow> truth_label \<Rightarrow> string list \<Rightarrow>
   receipt_draft res" where
  "mk_receipt_draft kind stype sid payload label refs =
     guard_else (name_ok kind) (ValueError ''kind must match ^[a-z][a-z0-9_.:-]{0,127}$'')
    (guard_else (name_ok stype) (ValueError ''subject_type must match ^[a-z][a-z0-9_.:-]{0,127}$'')
    (guard_else (strip sid \<noteq> [] \<and> length (strip sid) \<le> 256)
                (ValueError ''subject_id must contain 1-256 characters'')
    (rbind (assert_no_sensitive_keys ''payload'' (JObj payload)) (\<lambda>_.
     rbind (canonical_json (JObj payload)) (\<lambda>_.
       Inr \<lparr>rd_kind = kind, rd_subject_type = stype, rd_subject_id = strip sid,
            rd_payload = payload, rd_label = label, rd_refs = clean_refs refs\<rparr>)))))"

definition receipt_draft_ok :: "receipt_draft \<Rightarrow> bool" where
  "receipt_draft_ok d \<longleftrightarrow>
     name_ok (rd_kind d) \<and> name_ok (rd_subject_type d) \<and>
     rd_subject_id d \<noteq> [] \<and> length (rd_subject_id d) \<le> 256 \<and> strip (rd_subject_id d) = rd_subject_id d \<and>
     (\<forall>k \<in> json_keys (JObj (rd_payload d)). \<not> is_sensitive_key k) \<and>
     (\<exists>s. canonical_json (JObj (rd_payload d)) = Inr s) \<and>
     clean_refs (rd_refs d) = rd_refs d"

lemma mk_receipt_draft_ok:
  "mk_receipt_draft kind stype sid payload label refs = Inr d \<Longrightarrow> receipt_draft_ok d"
  by (auto simp: mk_receipt_draft_def receipt_draft_ok_def res_simps assert_no_sensitive_iff)

subsection \<open>Operational drafts (operational.py)\<close>

datatype entity_kind =
    Source | SourceCursor | Entity | UserSubject | RoleBinding | Service | DependencyEdge
  | CustomerJourney | JourneyStep | BusinessOutcome | OutcomeMeasurement | TelemetryWindow
  | AgentTraceSummary | DeploymentEvent | Incident | IncidentEvent | Signal | Recommendation
  | Decision | ActionRequest | OutcomeVerification | EvidenceReference | ReplaySnapshot

fun kind_value :: "entity_kind \<Rightarrow> string" where
  "kind_value Source = ''Source''"
| "kind_value SourceCursor = ''SourceCursor''"
| "kind_value Entity = ''Entity''"
| "kind_value UserSubject = ''UserSubject''"
| "kind_value RoleBinding = ''RoleBinding''"
| "kind_value Service = ''Service''"
| "kind_value DependencyEdge = ''DependencyEdge''"
| "kind_value CustomerJourney = ''CustomerJourney''"
| "kind_value JourneyStep = ''JourneyStep''"
| "kind_value BusinessOutcome = ''BusinessOutcome''"
| "kind_value OutcomeMeasurement = ''OutcomeMeasurement''"
| "kind_value TelemetryWindow = ''TelemetryWindow''"
| "kind_value AgentTraceSummary = ''AgentTraceSummary''"
| "kind_value DeploymentEvent = ''DeploymentEvent''"
| "kind_value Incident = ''Incident''"
| "kind_value IncidentEvent = ''IncidentEvent''"
| "kind_value Signal = ''Signal''"
| "kind_value Recommendation = ''Recommendation''"
| "kind_value Decision = ''Decision''"
| "kind_value ActionRequest = ''ActionRequest''"
| "kind_value OutcomeVerification = ''OutcomeVerification''"
| "kind_value EvidenceReference = ''EvidenceReference''"
| "kind_value ReplaySnapshot = ''ReplaySnapshot''"

text \<open>\<open>^[A-Za-z0-9][A-Za-z0-9._:/~-]{0,255}$\<close>\<close>

definition identifier_ok :: "string \<Rightarrow> bool" where
  "identifier_ok s = (s \<noteq> [] \<and> length s \<le> 256 \<and> is_alnum (hd s) \<and>
                      list_all (\<lambda>c. is_alnum c \<or> c \<in> set ''._:/~-'') s)"

definition lower_hex :: "char \<Rightarrow> bool" where
  "lower_hex c = (is_digit c \<or> (97 \<le> code c \<and> code c \<le> 102))"

definition revision_ok :: "string \<Rightarrow> bool" where
  "revision_ok s = ((length s = 40 \<or> length s = 64) \<and> list_all lower_hex s)"

record operational_draft =
  od_kind :: entity_kind
  od_id :: string
  od_name :: string
  od_body :: "(string \<times> json) list"
  od_label :: truth_label
  od_refs :: "string list"
  od_revision :: "string option"
  od_observed :: "datetime option"
  od_meta :: "(string \<times> json) list"

definition mk_operational_draft ::
  "entity_kind \<Rightarrow> string \<Rightarrow> string \<Rightarrow> (string \<times> json) list \<Rightarrow> truth_label \<Rightarrow> string list \<Rightarrow>
   string option \<Rightarrow> datetime option \<Rightarrow> (string \<times> json) list \<Rightarrow> operational_draft res" where
  "mk_operational_draft kind eid name body label refs revn obs meta =
     (let clean = squeeze name; rs = clean_refs refs; r = norm_reason revn in
     guard_else (identifier_ok (strip eid))
       (ValueError ''entity_id must match ^[A-Za-z0-9][A-Za-z0-9._:/~-]{0,255}$'')
    (guard_else (clean \<noteq> [] \<and> length clean \<le> 256)
       (ValueError ''name must contain 1-256 characters'')
    (rbind (assert_no_sensitive_keys ''operational.body'' (JObj body)) (\<lambda>_.
     rbind (assert_no_sensitive_keys ''operational.metadata'' (JObj meta)) (\<lambda>_.
     rbind (canonical_json (JObj body)) (\<lambda>_.
     rbind (canonical_json (JObj meta)) (\<lambda>_.
     guard_else (\<not> (label \<in> {MEASURED, REPORTED} \<and> rs = []))
       (ValueError ''MEASURED and REPORTED operational records require evidence_refs'')
    (guard_else (case r of None \<Rightarrow> True | Some s \<Rightarrow> revision_ok s)
       (ValueError ''source_revision must be a lowercase Git SHA or SHA-256'')
    (rbind (case obs of None \<Rightarrow> Inr '''' | Some d \<Rightarrow> isoformat_z d) (\<lambda>_.
       Inr \<lparr>od_kind = kind, od_id = strip eid, od_name = clean, od_body = body, od_label = label,
            od_refs = rs, od_revision = r, od_observed = obs, od_meta = meta\<rparr>))))))))))"

definition operational_draft_ok :: "operational_draft \<Rightarrow> bool" where
  "operational_draft_ok d \<longleftrightarrow>
     identifier_ok (od_id d) \<and> od_name d \<noteq> [] \<and> length (od_name d) \<le> 256 \<and>
     (\<forall>k \<in> json_keys (JObj (od_body d)) \<union> json_keys (JObj (od_meta d)). \<not> is_sensitive_key k) \<and>
     (\<exists>s. canonical_json (JObj (od_body d)) = Inr s) \<and>
     (\<exists>s. canonical_json (JObj (od_meta d)) = Inr s) \<and>
     (od_label d \<in> {MEASURED, REPORTED} \<longrightarrow> od_refs d \<noteq> []) \<and>
     (\<forall>r. od_revision d = Some r \<longrightarrow> revision_ok r) \<and>
     (\<forall>t. od_observed d = Some t \<longrightarrow> is_aware t)"

lemma mk_operational_draft_ok:
  assumes "mk_operational_draft kind eid name body label refs revn obs meta = Inr d"
  shows "operational_draft_ok d"
proof -
  note step = assms [unfolded mk_operational_draft_def Let_def]
  have aware: "\<forall>t. obs = Some t \<longrightarrow> is_aware t"
    using step by (auto simp: res_simps isoformat_z_aware)
  have rev: "\<forall>r. norm_reason revn = Some r \<longrightarrow> revision_ok r"
    using step by (auto simp: res_simps)
  show ?thesis
    using step aware rev
    by (auto simp: operational_draft_ok_def res_simps assert_no_sensitive_iff)
qed

end
