(* ===== verification/Rows.thy ===== *)
theory Rows
  imports Contracts
begin

section \<open>Tables, constraints and stream heads (lyte/persistence/models.py, store.py)\<close>

text \<open>
  The database as the store sees it: one list per table in insertion order, the columns as the
  mapped classes declare them, and the unique, primary-key and foreign-key constraints, whose
  violation is \<open>IntegrityError\<close> when the session flushes.  A transaction is a function from the
  database to a result and the new database; a raise carries no database, which is the
  rollback.  UUID columns hold \<open>str(uuid)\<close>.  Timestamps are kept as they were written;
  SQLite returns them without their zone, which \<open>canonical_timestamp\<close> undoes.
\<close>

datatype stream = Receipts | Idempotency | Memory | Anatomy | Operational

fun stream_value :: "stream \<Rightarrow> string" where
  "stream_value Receipts = ''receipts''"
| "stream_value Idempotency = ''idempotency''"
| "stream_value Memory = ''memory''"
| "stream_value Anatomy = ''anatomy''"
| "stream_value Operational = ''operational''"

definition stream_kinds :: "stream list" where
  "stream_kinds = [Receipts, Idempotency, Memory, Anatomy, Operational]"

definition stream_of :: "string \<Rightarrow> stream res" where
  "stream_of k = (case List.find (\<lambda>st. stream_value st = k) stream_kinds of
                    None \<Rightarrow> Inl (ValueError (''unknown stream kind: '' @ k)) | Some st \<Rightarrow> Inr st)"

lemma stream_value_inj [simp]: "stream_value a = stream_value b \<longleftrightarrow> a = b"
  by (cases a; cases b) simp_all

lemma stream_of_value [simp]: "stream_of (stream_value st) = Inr st"
  by (cases st) (simp_all add: stream_of_def stream_kinds_def)

lemma set_stream_kinds [simp]: "st \<in> set stream_kinds"
  by (cases st) (simp_all add: stream_kinds_def)

lemma distinct_stream_kinds: "distinct stream_kinds"
  by (simp add: stream_kinds_def)

subsection \<open>Tables\<close>

record tenant_row =
  t_id :: string
  t_slug :: string
  t_name :: string
  t_at :: datetime

record workspace_row =
  w_id :: string
  w_tenant :: string
  w_slug :: string
  w_name :: string
  w_at :: datetime

record head_row =
  h_tenant :: string
  h_workspace :: string
  h_stream :: stream
  h_seq :: int
  h_hash :: "string option"
  h_at :: datetime

text \<open>The columns of every append-only table (\<open>AppendOnlyMixin\<close>).\<close>

record row =
  r_id :: string
  r_tenant :: string
  r_workspace :: string
  r_seq :: int
  r_prev :: "string option"
  r_hash :: string
  r_basis :: "(string \<times> json) list"
  r_at :: datetime

record receipt_row = row +
  rc_kind :: string
  rc_subject_type :: string
  rc_subject_id :: string
  rc_label :: string
  rc_payload :: json
  rc_payload_sha :: string
  rc_refs :: "string list"

record idem_row = row +
  im_key :: string
  im_request :: string
  im_response :: string

record memory_row = row +
  mm_partition :: string
  mm_kind :: string
  mm_summary :: string
  mm_label :: string
  mm_refs :: "string list"
  mm_subjects :: "string list"
  mm_meta :: json
  mm_receipt :: "string option"

record trace_row = row +
  tc_trace :: string
  tc_span :: string
  tc_parent :: "string option"
  tc_organ :: string
  tc_operation :: string
  tc_state :: string
  tc_label :: string
  tc_started :: datetime
  tc_completed :: "datetime option"
  tc_input :: "string option"
  tc_output :: "string option"
  tc_attrs :: json

record oper_row = row +
  op_kind :: string
  op_id :: string
  op_version :: int
  op_name :: string
  op_label :: string
  op_body :: json
  op_refs :: "string list"
  op_revision :: "string option"
  op_observed :: "datetime option"
  op_meta :: json

record db =
  d_sqlite :: bool
  d_tenants :: "tenant_row list"
  d_workspaces :: "workspace_row list"
  d_heads :: "head_row list"
  d_receipts :: "receipt_row list"
  d_idems :: "idem_row list"
  d_memories :: "memory_row list"
  d_traces :: "trace_row list"
  d_opers :: "oper_row list"

definition empty_db :: "bool \<Rightarrow> db" where
  "empty_db sqlite = \<lparr>d_sqlite = sqlite, d_tenants = [], d_workspaces = [], d_heads = [],
     d_receipts = [], d_idems = [], d_memories = [], d_traces = [], d_opers = []\<rparr>"

text \<open>The common columns of the table of a stream.\<close>

fun stream_rows :: "db \<Rightarrow> stream \<Rightarrow> row list" where
  "stream_rows d Receipts = map row.truncate (d_receipts d)"
| "stream_rows d Idempotency = map row.truncate (d_idems d)"
| "stream_rows d Memory = map row.truncate (d_memories d)"
| "stream_rows d Anatomy = map row.truncate (d_traces d)"
| "stream_rows d Operational = map row.truncate (d_opers d)"

definition in_scope :: "scope \<Rightarrow> 'a row_scheme \<Rightarrow> bool" where
  "in_scope s r = (r_tenant r = uuid_str (sc_tenant s) \<and> r_workspace r = uuid_str (sc_workspace s))"

lemma truncate_fields [simp]:
  "r_id (row.truncate r) = r_id r" "r_tenant (row.truncate r) = r_tenant r"
  "r_workspace (row.truncate r) = r_workspace r" "r_seq (row.truncate r) = r_seq r"
  "r_prev (row.truncate r) = r_prev r" "r_hash (row.truncate r) = r_hash r"
  "r_basis (row.truncate r) = r_basis r" "r_at (row.truncate r) = r_at r"
  by (simp_all add: row.truncate_def)

lemma in_scope_truncate [simp]: "in_scope s (row.truncate r) = in_scope s r"
  by (simp add: in_scope_def)

lemma in_scope_inj: "in_scope s r \<Longrightarrow> in_scope s' r \<Longrightarrow> s = s'"
  by (auto simp: in_scope_def)

subsection \<open>Constraints\<close>

definition scope_exists :: "db \<Rightarrow> string \<Rightarrow> string \<Rightarrow> bool" where
  "scope_exists d t w = list_ex (\<lambda>x. w_tenant x = t \<and> w_id x = w) (d_workspaces d)"

text \<open>
  What every append-only table requires of a new row: its scope exists, its identifier is new,
  its sequence number and its hash are new in the scope; \<open>clash\<close> is the table's own unique
  constraint.
\<close>

definition row_fits ::
  "db \<Rightarrow> ('a row_scheme \<Rightarrow> 'a row_scheme \<Rightarrow> bool) \<Rightarrow> 'a row_scheme list \<Rightarrow> 'a row_scheme \<Rightarrow> bool" where
  "row_fits d clash rows r =
     (scope_exists d (r_tenant r) (r_workspace r) \<and>
      list_all (\<lambda>x. r_id x \<noteq> r_id r \<and>
        \<not> (r_tenant x = r_tenant r \<and> r_workspace x = r_workspace r \<and>
           (r_seq x = r_seq r \<or> r_hash x = r_hash r \<or> clash x r))) rows)"

definition no_clash :: "'a row_scheme \<Rightarrow> 'a row_scheme \<Rightarrow> bool" where
  "no_clash x r = False"

definition idem_clash :: "idem_row \<Rightarrow> idem_row \<Rightarrow> bool" where
  "idem_clash x r = (im_key x = im_key r)"

definition oper_clash :: "oper_row \<Rightarrow> oper_row \<Rightarrow> bool" where
  "oper_clash x r = (op_kind x = op_kind r \<and> op_id x = op_id r \<and> op_version x = op_version r)"

definition add_tenant :: "db \<Rightarrow> tenant_row \<Rightarrow> db res" where
  "add_tenant d r = guard_else (list_all (\<lambda>x. t_id x \<noteq> t_id r \<and> t_slug x \<noteq> t_slug r) (d_tenants d))
     IntegrityError (Inr (d\<lparr>d_tenants := d_tenants d @ [r]\<rparr>))"

definition add_workspace :: "db \<Rightarrow> workspace_row \<Rightarrow> db res" where
  "add_workspace d r = guard_else
     (list_ex (\<lambda>x. t_id x = w_tenant r) (d_tenants d) \<and>
      list_all (\<lambda>x. w_id x \<noteq> w_id r \<and> \<not> (w_tenant x = w_tenant r \<and> w_slug x = w_slug r)) (d_workspaces d))
     IntegrityError (Inr (d\<lparr>d_workspaces := d_workspaces d @ [r]\<rparr>))"

definition head_key :: "head_row \<Rightarrow> string \<times> string \<times> stream" where
  "head_key h = (h_tenant h, h_workspace h, h_stream h)"

definition add_head :: "db \<Rightarrow> head_row \<Rightarrow> db res" where
  "add_head d h = guard_else
     (scope_exists d (h_tenant h) (h_workspace h) \<and> list_all (\<lambda>x. head_key x \<noteq> head_key h) (d_heads d))
     IntegrityError (Inr (d\<lparr>d_heads := d_heads d @ [h]\<rparr>))"

definition add_receipt :: "db \<Rightarrow> receipt_row \<Rightarrow> db res" where
  "add_receipt d r = guard_else (row_fits d no_clash (d_receipts d) r) IntegrityError
     (Inr (d\<lparr>d_receipts := d_receipts d @ [r]\<rparr>))"

definition add_idem :: "db \<Rightarrow> idem_row \<Rightarrow> db res" where
  "add_idem d r = guard_else (row_fits d idem_clash (d_idems d) r) IntegrityError
     (Inr (d\<lparr>d_idems := d_idems d @ [r]\<rparr>))"

definition add_memory :: "db \<Rightarrow> memory_row \<Rightarrow> db res" where
  "add_memory d r = guard_else (row_fits d no_clash (d_memories d) r) IntegrityError
     (Inr (d\<lparr>d_memories := d_memories d @ [r]\<rparr>))"

definition add_trace :: "db \<Rightarrow> trace_row \<Rightarrow> db res" where
  "add_trace d r = guard_else (row_fits d no_clash (d_traces d) r) IntegrityError
     (Inr (d\<lparr>d_traces := d_traces d @ [r]\<rparr>))"

definition add_oper :: "db \<Rightarrow> oper_row \<Rightarrow> db res" where
  "add_oper d r = guard_else (row_fits d oper_clash (d_opers d) r) IntegrityError
     (Inr (d\<lparr>d_opers := d_opers d @ [r]\<rparr>))"

fun fold_res :: "('s \<Rightarrow> 'x \<Rightarrow> 's res) \<Rightarrow> 's \<Rightarrow> 'x list \<Rightarrow> 's res" where
  "fold_res f s [] = Inr s"
| "fold_res f s (x # xs) = rbind (f s x) (\<lambda>s'. fold_res f s' xs)"

subsection \<open>Scopes, heads and bases (store.py)\<close>

definition find_workspace :: "db \<Rightarrow> string \<Rightarrow> workspace_row option" where
  "find_workspace d w = List.find (\<lambda>x. w_id x = w) (d_workspaces d)"

definition find_tenant :: "db \<Rightarrow> string \<Rightarrow> tenant_row option" where
  "find_tenant d t = List.find (\<lambda>x. t_id x = t) (d_tenants d)"

abbreviation scope_missing :: exc where
  "scope_missing \<equiv> ScopeNotFound ''workspace does not exist in the requested tenant''"

abbreviation head_missing :: exc where
  "head_missing \<equiv> ScopeNotFound ''workspace stream heads have not been initialized''"

definition assert_scope :: "db \<Rightarrow> scope \<Rightarrow> unit res" where
  "assert_scope d s =
     (case find_workspace d (uuid_str (sc_workspace s)) of
        None \<Rightarrow> Inl scope_missing
      | Some w \<Rightarrow> guard_else (w_tenant w = uuid_str (sc_tenant s)) scope_missing (Inr ()))"

definition scope_key :: "scope \<Rightarrow> stream \<Rightarrow> string \<times> string \<times> stream" where
  "scope_key s st = (uuid_str (sc_tenant s), uuid_str (sc_workspace s), st)"

definition locked_head :: "db \<Rightarrow> scope \<Rightarrow> stream \<Rightarrow> head_row res" where
  "locked_head d s st =
     (case List.find (\<lambda>h. head_key h = scope_key s st) (d_heads d) of
        None \<Rightarrow> Inl head_missing | Some h \<Rightarrow> Inr h)"

definition mk_basis ::
  "string \<Rightarrow> scope \<Rightarrow> stream \<Rightarrow> int \<Rightarrow> string option \<Rightarrow> datetime \<Rightarrow> (string \<times> json) list \<Rightarrow>
   (string \<times> json) list res" where
  "mk_basis schema s st seq prev when data =
     rbind (isoformat_z when) (\<lambda>ts.
       Inr [(''schema'', JStr schema), (''tenant_id'', JStr (uuid_str (sc_tenant s))),
            (''workspace_id'', JStr (uuid_str (sc_workspace s))),
            (''stream_kind'', JStr (stream_value st)), (''sequence'', JInt seq),
            (''previous_hash'', jopt prev), (''created_at'', JStr ts), (''data'', JObj data)])"

definition advance_head :: "db \<Rightarrow> scope \<Rightarrow> stream \<Rightarrow> int \<Rightarrow> string \<Rightarrow> datetime \<Rightarrow> db" where
  "advance_head d s st seq hash when =
     d\<lparr>d_heads := map (\<lambda>h. if head_key h = scope_key s st
                           then h\<lparr>h_seq := seq, h_hash := Some hash, h_at := when\<rparr> else h) (d_heads d)\<rparr>"

text \<open>The columns that every append computes from the stream head: the basis and its digest.\<close>

definition seal ::
  "(string \<Rightarrow> string) \<Rightarrow> string \<Rightarrow> scope \<Rightarrow> stream \<Rightarrow> int \<Rightarrow> string option \<Rightarrow> uuid \<Rightarrow> datetime \<Rightarrow>
   (string \<times> json) list \<Rightarrow> row res" where
  "seal hx schema s st seq prev i when data =
     rbind (mk_basis schema s st seq prev when data) (\<lambda>basis.
     rbind (sha256_json hx (JObj basis)) (\<lambda>digest.
       Inr \<lparr>r_id = uuid_str i, r_tenant = uuid_str (sc_tenant s),
            r_workspace = uuid_str (sc_workspace s), r_seq = seq, r_prev = prev, r_hash = digest,
            r_basis = basis, r_at = when\<rparr>))"

lemma scope_key_inj [simp]: "scope_key s st = scope_key s' st' \<longleftrightarrow> s = s' \<and> st = st'"
  by (auto simp: scope_key_def intro: scope.equality)

lemma seal_Inr:
  "seal hx schema s st seq prev i when data = Inr r \<longleftrightarrow>
     (\<exists>ts digest. isoformat_z when = Inr ts \<and>
        r = \<lparr>r_id = uuid_str i, r_tenant = uuid_str (sc_tenant s),
             r_workspace = uuid_str (sc_workspace s), r_seq = seq, r_prev = prev, r_hash = digest,
             r_basis = [(''schema'', JStr schema), (''tenant_id'', JStr (uuid_str (sc_tenant s))),
               (''workspace_id'', JStr (uuid_str (sc_workspace s))),
               (''stream_kind'', JStr (stream_value st)), (''sequence'', JInt seq),
               (''previous_hash'', jopt prev), (''created_at'', JStr ts), (''data'', JObj data)],
             r_at = when\<rparr> \<and>
        sha256_json hx (JObj (r_basis r)) = Inr digest)"
  by (auto simp: seal_def mk_basis_def rbind_Inr_iff)

end
