(* ===== verification/Ledger.thy ===== *)
theory Ledger
  imports Rows
begin

section \<open>Hash chains and their verification (store.py, verify\_chain)\<close>

text \<open>
  \<open>verify_chain\<close> is the audit of one stream.  \<open>chained\<close> is its specification: the records
  are numbered from 1, each cites the hash of the one before, its basis repeats scope, stream,
  number and previous hash, and its hash is the digest of the basis.  \<open>db_inv\<close> says this of
  every stream of every workspace; \<open>push_inv\<close> is the one lemma by which all appends preserve
  it.
\<close>

record chain_verification =
  cv_stream :: string
  cv_valid :: bool
  cv_count :: nat
  cv_head :: "string option"
  cv_error :: "string option"

text \<open>\<open>basis.get(k) == value\<close>\<close>

definition basis_is :: "(string \<times> json) list \<Rightarrow> string \<Rightarrow> json \<Rightarrow> bool" where
  "basis_is b k v = json_eq (jget_null (JObj b) k) v"

definition basis_matches :: "scope \<Rightarrow> stream \<Rightarrow> int \<Rightarrow> string option \<Rightarrow> (string \<times> json) list \<Rightarrow> bool" where
  "basis_matches s st n prev b =
     (basis_is b ''tenant_id'' (JStr (uuid_str (sc_tenant s))) \<and>
      basis_is b ''workspace_id'' (JStr (uuid_str (sc_workspace s))) \<and>
      basis_is b ''stream_kind'' (JStr (stream_value st)) \<and>
      basis_is b ''sequence'' (JInt n) \<and> basis_is b ''previous_hash'' (jopt prev))"

text \<open>The loop: the first defect found, if any, and the hash expected next.\<close>

fun verify_rows ::
  "(string \<Rightarrow> string) \<Rightarrow> scope \<Rightarrow> stream \<Rightarrow> int \<Rightarrow> string option \<Rightarrow> row list \<Rightarrow>
   (string option \<times> string option) res" where
  "verify_rows hx s st n prev [] = Inr (None, prev)"
| "verify_rows hx s st n prev (r # rs) =
     (if r_seq r \<noteq> n then Inr (Some (''sequence gap at '' @ show_int n), prev)
      else if r_prev r \<noteq> prev then Inr (Some (''previous hash mismatch at '' @ show_int n), prev)
      else if \<not> basis_matches s st n prev (r_basis r)
           then Inr (Some (''basis mismatch at '' @ show_int n), prev)
      else rbind (sha256_json hx (JObj (r_basis r))) (\<lambda>digest.
             if digest \<noteq> r_hash r then Inr (Some (''record digest mismatch at '' @ show_int n), prev)
             else verify_rows hx s st (n + 1) (Some (r_hash r)) rs))"

definition records :: "db \<Rightarrow> scope \<Rightarrow> stream \<Rightarrow> row list" where
  "records d s st = sort_key r_seq (filter (in_scope s) (stream_rows d st))"

definition verify_chain ::
  "(string \<Rightarrow> string) \<Rightarrow> db \<Rightarrow> scope \<Rightarrow> string \<Rightarrow> chain_verification res" where
  "verify_chain hx d s kind =
     rbind (stream_of kind) (\<lambda>st.
     rbind (assert_scope d s) (\<lambda>_.
       let rs = records d s st;
           report = (\<lambda>ok prev err. \<lparr>cv_stream = kind, cv_valid = ok, cv_count = length rs,
                                     cv_head = prev, cv_error = err\<rparr>) in
       rbind (verify_rows hx s st 1 None rs) (\<lambda>(err, prev).
         if err \<noteq> None then Inr (report False prev err)
         else rbind (locked_head d s st) (\<lambda>h.
           if h_seq h \<noteq> int (length rs) \<or> h_hash h \<noteq> prev
           then Inr (report False prev (Some ''stream head does not match append-only records''))
           else Inr (report True prev None)))))"

subsection \<open>Specification\<close>

fun chained ::
  "(string \<Rightarrow> string) \<Rightarrow> scope \<Rightarrow> stream \<Rightarrow> int \<Rightarrow> string option \<Rightarrow> row list \<Rightarrow> bool" where
  "chained hx s st n prev [] = True"
| "chained hx s st n prev (r # rs) \<longleftrightarrow>
     r_seq r = n \<and> r_prev r = prev \<and> basis_matches s st n prev (r_basis r) \<and>
     sha256_json hx (JObj (r_basis r)) = Inr (r_hash r) \<and>
     chained hx s st (n + 1) (Some (r_hash r)) rs"

fun last_hash :: "string option \<Rightarrow> row list \<Rightarrow> string option" where
  "last_hash prev [] = prev"
| "last_hash prev (r # rs) = last_hash (Some (r_hash r)) rs"

lemma verify_rows_iff:
  "verify_rows hx s st n prev rs = Inr (None, p) \<longleftrightarrow> chained hx s st n prev rs \<and> p = last_hash prev rs"
  by (induction hx s st n prev rs rule: verify_rows.induct) (auto simp: rbind_Inr_iff)

lemma chained_append:
  "chained hx s st n prev (xs @ ys) \<longleftrightarrow>
     chained hx s st n prev xs \<and> chained hx s st (n + int (length xs)) (last_hash prev xs) ys"
  by (induction xs arbitrary: n prev) (auto simp: algebra_simps)

lemma last_hash_append: "last_hash prev (xs @ ys) = last_hash (last_hash prev xs) ys"
  by (induction xs arbitrary: prev) auto

lemma last_hash_snoc [simp]: "last_hash prev (xs @ [r]) = Some (r_hash r)"
  by (simp add: last_hash_append)

lemma chained_bounds:
  "chained hx s st n prev rs \<Longrightarrow> r \<in> set rs \<Longrightarrow> n \<le> r_seq r \<and> r_seq r < n + int (length rs)"
  by (induction rs arbitrary: n prev) (fastforce simp: algebra_simps)+

lemma chained_sorted: "chained hx s st n prev rs \<Longrightarrow> sort_key r_seq rs = rs"
proof (rule sort_key_id_if_sorted)
  show "chained hx s st n prev rs \<Longrightarrow> sorted (map r_seq rs)"
    by (induction rs arbitrary: n prev) (fastforce dest: chained_bounds)+
qed

subsection \<open>The invariant\<close>

definition stream_inv :: "(string \<Rightarrow> string) \<Rightarrow> db \<Rightarrow> scope \<Rightarrow> stream \<Rightarrow> bool" where
  "stream_inv hx d s st \<longleftrightarrow>
     (let rs = filter (in_scope s) (stream_rows d st) in
      chained hx s st 1 None rs \<and>
      (\<exists>h. locked_head d s st = Inr h \<and> h_seq h = int (length rs) \<and> h_hash h = last_hash None rs))"

definition has_workspace :: "db \<Rightarrow> scope \<Rightarrow> bool" where
  "has_workspace d s = scope_exists d (uuid_str (sc_tenant s)) (uuid_str (sc_workspace s))"

text \<open>
  Every stream of every workspace is a valid chain; rows and heads belong to workspaces;
  workspaces have distinct identifiers.
\<close>

definition db_inv :: "(string \<Rightarrow> string) \<Rightarrow> db \<Rightarrow> bool" where
  "db_inv hx d \<longleftrightarrow>
     (\<forall>s st. has_workspace d s \<longrightarrow> stream_inv hx d s st) \<and>
     (\<forall>st. \<forall>r \<in> set (stream_rows d st). scope_exists d (r_tenant r) (r_workspace r)) \<and>
     (\<forall>h \<in> set (d_heads d). scope_exists d (h_tenant h) (h_workspace h)) \<and>
     distinct (map w_id (d_workspaces d))"

lemma db_inv_empty: "db_inv hx (empty_db sq)"
proof -
  have "stream_rows (empty_db sq) st = []" for st by (cases st) (simp_all add: empty_db_def)
  then show ?thesis by (simp add: db_inv_def empty_db_def has_workspace_def scope_exists_def)
qed

lemma find_workspace_distinct:
  assumes "distinct (map w_id (d_workspaces d))" "w \<in> set (d_workspaces d)"
  shows "find_workspace d (w_id w) = Some w"
proof -
  obtain w' where w': "find_workspace d (w_id w) = Some w'"
    using assms(2) unfolding find_workspace_def
    by (cases "List.find (\<lambda>x. w_id x = w_id w) (d_workspaces d)") (auto simp: find_None_iff)
  then have "w' \<in> set (d_workspaces d)" "w_id w' = w_id w"
    by (auto simp: find_workspace_def find_Some_iff)
  with assms have "w' = w" by (auto simp: distinct_map dest: inj_onD)
  with w' show ?thesis by simp
qed

lemma assert_scope_iff:
  assumes "distinct (map w_id (d_workspaces d))"
  shows "assert_scope d s = Inr () \<longleftrightarrow> has_workspace d s"
proof
  assume "assert_scope d s = Inr ()"
  then show "has_workspace d s"
    by (auto simp: assert_scope_def has_workspace_def scope_exists_def find_workspace_def
        find_Some_iff guard_else_Inr_iff list_ex_iff split: option.splits)
next
  assume "has_workspace d s"
  then obtain w where w: "w \<in> set (d_workspaces d)" "w_tenant w = uuid_str (sc_tenant s)"
    "w_id w = uuid_str (sc_workspace s)"
    by (auto simp: has_workspace_def scope_exists_def list_ex_iff)
  then show "assert_scope d s = Inr ()"
    using find_workspace_distinct [OF assms w(1)] by (simp add: assert_scope_def)
qed

lemma assert_scope_error: "assert_scope d s = Inr () \<or> assert_scope d s = Inl scope_missing"
  by (auto simp: assert_scope_def guard_else_def split: option.splits)

lemma db_invD:
  assumes "db_inv hx d" "assert_scope d s = Inr ()"
  shows "has_workspace d s" "stream_inv hx d s st"
proof -
  show "has_workspace d s" using assms assert_scope_iff [of d s] by (auto simp: db_inv_def)
  then show "stream_inv hx d s st" using assms(1) by (auto simp: db_inv_def)
qed

subsection \<open>Appending\<close>

lemma find_map_id:
  assumes "\<And>x. key (f x) = key x"
  shows "List.find (\<lambda>x. key x = k) (map f xs) = map_option f (List.find (\<lambda>x. key x = k) xs)"
  using assms by (induction xs) auto

lemma locked_head_Inr:
  "locked_head d s st = Inr h \<Longrightarrow> h \<in> set (d_heads d) \<and> head_key h = scope_key s st"
  by (auto simp: locked_head_def find_Some_iff split: option.splits)

lemma locked_head_advance:
  "locked_head (advance_head d s st q x t) s' st' =
     (if s' = s \<and> st' = st
      then map_sum id (\<lambda>h. h\<lparr>h_seq := q, h_hash := Some x, h_at := t\<rparr>) (locked_head d s st)
      else locked_head d s' st')"
proof -
  let ?f = "\<lambda>h. if head_key h = scope_key s st then h\<lparr>h_seq := q, h_hash := Some x, h_at := t\<rparr> else h"
  have key: "head_key (?f h) = head_key h" for h by (simp add: head_key_def)
  have eq: "locked_head (advance_head d s st q x t) s' st' = map_sum id ?f (locked_head d s' st')"
    unfolding locked_head_def advance_head_def
    using find_map_id [of head_key ?f "scope_key s' st'" "d_heads d", OF key]
    by (auto split: option.splits)
  show ?thesis
  proof (cases "locked_head d s' st'")
    case (Inr h)
    then have "head_key h = scope_key s' st'" by (rule locked_head_Inr [THEN conjunct2])
    then show ?thesis using eq Inr by auto
  qed (use eq in auto)
qed

lemma advance_head_scopes:
  assumes "h \<in> set (d_heads (advance_head d s st q x t))"
  shows "\<exists>g \<in> set (d_heads d). h_tenant h = h_tenant g \<and> h_workspace h = h_workspace g"
  using assms by (auto simp: advance_head_def split: if_splits)

text \<open>
  \<open>d'\<close> is \<open>d\<close> with the records \<open>rs\<close> at the end of one stream and that stream's head
  advanced over them.
\<close>

definition pushes ::
  "(string \<Rightarrow> string) \<Rightarrow> db \<Rightarrow> scope \<Rightarrow> stream \<Rightarrow> row list \<Rightarrow> db \<Rightarrow> bool" where
  "pushes hx d s st rs d' \<longleftrightarrow>
     rs \<noteq> [] \<and> d_sqlite d' = d_sqlite d \<and> d_tenants d' = d_tenants d \<and>
     d_workspaces d' = d_workspaces d \<and>
     (\<forall>st'. stream_rows d' st' = stream_rows d st' @ (if st' = st then rs else [])) \<and>
     (\<forall>r \<in> set rs. in_scope s r) \<and>
     (\<exists>h t. locked_head d s st = Inr h \<and> chained hx s st (h_seq h + 1) (h_hash h) rs \<and>
        d_heads d' = d_heads (advance_head d s st (h_seq h + int (length rs)) (r_hash (last rs)) t))"

lemma last_hash_last: "rs \<noteq> [] \<Longrightarrow> last_hash prev rs = Some (r_hash (last rs))"
  by (induction rs arbitrary: prev) auto

lemma locked_head_heads: "d_heads d = d_heads d' \<Longrightarrow> locked_head d s st = locked_head d' s st"
  by (simp add: locked_head_def)

lemma pushes_stream_inv:
  assumes p: "pushes hx d s st rs d'" and inv: "stream_inv hx d s' st'" and own: "stream_inv hx d s st"
  shows "stream_inv hx d' s' st'"
proof -
  obtain h t where h: "locked_head d s st = Inr h" "chained hx s st (h_seq h + 1) (h_hash h) rs"
    and heads: "d_heads d' = d_heads (advance_head d s st (h_seq h + int (length rs)) (r_hash (last rs)) t)"
    using p by (auto simp: pushes_def)
  have rows: "stream_rows d' st' = stream_rows d st' @ (if st' = st then rs else [])"
    and ne: "rs \<noteq> []" and sc: "\<forall>r \<in> set rs. in_scope s r"
    using p by (simp_all add: pushes_def)
  note lh = locked_head_heads [OF heads, of s' st', unfolded locked_head_advance]
  show ?thesis
  proof (cases "s' = s \<and> st' = st")
    case True
    let ?old = "filter (in_scope s) (stream_rows d st)"
    have new: "filter (in_scope s') (stream_rows d' st') = ?old @ rs"
      using True rows sc by simp
    have old: "chained hx s st 1 None ?old" "h_seq h = int (length ?old)" "h_hash h = last_hash None ?old"
      using own h(1) by (auto simp: stream_inv_def Let_def)
    have "chained hx s st 1 None (?old @ rs)"
      using old h(2) by (simp add: chained_append algebra_simps)
    then show ?thesis
      using True lh h(1) old(2) ne unfolding stream_inv_def Let_def new
      by (simp add: last_hash_append last_hash_last)
  next
    case False
    have "\<not> in_scope s' r" if "s' \<noteq> s" "r \<in> set rs" for r
      using that sc in_scope_inj by blast
    then have "filter (in_scope s') (stream_rows d' st') = filter (in_scope s') (stream_rows d st')"
      using False rows by (cases "st' = st") (simp_all add: filter_empty_conv)
    moreover have "locked_head d' s' st' = locked_head d s' st'" using False lh by (simp add: if_not_P)
    ultimately show ?thesis using inv by (simp add: stream_inv_def)
  qed
qed

lemma push_inv:
  assumes inv: "db_inv hx d" and ws: "has_workspace d s" and p: "pushes hx d s st rs d'"
  shows "db_inv hx d'"
proof -
  have w: "d_workspaces d' = d_workspaces d"
    and rows: "\<And>st'. stream_rows d' st' = stream_rows d st' @ (if st' = st then rs else [])"
    and sc: "\<forall>r \<in> set rs. in_scope s r"
    using p by (simp_all add: pushes_def)
  have ex: "scope_exists d' t u = scope_exists d t u" for t u by (simp add: scope_exists_def w)
  have hw: "has_workspace d' x = has_workspace d x" for x by (simp add: has_workspace_def ex)
  have "stream_inv hx d' x y" if "has_workspace d' x" for x y
    using pushes_stream_inv [OF p] inv ws that by (simp add: db_inv_def hw)
  moreover have "scope_exists d' (r_tenant r) (r_workspace r)" if "r \<in> set (stream_rows d' y)" for r y
    using that inv sc ws rows [of y]
    by (auto simp: db_inv_def ex in_scope_def has_workspace_def split: if_splits)
  moreover have "scope_exists d' (h_tenant h) (h_workspace h)" if "h \<in> set (d_heads d')" for h
  proof -
    from p obtain q t where heads: "d_heads d' = d_heads (advance_head d s st q (r_hash (last rs)) t)"
      unfolding pushes_def by blast
    from advance_head_scopes [OF that [unfolded heads]] obtain g where
      "g \<in> set (d_heads d)" "h_tenant h = h_tenant g" "h_workspace h = h_workspace g" by blast
    then show ?thesis using inv by (simp add: db_inv_def ex)
  qed
  ultimately show ?thesis using inv by (simp add: db_inv_def w)
qed

lemma seal_chained:
  assumes "seal hx schema s st n prev i t data = Inr r"
  shows "chained hx s st n prev [r]" "in_scope s r" "r_seq r = n" "r_prev r = prev"
    "r_id r = uuid_str i" "r_at r = t"
proof -
  show "chained hx s st n prev [r]"
    using assms by (auto simp: seal_Inr basis_matches_def basis_is_def jget_null_def)
qed (use assms in \<open>auto simp: seal_Inr in_scope_def\<close>)

subsection \<open>What a valid report means\<close>

lemma stream_inv_valid:
  assumes inv: "stream_inv hx d s st" and ws: "assert_scope d s = Inr ()"
  shows "\<exists>v. verify_chain hx d s (stream_value st) = Inr v \<and> cv_valid v \<and> cv_error v = None \<and>
             cv_count v = length (filter (in_scope s) (stream_rows d st)) \<and>
             cv_head v = last_hash None (filter (in_scope s) (stream_rows d st))"
proof -
  let ?rs = "filter (in_scope s) (stream_rows d st)"
  from inv obtain h where c: "chained hx s st 1 None ?rs" and h: "locked_head d s st = Inr h"
    "h_seq h = int (length ?rs)" "h_hash h = last_hash None ?rs"
    by (auto simp: stream_inv_def Let_def)
  have rs: "records d s st = ?rs" using chained_sorted [OF c] by (simp add: records_def)
  have "verify_rows hx s st 1 None ?rs = Inr (None, last_hash None ?rs)"
    using c by (simp add: verify_rows_iff)
  then show ?thesis using ws h by (simp add: verify_chain_def rs Let_def)
qed

subsection \<open>Tamper evidence\<close>

lemma alookup_sort_key: "alookup (sort_key fst kvs) k = alookup kvs k"
proof -
  have first: "alookup xs k = (case filter (\<lambda>kv. fst kv = k) xs of [] \<Rightarrow> None | kv # _ \<Rightarrow> Some (snd kv))"
    for xs :: "('b \<times> 'c) list" and k
    by (induction xs) auto
  have "filter (\<lambda>kv. fst kv = k) (sort_key fst kvs) = filter (\<lambda>kv. fst kv = k) kvs"
    by (rule sort_key_stable)
  then show ?thesis by (simp add: first)
qed

lemma jget_sort_keys: "jget (sort_keys (JObj b)) k = map_option sort_keys (jget (JObj b) k)"
proof -
  have "alookup (map (\<lambda>kv. (fst kv, sort_keys (snd kv))) b) k = map_option sort_keys (alookup b k)"
    by (induction b) auto
  then show ?thesis by (simp add: alookup_sort_key)
qed

lemma atom_sort_keys:
  assumes "jnorm x = JInt n \<or> jnorm x = JStr t \<or> jnorm x = JNull"
  shows "sort_keys y = sort_keys x \<Longrightarrow> y = x"
  using assms by (cases x; cases y) auto

lemma basis_is_determined:
  assumes "basis_is b k v" "basis_is b' k v'" "sort_keys (JObj b) = sort_keys (JObj b')"
    and "v = JInt n \<or> v = JStr t \<or> v = JNull" "jnorm v = v" "jnorm v' = v'"
  shows "v = v'"
proof -
  let ?x = "jget_null (JObj b) k" and ?y = "jget_null (JObj b') k"
  have "sort_keys ?y = sort_keys ?x"
  proof -
    have "map_option sort_keys (jget (JObj b) k) = map_option sort_keys (jget (JObj b') k)"
      using assms(3) by (simp only: jget_sort_keys [symmetric])
    then show ?thesis by (auto simp: jget_null_def split: option.splits)
  qed
  moreover have n: "jnorm ?x = v" using assms(1,5) by (simp add: basis_is_def json_eq_def)
  ultimately have "?y = ?x" using atom_sort_keys [of ?x n t ?y] assms(4) by blast
  with n assms(2,6) show ?thesis by (simp add: basis_is_def json_eq_def)
qed

text \<open>The defining values of two matching bases agree if the bases do.\<close>

lemma jnorm_jopt [simp]: "jnorm (jopt p) = jopt p"
  by (cases p) (simp_all add: jopt_def)

lemma basis_matchesD:
  assumes "basis_matches s st n prev b"
  shows "basis_is b ''sequence'' (JInt n)" "basis_is b ''previous_hash'' (jopt prev)"
  using assms by (simp_all only: basis_matches_def)

lemma basis_matches_determined:
  assumes "basis_matches s st n prev b" "basis_matches s st n' prev' b'"
    and "sort_keys (JObj b) = sort_keys (JObj b')"
  shows "n = n'" "prev = prev'"
proof -
  have "JInt n = JInt n'"
    by (rule basis_is_determined [OF basis_matchesD(1) [OF assms(1)] basis_matchesD(1) [OF assms(2)] assms(3)])
       simp_all
  then show "n = n'" by simp
  obtain t where "jopt prev = JStr t \<or> jopt prev = JNull" by (cases prev) (simp_all add: jopt_def)
  then have shape: "jopt prev = JInt 0 \<or> jopt prev = JStr t \<or> jopt prev = JNull" by blast
  from basis_is_determined [OF basis_matchesD(2) [OF assms(1)] basis_matchesD(2) [OF assms(2)]
      assms(3) shape jnorm_jopt jnorm_jopt]
  have "jopt prev = jopt prev'" .
  then show "prev = prev'" by (auto simp: jopt_def split: option.splits)
qed

text \<open>Two chains of records of which no two at the same place have colliding bases.\<close>

definition same_basis :: "row \<Rightarrow> row \<Rightarrow> bool" where
  "same_basis r r' = (sort_keys (JObj (r_basis r)) = sort_keys (JObj (r_basis r')))"

definition bases_collide :: "(string \<Rightarrow> string) \<Rightarrow> row \<Rightarrow> row \<Rightarrow> bool" where
  "bases_collide hx r r' \<longleftrightarrow>
     (\<exists>x y. canonical_json (JObj (r_basis r)) = Inr x \<and>
            canonical_json (JObj (r_basis r')) = Inr y \<and> collision hx x y)"

lemma same_hash_same_basis:
  assumes "sha256_json hx (JObj (r_basis r)) = Inr (r_hash r)"
    "sha256_json hx (JObj (r_basis r')) = Inr (r_hash r')" "r_hash r = r_hash r'"
  shows "same_basis r r' \<or> bases_collide hx r r'"
proof -
  obtain x y where xy: "canonical_json (JObj (r_basis r)) = Inr x"
    "canonical_json (JObj (r_basis r')) = Inr y" "hx x = hx y"
    using assms unfolding sha256_json_Inr by metis
  show ?thesis
  proof (cases "x = y")
    case True
    then show ?thesis using xy canonical_json_inj unfolding same_basis_def by blast
  next
    case False
    then show ?thesis using xy unfolding bases_collide_def collision_def by blast
  qed
qed

lemma chains_with_same_head:
  assumes "chained hx s st 1 None xs" "chained hx s st 1 None ys"
    and "last_hash None xs = last_hash None ys" "xs \<noteq> []" "ys \<noteq> []"
  shows "(\<exists>x \<in> set xs. \<exists>y \<in> set ys. bases_collide hx x y) \<or> list_all2 same_basis xs ys"
  using assms
proof (induction xs arbitrary: ys rule: rev_induct)
  case (snoc x xs)
  obtain ys' y where ys: "ys = ys' @ [y]" using snoc.prems(5) by (cases ys rule: rev_cases) auto
  let ?m = "1 + int (length xs)" and ?n = "1 + int (length ys')"
  have cx: "chained hx s st 1 None xs" "basis_matches s st ?m (last_hash None xs) (r_basis x)"
    "sha256_json hx (JObj (r_basis x)) = Inr (r_hash x)"
    using snoc.prems(1) by (simp_all add: chained_append)
  have cy: "chained hx s st 1 None ys'" "basis_matches s st ?n (last_hash None ys') (r_basis y)"
    "sha256_json hx (JObj (r_basis y)) = Inr (r_hash y)"
    using snoc.prems(2) by (simp_all add: ys chained_append)
  have "r_hash x = r_hash y" using snoc.prems(3) by (simp add: ys)
  from same_hash_same_basis [OF cx(3) cy(3) this] show ?case
  proof
    assume "bases_collide hx x y"
    then show ?case by (auto simp: ys)
  next
    assume same: "same_basis x y"
    then have len: "length xs = length ys'" and prev: "last_hash None xs = last_hash None ys'"
      using basis_matches_determined [OF cx(2) cy(2)] by (simp_all add: same_basis_def)
    show ?case
    proof (cases "xs = []")
      case True
      then show ?thesis using len same by (simp add: ys)
    next
      case False
      then have "ys' \<noteq> []" using len by auto
      from snoc.IH [OF cx(1) cy(1) prev False this] show ?thesis
        using same by (auto simp: ys list_all2_append [OF len])
    qed
  qed
qed simp

subsection \<open>Properties\<close>

text \<open>C12: \<open>verify_chain\<close> is exact: for a known stream of an existing workspace with a head
  it reports valid exactly when the scope's records, in sequence order, are numbered from 1, each
  citing the hash of its predecessor, each with a basis repeating scope, stream, number and
  previous hash, each hash being the digest of its basis, and the head holding their number and
  the last hash.\<close>

theorem verify_chain_exact:
  assumes "stream_of kind = Inr st" "assert_scope d s = Inr ()" "locked_head d s st = Inr h"
  shows "(\<exists>v. verify_chain hx d s kind = Inr v \<and> cv_valid v) \<longleftrightarrow>
         chained hx s st 1 None (records d s st) \<and>
         h_seq h = int (length (records d s st)) \<and> h_hash h = last_hash None (records d s st)"
proof (cases "verify_rows hx s st 1 None (records d s st)")
  case (Inl e)
  then have "\<not> chained hx s st 1 None (records d s st)"
    using verify_rows_iff by (metis Inl_Inr_False)
  with Inl assms show ?thesis by (simp add: verify_chain_def)
next
  case (Inr ep)
  obtain e p where ep: "ep = (e, p)" by (cases ep)
  have "e = None \<longleftrightarrow> chained hx s st 1 None (records d s st)"
    "e = None \<Longrightarrow> p = last_hash None (records d s st)"
    using Inr verify_rows_iff [of hx s st 1 None "records d s st" p]
      verify_rows_iff [of hx s st 1 None "records d s st" "last_hash None (records d s st)"]
    unfolding ep by auto
  then show ?thesis using assms Inr by (auto simp: verify_chain_def ep Let_def)
qed

text \<open>The audit is tamper-evident.  If the same stream of the same scope is reported valid in
  two databases with the same head hash (for instance the live one and one an attacker has
  rewritten), then the two have the same number of records and pairwise the same basis up to the
  order of keys, or two of the bases have different canonical texts on which the hash function
  collides.\<close>

theorem verified_head_fixes_history:
  assumes "verify_chain hx d s kind = Inr v" "cv_valid v"
    and "verify_chain hx d' s kind = Inr v'" "cv_valid v'"
    and "cv_head v = cv_head v'" "cv_head v \<noteq> None" "stream_of kind = Inr st"
  shows "list_all2 same_basis (records d s st) (records d' s st) \<or>
         (\<exists>x \<in> set (records d s st). \<exists>y \<in> set (records d' s st). bases_collide hx x y)"
proof -
  have valid: "chained hx s st 1 None (records e s st) \<and> cv_head w = last_hash None (records e s st)"
    if "verify_chain hx e s kind = Inr w" "cv_valid w" for e w
  proof -
    from that assms(7) obtain p where "verify_rows hx s st 1 None (records e s st) = Inr (None, p)"
      "cv_head w = p"
      by (auto simp: verify_chain_def rbind_Inr_iff Let_def split: if_splits)
    then show ?thesis by (simp add: verify_rows_iff)
  qed
  have "records d s st \<noteq> []" "records d' s st \<noteq> []"
    using valid [OF assms(1,2)] valid [OF assms(3,4)] assms(5,6) by auto
  then show ?thesis
    using chains_with_same_head valid [OF assms(1,2)] valid [OF assms(3,4)] assms(5) by metis
qed

subsection \<open>An example\<close>

lemma seal_total:
  assumes "is_aware t" "\<exists>x. canonical_json (JObj data) = Inr x"
  shows "\<exists>r. seal hx schema s st n prev i t data = Inr r"
proof -
  obtain ts where ts: "isoformat_z t = Inr ts" using assms(1) isoformat_z_Inr_iff by blast
  let ?b = "[(''schema'', JStr schema), (''tenant_id'', JStr (uuid_str (sc_tenant s))),
     (''workspace_id'', JStr (uuid_str (sc_workspace s))), (''stream_kind'', JStr (stream_value st)),
     (''sequence'', JInt n), (''previous_hash'', jopt prev), (''created_at'', JStr ts), (''data'', JObj data)]"
  have "json_floats (JObj ?b) = json_floats (JObj data)"
    by (cases prev) (auto simp: jopt_def)
  then have "\<exists>x. canonical_json (JObj ?b) = Inr x"
    using assms(2) unfolding canonical_json_ok_iff by (simp only:)
  then obtain x where "canonical_json (JObj ?b) = Inr x" by (elim exE)
  then have sha: "sha256_json hx (JObj ?b) = Inr (hx x)" by (simp only: sha256_json_def rbind_simps)
  show ?thesis unfolding seal_def mk_basis_def ts rbind_simps sha by blast
qed

definition example_scope :: scope where
  "example_scope = \<lparr>sc_tenant = 1, sc_workspace = 2\<rparr>"

text \<open>A database with one workspace and one record in its receipt stream.\<close>

definition one_record :: "row \<Rightarrow> db" where
  "one_record r = (empty_db True)\<lparr>
     d_workspaces := [\<lparr>w_id = uuid_str 2, w_tenant = uuid_str 1, w_slug = ''main'', w_name = ''Main'',
                       w_at = Aware 0\<rparr>],
     d_heads := [\<lparr>h_tenant = uuid_str 1, h_workspace = uuid_str 2, h_stream = Receipts, h_seq = 1,
                  h_hash = Some (r_hash r), h_at = Aware 0\<rparr>],
     d_receipts := [row.extend r (receipt_row.fields ''k'' ''t'' ''i'' ''MEASURED'' (JObj []) ''h'' [])]\<rparr>"

lemma one_record_valid:
  assumes "seal hx schema example_scope Receipts 1 None i t data = Inr r"
  shows "stream_of ''receipts'' = Inr Receipts" "assert_scope (one_record r) example_scope = Inr ()"
    "\<exists>h. locked_head (one_record r) example_scope Receipts = Inr h \<and> h_seq h = 1 \<and> h_hash h = Some (r_hash r)"
    "records (one_record r) example_scope Receipts = [r]"
    "\<exists>v. verify_chain hx (one_record r) example_scope ''receipts'' = Inr v \<and> cv_valid v \<and>
         cv_head v = Some (r_hash r)"
proof -
  note seal = seal_chained [OF assms]
  show kind: "stream_of ''receipts'' = Inr Receipts"
    using stream_of_value [of Receipts] by simp
  show ws: "assert_scope (one_record r) example_scope = Inr ()"
    by (simp add: assert_scope_def find_workspace_def one_record_def empty_db_def example_scope_def)
  show head: "\<exists>h. locked_head (one_record r) example_scope Receipts = Inr h \<and> h_seq h = 1 \<and>
      h_hash h = Some (r_hash r)"
    by (simp add: locked_head_def one_record_def empty_db_def example_scope_def head_key_def scope_key_def)
  have trunc: "row.truncate (row.extend r m) = r" for m
    by (simp add: row.truncate_def row.extend_def)
  have "in_scope example_scope (row.extend r m) = in_scope example_scope r" for m
    by (simp add: in_scope_def row.extend_def)
  then show recs: "records (one_record r) example_scope Receipts = [r]"
    using seal(2) by (simp add: records_def one_record_def trunc)
  have "verify_rows hx example_scope Receipts 1 None [r] = Inr (None, Some (r_hash r))"
    using seal(1) by (simp add: verify_rows_iff)
  then show "\<exists>v. verify_chain hx (one_record r) example_scope ''receipts'' = Inr v \<and> cv_valid v \<and>
      cv_head v = Some (r_hash r)"
    using kind ws head recs by (auto simp: verify_chain_def)
qed

lemma example_record: "\<exists>r. seal id ''s'' example_scope Receipts 1 None 7 (Aware 0) [] = Inr r"
  by (rule seal_total) (simp_all add: canonical_json_def)

theorem verify_chain_exact_witness:
  "\<exists>r. seal id ''s'' example_scope Receipts 1 None 7 (Aware 0) [] = Inr r \<and>
       (\<exists>v. verify_chain id (one_record r) example_scope ''receipts'' = Inr v \<and> cv_valid v)"
proof -
  obtain r where r: "seal id ''s'' example_scope Receipts 1 None 7 (Aware 0) [] = Inr r"
    using example_record by blast
  note ok = one_record_valid [OF r]
  obtain h where h: "locked_head (one_record r) example_scope Receipts = Inr h" "h_seq h = 1"
    "h_hash h = Some (r_hash r)" using ok(3) by blast
  have "\<exists>v. verify_chain id (one_record r) example_scope ''receipts'' = Inr v \<and> cv_valid v"
    using verify_chain_exact [OF ok(1,2) h(1), of id] seal_chained(1) [OF r] h(2,3) by (simp add: ok(4))
  with r show ?thesis by blast
qed

theorem verified_head_fixes_history_witness:
  "\<exists>r. list_all2 same_basis (records (one_record r) example_scope Receipts)
                            (records (one_record r) example_scope Receipts)"
proof -
  obtain r where r: "seal id ''s'' example_scope Receipts 1 None 7 (Aware 0) [] = Inr r"
    using example_record by blast
  note ok = one_record_valid [OF r]
  obtain v where v: "verify_chain id (one_record r) example_scope ''receipts'' = Inr v" "cv_valid v"
    "cv_head v = Some (r_hash r)" using ok(5) by blast
  have "cv_head v \<noteq> None" using v(3) by simp
  from verified_head_fixes_history [OF v(1,2) v(1,2) refl this ok(1)]
  show ?thesis unfolding bases_collide_def collision_def id_apply by metis
qed

end
