(* ===== verification/Receipts_Store.thy ===== *)
theory Receipts_Store
  imports Ledger
begin

section \<open>Receipts and idempotent appends (store.py)\<close>

text \<open>
  \<open>append_receipt\<close> with its transaction, its idempotency claim and its recovery after an
  integrity error, and the two reads.  Arguments that stand for the environment: \<open>hx\<close> is
  SHA-256, \<open>clock\<close> is \<open>utc_now()\<close>, \<open>u1\<close> and \<open>u2\<close> are the results of \<open>uuid4()\<close>, and \<open>dr\<close>
  is the database the recovery session reads, which other writers may have changed.  A digest is
  never the empty string, so \<open>if key\_digest:\<close> is the case of a key.
\<close>

definition idempotency_basis :: "scope \<Rightarrow> string \<Rightarrow> string" where
  "idempotency_basis s key =
     ''szl.lyte.idempotency/v1'' @ [CHR 0x00] @ uuid_str (sc_tenant s) @ [CHR 0x00] @
     uuid_str (sc_workspace s) @ [CHR 0x00] @ key"

definition idempotency_digest :: "(string \<Rightarrow> string) \<Rightarrow> scope \<Rightarrow> string \<Rightarrow> string res" where
  "idempotency_digest hx s key =
     guard_else (16 \<le> length key \<and> length key \<le> 256 \<and> \<not> list_all py_isspace key)
       (ValueError ''idempotency key must contain 16-256 characters'')
       (Inr (hx (idempotency_basis s key)))"

definition receipt_request_digest :: "(string \<Rightarrow> string) \<Rightarrow> receipt_draft \<Rightarrow> string res" where
  "receipt_request_digest hx d =
     sha256_json hx (JObj
       [(''kind'', JStr (rd_kind d)), (''subject_type'', JStr (rd_subject_type d)),
        (''subject_id'', JStr (rd_subject_id d)), (''payload'', JObj (rd_payload d)),
        (''truth_label'', JStr (label_value (rd_label d))), (''evidence_refs'', jstrs (rd_refs d))])"

definition find_idem :: "db \<Rightarrow> scope \<Rightarrow> string \<Rightarrow> idem_row option" where
  "find_idem d s key = List.find (\<lambda>r. in_scope s r \<and> im_key r = key) (d_idems d)"

definition find_receipt :: "db \<Rightarrow> scope \<Rightarrow> string \<Rightarrow> receipt_row option" where
  "find_receipt d s hash = List.find (\<lambda>r. in_scope s r \<and> r_hash r = hash) (d_receipts d)"

definition resolve_idempotent_receipt :: "db \<Rightarrow> scope \<Rightarrow> idem_row \<Rightarrow> string \<Rightarrow> receipt_row res" where
  "resolve_idempotent_receipt d s rec request =
     guard_else (im_request rec = request)
       (IdempotencyConflict ''idempotency key was already used for a different request'')
       (case find_receipt d s (im_response rec) of
          None \<Rightarrow> Inl (PersistenceError ''idempotency record references a missing receipt'')
        | Some r \<Rightarrow> Inr r)"

definition receipt_data :: "receipt_draft \<Rightarrow> string \<Rightarrow> (string \<times> json) list" where
  "receipt_data d psha =
     [(''kind'', JStr (rd_kind d)), (''subject_type'', JStr (rd_subject_type d)),
      (''subject_id'', JStr (rd_subject_id d)), (''truth_label'', JStr (label_value (rd_label d))),
      (''payload'', JObj (rd_payload d)), (''payload_sha256'', JStr psha),
      (''evidence_refs'', jstrs (rd_refs d))]"

definition receipt_of :: "row \<Rightarrow> receipt_draft \<Rightarrow> string \<Rightarrow> receipt_row" where
  "receipt_of b d psha = row.extend b (receipt_row.fields (rd_kind d) (rd_subject_type d)
     (rd_subject_id d) (label_value (rd_label d)) (JObj (rd_payload d)) psha (rd_refs d))"

text \<open>A new receipt at the head of its stream, and the database with the head advanced over it.\<close>

definition new_receipt ::
  "(string \<Rightarrow> string) \<Rightarrow> db \<Rightarrow> scope \<Rightarrow> receipt_draft \<Rightarrow> datetime \<Rightarrow> uuid \<Rightarrow> (receipt_row \<times> db) res" where
  "new_receipt hx d s draft t u =
     rbind (locked_head d s Receipts) (\<lambda>h.
     rbind (sha256_json hx (JObj (rd_payload draft))) (\<lambda>psha.
     rbind (seal hx ''szl.lyte.receipt/v1'' s Receipts (h_seq h + 1) (h_hash h) u t
             (receipt_data draft psha)) (\<lambda>b.
       Inr (receipt_of b draft psha, advance_head d s Receipts (r_seq b) (r_hash b) t))))"

definition idem_data :: "string \<Rightarrow> string \<Rightarrow> string \<Rightarrow> (string \<times> json) list" where
  "idem_data key request response =
     [(''key_digest'', JStr key), (''request_digest'', JStr request),
      (''response_receipt_hash'', JStr response)]"

definition append_idempotency ::
  "(string \<Rightarrow> string) \<Rightarrow> db \<Rightarrow> scope \<Rightarrow> string \<Rightarrow> string \<Rightarrow> string \<Rightarrow> datetime \<Rightarrow> uuid \<Rightarrow>
   (idem_row \<times> db) res" where
  "append_idempotency hx d s key request response t u =
     rbind (locked_head d s Idempotency) (\<lambda>h.
     rbind (seal hx ''szl.lyte.idempotency-record/v1'' s Idempotency (h_seq h + 1) (h_hash h) u t
             (idem_data key request response)) (\<lambda>b.
       Inr (row.extend b (idem_row.fields key request response),
            advance_head d s Idempotency (r_seq b) (r_hash b) t)))"

text \<open>The body of the transaction.\<close>

definition receipt_tx ::
  "(string \<Rightarrow> string) \<Rightarrow> db \<Rightarrow> scope \<Rightarrow> receipt_draft \<Rightarrow> string option \<Rightarrow> string \<Rightarrow> datetime \<Rightarrow>
   uuid \<Rightarrow> uuid \<Rightarrow> (receipt_row \<times> db) res" where
  "receipt_tx hx d s draft kd request t u1 u2 =
     rbind (assert_scope d s) (\<lambda>_.
       case (case kd of None \<Rightarrow> None | Some k \<Rightarrow> find_idem d s k) of
         Some rec \<Rightarrow> rbind (resolve_idempotent_receipt d s rec request) (\<lambda>r. Inr (r, d))
       | None \<Rightarrow>
           rbind (new_receipt hx d s draft t u1) (\<lambda>(r, d1).
             case kd of
               None \<Rightarrow> rbind (add_receipt d1 r) (\<lambda>d2. Inr (r, d2))
             | Some k \<Rightarrow>
                 rbind (append_idempotency hx d1 s k request (r_hash r) t u2) (\<lambda>(i, d2).
                 rbind (add_receipt d2 r) (\<lambda>d3.
                 rbind (add_idem d3 i) (\<lambda>d4. Inr (r, d4))))))"

definition receipt_recovery ::
  "db \<Rightarrow> scope \<Rightarrow> string option \<Rightarrow> string \<Rightarrow> (receipt_row \<times> db) res" where
  "receipt_recovery dr s kd request =
     (case (case kd of None \<Rightarrow> None | Some k \<Rightarrow> find_idem dr s k) of
        Some rec \<Rightarrow> rbind (resolve_idempotent_receipt dr s rec request) (\<lambda>r. Inr (r, dr))
      | None \<Rightarrow> Inl (PersistenceError ''receipt append conflicted with concurrent state''))"

definition key_digest_of :: "(string \<Rightarrow> string) \<Rightarrow> scope \<Rightarrow> string option \<Rightarrow> string option res" where
  "key_digest_of hx s key =
     (case key of None \<Rightarrow> Inr None
      | Some k \<Rightarrow> rbind (idempotency_digest hx s k) (\<lambda>x. Inr (Some x)))"

text \<open>The transaction with its \<open>except IntegrityError\<close> handler.\<close>

definition receipt_attempt ::
  "(string \<Rightarrow> string) \<Rightarrow> db \<Rightarrow> db \<Rightarrow> scope \<Rightarrow> receipt_draft \<Rightarrow> string option \<Rightarrow> string \<Rightarrow> datetime \<Rightarrow>
   uuid \<Rightarrow> uuid \<Rightarrow> (receipt_row \<times> db) res" where
  "receipt_attempt hx d dr s draft kd request t u1 u2 =
     (let tx = receipt_tx hx d s draft kd request t u1 u2 in
      if tx = Inl IntegrityError then receipt_recovery dr s kd request else tx)"

definition append_receipt ::
  "(string \<Rightarrow> string) \<Rightarrow> db \<Rightarrow> db \<Rightarrow> scope \<Rightarrow> receipt_draft \<Rightarrow> string option \<Rightarrow> datetime option \<Rightarrow>
   datetime \<Rightarrow> uuid \<Rightarrow> uuid \<Rightarrow> (receipt_row \<times> db) res" where
  "append_receipt hx d dr s draft key created clock u1 u2 =
     (let t = (case created of None \<Rightarrow> clock | Some c \<Rightarrow> c) in
      rbind (receipt_request_digest hx draft) (\<lambda>request.
      rbind (key_digest_of hx s key) (\<lambda>kd.
        receipt_attempt hx d dr s draft kd request t u1 u2)))"

definition hex64_ok :: "string \<Rightarrow> bool" where
  "hex64_ok s = (length s = 64 \<and> list_all (\<lambda>c. c \<in> set ''0123456789abcdef'') s)"

definition get_receipt :: "db \<Rightarrow> scope \<Rightarrow> string \<Rightarrow> receipt_row option res" where
  "get_receipt d s hash =
     guard_else (hex64_ok hash) (ValueError ''record_hash must be a lowercase SHA-256 digest'')
       (rbind (assert_scope d s) (\<lambda>_. Inr (find_receipt d s hash)))"

definition list_receipts :: "db \<Rightarrow> scope \<Rightarrow> int \<Rightarrow> int \<Rightarrow> receipt_row list res" where
  "list_receipts d s limit offset =
     guard_else (1 \<le> limit \<and> limit \<le> 500) (ValueError ''limit must be between 1 and 500'')
    (guard_else (0 \<le> offset \<and> offset \<le> 100000) (ValueError ''offset must be between 0 and 100000'')
    (rbind (assert_scope d s) (\<lambda>_.
       Inr (page_of (nat offset) (nat limit) (sort_key r_seq (filter (in_scope s) (d_receipts d)))))))"

subsection \<open>Lemmas\<close>

lemma truncate_extend [simp]: "row.truncate (row.extend b m) = b"
  by (simp add: row.truncate_def row.extend_def)

lemma extend_fields [simp]:
  "r_id (row.extend b m) = r_id b" "r_tenant (row.extend b m) = r_tenant b"
  "r_workspace (row.extend b m) = r_workspace b" "r_seq (row.extend b m) = r_seq b"
  "r_prev (row.extend b m) = r_prev b" "r_hash (row.extend b m) = r_hash b"
  "r_basis (row.extend b m) = r_basis b" "r_at (row.extend b m) = r_at b"
  by (simp_all add: row.extend_def)

lemma in_scope_extend [simp]: "in_scope s (row.extend b m) = in_scope s b"
  by (simp add: in_scope_def)

lemma advance_head_fields [simp]:
  "d_sqlite (advance_head d s st q x t) = d_sqlite d"
  "d_tenants (advance_head d s st q x t) = d_tenants d"
  "d_workspaces (advance_head d s st q x t) = d_workspaces d"
  "d_receipts (advance_head d s st q x t) = d_receipts d"
  "d_idems (advance_head d s st q x t) = d_idems d"
  "d_memories (advance_head d s st q x t) = d_memories d"
  "d_traces (advance_head d s st q x t) = d_traces d"
  "d_opers (advance_head d s st q x t) = d_opers d"
  by (simp_all add: advance_head_def)

lemma add_receipt_Inr:
  "add_receipt d r = Inr d' \<longleftrightarrow> row_fits d no_clash (d_receipts d) r \<and> d' = d\<lparr>d_receipts := d_receipts d @ [r]\<rparr>"
  by (auto simp: add_receipt_def guard_else_Inr_iff)

lemma add_idem_Inr:
  "add_idem d r = Inr d' \<longleftrightarrow> row_fits d idem_clash (d_idems d) r \<and> d' = d\<lparr>d_idems := d_idems d @ [r]\<rparr>"
  by (auto simp: add_idem_def guard_else_Inr_iff)

text \<open>One sealed record put at the end of one table and the head advanced over it.\<close>

lemma single_push:
  assumes h: "locked_head d s st = Inr h"
    and b: "seal hx schema s st (h_seq h + 1) (h_hash h) u t data = Inr b"
    and rows: "\<And>st'. stream_rows d' st' = stream_rows d st' @ (if st' = st then [b] else [])"
    and rest: "d_sqlite d' = d_sqlite d" "d_tenants d' = d_tenants d" "d_workspaces d' = d_workspaces d"
    and heads: "d_heads d' = d_heads (advance_head d s st (r_seq b) (r_hash b) t)"
  shows "pushes hx d s st [b] d'"
proof -
  note seal = seal_chained [OF b]
  have "h_seq h + int (length [b]) = r_seq b" using seal(3) by simp
  then show ?thesis
    unfolding pushes_def using h seal(1,2) rows rest heads by force
qed

lemma new_receipt_push:
  assumes "new_receipt hx d s draft t u = Inr (r, d1)"
  shows "pushes hx d s Receipts [row.truncate r] (d1\<lparr>d_receipts := d_receipts d1 @ [r]\<rparr>)"
    "d_receipts d1 = d_receipts d" "d_idems d1 = d_idems d" "in_scope s r"
    "d_workspaces d1 = d_workspaces d" "find_idem d1 s k = find_idem d s k"
proof -
  obtain h psha b where h: "locked_head d s Receipts = Inr h"
    and b: "seal hx ''szl.lyte.receipt/v1'' s Receipts (h_seq h + 1) (h_hash h) u t
              (receipt_data draft psha) = Inr b"
    and r: "r = receipt_of b draft psha" and d1: "d1 = advance_head d s Receipts (r_seq b) (r_hash b) t"
    using assms by (auto simp: new_receipt_def rbind_Inr_iff)
  show "pushes hx d s Receipts [row.truncate r] (d1\<lparr>d_receipts := d_receipts d1 @ [r]\<rparr>)"
    unfolding r receipt_of_def truncate_extend
  proof (rule single_push [OF h b])
    show "stream_rows (d1\<lparr>d_receipts := d_receipts d1 @ [row.extend b m]\<rparr>) st' =
        stream_rows d st' @ (if st' = Receipts then [b] else [])" for st' m
      by (cases st') (simp_all add: d1)
  qed (simp_all add: d1)
  show "in_scope s r" using seal_chained(2) [OF b] by (simp add: r receipt_of_def)
qed (use assms in \<open>auto simp: new_receipt_def rbind_Inr_iff find_idem_def\<close>)

lemma append_idempotency_push:
  assumes "append_idempotency hx d s k req resp t u = Inr (i, d1)"
  shows "pushes hx d s Idempotency [row.truncate i] (d1\<lparr>d_idems := d_idems d1 @ [i]\<rparr>)"
    "d_receipts d1 = d_receipts d" "d_idems d1 = d_idems d" "in_scope s i"
    "im_key i = k" "im_request i = req" "im_response i = resp"
proof -
  obtain h b where h: "locked_head d s Idempotency = Inr h"
    and b: "seal hx ''szl.lyte.idempotency-record/v1'' s Idempotency (h_seq h + 1) (h_hash h) u t
              (idem_data k req resp) = Inr b"
    and i: "i = row.extend b (idem_row.fields k req resp)"
    and d1: "d1 = advance_head d s Idempotency (r_seq b) (r_hash b) t"
    using assms by (auto simp: append_idempotency_def rbind_Inr_iff)
  show "pushes hx d s Idempotency [row.truncate i] (d1\<lparr>d_idems := d_idems d1 @ [i]\<rparr>)"
    unfolding i truncate_extend
  proof (rule single_push [OF h b])
    show "stream_rows (d1\<lparr>d_idems := d_idems d1 @ [row.extend b m]\<rparr>) st' =
        stream_rows d st' @ (if st' = Idempotency then [b] else [])" for st' m
      by (cases st') (simp_all add: d1)
  qed (simp_all add: d1)
  show "in_scope s i" using seal_chained(2) [OF b] by (simp add: i)
  show "im_key i = k" "im_request i = req" "im_response i = resp"
    by (simp_all add: i row.extend_def idem_row.fields_def)
qed (use assms in \<open>auto simp: append_idempotency_def rbind_Inr_iff\<close>)

text \<open>The head of one stream does not depend on rows of another table.\<close>

lemma append_idempotency_rows:
  "append_idempotency hx (d\<lparr>d_receipts := rs\<rparr>) s k req resp t u =
   map_sum id (\<lambda>(i, d1). (i, d1\<lparr>d_receipts := rs\<rparr>)) (append_idempotency hx d s k req resp t u)"
  by (auto simp: append_idempotency_def locked_head_def advance_head_def rbind_def
      split: sum.splits option.splits)

text \<open>What a successful transaction did: a replay, a plain append, or an append with a claim.\<close>

inductive receipt_effect ::
  "(string \<Rightarrow> string) \<Rightarrow> db \<Rightarrow> scope \<Rightarrow> string option \<Rightarrow> string \<Rightarrow> receipt_row \<Rightarrow> db \<Rightarrow> bool"
  for hx d s where
  replay: "find_idem d s k = Some rec \<Longrightarrow> im_request rec = request \<Longrightarrow>
           find_receipt d s (im_response rec) = Some r \<Longrightarrow> receipt_effect hx d s (Some k) request r d"
| plain: "pushes hx d s Receipts [row.truncate r] d' \<Longrightarrow> d_receipts d' = d_receipts d @ [r] \<Longrightarrow>
          row_fits d no_clash (d_receipts d) r \<Longrightarrow> d_idems d' = d_idems d \<Longrightarrow>
          in_scope s r \<Longrightarrow> receipt_effect hx d s None request r d'"
| claimed: "find_idem d s k = None \<Longrightarrow> pushes hx d s Receipts [row.truncate r] dm \<Longrightarrow>
            pushes hx dm s Idempotency [row.truncate i] d' \<Longrightarrow>
            d_receipts d' = d_receipts d @ [r] \<Longrightarrow> row_fits d no_clash (d_receipts d) r \<Longrightarrow>
            d_idems d' = d_idems d @ [i] \<Longrightarrow> in_scope s r \<Longrightarrow> in_scope s i \<Longrightarrow>
            im_key i = k \<Longrightarrow> im_request i = request \<Longrightarrow> im_response i = r_hash r \<Longrightarrow>
            receipt_effect hx d s (Some k) request r d'"

lemma row_fits_workspaces:
  "d_workspaces d = d_workspaces d' \<Longrightarrow> row_fits d clash rows r = row_fits d' clash rows r"
  by (simp add: row_fits_def scope_exists_def)

lemma receipt_tx_effect:
  assumes "receipt_tx hx d s draft kd request t u1 u2 = Inr (r, d')"
  shows "assert_scope d s = Inr () \<and> receipt_effect hx d s kd request r d'"
proof -
  have ws: "assert_scope d s = Inr ()"
    using assms by (auto simp: receipt_tx_def rbind_Inr_iff)
  show ?thesis
  proof (cases "case kd of None \<Rightarrow> None | Some k \<Rightarrow> find_idem d s k")
    case (Some rec)
    then obtain k where k: "kd = Some k" "find_idem d s k = Some rec" by (cases kd) auto
    with assms ws Some have "resolve_idempotent_receipt d s rec request = Inr r" "d' = d"
      by (auto simp: receipt_tx_def rbind_Inr_iff)
    then show ?thesis
      using ws k by (auto simp: resolve_idempotent_receipt_def guard_else_Inr_iff
          intro: receipt_effect.replay split: option.splits)
  next
    case None
    with assms ws obtain r1 d1 where nr: "new_receipt hx d s draft t u1 = Inr (r1, d1)"
      and rest: "(case kd of None \<Rightarrow> rbind (add_receipt d1 r1) (\<lambda>d2. Inr (r1, d2))
         | Some k \<Rightarrow> rbind (append_idempotency hx d1 s k request (r_hash r1) t u2) (\<lambda>(i, d2).
             rbind (add_receipt d2 r1) (\<lambda>d3. rbind (add_idem d3 i) (\<lambda>d4. Inr (r1, d4))))) = Inr (r, d')"
      by (auto simp: receipt_tx_def rbind_Inr_iff)
    note push = new_receipt_push [OF nr]
    show ?thesis
    proof (cases kd)
      case kd: None
      then have "r1 = r" "row_fits d no_clash (d_receipts d) r" "d' = d1\<lparr>d_receipts := d_receipts d1 @ [r]\<rparr>"
        using rest push(2) row_fits_workspaces [OF push(5)] by (auto simp: rbind_Inr_iff add_receipt_Inr)
      then show ?thesis using ws push kd by (auto intro: receipt_effect.plain)
    next
      case kd: (Some k)
      from rest kd obtain i d2 d3 where
        ai: "append_idempotency hx d1 s k request (r_hash r1) t u2 = Inr (i, d2)"
        and ar: "add_receipt d2 r1 = Inr d3" and add: "add_idem d3 i = Inr d'" and "r1 = r"
        by (auto simp: rbind_Inr_iff)
      note ip = append_idempotency_push [OF ai]
      let ?dm = "d1\<lparr>d_receipts := d_receipts d1 @ [r]\<rparr>"
      have "append_idempotency hx ?dm s k request (r_hash r1) t u2 =
          Inr (i, d2\<lparr>d_receipts := d_receipts d1 @ [r]\<rparr>)"
        by (simp add: append_idempotency_rows ai)
      from append_idempotency_push(1) [OF this]
      have "pushes hx ?dm s Idempotency [row.truncate i] d'"
        using ar add ip(2) \<open>r1 = r\<close> by (simp add: add_receipt_Inr add_idem_Inr)
      moreover have "row_fits d no_clash (d_receipts d) r"
      proof -
        have "d_workspaces d2 = d_workspaces d"
          using ip(1) push(5) by (simp add: pushes_def)
        then have "row_fits d2 no_clash (d_receipts d) r = row_fits d no_clash (d_receipts d) r"
          by (rule row_fits_workspaces)
        then show ?thesis
          using ar ip(2) push(2) \<open>r1 = r\<close> by (simp add: add_receipt_Inr)
      qed
      ultimately show ?thesis
        using ws None kd push ip ar add \<open>r1 = r\<close>
        by (auto intro!: receipt_effect.claimed simp: add_receipt_Inr add_idem_Inr)
    qed
  qed
qed

lemma pushes_workspace: "pushes hx d s st rs d' \<Longrightarrow> has_workspace d' s' = has_workspace d s'"
  by (simp add: pushes_def has_workspace_def scope_exists_def)

lemma receipt_effect_inv:
  assumes "receipt_effect hx d s kd request r d'" "db_inv hx d" "has_workspace d s"
  shows "db_inv hx d'"
  using assms
proof cases
  case (claimed k dm i)
  from push_inv [OF assms(2,3) claimed(3)] pushes_workspace [OF claimed(3)] assms(3)
  show ?thesis using push_inv [OF _ _ claimed(4)] by blast
next
  case (plain)
  then show ?thesis using push_inv [OF assms(2,3)] by simp
qed (use assms in simp)

lemma find_snoc: "List.find P (xs @ [x]) =
    (case List.find P xs of Some y \<Rightarrow> Some y | None \<Rightarrow> if P x then Some x else None)"
  by (induction xs) auto

lemma receipt_effect_replays:
  assumes "receipt_effect hx d s (Some k) request r d'"
  shows "\<exists>rec. find_idem d' s k = Some rec \<and> im_request rec = request \<and>
               find_receipt d' s (im_response rec) = Some r"
  using assms
proof cases
  case (replay rec)
  then show ?thesis by auto
next
  case (claimed dm i)
  have idem: "find_idem d' s k = Some i"
    using claimed by (simp add: find_idem_def find_snoc)
  have "List.find (\<lambda>x. in_scope s x \<and> r_hash x = r_hash r) (d_receipts d) = None"
    using claimed(5,7) by (auto simp: find_None_iff row_fits_def list_all_iff in_scope_def)
  then have "find_receipt d' s (r_hash r) = Some r"
    using claimed(4,7) by (simp add: find_receipt_def find_snoc)
  with idem claimed(10,11) show ?thesis by simp
qed

text \<open>A stored claim shows that its scope exists.\<close>

lemma idem_scope:
  assumes inv: "db_inv hx d" and "find_idem d s k = Some rec"
  shows "assert_scope d s = Inr ()"
proof -
  have "rec \<in> set (d_idems d)" "in_scope s rec"
    using assms(2) by (auto simp: find_idem_def find_Some_iff)
  then have "row.truncate rec \<in> set (stream_rows d Idempotency)" by simp
  then have "has_workspace d s"
    using inv \<open>in_scope s rec\<close> unfolding db_inv_def has_workspace_def in_scope_def
    by (metis truncate_fields(2,3))
  then show ?thesis using inv assert_scope_iff [of d s] by (simp add: db_inv_def)
qed

lemma append_receipt_cases:
  assumes "append_receipt hx d dr s draft key created clock u1 u2 = Inr (r, d')"
  obtains request kd where "receipt_request_digest hx draft = Inr request"
    "key_digest_of hx s key = Inr kd" "assert_scope d s = Inr ()" "receipt_effect hx d s kd request r d'"
  | request k rec where "receipt_request_digest hx draft = Inr request"
    "key_digest_of hx s key = Inr (Some k)" "find_idem dr s k = Some rec"
    "receipt_effect hx dr s (Some k) request r dr" "d' = dr"
proof -
  define t where "t = (case created of None \<Rightarrow> clock | Some c \<Rightarrow> c)"
  obtain request where q1: "receipt_request_digest hx draft = Inr request"
    using assms by (cases "receipt_request_digest hx draft") (simp_all add: append_receipt_def)
  obtain kd where q2: "key_digest_of hx s key = Inr kd"
    using assms q1 by (cases "key_digest_of hx s key") (simp_all add: append_receipt_def)
  note q = q1 q2
  have tx: "receipt_attempt hx d dr s draft kd request t u1 u2 = Inr (r, d')"
    using assms by (simp add: append_receipt_def q t_def)
  show thesis
  proof (cases "receipt_tx hx d s draft kd request t u1 u2 = Inl IntegrityError")
    case True
    with tx have rec: "receipt_recovery dr s kd request = Inr (r, d')"
      by (simp add: receipt_attempt_def)
    then obtain k where k: "kd = Some k"
      by (cases kd) (simp_all add: receipt_recovery_def)
    with rec obtain row where row: "find_idem dr s k = Some row"
      and res: "resolve_idempotent_receipt dr s row request = Inr r" and "d' = dr"
      by (cases "find_idem dr s k"; cases "resolve_idempotent_receipt dr s (the (find_idem dr s k)) request")
         (simp_all add: receipt_recovery_def)
    from res have "im_request row = request" "find_receipt dr s (im_response row) = Some r"
      by (simp_all add: resolve_idempotent_receipt_def guard_else_Inr_iff split: option.splits)
    from receipt_effect.replay [OF row this]
    have "receipt_effect hx dr s (Some k) request r dr" .
    with q k row \<open>d' = dr\<close> show thesis using that(2) by blast
  next
    case False
    with tx have "receipt_tx hx d s draft kd request t u1 u2 = Inr (r, d')"
      by (simp add: receipt_attempt_def)
    from receipt_tx_effect [OF this] q show thesis using that(1) by blast
  qed
qed

lemma append_receipt_inv:
  assumes "append_receipt hx d dr s draft key created clock u1 u2 = Inr (r, d')"
    and "db_inv hx d" "db_inv hx dr"
  shows "db_inv hx d'"
  using assms(1)
proof (cases rule: append_receipt_cases)
  case 1
  then show ?thesis using receipt_effect_inv db_invD(1) assms(2) by blast
next
  case 2
  then show ?thesis using assms(3) by simp
qed

subsection \<open>Properties\<close>

text \<open>C15: Appends with an idempotency key are idempotent.  Once an append with a key has
  returned a receipt, whether it wrote it, replayed it or recovered from a race, every later call
  with the same key in the same scope, at any time and with any identifiers, returns that same
  receipt and changes nothing if its request has the same digest, and raises
  \<open>IdempotencyConflict\<close> if its digest is another.\<close>

theorem append_receipt_idempotent:
  assumes inv: "db_inv hx d" "db_inv hx dr"
    and first: "append_receipt hx d dr s draft (Some key) c clk u1 u2 = Inr (r, d')"
    and again: "receipt_request_digest hx draft2 = Inr q2"
  shows "append_receipt hx d' dr2 s draft2 (Some key) c2 clk2 u3 u4 =
         (if receipt_request_digest hx draft = Inr q2 then Inr (r, d')
          else Inl (IdempotencyConflict ''idempotency key was already used for a different request''))"
proof -
  have key: "kd = Some k" if "key_digest_of hx s (Some key) = Inr kd" "idempotency_digest hx s key = Inr k" for kd k
    using that by (simp add: key_digest_of_def)
  have some: "\<exists>k. kd = Some k" if "key_digest_of hx s (Some key) = Inr kd" for kd
    using that by (auto simp: key_digest_of_def rbind_Inr_iff)
  obtain q k rec where q: "receipt_request_digest hx draft = Inr q"
    and k: "key_digest_of hx s (Some key) = Inr (Some k)"
    and rec: "find_idem d' s k = Some rec" "im_request rec = q" "find_receipt d' s (im_response rec) = Some r"
    using first
  proof (cases rule: append_receipt_cases)
    case (1 request kd)
    then obtain k where "kd = Some k" using some by blast
    then show thesis using 1 receipt_effect_replays that by blast
  next
    case (2 request k rec)
    then show thesis using receipt_effect_replays that by blast
  qed
  have inv': "db_inv hx d'" by (rule append_receipt_inv [OF first inv])
  have ws: "assert_scope d' s = Inr ()" by (rule idem_scope [OF inv' rec(1)])
  have "receipt_tx hx d' s draft2 (Some k) q2 t u3 u4 =
      (if q = q2 then Inr (r, d')
       else Inl (IdempotencyConflict ''idempotency key was already used for a different request''))" for t
    using ws rec by (simp add: receipt_tx_def resolve_idempotent_receipt_def)
  then show ?thesis
    using again k q by (simp add: append_receipt_def receipt_attempt_def)
qed

subsection \<open>An example\<close>

text \<open>A database with one empty workspace.\<close>

definition fresh_db :: db where
  "fresh_db = (empty_db True)\<lparr>
     d_tenants := [\<lparr>t_id = uuid_str 1, t_slug = ''acme'', t_name = ''Acme'', t_at = Aware 0\<rparr>],
     d_workspaces := [\<lparr>w_id = uuid_str 2, w_tenant = uuid_str 1, w_slug = ''main'', w_name = ''Main'',
                       w_at = Aware 0\<rparr>],
     d_heads := map (\<lambda>st. \<lparr>h_tenant = uuid_str 1, h_workspace = uuid_str 2, h_stream = st, h_seq = 0,
                  h_hash = None, h_at = Aware 0\<rparr>) stream_kinds\<rparr>"

lemma fresh_db_scope: "assert_scope fresh_db example_scope = Inr ()"
  by (simp add: assert_scope_def find_workspace_def fresh_db_def example_scope_def)

lemma fresh_db_head:
  "locked_head fresh_db example_scope st =
     Inr \<lparr>h_tenant = uuid_str 1, h_workspace = uuid_str 2, h_stream = st, h_seq = 0, h_hash = None, h_at = Aware 0\<rparr>"
  by (cases st) (simp_all add: locked_head_def fresh_db_def stream_kinds_def head_key_def scope_key_def
      example_scope_def)

lemma fresh_db_rows [simp]:
  "stream_rows fresh_db st = []" "d_receipts fresh_db = []" "d_idems fresh_db = []"
  by (cases st) (simp_all add: fresh_db_def empty_db_def)

lemma fresh_db_inv: "db_inv hx fresh_db"
proof -
  have ws: "has_workspace fresh_db s \<longleftrightarrow> s = example_scope" for s
    by (auto simp: has_workspace_def scope_exists_def fresh_db_def example_scope_def intro: scope.equality)
  have "stream_inv hx fresh_db example_scope st" for st
    by (simp add: stream_inv_def fresh_db_head)
  moreover have "scope_exists fresh_db (h_tenant h) (h_workspace h)" if "h \<in> set (d_heads fresh_db)" for h
    using that by (auto simp: fresh_db_def scope_exists_def)
  moreover have "distinct (map w_id (d_workspaces fresh_db))" by (simp add: fresh_db_def)
  ultimately show ?thesis unfolding db_inv_def ws fresh_db_rows by simp
qed

definition example_draft :: receipt_draft where
  "example_draft = \<lparr>rd_kind = ''note'', rd_subject_type = ''service'', rd_subject_id = ''api'',
     rd_payload = [], rd_label = MEASURED, rd_refs = []\<rparr>"

definition example_key :: string where
  "example_key = ''abcdefghijklmnop''"

lemma sha256_json_ok: "json_floats j = {} \<Longrightarrow> \<exists>x. sha256_json hx j = Inr x"
  using canonical_json_total [of j] by (auto simp: sha256_json_def)

lemma new_receipt_fresh: "\<exists>r d1. new_receipt hx fresh_db example_scope example_draft (Aware 0) u = Inr (r, d1)"
proof -
  obtain psha where psha: "sha256_json hx (JObj []) = Inr psha"
    using sha256_json_ok [of "JObj []"] by auto
  have "\<exists>x. canonical_json (JObj (receipt_data example_draft psha)) = Inr x"
    by (rule canonical_json_total) (simp add: receipt_data_def jstrs_def example_draft_def)
  from seal_total [OF _ this, of "Aware 0" hx "''szl.lyte.receipt/v1''" example_scope Receipts 1 None u]
  obtain b where "seal hx ''szl.lyte.receipt/v1'' example_scope Receipts 1 None u (Aware 0)
      (receipt_data example_draft psha) = Inr b" by auto
  then show ?thesis
    using psha by (simp add: new_receipt_def fresh_db_head) (simp add: example_draft_def)
qed

lemma append_idempotency_fresh:
  assumes "locked_head d example_scope Idempotency = Inr h"
  shows "\<exists>i d1. append_idempotency hx d example_scope k req resp (Aware 0) u = Inr (i, d1)"
proof -
  have "\<exists>x. canonical_json (JObj (idem_data k req resp)) = Inr x"
    by (rule canonical_json_total) (simp add: idem_data_def)
  from seal_total [OF _ this, of "Aware 0" hx "''szl.lyte.idempotency-record/v1''" example_scope
      Idempotency "h_seq h + 1" "h_hash h" u]
  show ?thesis using assms by (auto simp: append_idempotency_def)
qed

lemma append_receipt_fresh:
  "\<exists>r d'. append_receipt hx fresh_db fresh_db example_scope example_draft (Some example_key) None
            (Aware 0) u1 u2 = Inr (r, d')"
proof -
  obtain q where q: "receipt_request_digest hx example_draft = Inr q"
    unfolding receipt_request_digest_def
    by (rule exE [OF sha256_json_ok]) (auto simp: example_draft_def jstrs_def)
  obtain k where k: "key_digest_of hx example_scope (Some example_key) = Inr (Some k)"
    by (simp add: key_digest_of_def idempotency_digest_def example_key_def py_isspace_def code_def)
  obtain r d1 where nr: "new_receipt hx fresh_db example_scope example_draft (Aware 0) u1 = Inr (r, d1)"
    using new_receipt_fresh by blast
  obtain n x where d1: "d1 = advance_head fresh_db example_scope Receipts n x (Aware 0)"
    using nr by (auto simp: new_receipt_def rbind_Inr_iff)
  have "\<exists>h. locked_head d1 example_scope Idempotency = Inr h"
    by (simp add: d1 locked_head_advance fresh_db_head)
  then obtain i d2 where ai: "append_idempotency hx d1 example_scope k q (r_hash r) (Aware 0) u2 = Inr (i, d2)"
    using append_idempotency_fresh by blast
  note push = new_receipt_push [OF nr] and ipush = append_idempotency_push [OF ai]
  have ws: "d_workspaces d2 = d_workspaces fresh_db"
    using ipush(1) push(5) by (simp add: pushes_def)
  have sc: "scope_exists fresh_db (uuid_str 1) (uuid_str 2)"
    by (simp add: scope_exists_def fresh_db_def)
  have fits: "row_fits d2 no_clash [] r" "row_fits (d2\<lparr>d_receipts := [r]\<rparr>) idem_clash [] i"
    using push(4) ipush(4) ws sc
    by (simp_all add: row_fits_def in_scope_def example_scope_def scope_exists_def)
  have none: "find_idem fresh_db example_scope k = None" by (simp add: find_idem_def)
  have "receipt_tx hx fresh_db example_scope example_draft (Some k) q (Aware 0) u1 u2 =
      Inr (r, d2\<lparr>d_receipts := [r], d_idems := [i]\<rparr>)"
    using push(2,3) ipush(2,3) fits
    by (simp add: receipt_tx_def fresh_db_scope none nr ai add_receipt_def add_idem_def)
  then show ?thesis by (simp add: append_receipt_def receipt_attempt_def q k)
qed

theorem append_receipt_idempotent_witness:
  "\<exists>r d'. append_receipt id fresh_db fresh_db example_scope example_draft (Some example_key) None
            (Aware 0) 7 8 = Inr (r, d') \<and>
          append_receipt id d' d' example_scope example_draft (Some example_key) None
            (Aware 99) 9 10 = Inr (r, d')"
proof -
  obtain r d' where first: "append_receipt id fresh_db fresh_db example_scope example_draft
      (Some example_key) None (Aware 0) 7 8 = Inr (r, d')"
    using append_receipt_fresh by blast
  then obtain q where q: "receipt_request_digest id example_draft = Inr q"
    by (auto simp: append_receipt_def rbind_Inr_iff)
  from append_receipt_idempotent [OF fresh_db_inv fresh_db_inv first q] first q show ?thesis by auto
qed

end
