(* ===== verification/SecondBrain.thy ===== *)
theory SecondBrain
  imports Contracts
begin

section \<open>Second Brain contracts (lyte/governance/second_brain.py)\<close>

text \<open>
  The input contract of the enterprise memory.  A draft holds a bounded summary and evidence
  references; session material and raw content are refused at every depth of its metadata.
\<close>

datatype memory_kind = OBSERVATION | APPROVED_KNOWLEDGE

fun memory_kind_value :: "memory_kind \<Rightarrow> string" where
  "memory_kind_value OBSERVATION = ''OBSERVATION''"
| "memory_kind_value APPROVED_KNOWLEDGE = ''APPROVED_KNOWLEDGE''"

definition subject_dims :: "string list" where
  "subject_dims = [''service'', ''journey'', ''outcome'', ''incident'', ''decision'']"

definition non_memory_fields :: "string list" where
  "non_memory_fields = [''scopedigest'', ''sessiondigest'', ''sessionhash'', ''rawprompt'', ''rawresponse'']"

definition is_session_key :: "string \<Rightarrow> bool" where
  "is_session_key key = (filter slug_char (py_lower key) \<in> set non_memory_fields)"

fun assert_summary_metadata :: "json \<Rightarrow> unit res"
and summary_items :: "(string \<times> json) list \<Rightarrow> unit res"
and summary_elems :: "json list \<Rightarrow> unit res" where
  "assert_summary_metadata (JObj kvs) = summary_items kvs"
| "assert_summary_metadata (JList xs) = summary_elems xs"
| "assert_summary_metadata _ = Inr ()"
| "summary_items [] = Inr ()"
| "summary_items ((k, v) # kvs) =
     (if is_session_key k
      then Inl (ValueError (''session and raw content fields are forbidden in memory: '' @ k))
      else rbind (assert_summary_metadata v) (\<lambda>_. summary_items kvs))"
| "summary_elems [] = Inr ()"
| "summary_elems (x # xs) = rbind (assert_summary_metadata x) (\<lambda>_. summary_elems xs)"

lemma assert_summary_iff:
  "assert_summary_metadata j = Inr () \<longleftrightarrow> (\<forall>k \<in> json_keys j. \<not> is_session_key k)"
  "summary_items kvs = Inr () \<longleftrightarrow> (\<forall>k \<in> json_keys (JObj kvs). \<not> is_session_key k)"
  "summary_elems xs = Inr () \<longleftrightarrow> (\<forall>k \<in> json_keys (JList xs). \<not> is_session_key k)"
  by (induction j and kvs and xs rule: assert_summary_metadata_summary_items_summary_elems.induct)
     (auto simp: res_simps ball_Un)

subsection \<open>Partitions\<close>

definition nul :: string where
  "nul = [CHR 0x00]"

text \<open>\<open>^[A-Za-z0-9._~-]{32,512}$\<close>\<close>

definition scope_token_ok :: "string \<Rightarrow> bool" where
  "scope_token_ok t = (32 \<le> length t \<and> length t \<le> 512 \<and>
                       list_all (\<lambda>c. is_alnum c \<or> c \<in> set ''._~-'') t)"

definition scope_token_basis :: "scope \<Rightarrow> string \<Rightarrow> string" where
  "scope_token_basis s token =
     ''szl.lyte.second-brain.scope/v1'' @ nul @ uuid_str (sc_tenant s) @ nul @
     uuid_str (sc_workspace s) @ nul @ token"

definition digest_scope_token :: "(string \<Rightarrow> string) \<Rightarrow> scope \<Rightarrow> string \<Rightarrow> string res" where
  "digest_scope_token hx s token =
     guard_else (scope_token_ok token)
       (ValueError ''scope token must be a caller-held 32-512 character high-entropy token'')
       (Inr (hx (scope_token_basis s token)))"

definition partition_basis :: "scope \<Rightarrow> string" where
  "partition_basis s =
     ''szl.lyte.enterprise-memory.partition/v1'' @ nul @ uuid_str (sc_tenant s) @ nul @
     uuid_str (sc_workspace s)"

definition enterprise_memory_partition :: "(string \<Rightarrow> string) \<Rightarrow> scope \<Rightarrow> string" where
  "enterprise_memory_partition hx s = hx (partition_basis s)"

subsection \<open>Drafts\<close>

record memory_draft =
  md_kind :: memory_kind
  md_summary :: string
  md_label :: truth_label
  md_refs :: "string list"
  md_subjects :: "string list"
  md_dims :: "(string \<times> string list) list"
  md_meta :: "(string \<times> json) list"

fun mk_dimensions ::
  "(string \<times> string list) list \<Rightarrow> (string \<times> string list) list \<Rightarrow> (string \<times> string list) list res" where
  "mk_dimensions acc [] = Inr acc"
| "mk_dimensions acc ((raw, vals) # rest) =
     (let dim = py_lower (strip raw); vs = clean_refs vals in
      guard_else (dim \<in> set subject_dims)
        (ValueError (''unsupported memory subject dimension: '' @ dim))
     (guard_else (length vs \<le> 100)
        (ValueError (''memory subject dimension '' @ dim @ '' permits at most 100 values''))
     (guard_else (list_all identifier_ok vs)
        (ValueError (''memory subject dimension '' @ dim @ '' contains an invalid identifier''))
     (mk_dimensions (if vs = [] then acc else aset acc dim vs) rest))))"

definition mk_memory_draft :: "memory_draft \<Rightarrow> memory_draft res" where
  "mk_memory_draft d =
     (let summary = squeeze (md_summary d);
          refs = clean_refs (md_refs d);
          subjects = dedup (map squeeze (filter (\<lambda>s. strip s \<noteq> []) (md_subjects d))) in
      guard_else (summary \<noteq> [] \<and> length summary \<le> 2000)
        (ValueError ''memory summary must contain 1-2000 characters'')
     (guard_else (refs \<noteq> []) (ValueError ''memory records require at least one evidence reference'')
     (guard_else (length refs \<le> 64 \<and> list_all (\<lambda>r. length r \<le> 512) refs)
        (ValueError ''memory evidence references must be bounded to 64 x 512 characters'')
     (guard_else (\<not> (md_kind d = APPROVED_KNOWLEDGE \<and> md_label d \<in> {SAMPLE, ROADMAP, UNAVAILABLE}))
        (ValueError ''approved knowledge cannot be SAMPLE, ROADMAP, or UNAVAILABLE'')
     (guard_else (length subjects \<le> 100)
        (ValueError ''memory records permit at most 100 subjects'')
     (rbind (mk_dimensions [] (md_dims d)) (\<lambda>dims.
      guard_else (alookup (md_meta d) ''subject_dimensions'' = None)
        (ValueError ''memory.metadata.subject_dimensions is reserved'')
     (rbind (assert_no_sensitive_keys ''memory.metadata'' (JObj (md_meta d))) (\<lambda>_.
      rbind (assert_summary_metadata (JObj (md_meta d))) (\<lambda>_.
        Inr (d\<lparr>md_summary := summary, md_refs := refs, md_subjects := subjects,
               md_dims := dims\<rparr>)))))))))))"

definition dims_ok :: "(string \<times> string list) list \<Rightarrow> bool" where
  "dims_ok dims \<longleftrightarrow>
     distinct (map fst dims) \<and>
     (\<forall>(k, vs) \<in> set dims. k \<in> set subject_dims \<and> vs \<noteq> [] \<and> length vs \<le> 100 \<and> list_all identifier_ok vs)"

definition memory_draft_ok :: "memory_draft \<Rightarrow> bool" where
  "memory_draft_ok d \<longleftrightarrow>
     md_summary d \<noteq> [] \<and> length (md_summary d) \<le> 2000 \<and>
     md_refs d \<noteq> [] \<and> length (md_refs d) \<le> 64 \<and> (\<forall>r \<in> set (md_refs d). length r \<le> 512) \<and>
     (md_kind d = APPROVED_KNOWLEDGE \<longrightarrow> md_label d \<notin> {SAMPLE, ROADMAP, UNAVAILABLE}) \<and>
     length (md_subjects d) \<le> 100 \<and> dims_ok (md_dims d) \<and>
     (\<forall>k \<in> json_keys (JObj (md_meta d)). \<not> is_sensitive_key k \<and> \<not> is_session_key k)"

subsection \<open>Lemmas\<close>

lemma set_aset: "set (aset d k v) \<subseteq> insert (k, v) (set d)"
  by (induction d k v rule: aset.induct) auto

lemma mk_dimensions_ok:
  "mk_dimensions acc raw = Inr dims \<Longrightarrow> dims_ok acc \<Longrightarrow> dims_ok dims"
proof (induction acc raw rule: mk_dimensions.induct)
  case (2 acc raw vals rest)
  let ?dim = "py_lower (strip raw)" and ?vs = "clean_refs vals"
  have step: "?dim \<in> set subject_dims" "length ?vs \<le> 100" "list_all identifier_ok ?vs"
    and rest: "mk_dimensions (if ?vs = [] then acc else aset acc ?dim ?vs) rest = Inr dims"
    using "2.prems"(1) by (simp_all add: Let_def guard_else_Inr_iff)
  have "dims_ok (if ?vs = [] then acc else aset acc ?dim ?vs)"
    using "2.prems"(2) step set_aset [of acc ?dim ?vs]
    unfolding dims_ok_def by (auto intro: distinct_aset)
  with "2.IH" [OF refl refl rest] show ?case by simp
qed simp

subsection \<open>Properties\<close>

text \<open>C34: Every memory draft that the constructor accepts is bounded and summary-only: its
  summary is non-empty and at most 2000 characters, it cites between 1 and 64 evidence
  references of at most 512 characters, approved knowledge is never SAMPLE, ROADMAP or
  UNAVAILABLE, every subject dimension is one of the five admitted ones, named once, with 1 to
  100 valid identifiers, and no metadata key at any depth names a credential, a session digest
  or raw content.\<close>

theorem memory_draft_contract:
  assumes "mk_memory_draft raw = Inr d"
  shows "memory_draft_ok d"
proof -
  have dims: "dims_ok dims" if "mk_dimensions [] (md_dims raw) = Inr dims" for dims
    using mk_dimensions_ok [OF that] by (simp add: dims_ok_def)
  show ?thesis
    using assms dims
    unfolding mk_memory_draft_def memory_draft_ok_def
    by (auto simp: Let_def guard_else_Inr_iff rbind_Inr_iff assert_no_sensitive_iff
          assert_summary_iff list_all_iff)
qed

definition example_memory :: memory_draft where
  "example_memory = \<lparr>md_kind = APPROVED_KNOWLEDGE, md_summary = ''  cache  warm '',
     md_label = MEASURED, md_refs = ['' r1 '', ''r1''], md_subjects = [''api''],
     md_dims = [('' Service '', [''api''])], md_meta = [(''note'', JStr ''ok'')]\<rparr>"

theorem memory_draft_contract_witness:
  "\<exists>d. mk_memory_draft example_memory = Inr d \<and> memory_draft_ok d"
proof -
  have "mk_memory_draft example_memory =
    Inr (example_memory\<lparr>md_summary := ''cache warm'', md_refs := [''r1''],
                        md_dims := [(''service'', [''api''])]\<rparr>)"
    by code_simp
  with memory_draft_contract show ?thesis by blast
qed

lemma uuid_str_length [simp]: "length (uuid_str u) = 36"
  by (simp add: uuid_str_def Let_def uuid_hex_def)

lemma partition_basis_inj: "partition_basis a = partition_basis b \<longleftrightarrow> a = b"
proof
  assume "partition_basis a = partition_basis b"
  then have "uuid_str (sc_tenant a) = uuid_str (sc_tenant b) \<and>
             uuid_str (sc_workspace a) = uuid_str (sc_workspace b)"
    by (simp add: partition_basis_def append_eq_append_conv)
  then show "a = b" by simp
qed simp

lemma scope_token_basis_inj: "scope_token_basis a t = scope_token_basis b u \<longleftrightarrow> a = b \<and> t = u"
proof
  assume "scope_token_basis a t = scope_token_basis b u"
  then have "uuid_str (sc_tenant a) = uuid_str (sc_tenant b) \<and>
             uuid_str (sc_workspace a) = uuid_str (sc_workspace b) \<and> t = u"
    by (simp add: scope_token_basis_def append_eq_append_conv)
  then show "a = b \<and> t = u" by simp
qed simp

text \<open>Two scopes share a memory partition exactly if they are the same scope or the hash
  collides on their two partition bases; two accepted scope tokens have the same digest exactly if
  scope and token are the same or the hash collides on their bases; and a token digest equals
  a memory partition only by such a collision, since the two uses are domain-separated.\<close>

theorem partitions_separate:
  assumes "scope_token_ok t" and "scope_token_ok u"
  shows "(enterprise_memory_partition hx a = enterprise_memory_partition hx b \<longleftrightarrow>
            a = b \<or> collision hx (partition_basis a) (partition_basis b)) \<and>
         (digest_scope_token hx a t = digest_scope_token hx b u \<longleftrightarrow>
            (a, t) = (b, u) \<or> collision hx (scope_token_basis a t) (scope_token_basis b u)) \<and>
         (digest_scope_token hx a t = Inr (enterprise_memory_partition hx b) \<longleftrightarrow>
            collision hx (scope_token_basis a t) (partition_basis b))"
proof -
  have "scope_token_basis a t \<noteq> partition_basis b"
    by (simp add: scope_token_basis_def partition_basis_def)
  with assms show ?thesis
    by (auto simp: partition_basis_inj scope_token_basis_inj enterprise_memory_partition_def
          digest_scope_token_def collision_def)
qed

definition example_token :: string where
  "example_token = ''0123456789abcdef0123456789abcdef''"

theorem partitions_separate_witness:
  "digest_scope_token id \<lparr>sc_tenant = 1, sc_workspace = 2\<rparr> example_token \<noteq>
   digest_scope_token id \<lparr>sc_tenant = 1, sc_workspace = 3\<rparr> example_token"
proof -
  have "scope_token_ok example_token" by code_simp
  from partitions_separate [OF this this, of id] show ?thesis
    by (simp add: collision_def)
qed

end
