(* ===== verification/Anatomy.thy ===== *)
theory Anatomy
  imports Contracts
begin

section \<open>Living Anatomy traces (lyte/domain/anatomy.py)\<close>

text \<open>
  A trace is a span of work in one organ.  \<open>mk_trace\<close> is the dataclass constructor,
  \<open>trace_start\<close> and \<open>trace_finish\<close> are the two operations; a trace goes from STARTED to one
  of the terminal states once.  The arguments \<open>fresh\<close> and \<open>clock\<close> stand for \<open>uuid4()\<close> and
  \<open>utc_now()\<close>.
\<close>

datatype organ = SOURCE | SIGNAL | CORRELATION | REASONING | TRUST_GATE | RECEIPT_BUS
  | SECOND_BRAIN | EGRESS

fun organ_value :: "organ \<Rightarrow> string" where
  "organ_value SOURCE = ''source''"
| "organ_value SIGNAL = ''signal''"
| "organ_value CORRELATION = ''correlation''"
| "organ_value REASONING = ''reasoning''"
| "organ_value TRUST_GATE = ''trust_gate''"
| "organ_value RECEIPT_BUS = ''receipt_bus''"
| "organ_value SECOND_BRAIN = ''second_brain''"
| "organ_value EGRESS = ''egress''"

datatype trace_state = STARTED | COMPLETED | FAILED | STATE_UNAVAILABLE

fun trace_state_value :: "trace_state \<Rightarrow> string" where
  "trace_state_value STARTED = ''STARTED''"
| "trace_state_value COMPLETED = ''COMPLETED''"
| "trace_state_value FAILED = ''FAILED''"
| "trace_state_value STATE_UNAVAILABLE = ''UNAVAILABLE''"

record trace =
  tr_scope :: scope
  tr_trace_id :: uuid
  tr_span_id :: uuid
  tr_organ :: organ
  tr_operation :: string
  tr_state :: trace_state
  tr_label :: truth_label
  tr_started :: datetime
  tr_parent :: "uuid option"
  tr_completed :: "datetime option"
  tr_input :: "string option"
  tr_output :: "string option"
  tr_attrs :: "(string \<times> json) list"

text \<open>\<open>^[0-9a-f]{64}$\<close>\<close>

definition sha256_ok :: "string \<Rightarrow> bool" where
  "sha256_ok s = (length s = 64 \<and> list_all lower_hex s)"

definition opt_digest_ok :: "string option \<Rightarrow> bool" where
  "opt_digest_ok d = (case d of None \<Rightarrow> True | Some s \<Rightarrow> sha256_ok s)"

text \<open>The check of \<open>completed_at\<close> when it is present.\<close>

definition check_completed :: "datetime \<Rightarrow> datetime option \<Rightarrow> unit res" where
  "check_completed started completed =
     (case completed of None \<Rightarrow> Inr ()
      | Some c \<Rightarrow> rbind (isoformat_z c) (\<lambda>_.
          guard_else (\<not> micros c < micros started)
            (ValueError ''completed_at cannot precede started_at'') (Inr ())))"

definition mk_trace :: "trace \<Rightarrow> trace res" where
  "mk_trace t =
     guard_else (name_ok (tr_operation t))
       (ValueError ''operation must match ^[a-z][a-z0-9_.:-]{0,127}$'')
    (rbind (isoformat_z (tr_started t)) (\<lambda>_.
     rbind (check_completed (tr_started t) (tr_completed t)) (\<lambda>_.
     guard_else (\<not> (tr_state t = STARTED \<and> tr_completed t \<noteq> None))
       (ValueError ''STARTED traces cannot have completed_at'')
    (guard_else (\<not> (tr_state t \<noteq> STARTED \<and> tr_completed t = None))
       (ValueError ''terminal traces require completed_at'')
    (guard_else (opt_digest_ok (tr_input t))
       (ValueError ''input_sha256 must be a lowercase SHA-256 digest'')
    (guard_else (opt_digest_ok (tr_output t))
       (ValueError ''output_sha256 must be a lowercase SHA-256 digest'')
    (rbind (assert_no_sensitive_keys ''attributes'' (JObj (tr_attrs t))) (\<lambda>_.
       Inr t))))))))"

definition or_else :: "'a option \<Rightarrow> 'a \<Rightarrow> 'a" where
  "or_else x d = (case x of None \<Rightarrow> d | Some v \<Rightarrow> v)"

definition trace_start ::
  "scope \<Rightarrow> organ \<Rightarrow> string \<Rightarrow> uuid option \<Rightarrow> uuid option \<Rightarrow> truth_label \<Rightarrow> string option \<Rightarrow>
   (string \<times> json) list option \<Rightarrow> datetime option \<Rightarrow> uuid \<Rightarrow> uuid \<Rightarrow> datetime \<Rightarrow> trace res" where
  "trace_start scope organ op trace_id parent label inp attrs now fresh1 fresh2 clock =
     mk_trace \<lparr>tr_scope = scope, tr_trace_id = or_else trace_id fresh1, tr_span_id = fresh2,
               tr_organ = organ, tr_operation = op, tr_state = STARTED, tr_label = label,
               tr_started = or_else now clock, tr_parent = parent, tr_completed = None,
               tr_input = inp, tr_output = None, tr_attrs = or_else attrs []\<rparr>"

text \<open>\<open>{**old, **new}\<close>\<close>

definition merge_dict :: "('k \<times> 'v) list \<Rightarrow> ('k \<times> 'v) list \<Rightarrow> ('k \<times> 'v) list" where
  "merge_dict old new = fold (\<lambda>(k, v) d. aset d k v) new old"

definition trace_finish ::
  "trace \<Rightarrow> trace_state \<Rightarrow> truth_label option \<Rightarrow> string option \<Rightarrow>
   (string \<times> json) list option \<Rightarrow> datetime option \<Rightarrow> datetime \<Rightarrow> trace res" where
  "trace_finish t state label out attrs now clock =
     guard_else (tr_state t = STARTED) (ValueError ''only STARTED traces can be finished'')
    (guard_else (state \<noteq> STARTED) (ValueError ''finish requires a terminal state'')
    (mk_trace (t\<lparr>tr_state := state, tr_label := or_else label (tr_label t),
                 tr_completed := Some (or_else now clock), tr_output := out,
                 tr_attrs := merge_dict (tr_attrs t) (or_else attrs [])\<rparr>)))"

definition trace_to_dict :: "trace \<Rightarrow> json res" where
  "trace_to_dict t =
     rbind (isoformat_z (tr_started t)) (\<lambda>s.
     rbind (iso_opt (tr_completed t)) (\<lambda>c.
       Inr (JObj (scope_to_dict (tr_scope t) @
         [(''trace_id'', JStr (uuid_str (tr_trace_id t))),
          (''span_id'', JStr (uuid_str (tr_span_id t))),
          (''parent_span_id'', case tr_parent t of None \<Rightarrow> JNull | Some p \<Rightarrow> JStr (uuid_str p)),
          (''organ'', JStr (organ_value (tr_organ t))),
          (''operation'', JStr (tr_operation t)),
          (''state'', JStr (trace_state_value (tr_state t))),
          (''truth_label'', JStr (label_value (tr_label t))),
          (''started_at'', JStr s),
          (''completed_at'', c),
          (''input_sha256'', jopt (tr_input t)),
          (''output_sha256'', jopt (tr_output t)),
          (''attributes'', JObj (tr_attrs t))]))))"

definition trace_ok :: "trace \<Rightarrow> bool" where
  "trace_ok t \<longleftrightarrow>
     name_ok (tr_operation t) \<and> is_aware (tr_started t) \<and>
     (tr_state t = STARTED \<longleftrightarrow> tr_completed t = None) \<and>
     (\<forall>c. tr_completed t = Some c \<longrightarrow> is_aware c \<and> micros (tr_started t) \<le> micros c) \<and>
     opt_digest_ok (tr_input t) \<and> opt_digest_ok (tr_output t) \<and>
     (\<forall>k \<in> json_keys (JObj (tr_attrs t)). \<not> is_sensitive_key k)"

subsection \<open>Lemmas\<close>

lemma check_completed_Inr:
  "check_completed s c = Inr () \<longleftrightarrow> (\<forall>d. c = Some d \<longrightarrow> is_aware d \<and> micros s \<le> micros d)"
proof (cases c)
  case (Some d)
  then show ?thesis
    using isoformat_z_Inr_iff [of d]
    by (cases d) (auto simp: check_completed_def guard_else_Inr_iff)
qed (simp add: check_completed_def)

text \<open>The constructor accepts exactly the well-formed traces and keeps their fields.\<close>

lemma mk_trace_Inr_iff: "mk_trace t = Inr t' \<longleftrightarrow> t' = t \<and> trace_ok t"
proof -
  have "(\<exists>s. isoformat_z d = Inr s) \<longleftrightarrow> is_aware d" for d by (rule isoformat_z_Inr_iff)
  then show ?thesis
    unfolding mk_trace_def trace_ok_def
    by (auto simp: guard_else_Inr_iff rbind_Inr_iff check_completed_Inr assert_no_sensitive_iff)
qed

lemma merge_dict_lookup:
  "alookup (merge_dict old new) k = (case alookup (rev new) k of None \<Rightarrow> alookup old k | Some v \<Rightarrow> Some v)"
proof (induction new arbitrary: old)
  case Nil
  then show ?case by (simp add: merge_dict_def)
next
  case (Cons kv new)
  obtain k' v where kv: "kv = (k', v)" by (cases kv)
  have app: "alookup (xs @ [(k', v)]) k =
      (case alookup xs k of None \<Rightarrow> if k' = k then Some v else None | Some w \<Rightarrow> Some w)" for xs
    by (induction xs) auto
  have "merge_dict old (kv # new) = merge_dict (aset old k' v) new"
    by (simp add: merge_dict_def kv)
  then show ?case
    using Cons.IH [of "aset old k' v"] by (simp add: kv app split: option.splits)
qed

subsection \<open>Life cycle\<close>

text \<open>
  The traces the program can hold: a successful start, or a successful finish of one of
  them.
\<close>

inductive trace_reachable :: "trace \<Rightarrow> bool" where
  started: "trace_start scope organ op tid parent label inp attrs now f1 f2 clock = Inr t \<Longrightarrow>
            trace_reachable t"
| finished: "trace_reachable t \<Longrightarrow> trace_finish t state label out attrs now clock = Inr t' \<Longrightarrow>
             trace_reachable t'"

lemma trace_finish_Inr:
  "trace_finish t state label out attrs now clock = Inr t' \<longleftrightarrow>
     tr_state t = STARTED \<and> state \<noteq> STARTED \<and> trace_ok t' \<and>
     t' = t\<lparr>tr_state := state, tr_label := or_else label (tr_label t),
            tr_completed := Some (or_else now clock), tr_output := out,
            tr_attrs := merge_dict (tr_attrs t) (or_else attrs [])\<rparr>"
  unfolding trace_finish_def by (auto simp: guard_else_Inr_iff mk_trace_Inr_iff)

subsection \<open>Properties\<close>

text \<open>Every trace that can be built by starting and finishing is well formed (aware
  timestamps, completion present exactly in a terminal state and never before the start, digests
  of 64 lowercase hexadecimal characters, no sensitive attribute at any depth), is accepted
  again by the constructor unchanged, and serialises without raising.\<close>

theorem reachable_traces_ok:
  assumes "trace_reachable t"
  shows "trace_ok t \<and> mk_trace t = Inr t \<and> (\<exists>j. trace_to_dict t = Inr j)"
proof -
  have ok: "trace_ok t"
    using assms by cases (auto simp: trace_start_def mk_trace_Inr_iff trace_finish_Inr)
  then have "\<exists>s. isoformat_z (tr_started t) = Inr s" "\<exists>j. iso_opt (tr_completed t) = Inr j"
    by (auto simp: isoformat_z_Inr_iff iso_opt_Inr_iff trace_ok_def)
  then show ?thesis
    using ok by (auto simp: mk_trace_Inr_iff trace_to_dict_def)
qed

text \<open>A trace is finished at most once and only forward: finishing succeeds only on a
  STARTED trace and yields a terminal one with the same scope, trace and span identifiers,
  parent, organ, operation, start time and input digest, in which every new attribute is set
  and every other old attribute is kept; finishing the result again, in any way, raises.\<close>

theorem finish_is_final:
  assumes "trace_finish t state label out attrs now clock = Inr t'"
  shows "tr_state t = STARTED \<and> tr_state t' = state \<and> state \<noteq> STARTED \<and>
         tr_scope t' = tr_scope t \<and> tr_trace_id t' = tr_trace_id t \<and>
         tr_span_id t' = tr_span_id t \<and> tr_parent t' = tr_parent t \<and> tr_organ t' = tr_organ t \<and>
         tr_operation t' = tr_operation t \<and> tr_started t' = tr_started t \<and>
         tr_input t' = tr_input t \<and>
         alookup (tr_attrs t') k =
           (case alookup (rev (or_else attrs [])) k of None \<Rightarrow> alookup (tr_attrs t) k
            | Some v \<Rightarrow> Some v) \<and>
         trace_finish t' state2 label2 out2 attrs2 now2 clock2 =
           Inl (ValueError ''only STARTED traces can be finished'')"
proof -
  have "tr_state t = STARTED" "state \<noteq> STARTED"
    and t': "t' = t\<lparr>tr_state := state, tr_label := or_else label (tr_label t),
      tr_completed := Some (or_else now clock), tr_output := out,
      tr_attrs := merge_dict (tr_attrs t) (or_else attrs [])\<rparr>"
    using assms unfolding trace_finish_Inr by auto
  then show ?thesis by (simp add: merge_dict_lookup trace_finish_def)
qed

definition example_span :: trace where
  "example_span = \<lparr>tr_scope = \<lparr>sc_tenant = 1, sc_workspace = 2\<rparr>, tr_trace_id = 3, tr_span_id = 4,
     tr_organ = SIGNAL, tr_operation = ''ingest'', tr_state = STARTED, tr_label = MEASURED,
     tr_started = Aware 10, tr_parent = None, tr_completed = None, tr_input = None,
     tr_output = None, tr_attrs = []\<rparr>"

lemma example_started:
  "trace_start \<lparr>sc_tenant = 1, sc_workspace = 2\<rparr> SIGNAL ''ingest'' None None MEASURED None None
     None 3 4 (Aware 10) = Inr example_span"
  by code_simp

definition example_finished :: trace where
  "example_finished = example_span\<lparr>tr_state := COMPLETED, tr_completed := Some (Aware 12),
     tr_attrs := [(''rows'', JInt 2)]\<rparr>"

lemma example_finish:
  "trace_finish example_span COMPLETED None None (Some [(''rows'', JInt 2)]) None (Aware 12) =
   Inr example_finished"
  by code_simp

theorem reachable_traces_ok_witness:
  "trace_reachable example_finished \<and> trace_ok example_finished"
proof -
  have "trace_reachable example_finished"
    by (rule trace_reachable.finished [OF trace_reachable.started [OF example_started] example_finish])
  with reachable_traces_ok show ?thesis by blast
qed

theorem finish_is_final_witness:
  "tr_state example_finished = COMPLETED \<and>
   trace_finish example_finished FAILED None None None None (Aware 20) =
     Inl (ValueError ''only STARTED traces can be finished'')"
  using finish_is_final [OF example_finish] by blast

end
