(* ===== verification/Memory_Store.thy ===== *)
theory Memory_Store
  imports Receipts_Store SecondBrain Anatomy
begin

section \<open>Durable memory and anatomy traces (store.py)\<close>

text \<open>
  \<open>append_memory\<close>, \<open>list_memory\<close> and \<open>append_anatomy_trace\<close>.  A memory record cites a
  receipt of its own scope with a compatible truth label; a memory query reads a bounded window
  of candidates, newest first, and says when the window was too small.
\<close>

subsection \<open>Appending memory\<close>

fun compatible_labels :: "truth_label \<Rightarrow> string list" where
  "compatible_labels MEASURED = [''MEASURED'']"
| "compatible_labels REPORTED = [''MEASURED'', ''REPORTED'']"
| "compatible_labels MODELED = [''MEASURED'', ''REPORTED'', ''MODELED'']"
| "compatible_labels SAMPLE = [''SAMPLE'']"
| "compatible_labels _ = []"

definition dims_json :: "(string \<times> string list) list \<Rightarrow> json" where
  "dims_json dims = JObj (map (\<lambda>(k, vs). (k, jstrs vs)) dims)"

definition memory_metadata :: "memory_draft \<Rightarrow> (string \<times> json) list" where
  "memory_metadata d = aset (md_meta d) ''subject_dimensions'' (dims_json (md_dims d))"

definition memory_data ::
  "string \<Rightarrow> memory_draft \<Rightarrow> string list \<Rightarrow> string \<Rightarrow> (string \<times> json) list" where
  "memory_data pd d refs receipt =
     [(''partition_digest'', JStr pd), (''memory_kind'', JStr (memory_kind_value (md_kind d))),
      (''summary'', JStr (md_summary d)), (''truth_label'', JStr (label_value (md_label d))),
      (''evidence_refs'', jstrs refs), (''subjects'', jstrs (md_subjects d)),
      (''metadata'', JObj (memory_metadata d)), (''receipt_hash'', JStr receipt)]"

text \<open>A new memory record at the head of its stream, and the head advanced over it.\<close>

definition new_memory ::
  "(string \<Rightarrow> string) \<Rightarrow> db \<Rightarrow> scope \<Rightarrow> memory_draft \<Rightarrow> string list \<Rightarrow> string \<Rightarrow> datetime \<Rightarrow> uuid \<Rightarrow>
   (memory_row \<times> db) res" where
  "new_memory hx d s draft refs receipt t u =
     (let pd = enterprise_memory_partition hx s in
      rbind (locked_head d s Memory) (\<lambda>h.
      rbind (seal hx ''szl.lyte.memory-record/v2'' s Memory (h_seq h + 1) (h_hash h) u t
              (memory_data pd draft refs receipt)) (\<lambda>b.
        Inr (row.extend b (memory_row.fields pd (memory_kind_value (md_kind draft))
               (md_summary draft) (label_value (md_label draft)) refs (md_subjects draft)
               (JObj (memory_metadata draft)) (Some receipt)),
             advance_head d s Memory (r_seq b) (r_hash b) t))))"

definition append_memory ::
  "(string \<Rightarrow> string) \<Rightarrow> db \<Rightarrow> scope \<Rightarrow> memory_draft \<Rightarrow> string \<Rightarrow> datetime \<Rightarrow> uuid \<Rightarrow>
   (memory_row \<times> db) res" where
  "append_memory hx d s draft receipt t u =
     guard_else (hex64_ok receipt) (ValueError ''receipt_hash must be a lowercase SHA-256 digest'')
    (rbind (assert_scope d s) (\<lambda>_.
       case find_receipt d s receipt of
         None \<Rightarrow> Inl (ValueError ''memory receipt_hash does not exist in this scope'')
       | Some evidence \<Rightarrow>
           guard_else (rc_label evidence \<in> set (compatible_labels (md_label draft)))
             (ValueError ''memory truth_label is incompatible with its evidence receipt'')
          (guard_else (receipt \<in> set (md_refs draft))
             (ValueError ''memory evidence_refs must include its evidence receipt hash'')
          (rbind (new_memory hx d s draft (md_refs draft) receipt t u) (\<lambda>(m, d1).
           rbind (add_memory d1 m) (\<lambda>d2. Inr (m, d2)))))))"

subsection \<open>Querying memory\<close>

record memory_query =
  mq_kind :: "string option"
  mq_dims :: "(string \<times> string) list"
  mq_receipt :: "string option"
  mq_after :: "datetime option"
  mq_before :: "datetime option"
  mq_limit :: int
  mq_offset :: int
  mq_scan :: int

record memory_result =
  mr_items :: "memory_row list"
  mr_matched :: nat
  mr_scanned :: nat
  mr_scan_limit :: int
  mr_truncated :: bool
  mr_more :: bool

definition memory_kinds :: "string list" where
  "memory_kinds = map memory_kind_value [OBSERVATION, APPROVED_KNOWLEDGE]"

definition parse_memory_kind :: "string option \<Rightarrow> string option res" where
  "parse_memory_kind k =
     (case k of None \<Rightarrow> Inr None
      | Some v \<Rightarrow> guard_else (v \<in> set memory_kinds)
                    (ValueError (CHR 0x27 # v @ [CHR 0x27] @ '' is not a valid MemoryKind''))
                    (Inr (Some v)))"

fun parse_dimensions :: "(string \<times> string) list \<Rightarrow> (string \<times> string) list \<Rightarrow> (string \<times> string) list res" where
  "parse_dimensions acc [] = Inr acc"
| "parse_dimensions acc ((raw_dim, raw_val) # rest) =
     (let dim = py_lower (strip raw_dim); v = strip raw_val in
      guard_else (dim \<in> set subject_dims) (ValueError (''unsupported memory subject dimension: '' @ dim))
     (guard_else (v \<noteq> []) (ValueError (''memory subject dimension '' @ dim @ '' cannot be blank''))
     (parse_dimensions (aset acc dim v) rest)))"

definition opt_all :: "('a \<Rightarrow> bool) \<Rightarrow> 'a option \<Rightarrow> bool" where
  "opt_all P x = (case x of None \<Rightarrow> True | Some v \<Rightarrow> P v)"

definition check_window :: "datetime option \<Rightarrow> datetime option \<Rightarrow> unit res" where
  "check_window after before =
     guard_else (opt_all is_aware after) (ValueError ''created_after must be timezone-aware'')
    (guard_else (opt_all is_aware before) (ValueError ''created_before must be timezone-aware'')
    (guard_else (opt_all (\<lambda>b. opt_all (\<lambda>a. \<not> micros b < micros a) after) before)
       (ValueError ''created_before cannot precede created_after'') (Inr ())))"

text \<open>The rows the statement selects: the \<open>WHERE\<close> clauses, without the limit.\<close>

definition memory_selected :: "(string \<Rightarrow> string) \<Rightarrow> scope \<Rightarrow> string option \<Rightarrow> memory_query \<Rightarrow> memory_row \<Rightarrow> bool" where
  "memory_selected hx s kind q r =
     (in_scope s r \<and> mm_partition r = enterprise_memory_partition hx s \<and>
      opt_all (\<lambda>k. mm_kind r = k) kind \<and> opt_all (\<lambda>h. mm_receipt r = Some h) (mq_receipt q) \<and>
      opt_all (\<lambda>a. micros a \<le> micros (r_at r)) (mq_after q) \<and>
      opt_all (\<lambda>b. micros (r_at r) \<le> micros b) (mq_before q))"

definition dims_match :: "(string \<times> string) list \<Rightarrow> memory_row \<Rightarrow> bool" where
  "dims_match dims r =
     (case jget (mm_meta r) ''subject_dimensions'' of
        None \<Rightarrow> dims = []
      | Some (JObj stored) \<Rightarrow>
          list_all (\<lambda>(dim, v). case alookup stored dim of
                       Some (JList vs) \<Rightarrow> JStr v \<in> set vs | _ \<Rightarrow> False) dims
      | Some _ \<Rightarrow> dims = [])"

text \<open>All the rows the statement selects, in its order.\<close>

definition memory_window ::
  "(string \<Rightarrow> string) \<Rightarrow> db \<Rightarrow> scope \<Rightarrow> string option \<Rightarrow> memory_query \<Rightarrow> memory_row list" where
  "memory_window hx d s kind q = rev (sort_key r_seq (filter (memory_selected hx s kind q) (d_memories d)))"

definition list_memory ::
  "(string \<Rightarrow> string) \<Rightarrow> db \<Rightarrow> scope \<Rightarrow> memory_query \<Rightarrow> memory_result res" where
  "list_memory hx d s q =
     guard_else (1 \<le> mq_limit q \<and> mq_limit q \<le> 500) (ValueError ''limit must be between 1 and 500'')
    (guard_else (0 \<le> mq_offset q \<and> mq_offset q \<le> 1000) (ValueError ''offset must be between 0 and 1000'')
    (guard_else (1 \<le> mq_scan q \<and> mq_scan q \<le> 1000) (ValueError ''scan_limit must be between 1 and 1000'')
    (rbind (parse_memory_kind (mq_kind q)) (\<lambda>kind.
     rbind (parse_dimensions [] (mq_dims q)) (\<lambda>dims.
     guard_else (opt_all hex64_ok (mq_receipt q)) (ValueError ''receipt_hash must be a lowercase SHA-256 digest'')
    (rbind (check_window (mq_after q) (mq_before q)) (\<lambda>_.
     rbind (assert_scope d s) (\<lambda>_.
       let scan = nat (mq_scan q);
           candidates = take (scan + 1) (memory_window hx d s kind q);
           scanned = take scan candidates;
           matched = filter (dims_match dims) scanned;
           page = page_of (nat (mq_offset q)) (nat (mq_limit q)) matched in
       Inr \<lparr>mr_items = page, mr_matched = length matched, mr_scanned = length scanned,
            mr_scan_limit = mq_scan q, mr_truncated = (length candidates > scan),
            mr_more = (length matched > nat (mq_offset q) + length page)\<rparr>))))))))"

subsection \<open>Appending anatomy traces\<close>

fun jfields :: "json \<Rightarrow> (string \<times> json) list" where
  "jfields (JObj kvs) = kvs"
| "jfields _ = []"

text \<open>The row of one trace at a given place of the chain.\<close>

definition trace_record ::
  "(string \<Rightarrow> string) \<Rightarrow> scope \<Rightarrow> int \<Rightarrow> string option \<Rightarrow> datetime \<Rightarrow> trace \<Rightarrow> uuid \<Rightarrow> trace_row res" where
  "trace_record hx s n prev t tr u =
     rbind (trace_to_dict tr) (\<lambda>j.
     rbind (seal hx ''szl.lyte.anatomy-trace/v1'' s Anatomy n prev u t (jfields j)) (\<lambda>b.
       Inr (row.extend b (trace_row.fields (uuid_str (tr_trace_id tr)) (uuid_str (tr_span_id tr))
              (map_option uuid_str (tr_parent tr)) (organ_value (tr_organ tr)) (tr_operation tr)
              (trace_state_value (tr_state tr)) (label_value (tr_label tr)) (tr_started tr)
              (tr_completed tr) (tr_input tr) (tr_output tr) (JObj (tr_attrs tr))))))"

definition append_anatomy_trace ::
  "(string \<Rightarrow> string) \<Rightarrow> db \<Rightarrow> trace \<Rightarrow> datetime \<Rightarrow> uuid \<Rightarrow> (trace_row \<times> db) res" where
  "append_anatomy_trace hx d tr t u =
     (let s = tr_scope tr in
      rbind (assert_scope d s) (\<lambda>_.
      rbind (locked_head d s Anatomy) (\<lambda>h.
      rbind (trace_record hx s (h_seq h + 1) (h_hash h) t tr u) (\<lambda>r.
      rbind (add_trace (advance_head d s Anatomy (r_seq r) (r_hash r) t) r) (\<lambda>d1. Inr (r, d1))))))"

subsection \<open>Lemmas\<close>

lemma add_memory_Inr:
  "add_memory d r = Inr d' \<longleftrightarrow> row_fits d no_clash (d_memories d) r \<and> d' = d\<lparr>d_memories := d_memories d @ [r]\<rparr>"
  by (auto simp: add_memory_def guard_else_Inr_iff)

lemma add_trace_Inr:
  "add_trace d r = Inr d' \<longleftrightarrow> row_fits d no_clash (d_traces d) r \<and> d' = d\<lparr>d_traces := d_traces d @ [r]\<rparr>"
  by (auto simp: add_trace_def guard_else_Inr_iff)

lemma new_memory_push:
  assumes "new_memory hx d s draft refs receipt t u = Inr (m, d1)"
  shows "pushes hx d s Memory [row.truncate m] (d1\<lparr>d_memories := d_memories d1 @ [m]\<rparr>)"
    "d_memories d1 = d_memories d" "in_scope s m" "mm_receipt m = Some receipt" "mm_refs m = refs"
    "mm_label m = label_value (md_label draft)" "mm_partition m = enterprise_memory_partition hx s"
    "mm_meta m = JObj (memory_metadata draft)"
    "\<exists>n x. d1 = advance_head d s Memory n x t"
proof -
  obtain h :: head_row and b where h: "locked_head d s Memory = Inr h"
    and b: "seal hx ''szl.lyte.memory-record/v2'' s Memory (h_seq h + 1) (h_hash h) u t
       (memory_data (enterprise_memory_partition hx s) draft refs receipt) = Inr b"
    and m: "row.extend b (memory_row.fields (enterprise_memory_partition hx s)
       (memory_kind_value (md_kind draft)) (md_summary draft) (label_value (md_label draft)) refs
       (md_subjects draft) (JObj (memory_metadata draft)) (Some receipt)) = m"
    and d1: "advance_head d s Memory (r_seq b) (r_hash b) t = d1"
    using assms unfolding new_memory_def Let_def rbind_Inr_iff sum.inject prod.inject by blast
  have trunc: "row.truncate m = b" unfolding m [symmetric] by simp
  show "pushes hx d s Memory [row.truncate m] (d1\<lparr>d_memories := d_memories d1 @ [m]\<rparr>)"
    unfolding trunc
  proof (rule single_push [OF h b])
    show "stream_rows (d1\<lparr>d_memories := d_memories d1 @ [m]\<rparr>) st' =
        stream_rows d st' @ (if st' = Memory then [b] else [])" for st'
      by (cases st') (simp_all add: d1 [symmetric] trunc)
  qed (simp_all add: d1 [symmetric])
  show "in_scope s m" using seal_chained(2) [OF b] by (simp add: m [symmetric])
  show "d_memories d1 = d_memories d" "\<exists>n x. d1 = advance_head d s Memory n x t"
    using d1 by auto
  show "mm_receipt m = Some receipt" "mm_refs m = refs" "mm_label m = label_value (md_label draft)"
    "mm_partition m = enterprise_memory_partition hx s" "mm_meta m = JObj (memory_metadata draft)"
    by (simp_all add: m [symmetric] row.extend_def memory_row.fields_def)
qed

lemma trace_record_sealed:
  assumes "trace_record hx s n prev t tr u = Inr r"
  shows "chained hx s Anatomy n prev [row.truncate r]" "in_scope s r" "r_seq r = n"
    "tc_trace r = uuid_str (tr_trace_id tr)" "tc_span r = uuid_str (tr_span_id tr)"
proof -
  obtain j b where b: "seal hx ''szl.lyte.anatomy-trace/v1'' s Anatomy n prev u t (jfields j) = Inr b"
    and r: "row.extend b (trace_row.fields (uuid_str (tr_trace_id tr)) (uuid_str (tr_span_id tr))
              (map_option uuid_str (tr_parent tr)) (organ_value (tr_organ tr)) (tr_operation tr)
              (trace_state_value (tr_state tr)) (label_value (tr_label tr)) (tr_started tr)
              (tr_completed tr) (tr_input tr) (tr_output tr) (JObj (tr_attrs tr))) = r"
    using assms unfolding trace_record_def rbind_Inr_iff sum.inject by blast
  have trunc: "row.truncate r = b" unfolding r [symmetric] by simp
  note seal = seal_chained [OF b]
  show "chained hx s Anatomy n prev [row.truncate r]" using seal(1) by (simp only: trunc)
  show "in_scope s r" "r_seq r = n" using seal(2,3) by (simp_all add: r [symmetric])
  show "tc_trace r = uuid_str (tr_trace_id tr)" "tc_span r = uuid_str (tr_span_id tr)"
    by (simp_all add: r [symmetric] row.extend_def trace_row.fields_def)
qed

lemma append_memory_push:
  assumes "append_memory hx d s draft receipt t u = Inr (m, d')"
  shows "assert_scope d s = Inr ()" "pushes hx d s Memory [row.truncate m] d'"
    "d_memories d' = d_memories d @ [m]" "in_scope s m" "mm_receipt m = Some receipt"
    "\<exists>e \<in> set (d_receipts d). in_scope s e \<and> r_hash e = receipt \<and>
       rc_label e \<in> set (compatible_labels (md_label draft))"
    "receipt \<in> set (mm_refs m)" "mm_label m = label_value (md_label draft)"
proof -
  show ws: "assert_scope d s = Inr ()"
    using assms by (auto simp: append_memory_def guard_else_Inr_iff rbind_Inr_iff)
  obtain e where e: "find_receipt d s receipt = Some e"
    using assms ws by (cases "find_receipt d s receipt") (simp_all add: append_memory_def guard_else_Inr_iff)
  obtain d1 where lab: "rc_label e \<in> set (compatible_labels (md_label draft))"
    and ref: "receipt \<in> set (md_refs draft)"
    and nm: "new_memory hx d s draft (md_refs draft) receipt t u = Inr (m, d1)"
    and add: "add_memory d1 m = Inr d'"
    using assms ws e by (auto simp: append_memory_def guard_else_Inr_iff rbind_Inr_iff)
  note push = new_memory_push [OF nm]
  have d': "d' = d1\<lparr>d_memories := d_memories d1 @ [m]\<rparr>" using add by (simp add: add_memory_Inr)
  show "pushes hx d s Memory [row.truncate m] d'" "d_memories d' = d_memories d @ [m]"
    "in_scope s m" "mm_receipt m = Some receipt" "receipt \<in> set (mm_refs m)"
    "mm_label m = label_value (md_label draft)"
    using push ref by (simp_all add: d')
  have "e \<in> set (d_receipts d)" "in_scope s e" "r_hash e = receipt"
    using e by (auto simp: find_receipt_def find_Some_iff)
  with lab show "\<exists>e \<in> set (d_receipts d). in_scope s e \<and> r_hash e = receipt \<and>
       rc_label e \<in> set (compatible_labels (md_label draft))" by blast
qed

lemma append_anatomy_trace_push:
  assumes "append_anatomy_trace hx d tr t u = Inr (r, d')"
  shows "assert_scope d (tr_scope tr) = Inr ()" "pushes hx d (tr_scope tr) Anatomy [row.truncate r] d'"
    "d_traces d' = d_traces d @ [r]" "tc_trace r = uuid_str (tr_trace_id tr)"
proof -
  let ?s = "tr_scope tr"
  show ws: "assert_scope d ?s = Inr ()"
    using assms by (cases "assert_scope d ?s") (simp_all add: append_anatomy_trace_def Let_def)
  obtain h :: head_row where h: "locked_head d ?s Anatomy = Inr h"
    and r: "trace_record hx ?s (h_seq h + 1) (h_hash h) t tr u = Inr r"
    and add: "add_trace (advance_head d ?s Anatomy (r_seq r) (r_hash r) t) r = Inr d'"
    using assms unfolding append_anatomy_trace_def Let_def ws rbind_simps rbind_Inr_iff sum.inject prod.inject
    by blast
  note tr = trace_record_sealed [OF r]
  have d': "d' = (advance_head d ?s Anatomy (r_seq r) (r_hash r) t)\<lparr>d_traces := d_traces d @ [r]\<rparr>"
    using add by (simp add: add_trace_Inr)
  show "d_traces d' = d_traces d @ [r]" "tc_trace r = uuid_str (tr_trace_id tr)"
    using tr(4) by (simp_all add: d')
  have rows: "stream_rows d' st = stream_rows d st @ (if st = Anatomy then [row.truncate r] else [])" for st
    by (cases st) (simp_all add: d')
  have seq: "h_seq h + int (length [row.truncate r]) = r_seq r" using tr(3) by simp
  have heads: "d_heads d' = d_heads (advance_head d ?s Anatomy (h_seq h + int (length [row.truncate r]))
      (r_hash (last [row.truncate r])) t)"
    unfolding seq by (simp add: d')
  show "pushes hx d ?s Anatomy [row.truncate r] d'"
    unfolding pushes_def using h tr(1,2) rows heads by (simp add: d') blast
qed

subsection \<open>Properties\<close>


subsection \<open>An example\<close>

definition example_query :: memory_query where
  "example_query = \<lparr>mq_kind = Some ''OBSERVATION'', mq_dims = [('' Service '', ''api'')], mq_receipt = None,
     mq_after = Some (Aware 3), mq_before = None, mq_limit = 10, mq_offset = 0, mq_scan = 100\<rparr>"

definition example_note :: "int \<Rightarrow> string \<Rightarrow> memory_row" where
  "example_note n subject = \<lparr>r_id = show_int n, r_tenant = uuid_str 1, r_workspace = uuid_str 2, r_seq = n,
     r_prev = None, r_hash = show_int n, r_basis = [], r_at = Aware n,
     mm_partition = partition_basis example_scope, mm_kind = ''OBSERVATION'', mm_summary = ''s'',
     mm_label = ''MEASURED'', mm_refs = [], mm_subjects = [],
     mm_meta = JObj [(''subject_dimensions'', JObj [(''service'', jstrs [subject])])], mm_receipt = None\<rparr>"

definition example_memories :: db where
  "example_memories = fresh_db\<lparr>d_memories :=
     [example_note 2 ''api'', example_note 3 ''api'', example_note 4 ''web'', example_note 5 ''api'']\<rparr>"

lemma example_window:
  "memory_window id example_memories example_scope (Some ''OBSERVATION'') example_query =
     [example_note 5 ''api'', example_note 4 ''web'', example_note 3 ''api'']"
  by (simp add: memory_window_def example_memories_def memory_selected_def example_note_def in_scope_def
      example_scope_def enterprise_memory_partition_def example_query_def opt_all_def)

lemma example_parse:
  "parse_memory_kind (mq_kind example_query) = Inr (Some ''OBSERVATION'')"
  "parse_dimensions [] (mq_dims example_query) = Inr [(''service'', ''api'')]"
  by (simp add: parse_memory_kind_def example_query_def memory_kinds_def) code_simp


end
