(* ===== verification/Provisioning.thy ===== *)
theory Provisioning
  imports Receipts_Store
begin

section \<open>Creating tenants and workspaces (store.py)\<close>

text \<open>
  Scope creation and the idempotent provisioning of one scope with its audit receipt.  The
  clock readings of one call are \<open>clock 0\<close>, \<open>clock 1\<close>, \<dots>.  A provisioning call that meets an
  integrity error reads the committed state again and may retry once; the states it sees are
  the triple of one attempt: the transaction's, the re-read's and the retry check's.
\<close>

definition create_tenant :: "db \<Rightarrow> tenant_spec \<Rightarrow> datetime \<Rightarrow> (tenant_row \<times> db) res" where
  "create_tenant d spec t =
     (let r = \<lparr>t_id = uuid_str (tsp_id spec), t_slug = tsp_slug spec, t_name = tsp_name spec, t_at = t\<rparr>
      in rbind (add_tenant d r) (\<lambda>d'. Inr (r, d')))"

definition new_head :: "string \<Rightarrow> string \<Rightarrow> datetime \<Rightarrow> stream \<Rightarrow> head_row" where
  "new_head tenant workspace t st =
     \<lparr>h_tenant = tenant, h_workspace = workspace, h_stream = st, h_seq = 0, h_hash = None, h_at = t\<rparr>"

definition add_workspace_with_heads ::
  "db \<Rightarrow> string \<Rightarrow> workspace_spec \<Rightarrow> (nat \<Rightarrow> datetime) \<Rightarrow> (workspace_row \<times> db) res" where
  "add_workspace_with_heads d tenant spec clock =
     (let w = \<lparr>w_id = uuid_str (wsp_id spec), w_tenant = tenant, w_slug = wsp_slug spec,
               w_name = wsp_name spec, w_at = clock 0\<rparr> in
      rbind (add_workspace d w) (\<lambda>d1.
      rbind (fold_res (\<lambda>e (n, st). add_head e (new_head tenant (w_id w) (clock n) st)) d1
               (zip [1..<6] stream_kinds)) (\<lambda>d2.
        Inr (w, d2))))"

definition create_workspace :: "db \<Rightarrow> workspace_spec \<Rightarrow> (nat \<Rightarrow> datetime) \<Rightarrow> (workspace_row \<times> db) res" where
  "create_workspace d spec clock =
     guard_else (find_tenant d (uuid_str (wsp_tenant spec)) \<noteq> None)
       (ScopeNotFound ''tenant does not exist'')
       (add_workspace_with_heads d (uuid_str (wsp_tenant spec)) spec clock)"

subsection \<open>Checking stored rows\<close>

definition canonical_timestamp :: "db \<Rightarrow> datetime \<Rightarrow> string res" where
  "canonical_timestamp d t =
     (if \<not> is_aware t \<and> d_sqlite d then Inr (iso_utc (micros t))
      else map_exc (\<lambda>_. PersistenceError ''durable record has an invalid timestamp'') (isoformat_z t))"

definition invalid_basis :: "exc \<Rightarrow> exc" where
  "invalid_basis e =
     (case e of ValueError m \<Rightarrow> PersistenceError ''durable record has an invalid canonical basis''
      | TypeError m \<Rightarrow> PersistenceError ''durable record has an invalid canonical basis'' | _ \<Rightarrow> e)"

text \<open>
  The fields of a stored row against its hash basis; \<open>fromisoformat\<close> reads the canonical
  timestamp back as the aware instant.
\<close>

definition validate_projection ::
  "(string \<Rightarrow> string) \<Rightarrow> db \<Rightarrow> row \<Rightarrow> scope \<Rightarrow> string \<Rightarrow> stream \<Rightarrow> (string \<times> json) list \<Rightarrow> unit res" where
  "validate_projection hx d r s schema st data =
     rbind (map_exc invalid_basis
       (rbind (canonical_timestamp d (r_at r)) (\<lambda>_.
        rbind (mk_basis schema s st (r_seq r) (r_prev r) (Aware (micros (r_at r))) data) (\<lambda>expected.
          if in_scope s r \<and> json_eq (JObj (r_basis r)) (JObj expected)
          then rbind (sha256_json hx (JObj expected)) (\<lambda>x. Inr (x = r_hash r))
          else Inr False))))
     (\<lambda>valid. guard_else valid (PersistenceError ''durable record failed canonical projection validation'')
                (Inr ()))"

text \<open>The data fields of a stored receipt.\<close>

definition receipt_projection :: "receipt_row \<Rightarrow> (string \<times> json) list" where
  "receipt_projection r =
     [(''kind'', JStr (rc_kind r)), (''subject_type'', JStr (rc_subject_type r)),
      (''subject_id'', JStr (rc_subject_id r)), (''truth_label'', JStr (rc_label r)),
      (''payload'', rc_payload r), (''payload_sha256'', JStr (rc_payload_sha r)),
      (''evidence_refs'', jstrs (rc_refs r))]"

subsection \<open>Provisioning\<close>

record scope_provisioning =
  sp_scope :: scope
  sp_state :: string
  sp_tenant_created :: bool
  sp_workspace_created :: bool
  sp_receipt :: "string option"

abbreviation conflict :: "string \<Rightarrow> exc" where
  "conflict \<equiv> ProvisioningConflict"

definition scope_of :: "tenant_spec \<Rightarrow> workspace_spec \<Rightarrow> scope" where
  "scope_of ts ws = \<lparr>sc_tenant = tsp_id ts, sc_workspace = wsp_id ws\<rparr>"

definition scope_streams :: "db \<Rightarrow> scope \<Rightarrow> stream list" where
  "scope_streams d s = map h_stream (filter (\<lambda>h. h_tenant h = uuid_str (sc_tenant s) \<and>
                                                h_workspace h = uuid_str (sc_workspace s)) (d_heads d))"

definition assert_provisioning_identity ::
  "tenant_row option \<Rightarrow> workspace_row option \<Rightarrow> tenant_spec \<Rightarrow> workspace_spec \<Rightarrow> stream list \<Rightarrow> unit res" where
  "assert_provisioning_identity tn wk ts ws streams =
     (case tn of None \<Rightarrow> Inl (conflict ''scope provisioning did not converge'') | Some t \<Rightarrow>
     (case wk of None \<Rightarrow> Inl (conflict ''scope provisioning did not converge'') | Some w \<Rightarrow>
      guard_else (t_slug t = tsp_slug ts \<and> t_name t = tsp_name ts)
        (conflict ''tenant identity already exists with different metadata'')
     (guard_else (w_tenant w = uuid_str (tsp_id ts) \<and> w_slug w = wsp_slug ws \<and> w_name w = wsp_name ws)
        (conflict ''workspace identity already exists with different metadata'')
     (guard_else (list_all (\<lambda>st. st \<in> set streams) stream_kinds)
        (conflict ''workspace stream initialization is incomplete'') (Inr ())))))"

definition provisioning_payload :: "tenant_spec \<Rightarrow> workspace_spec \<Rightarrow> (string \<times> json) list" where
  "provisioning_payload ts ws =
     [(''tenant'', JObj [(''id'', JStr (uuid_str (tsp_id ts))), (''slug'', JStr (tsp_slug ts)),
                         (''name'', JStr (tsp_name ts))]),
      (''workspace'', JObj [(''id'', JStr (uuid_str (wsp_id ws))), (''slug'', JStr (wsp_slug ws)),
                            (''name'', JStr (wsp_name ws))]),
      (''sample_data_seeded'', JBool False)]"

text \<open>\<open>basis\_json["data"]["kind"]\<close> as the SQL query reads it.\<close>

definition basis_kind :: "(string \<times> json) list \<Rightarrow> json" where
  "basis_kind b = jget_null (jget_null (JObj b) ''data'') ''kind''"

definition provisioning_receipts :: "db \<Rightarrow> scope \<Rightarrow> receipt_row list" where
  "provisioning_receipts d s =
     filter (\<lambda>r. in_scope s r \<and> (rc_kind r = ''scope.provisioned'' \<or>
                                 basis_kind (r_basis r) = JStr ''scope.provisioned'')) (d_receipts d)"

definition as_conflict :: "exc \<Rightarrow> exc" where
  "as_conflict e = (case e of PersistenceError m \<Rightarrow> conflict ''scope provisioning receipt integrity does not close''
                    | _ \<Rightarrow> e)"

definition provisioning_receipt_hash ::
  "(string \<Rightarrow> string) \<Rightarrow> db \<Rightarrow> scope \<Rightarrow> tenant_spec \<Rightarrow> workspace_spec \<Rightarrow> string option res" where
  "provisioning_receipt_hash hx d s ts ws =
     (case take 2 (provisioning_receipts d s) of
        [] \<Rightarrow> Inr None
      | r # rest \<Rightarrow>
          guard_else (rest = []) (conflict ''scope provisioning receipt is ambiguous'')
         (rbind (map_exc as_conflict (validate_projection hx d (row.truncate r) s ''szl.lyte.receipt/v1''
                   Receipts (receipt_projection r))) (\<lambda>_.
          rbind (sha256_json hx (JObj (provisioning_payload ts ws))) (\<lambda>x.
          guard_else (json_eq (rc_payload r) (JObj (provisioning_payload ts ws)) \<and>
                      rc_payload_sha r = x \<and> rc_kind r = ''scope.provisioned'' \<and>
                      rc_subject_type r = ''workspace'' \<and>
                      rc_subject_id r = uuid_str (sc_workspace s) \<and>
                      rc_label r = label_value MEASURED \<and> rc_refs r = [])
            (conflict ''scope provisioning receipt does not bind this identity'')
            (Inr (Some (r_hash r)))))))"

text \<open>The receipt of a provisioning, as the draft it corresponds to.\<close>

definition provisioning_draft :: "tenant_spec \<Rightarrow> workspace_spec \<Rightarrow> receipt_draft" where
  "provisioning_draft ts ws =
     \<lparr>rd_kind = ''scope.provisioned'', rd_subject_type = ''workspace'',
      rd_subject_id = uuid_str (wsp_id ws), rd_payload = provisioning_payload ts ws,
      rd_label = MEASURED, rd_refs = []\<rparr>"

definition append_provisioning_receipt ::
  "(string \<Rightarrow> string) \<Rightarrow> db \<Rightarrow> tenant_spec \<Rightarrow> workspace_spec \<Rightarrow> datetime \<Rightarrow> uuid \<Rightarrow> (string \<times> db) res" where
  "append_provisioning_receipt hx d ts ws t u =
     rbind (new_receipt hx d (scope_of ts ws) (provisioning_draft ts ws) t u) (\<lambda>(r, d1).
     rbind (add_receipt d1 r) (\<lambda>d2. Inr (r_hash r, d2)))"

text \<open>The tenant of the transaction: found and equal, or created.\<close>

definition provision_tenant ::
  "db \<Rightarrow> tenant_spec \<Rightarrow> datetime \<Rightarrow> (tenant_row \<times> bool \<times> db) res" where
  "provision_tenant d ts t =
     (case find_tenant d (uuid_str (tsp_id ts)) of
        None \<Rightarrow> rbind (create_tenant d ts t) (\<lambda>(r, d1). Inr (r, True, d1))
      | Some r \<Rightarrow> guard_else (t_slug r = tsp_slug ts \<and> t_name r = tsp_name ts)
                    (conflict ''tenant identity already exists with different metadata'')
                    (Inr (r, False, d)))"

definition provision_scope_once ::
  "(string \<Rightarrow> string) \<Rightarrow> db \<Rightarrow> tenant_spec \<Rightarrow> workspace_spec \<Rightarrow> (nat \<Rightarrow> datetime) \<Rightarrow> uuid \<Rightarrow>
   (scope_provisioning \<times> db) res" where
  "provision_scope_once hx d ts ws clock u =
     guard_else (wsp_tenant ws = tsp_id ts)
       (conflict ''workspace tenant does not match the tenant identity'')
    (rbind (provision_tenant d ts (clock 0)) (\<lambda>(tn, tenant_created, d1).
       let s = scope_of ts ws;
           report = (\<lambda>made hash. \<lparr>sp_scope = s,
             sp_state = (if tenant_created \<or> made then ''CREATED'' else ''EXISTING''),
             sp_tenant_created = tenant_created, sp_workspace_created = made, sp_receipt = hash\<rparr>) in
       case find_workspace d1 (uuid_str (wsp_id ws)) of
         None \<Rightarrow>
           rbind (add_workspace_with_heads d1 (uuid_str (tsp_id ts)) ws (\<lambda>n. clock (n + 1))) (\<lambda>(w, d2).
           rbind (append_provisioning_receipt hx d2 ts ws (clock 7) u) (\<lambda>(hash, d3).
             Inr (report True (Some hash), d3)))
       | Some w \<Rightarrow>
           rbind (assert_provisioning_identity (Some tn) (Some w) ts ws (scope_streams d1 s)) (\<lambda>_.
           rbind (provisioning_receipt_hash hx d1 s ts ws) (\<lambda>hash.
             Inr (report False hash, d1)))))"

definition read_provisioned_scope ::
  "(string \<Rightarrow> string) \<Rightarrow> db \<Rightarrow> tenant_spec \<Rightarrow> workspace_spec \<Rightarrow> scope_provisioning res" where
  "read_provisioned_scope hx d ts ws =
     (let s = scope_of ts ws in
      rbind (assert_provisioning_identity (find_tenant d (uuid_str (tsp_id ts)))
               (find_workspace d (uuid_str (wsp_id ws))) ts ws (scope_streams d s)) (\<lambda>_.
      rbind (provisioning_receipt_hash hx d s ts ws) (\<lambda>hash.
        Inr \<lparr>sp_scope = s, sp_state = ''EXISTING'', sp_tenant_created = False,
             sp_workspace_created = False, sp_receipt = hash\<rparr>)))"

definition retryable_missing_workspace :: "db \<Rightarrow> tenant_spec \<Rightarrow> workspace_spec \<Rightarrow> bool" where
  "retryable_missing_workspace d ts ws =
     (case find_tenant d (uuid_str (tsp_id ts)) of
        None \<Rightarrow> False
      | Some t \<Rightarrow> t_slug t = tsp_slug ts \<and> t_name t = tsp_name ts \<and>
          find_workspace d (uuid_str (wsp_id ws)) = None \<and>
          list_all (\<lambda>w. \<not> (w_tenant w = uuid_str (tsp_id ts) \<and> w_slug w = wsp_slug ws)) (d_workspaces d))"

fun is_conflict :: "exc \<Rightarrow> bool" where
  "is_conflict (ProvisioningConflict _) = True"
| "is_conflict _ = False"

fun provision_attempts ::
  "(string \<Rightarrow> string) \<Rightarrow> nat \<Rightarrow> (db \<times> db \<times> db) list \<Rightarrow> tenant_spec \<Rightarrow> workspace_spec \<Rightarrow>
   (nat \<Rightarrow> datetime) \<Rightarrow> uuid \<Rightarrow> (scope_provisioning \<times> db) res" where
  "provision_attempts hx n [] ts ws clock u = Inl (conflict ''scope provisioning did not converge'')"
| "provision_attempts hx n ((d, dr, dq) # rest) ts ws clock u =
     (let once = provision_scope_once hx d ts ws clock u in
      if once \<noteq> Inl IntegrityError then once
      else case read_provisioned_scope hx dr ts ws of
             Inr p \<Rightarrow> Inr (p, dr)
           | Inl e \<Rightarrow> if is_conflict e \<and> n = 0 \<and> retryable_missing_workspace dq ts ws
                      then provision_attempts hx (n + 1) rest ts ws clock u else Inl e)"

definition provision_scope ::
  "(string \<Rightarrow> string) \<Rightarrow> db \<times> db \<times> db \<Rightarrow> db \<times> db \<times> db \<Rightarrow> tenant_spec \<Rightarrow> workspace_spec \<Rightarrow>
   (nat \<Rightarrow> datetime) \<Rightarrow> uuid \<Rightarrow> (scope_provisioning \<times> db) res" where
  "provision_scope hx first second ts ws clock u =
     provision_attempts hx 0 [first, second] ts ws clock u"

subsection \<open>A new workspace keeps the invariant\<close>

lemma add_heads:
  "fold_res (\<lambda>e x. add_head e (f x)) d xs = Inr d2 \<Longrightarrow> d2 = d\<lparr>d_heads := d_heads d @ map f xs\<rparr>"
proof (induction xs arbitrary: d)
  case (Cons x xs)
  then obtain d1 where one: "add_head d (f x) = Inr d1"
    and rest: "fold_res (\<lambda>e x. add_head e (f x)) d1 xs = Inr d2"
    by (auto simp: rbind_Inr_iff)
  from one have "d1 = d\<lparr>d_heads := d_heads d @ [f x]\<rparr>"
    by (auto simp: add_head_def guard_else_Inr_iff)
  with Cons.IH [OF rest] show ?case by simp
qed simp

definition new_heads :: "string \<Rightarrow> string \<Rightarrow> (nat \<Rightarrow> datetime) \<Rightarrow> head_row list" where
  "new_heads tenant workspace clock =
     map (\<lambda>(n, st). new_head tenant workspace (clock n) st) (zip [1..<6] stream_kinds)"

lemma add_workspace_with_heads_Inr:
  assumes "add_workspace_with_heads d tenant spec clock = Inr (w, d2)"
  shows "d2 = d\<lparr>d_workspaces := d_workspaces d @ [w], d_heads := d_heads d @ new_heads tenant (w_id w) clock\<rparr>"
    and "w_id w = uuid_str (wsp_id spec)" "w_tenant w = tenant" "w_slug w = wsp_slug spec"
      "w_name w = wsp_name spec" "\<forall>x \<in> set (d_workspaces d). w_id x \<noteq> w_id w"
      "\<exists>x \<in> set (d_tenants d). t_id x = tenant"
proof -
  define f where "f = (\<lambda>(n, st). new_head tenant (uuid_str (wsp_id spec)) (clock n) st)"
  have eta: "(\<lambda>e (n, st). add_head e (new_head tenant (uuid_str (wsp_id spec)) (clock n) st)) =
      (\<lambda>e x. add_head e (f x))"
    by (auto simp: f_def fun_eq_iff)
  obtain d1 where d1: "add_workspace d w = Inr d1" and w: "w = \<lparr>w_id = uuid_str (wsp_id spec), w_tenant = tenant,
      w_slug = wsp_slug spec, w_name = wsp_name spec, w_at = clock 0\<rparr>"
    and fold: "fold_res (\<lambda>e x. add_head e (f x)) d1 (zip [1..<6] stream_kinds) = Inr d2"
    using assms by (auto simp: add_workspace_with_heads_def Let_def rbind_Inr_iff eta)
  have "d1 = d\<lparr>d_workspaces := d_workspaces d @ [w]\<rparr>"
    using d1 by (auto simp: add_workspace_def guard_else_Inr_iff)
  moreover have "map f (zip [1..<6] stream_kinds) = new_heads tenant (w_id w) clock"
    by (simp add: new_heads_def f_def w)
  ultimately show
    "d2 = d\<lparr>d_workspaces := d_workspaces d @ [w], d_heads := d_heads d @ new_heads tenant (w_id w) clock\<rparr>"
    using add_heads [OF fold] by simp
  show "\<forall>x \<in> set (d_workspaces d). w_id x \<noteq> w_id w" "\<exists>x \<in> set (d_tenants d). t_id x = tenant"
    using d1 by (auto simp: add_workspace_def guard_else_Inr_iff list_all_iff list_ex_iff w)
qed (use assms in \<open>auto simp: add_workspace_with_heads_def Let_def rbind_Inr_iff\<close>)

lemma find_append:
  "List.find P (xs @ ys) = (case List.find P xs of Some x \<Rightarrow> Some x | None \<Rightarrow> List.find P ys)"
  by (induction xs) auto

lemma find_SomeD: "List.find P xs = Some x \<Longrightarrow> x \<in> set xs"
  by (auto simp: find_Some_iff)

lemma find_new_head:
  "List.find (\<lambda>h. head_key h = (t, w, st)) (new_heads t w clock) =
     Some (new_head t w (clock (case st of Receipts \<Rightarrow> 1 | Idempotency \<Rightarrow> 2 | Memory \<Rightarrow> 3
       | Anatomy \<Rightarrow> 4 | Operational \<Rightarrow> 5)) st)"
  by (cases st) (simp_all add: new_heads_def stream_kinds_def new_head_def head_key_def upt_rec eval_nat_numeral)

lemma new_heads_scope: "h \<in> set (new_heads t w clock) \<Longrightarrow> h_tenant h = t \<and> h_workspace h = w"
  by (auto simp: new_heads_def new_head_def)

lemma scope_exists_snoc:
  "d_workspaces d' = d_workspaces d @ [w] \<Longrightarrow>
   scope_exists d' t i \<longleftrightarrow> scope_exists d t i \<or> (w_tenant w = t \<and> w_id w = i)"
  by (auto simp: scope_exists_def list_ex_iff)

lemma stream_rows_heads [simp]:
  "stream_rows (d\<lparr>d_workspaces := x, d_heads := y\<rparr>) st = stream_rows d st"
  "stream_rows (d\<lparr>d_heads := y\<rparr>) st = stream_rows d st"
  "stream_rows (d\<lparr>d_workspaces := x\<rparr>) st = stream_rows d st"
  "stream_rows (d\<lparr>d_tenants := z\<rparr>) st = stream_rows d st"
  by (cases st; simp)+

lemma new_workspace_inv:
  assumes inv: "db_inv hx d"
    and new: "add_workspace_with_heads d (uuid_str tid) spec clock = Inr (w, d2)"
  shows "db_inv hx d2"
    "filter (in_scope \<lparr>sc_tenant = tid, sc_workspace = wsp_id spec\<rparr>) (stream_rows d2 st) = []"
    "has_workspace d2 \<lparr>sc_tenant = tid, sc_workspace = wsp_id spec\<rparr>"
proof -
  note w = add_workspace_with_heads_Inr [OF new]
  let ?s = "\<lparr>sc_tenant = tid, sc_workspace = wsp_id spec\<rparr>"
  have ex: "scope_exists d2 t i \<longleftrightarrow> scope_exists d t i \<or> (t = uuid_str tid \<and> i = uuid_str (wsp_id spec))" for t i
    using scope_exists_snoc [of d2 d w t i] w by auto
  have nex: "\<not> scope_exists d t (uuid_str (wsp_id spec))" for t
    using w(2,6) by (auto simp: scope_exists_def list_ex_iff)
  have rows: "stream_rows d2 st = stream_rows d st" for st by (simp add: w(1))
  have none: "filter (in_scope ?s) (stream_rows d st) = []" for st
    using inv nex by (fastforce simp: db_inv_def filter_empty_conv in_scope_def)
  show "filter (in_scope ?s) (stream_rows d2 st) = []" by (simp add: rows none)
  show "has_workspace d2 ?s" by (simp add: has_workspace_def ex)
  have old_key: "List.find (\<lambda>h. head_key h = scope_key ?s st) (d_heads d) = None" for st
    using inv nex by (fastforce simp: find_None_iff db_inv_def head_key_def scope_key_def)
  have "stream_inv hx d2 s st" if s: "has_workspace d2 s" for s st
  proof (cases "s = ?s")
    case True
    then show ?thesis
      unfolding stream_inv_def rows True none locked_head_def w(1)
      using old_key find_new_head [of "uuid_str tid" "uuid_str (wsp_id spec)" st clock] w(2)
      by (simp add: find_append scope_key_def new_head_def Let_def none)
  next
    case False
    then have "has_workspace d s"
      using s ex by (auto simp: has_workspace_def intro: scope.equality)
    then have "stream_inv hx d s st" using inv by (simp add: db_inv_def)
    moreover from this have "locked_head d2 s st = locked_head d s st"
      unfolding locked_head_def w(1)
      by (auto simp: stream_inv_def Let_def locked_head_def find_append split: option.splits)
    ultimately show ?thesis by (simp add: stream_inv_def rows)
  qed
  moreover have "scope_exists d2 (r_tenant r) (r_workspace r)" if "r \<in> set (stream_rows d2 st)" for r st
    using that inv by (auto simp: rows ex db_inv_def)
  moreover have "scope_exists d2 (h_tenant h) (h_workspace h)" if "h \<in> set (d_heads d2)" for h
    using that inv new_heads_scope w(2) unfolding ex
    by (auto simp: w(1) db_inv_def)
  moreover have "distinct (map w_id (d_workspaces d2))"
    using inv w(6) by (auto simp: w(1) db_inv_def)
  ultimately show "db_inv hx d2" unfolding db_inv_def by blast
qed

subsection \<open>Sealed rows validate\<close>

lemma validate_sealed:
  assumes "seal hx schema s st n prev u t data = Inr b"
  shows "validate_projection hx d b s schema st data = Inr ()"
proof -
  obtain basis digest where basis: "mk_basis schema s st n prev t data = Inr basis"
    and sha: "sha256_json hx (JObj basis) = Inr digest"
    and b: "b = \<lparr>r_id = uuid_str u, r_tenant = uuid_str (sc_tenant s),
      r_workspace = uuid_str (sc_workspace s), r_seq = n, r_prev = prev, r_hash = digest,
      r_basis = basis, r_at = t\<rparr>"
    using assms unfolding seal_def rbind_Inr_iff sum.inject by metis
  obtain x where t: "t = Aware x"
    using basis by (cases t) (auto simp: mk_basis_def)
  have "in_scope s b" by (simp add: in_scope_def b)
  then show ?thesis
    using sha basis by (simp add: validate_projection_def canonical_timestamp_def b t)
qed

lemma receipt_projection_of: "receipt_projection (receipt_of b draft psha) = receipt_data draft psha"
  by (simp add: receipt_projection_def receipt_of_def receipt_data_def row.extend_def receipt_row.fields_def)

lemma new_receipt_validates:
  assumes "new_receipt hx d s draft t u = Inr (r, d1)"
  shows "validate_projection hx e (row.truncate r) s ''szl.lyte.receipt/v1'' Receipts (receipt_projection r) = Inr ()"
    "sha256_json hx (JObj (rd_payload draft)) = Inr (rc_payload_sha r)"
    "rc_kind r = rd_kind draft" "rc_subject_type r = rd_subject_type draft"
    "rc_subject_id r = rd_subject_id draft" "rc_label r = label_value (rd_label draft)"
    "rc_payload r = JObj (rd_payload draft)" "rc_refs r = rd_refs draft"
proof -
  obtain h :: head_row and psha b where b: "seal hx ''szl.lyte.receipt/v1'' s Receipts (h_seq h + 1) (h_hash h) u t
              (receipt_data draft psha) = Inr b" and psha: "sha256_json hx (JObj (rd_payload draft)) = Inr psha"
    and r: "receipt_of b draft psha = r"
    using assms unfolding new_receipt_def rbind_Inr_iff sum.inject prod.inject by blast
  show "validate_projection hx e (row.truncate r) s ''szl.lyte.receipt/v1'' Receipts (receipt_projection r) = Inr ()"
    using validate_sealed [OF b, of e] by (simp add: r [symmetric] receipt_projection_of) (simp add: receipt_of_def)
  show "sha256_json hx (JObj (rd_payload draft)) = Inr (rc_payload_sha r)"
    using psha by (simp add: r [symmetric] receipt_of_def row.extend_def receipt_row.fields_def)
qed (use assms in \<open>auto simp: new_receipt_def rbind_Inr_iff receipt_of_def row.extend_def receipt_row.fields_def\<close>)

subsection \<open>Provisioning is idempotent\<close>

lemma db_inv_tenants [simp]: "db_inv hx (d\<lparr>d_tenants := x\<rparr>) = db_inv hx d"
  unfolding db_inv_def stream_inv_def has_workspace_def scope_exists_def locked_head_def by simp

lemma provision_tenant_Inr:
  assumes "provision_tenant d ts t = Inr (tn, made, d1)"
  shows "find_tenant d1 (uuid_str (tsp_id ts)) = Some tn" "t_slug tn = tsp_slug ts" "t_name tn = tsp_name ts"
    "d1 = d\<lparr>d_tenants := d_tenants d1\<rparr>"
proof -
  have "find_tenant d1 (uuid_str (tsp_id ts)) = Some tn \<and> t_slug tn = tsp_slug ts \<and>
      t_name tn = tsp_name ts \<and> d1 = d\<lparr>d_tenants := d_tenants d1\<rparr>"
  proof (cases "find_tenant d (uuid_str (tsp_id ts))")
    case None
    let ?tn = "\<lparr>t_id = uuid_str (tsp_id ts), t_slug = tsp_slug ts, t_name = tsp_name ts, t_at = t\<rparr>"
    from None assms have "tn = ?tn" "d1 = d\<lparr>d_tenants := d_tenants d @ [?tn]\<rparr>"
      by (auto simp: provision_tenant_def create_tenant_def add_tenant_def rbind_Inr_iff guard_else_Inr_iff Let_def)
    with None show ?thesis by (simp add: find_tenant_def find_snoc)
  next
    case (Some x)
    with assms have "tn = x" "d1 = d" "t_slug x = tsp_slug ts" "t_name x = tsp_name ts"
      by (auto simp: provision_tenant_def guard_else_Inr_iff)
    with Some show ?thesis by simp
  qed
  then show "find_tenant d1 (uuid_str (tsp_id ts)) = Some tn" "t_slug tn = tsp_slug ts"
    "t_name tn = tsp_name ts" "d1 = d\<lparr>d_tenants := d_tenants d1\<rparr>"
    by blast+
qed

lemma scope_streams_advance: "scope_streams (advance_head d s st q x t) s' = scope_streams d s'"
proof -
  have "map h_stream (filter (\<lambda>h. h_tenant h = a \<and> h_workspace h = b)
          (map (\<lambda>h. if head_key h = k then h\<lparr>h_seq := q, h_hash := Some x, h_at := t\<rparr> else h) hs)) =
        map h_stream (filter (\<lambda>h. h_tenant h = a \<and> h_workspace h = b) hs)" for a b k hs
    by (induction hs) auto
  then show ?thesis by (simp add: scope_streams_def advance_head_def)
qed

lemma new_heads_streams:
  "st \<in> h_stream ` set (new_heads t w clock)"
proof -
  let ?h = "new_head t w (clock (case st of Receipts \<Rightarrow> 1 | Idempotency \<Rightarrow> 2 | Memory \<Rightarrow> 3
       | Anatomy \<Rightarrow> 4 | Operational \<Rightarrow> 5)) st"
  have "?h \<in> set (new_heads t w clock)" using find_new_head by (rule find_SomeD)
  then have "h_stream ?h \<in> h_stream ` set (new_heads t w clock)" by (rule imageI)
  then show ?thesis by (simp add: new_head_def)
qed

text \<open>The state after a creation reads back as the same scope with the same receipt.\<close>

lemma created_reads_back:
  assumes inv: "db_inv hx d1" and tn: "find_tenant d1 (uuid_str (tsp_id ts)) = Some tn"
      "t_slug tn = tsp_slug ts" "t_name tn = tsp_name ts"
    and fresh: "find_workspace d1 (uuid_str (wsp_id ws)) = None"
    and new: "add_workspace_with_heads d1 (uuid_str (tsp_id ts)) ws clock = Inr (w, d2)"
    and rc: "append_provisioning_receipt hx d2 ts ws t u = Inr (hash, d3)"
  shows "read_provisioned_scope hx d3 ts ws =
      Inr \<lparr>sp_scope = scope_of ts ws, sp_state = ''EXISTING'', sp_tenant_created = False,
           sp_workspace_created = False, sp_receipt = Some hash\<rparr>"
    and "db_inv hx d3"
proof -
  let ?s = "scope_of ts ws"
  note wi = add_workspace_with_heads_Inr [OF new] and ni = new_workspace_inv [OF inv new]
  obtain r e where nr: "new_receipt hx d2 ?s (provisioning_draft ts ws) t u = Inr (r, e)"
    and add: "add_receipt e r = Inr d3" and hash: "hash = r_hash r"
    using rc by (auto simp: append_provisioning_receipt_def rbind_Inr_iff)
  note push = new_receipt_push [OF nr] and val = new_receipt_validates [OF nr]
  have d3: "d3 = e\<lparr>d_receipts := d_receipts e @ [r]\<rparr>" using add by (simp add: add_receipt_Inr)
  have p: "pushes hx d2 ?s Receipts [row.truncate r] d3" using push(1) by (simp add: d3)
  show "db_inv hx d3" using push_inv [OF ni(1) _ p] ni(3) by (simp add: scope_of_def)
  have same: "d_tenants d3 = d_tenants d1" "d_workspaces d3 = d_workspaces d1 @ [w]"
    using p wi(1) by (simp_all add: pushes_def)
  have t3: "find_tenant d3 (uuid_str (tsp_id ts)) = Some tn" using tn(1) by (simp add: find_tenant_def same)
  have w3: "find_workspace d3 (uuid_str (wsp_id ws)) = Some w"
    using fresh wi(2) by (simp add: find_workspace_def same find_snoc)
  obtain q x t' where "d_heads d3 = d_heads (advance_head d2 ?s Receipts q x t')"
    using p unfolding pushes_def by blast
  then have "scope_streams d3 ?s = scope_streams (advance_head d2 ?s Receipts q x t') ?s"
    by (simp add: scope_streams_def)
  then have "scope_streams d3 ?s = scope_streams d2 ?s" by (simp add: scope_streams_advance)
  moreover have "st \<in> set (scope_streams d2 ?s)" for st
    using new_heads_streams [of st "uuid_str (tsp_id ts)" "w_id w" clock] new_heads_scope wi(2)
    by (fastforce simp: scope_streams_def wi(1) scope_of_def)
  ultimately have streams: "list_all (\<lambda>st. st \<in> set (scope_streams d3 ?s)) stream_kinds"
    by (simp add: list_all_iff)
  have "filter (in_scope ?s) (d_receipts d2) = []"
    using ni(2) [of Receipts] by (auto simp: scope_of_def filter_empty_conv)
  then have rs: "provisioning_receipts d3 ?s = [r]"
    using push(2,4) val(3)
    by (auto simp: provisioning_receipts_def d3 filter_empty_conv provisioning_draft_def)
  show "read_provisioned_scope hx d3 ts ws =
      Inr \<lparr>sp_scope = ?s, sp_state = ''EXISTING'', sp_tenant_created = False,
           sp_workspace_created = False, sp_receipt = Some hash\<rparr>"
    using t3 w3 tn(2,3) wi(3,4,5) streams val
    by (simp add: read_provisioned_scope_def assert_provisioning_identity_def
        provisioning_receipt_hash_def rs [unfolded scope_of_def] provisioning_draft_def scope_of_def hash Let_def)
qed

definition existing :: "scope_provisioning \<Rightarrow> scope_provisioning" where
  "existing p = p\<lparr>sp_state := ''EXISTING'', sp_tenant_created := False, sp_workspace_created := False\<rparr>"

lemma provision_tenant_inv: "provision_tenant d ts t = Inr (tn, made, d1) \<Longrightarrow> db_inv hx d1 = db_inv hx d"
  using provision_tenant_Inr(4) db_inv_tenants by metis

lemma once_then_read:
  assumes inv: "db_inv hx d" and once: "provision_scope_once hx d ts ws clock u = Inr (p, d')"
  shows "wsp_tenant ws = tsp_id ts" "read_provisioned_scope hx d' ts ws = Inr (existing p)" "db_inv hx d'"
    "sp_scope p = scope_of ts ws"
proof -
  show tid: "wsp_tenant ws = tsp_id ts"
    using once by (simp add: provision_scope_once_def guard_else_Inr_iff)
  obtain tn made d1 where pt: "provision_tenant d ts (clock 0) = Inr (tn, made, d1)"
    using once tid by (cases "provision_tenant d ts (clock 0)") (auto simp: provision_scope_once_def)
  note t = provision_tenant_Inr [OF pt]
  have inv1: "db_inv hx d1" using inv provision_tenant_inv [OF pt] by simp
  have "read_provisioned_scope hx d' ts ws = Inr (existing p) \<and> db_inv hx d' \<and> sp_scope p = scope_of ts ws"
  proof (cases "find_workspace d1 (uuid_str (wsp_id ws))")
    case None
    with once tid pt obtain w d2 hash where
      new: "add_workspace_with_heads d1 (uuid_str (tsp_id ts)) ws (\<lambda>n. clock (n + 1)) = Inr (w, d2)"
      and rc: "append_provisioning_receipt hx d2 ts ws (clock 7) u = Inr (hash, d')"
      and p: "p = \<lparr>sp_scope = scope_of ts ws, sp_state = ''CREATED'', sp_tenant_created = made,
                   sp_workspace_created = True, sp_receipt = Some hash\<rparr>"
      by (auto simp: provision_scope_once_def rbind_Inr_iff Let_def)
    show ?thesis
      using created_reads_back [OF inv1 t(1-3) None new rc] by (simp add: p existing_def)
  next
    case (Some w)
    with once tid pt obtain hash where
      id: "assert_provisioning_identity (Some tn) (Some w) ts ws (scope_streams d1 (scope_of ts ws)) = Inr ()"
      and hash: "provisioning_receipt_hash hx d1 (scope_of ts ws) ts ws = Inr hash" and "d' = d1"
      and p: "p = \<lparr>sp_scope = scope_of ts ws, sp_state = if made then ''CREATED'' else ''EXISTING'',
                   sp_tenant_created = made, sp_workspace_created = False, sp_receipt = hash\<rparr>"
      by (auto simp: provision_scope_once_def rbind_Inr_iff Let_def)
    then show ?thesis
      using Some t(1) inv1 by (simp add: read_provisioned_scope_def existing_def Let_def)
  qed
  then show "read_provisioned_scope hx d' ts ws = Inr (existing p)" "db_inv hx d'"
    "sp_scope p = scope_of ts ws" by blast+
qed

lemma read_then_once:
  assumes tid: "wsp_tenant ws = tsp_id ts" and "read_provisioned_scope hx d ts ws = Inr p"
  shows "provision_scope_once hx d ts ws clock u = Inr (p, d)" "existing p = p" "sp_scope p = scope_of ts ws"
proof -
  let ?s = "scope_of ts ws"
  obtain hash where id: "assert_provisioning_identity (find_tenant d (uuid_str (tsp_id ts)))
        (find_workspace d (uuid_str (wsp_id ws))) ts ws (scope_streams d ?s) = Inr ()"
    and hash: "provisioning_receipt_hash hx d ?s ts ws = Inr hash"
    and p: "p = \<lparr>sp_scope = ?s, sp_state = ''EXISTING'', sp_tenant_created = False,
                 sp_workspace_created = False, sp_receipt = hash\<rparr>"
    using assms(2) by (auto simp: read_provisioned_scope_def rbind_Inr_iff Let_def)
  obtain t w where tw: "find_tenant d (uuid_str (tsp_id ts)) = Some t"
    "find_workspace d (uuid_str (wsp_id ws)) = Some w" "t_slug t = tsp_slug ts" "t_name t = tsp_name ts"
    using id by (auto simp: assert_provisioning_identity_def guard_else_Inr_iff split: option.splits)
  show "provision_scope_once hx d ts ws clock u = Inr (p, d)"
    using id hash tid by (simp add: provision_scope_once_def provision_tenant_def tw p)
  show "existing p = p" "sp_scope p = ?s" by (simp_all add: p existing_def)
qed

lemma provision_attempts_reads:
  assumes "provision_attempts hx n snaps ts ws clock u = Inr (p, d')"
    and "\<forall>(d, dr, dq) \<in> set snaps. db_inv hx d \<and> db_inv hx dr"
  shows "wsp_tenant ws = tsp_id ts \<and> read_provisioned_scope hx d' ts ws = Inr (existing p) \<and> db_inv hx d' \<and>
         sp_scope p = scope_of ts ws"
  using assms
proof (induction hx n snaps ts ws clock u rule: provision_attempts.induct)
  case (2 hx n d dr dq rest ts ws clock u)
  have inv: "db_inv hx d" "db_inv hx dr" using "2.prems"(2) by simp_all
  show ?case
  proof (cases "provision_scope_once hx d ts ws clock u = Inl IntegrityError")
    case False
    then have "provision_scope_once hx d ts ws clock u = Inr (p, d')"
      using "2.prems"(1) by (simp add: Let_def)
    from once_then_read [OF inv(1) this] show ?thesis by blast
  next
    case True
    then have tid: "wsp_tenant ws = tsp_id ts"
      by (cases "wsp_tenant ws = tsp_id ts") (simp_all add: provision_scope_once_def)
    show ?thesis
    proof (cases "read_provisioned_scope hx dr ts ws")
      case (Inr q)
      then have "p = q" "d' = dr" using True "2.prems"(1) by simp_all
      then show ?thesis using read_then_once(2,3) [OF tid Inr] Inr tid inv by simp
    next
      case (Inl e)
      let ?again = "is_conflict e \<and> n = 0 \<and> retryable_missing_workspace dq ts ws"
      have step: "provision_attempts hx n ((d, dr, dq) # rest) ts ws clock u =
          (if ?again then provision_attempts hx (n + 1) rest ts ws clock u else Inl e)"
        using True Inl by simp
      then have again: ?again "provision_attempts hx (n + 1) rest ts ws clock u = Inr (p, d')"
        using "2.prems"(1) unfolding step by (simp_all split: if_splits)
      show ?thesis
      proof (rule "2.IH" [OF refl _ Inl again])
        show "\<not> provision_scope_once hx d ts ws clock u \<noteq> Inl IntegrityError" using True by simp
        show "\<forall>(d, dr, dq) \<in> set rest. db_inv hx d \<and> db_inv hx dr" using "2.prems"(2) by simp
      qed
    qed
  qed
qed simp

subsection \<open>A new identity is created\<close>

lemma add_heads_ok:
  assumes "distinct (map (head_key \<circ> f) xs)"
    and "\<And>x. x \<in> set xs \<Longrightarrow> scope_exists d (h_tenant (f x)) (h_workspace (f x))"
    and "\<And>x h. x \<in> set xs \<Longrightarrow> h \<in> set (d_heads d) \<Longrightarrow> head_key h \<noteq> head_key (f x)"
  shows "fold_res (\<lambda>e x. add_head e (f x)) d xs = Inr (d\<lparr>d_heads := d_heads d @ map f xs\<rparr>)"
  using assms
proof (induction xs arbitrary: d)
  case (Cons x xs)
  let ?d = "d\<lparr>d_heads := d_heads d @ [f x]\<rparr>"
  have one: "add_head d (f x) = Inr ?d"
    using Cons.prems(2,3) [of x] by (auto simp: add_head_def list_all_iff)
  have "fold_res (\<lambda>e x. add_head e (f x)) ?d xs = Inr (?d\<lparr>d_heads := d_heads ?d @ map f xs\<rparr>)"
  proof (rule Cons.IH)
    show "head_key h \<noteq> head_key (f y)" if "y \<in> set xs" "h \<in> set (d_heads ?d)" for y h
      using that Cons.prems(1,3) by (auto simp: image_iff)
  qed (use Cons.prems in \<open>auto simp: scope_exists_def\<close>)
  then show ?case by (simp add: one)
qed simp

lemma add_workspace_with_heads_ok:
  assumes inv: "db_inv hx d" and tn: "\<exists>x \<in> set (d_tenants d). t_id x = tenant"
    and new: "\<forall>w \<in> set (d_workspaces d). w_id w \<noteq> uuid_str (wsp_id spec) \<and> w_tenant w \<noteq> tenant"
  shows "\<exists>w d2. add_workspace_with_heads d tenant spec clock = Inr (w, d2)"
proof -
  define f where "f = (\<lambda>(n, st). new_head tenant (uuid_str (wsp_id spec)) (clock n) st)"
  have eta: "(\<lambda>e (n, st). add_head e (new_head tenant (uuid_str (wsp_id spec)) (clock n) st)) =
      (\<lambda>e x. add_head e (f x))"
    by (auto simp: f_def fun_eq_iff)
  let ?w = "\<lparr>w_id = uuid_str (wsp_id spec), w_tenant = tenant, w_slug = wsp_slug spec,
               w_name = wsp_name spec, w_at = clock 0\<rparr>"
  let ?d = "d\<lparr>d_workspaces := d_workspaces d @ [?w]\<rparr>"
  let ?xs = "zip [1..<6] stream_kinds"
  have aw: "add_workspace d ?w = Inr ?d"
    using tn new by (auto simp: add_workspace_def list_all_iff list_ex_iff)
  have "fold_res (\<lambda>e x. add_head e (f x)) ?d ?xs = Inr (?d\<lparr>d_heads := d_heads ?d @ map f ?xs\<rparr>)"
  proof (rule add_heads_ok)
    show "distinct (map (head_key \<circ> f) ?xs)"
      by (simp add: stream_kinds_def upt_rec f_def new_head_def head_key_def eval_nat_numeral)
    show "scope_exists ?d (h_tenant (f x)) (h_workspace (f x))" for x
      by (cases x) (simp add: f_def new_head_def scope_exists_def)
    show "head_key h \<noteq> head_key (f x)" if "h \<in> set (d_heads ?d)" for x h
    proof -
      have "scope_exists d (h_tenant h) (h_workspace h)" using that inv by (simp add: db_inv_def)
      then have "h_workspace h \<noteq> uuid_str (wsp_id spec)"
        using new by (auto simp: scope_exists_def list_ex_iff)
      then show ?thesis by (cases x) (simp add: f_def new_head_def head_key_def)
    qed
  qed
  then show ?thesis by (simp add: add_workspace_with_heads_def aw eta Let_def)
qed

lemma new_receipt_total:
  assumes "locked_head d s Receipts = Inr h" "is_aware t"
    and "json_floats (JObj (rd_payload draft)) = {}"
  shows "\<exists>r d1. new_receipt hx d s draft t u = Inr (r, d1)"
proof -
  obtain psha where psha: "sha256_json hx (JObj (rd_payload draft)) = Inr psha"
    using sha256_json_ok [OF assms(3)] by blast
  have "\<exists>x. canonical_json (JObj (receipt_data draft psha)) = Inr x"
    by (rule canonical_json_total) (use assms(3) in \<open>auto simp: receipt_data_def jstrs_def\<close>)
  from seal_total [OF assms(2) this, of hx "''szl.lyte.receipt/v1''" s Receipts "h_seq h + 1" "h_hash h" u]
  show ?thesis using psha assms(1) by (auto simp: new_receipt_def)
qed

lemma new_receipt_id:
  assumes "new_receipt hx d s draft t u = Inr (r, d1)"
  shows "r_id r = uuid_str u"
proof -
  obtain h :: head_row and psha b where b: "seal hx ''szl.lyte.receipt/v1'' s Receipts (h_seq h + 1) (h_hash h) u t
              (receipt_data draft psha) = Inr b" and r: "receipt_of b draft psha = r"
    using assms unfolding new_receipt_def rbind_Inr_iff sum.inject prod.inject by blast
  show ?thesis using seal_chained(5) [OF b] by (simp add: r [symmetric] receipt_of_def)
qed

text \<open>The identity is unused: no tenant with its identifier or slug, no workspace with its
  identifier or of its tenant, and an identifier for the receipt that no receipt has.\<close>

definition unused_identity :: "db \<Rightarrow> tenant_spec \<Rightarrow> workspace_spec \<Rightarrow> uuid \<Rightarrow> bool" where
  "unused_identity d ts ws u =
     (list_all (\<lambda>t. t_id t \<noteq> uuid_str (tsp_id ts) \<and> t_slug t \<noteq> tsp_slug ts) (d_tenants d) \<and>
      list_all (\<lambda>w. w_id w \<noteq> uuid_str (wsp_id ws) \<and> w_tenant w \<noteq> uuid_str (tsp_id ts)) (d_workspaces d) \<and>
      list_all (\<lambda>r. r_id r \<noteq> uuid_str u) (d_receipts d))"

lemma provision_scope_once_creates:
  assumes inv: "db_inv hx d" and new: "unused_identity d ts ws u" and tid: "wsp_tenant ws = tsp_id ts"
    and aware: "is_aware (clock 7)"
  shows "\<exists>hash d'. provision_scope_once hx d ts ws clock u =
           Inr (\<lparr>sp_scope = scope_of ts ws, sp_state = ''CREATED'', sp_tenant_created = True,
                 sp_workspace_created = True, sp_receipt = Some hash\<rparr>, d')"
proof -
  let ?tn = "\<lparr>t_id = uuid_str (tsp_id ts), t_slug = tsp_slug ts, t_name = tsp_name ts, t_at = clock 0\<rparr>"
  let ?d1 = "d\<lparr>d_tenants := d_tenants d @ [?tn]\<rparr>" and ?s = "scope_of ts ws"
  have "find_tenant d (uuid_str (tsp_id ts)) = None"
    using new by (auto simp: unused_identity_def find_tenant_def find_None_iff list_all_iff)
  moreover have "add_tenant d ?tn = Inr ?d1"
    using new by (auto simp: unused_identity_def add_tenant_def list_all_iff)
  ultimately have pt: "provision_tenant d ts (clock 0) = Inr (?tn, True, ?d1)"
    by (simp add: provision_tenant_def create_tenant_def Let_def)
  have inv1: "db_inv hx ?d1" using inv by simp
  have fw: "find_workspace ?d1 (uuid_str (wsp_id ws)) = None"
    using new by (auto simp: unused_identity_def find_workspace_def find_None_iff list_all_iff)
  have "\<exists>w d2. add_workspace_with_heads ?d1 (uuid_str (tsp_id ts)) ws (\<lambda>n. clock (n + 1)) = Inr (w, d2)"
    by (rule add_workspace_with_heads_ok [OF inv1]) (use new in \<open>auto simp: unused_identity_def list_all_iff\<close>)
  then obtain w d2 where
    aw: "add_workspace_with_heads ?d1 (uuid_str (tsp_id ts)) ws (\<lambda>n. clock (n + 1)) = Inr (w, d2)"
    by blast
  note ni = new_workspace_inv [OF inv1 aw] and wi = add_workspace_with_heads_Inr [OF aw]
  have "stream_inv hx d2 ?s Receipts" using ni(1,3) by (simp add: db_inv_def scope_of_def)
  then obtain h where h: "locked_head d2 ?s Receipts = Inr h" by (auto simp: stream_inv_def Let_def)
  have "json_floats (JObj (rd_payload (provisioning_draft ts ws))) = {}"
    by (simp add: provisioning_draft_def provisioning_payload_def)
  from new_receipt_total [OF h aware this] obtain r e where
    nr: "new_receipt hx d2 ?s (provisioning_draft ts ws) (clock 7) u = Inr (r, e)" by blast
  note push = new_receipt_push [OF nr]
  have "filter (in_scope ?s) (d_receipts d) = []"
    using ni(2) [of Receipts] by (auto simp: scope_of_def wi(1) filter_empty_conv)
  moreover have "scope_exists e (r_tenant r) (r_workspace r)"
    using ni(3) push(4,5) by (simp add: has_workspace_def in_scope_def scope_exists_def scope_of_def)
  ultimately have "row_fits e no_clash (d_receipts e) r"
    using new new_receipt_id [OF nr] push(2,4)
    by (auto simp: row_fits_def unused_identity_def list_all_iff wi(1) filter_empty_conv in_scope_def)
  then have "add_receipt e r = Inr (e\<lparr>d_receipts := d_receipts e @ [r]\<rparr>)" by (simp add: add_receipt_Inr)
  then show ?thesis
    using tid pt fw aw nr by (simp add: provision_scope_once_def append_provisioning_receipt_def Let_def)
qed

subsection \<open>Properties\<close>

text \<open>C21: Provisioning is idempotent.  Whatever the earlier call met (it may have created the
  tenant and the workspace, found them, or lost a race and read the winner's scope), every later
  call with the same identities on the database it left, at any time, reports the same scope and
  the same audit receipt as EXISTING and changes nothing; and the invariant of the store holds
  there.\<close>

theorem provision_scope_idempotent:
  assumes "provision_scope hx (d1, r1, q1) (d2, r2, q2) ts ws clock u = Inr (p, d')"
    and "db_inv hx d1" "db_inv hx r1" "db_inv hx d2" "db_inv hx r2"
  shows "provision_scope hx (d', r3, q3) again ts ws clock' u' = Inr (existing p, d') \<and>
         db_inv hx d' \<and> sp_scope p = scope_of ts ws"
proof -
  have all: "\<forall>(d, dr, dq) \<in> set [(d1, r1, q1), (d2, r2, q2)]. db_inv hx d \<and> db_inv hx dr"
    using assms(2-) by simp
  note p = provision_attempts_reads [OF assms(1) [unfolded provision_scope_def] all]
  from read_then_once(1) [of ws ts hx d' "existing p"] p show ?thesis
    by (simp add: provision_scope_def)
qed

text \<open>Provisioning an unused identity succeeds: on every database that satisfies the
  invariant it creates the tenant, the workspace and the audit receipt, and reading the scope
  back reports that receipt.\<close>

theorem provision_scope_creates:
  assumes "db_inv hx d" "unused_identity d ts ws u" "wsp_tenant ws = tsp_id ts" "is_aware (clock 7)"
  shows "\<exists>hash d'. provision_scope hx (d, r, q) again ts ws clock u =
             Inr (\<lparr>sp_scope = scope_of ts ws, sp_state = ''CREATED'', sp_tenant_created = True,
                   sp_workspace_created = True, sp_receipt = Some hash\<rparr>, d') \<and>
           read_provisioned_scope hx d' ts ws =
             Inr \<lparr>sp_scope = scope_of ts ws, sp_state = ''EXISTING'', sp_tenant_created = False,
                  sp_workspace_created = False, sp_receipt = Some hash\<rparr>"
proof -
  obtain hash d' where once: "provision_scope_once hx d ts ws clock u =
      Inr (\<lparr>sp_scope = scope_of ts ws, sp_state = ''CREATED'', sp_tenant_created = True,
            sp_workspace_created = True, sp_receipt = Some hash\<rparr>, d')"
    using provision_scope_once_creates [where clock = clock, OF assms] by blast
  show ?thesis
    using once once_then_read(2) [OF assms(1) once]
    by (intro exI [of _ hash] exI [of _ d']) (simp add: provision_scope_def existing_def)
qed

definition example_tenant :: tenant_spec where
  "example_tenant = \<lparr>tsp_slug = ''acme'', tsp_name = ''Acme'', tsp_id = 1\<rparr>"

definition example_workspace :: workspace_spec where
  "example_workspace = \<lparr>wsp_tenant = 1, wsp_slug = ''main'', wsp_name = ''Main'', wsp_id = 2\<rparr>"

lemma example_identity:
  "unused_identity (empty_db True) example_tenant example_workspace u"
  "wsp_tenant example_workspace = tsp_id example_tenant"
  by (simp_all add: unused_identity_def empty_db_def example_tenant_def example_workspace_def)

theorem provision_scope_creates_witness:
  "\<exists>hash d'. provision_scope id (empty_db True, empty_db True, empty_db True)
       (empty_db True, empty_db True, empty_db True) example_tenant example_workspace (\<lambda>n. Aware (int n)) 7 =
     Inr (\<lparr>sp_scope = scope_of example_tenant example_workspace, sp_state = ''CREATED'',
           sp_tenant_created = True, sp_workspace_created = True, sp_receipt = Some hash\<rparr>, d')"
  using provision_scope_creates [OF db_inv_empty example_identity, of "\<lambda>n. Aware (int n)" id]
  by (simp only: is_aware.simps) blast

theorem provision_scope_idempotent_witness:
  "\<exists>p d'. provision_scope id (empty_db True, empty_db True, empty_db True)
       (empty_db True, empty_db True, empty_db True) example_tenant example_workspace (\<lambda>n. Aware (int n)) 7 =
     Inr (p, d') \<and>
     provision_scope id (d', d', d') (d', d', d') example_tenant example_workspace (\<lambda>n. Aware 99) 8 =
     Inr (existing p, d')"
proof -
  let ?e = "empty_db True"
  obtain p d' where once: "provision_scope_once id ?e example_tenant example_workspace (\<lambda>n. Aware (int n)) 7 = Inr (p, d')"
    using provision_scope_once_creates [OF db_inv_empty example_identity, of "\<lambda>n. Aware (int n)" id 7]
    by auto
  then have first: "provision_scope id (?e, ?e, ?e) (?e, ?e, ?e) example_tenant example_workspace
      (\<lambda>n. Aware (int n)) 7 = Inr (p, d')" by (simp add: provision_scope_def)
  from provision_scope_idempotent [OF this db_inv_empty db_inv_empty db_inv_empty db_inv_empty] first
  show ?thesis by blast
qed

end
