(* ===== verification/Bundle_Store.thy ===== *)
theory Bundle_Store
  imports Memory_Store Provisioning
begin

section \<open>Analysis bundles (store.py)\<close>

text \<open>
  One analysis is one receipt, one idempotency claim, one memory record and nine anatomy
  traces, appended to four streams in one transaction.  \<open>resolve_analysis_bundle\<close> reads a
  bundle back from its claim and refuses it unless every row matches its hash basis and the rows
  are linked; the same function closes the append, so nothing incomplete is committed.  The
  transaction sees \<open>d0\<close> at its first check and \<open>d\<close> once the four heads are locked;
  \<open>dr\<close> is what the recovery session reads.  A query for one row without an order takes the
  first in insertion order.
\<close>

record analysis_bundle =
  ab_receipt :: receipt_row
  ab_memory :: memory_row
  ab_traces :: "trace_row list"
  ab_replay :: bool

subsection \<open>Python int() of a JSON value\<close>

definition int_type_error :: exc where
  "int_type_error = TypeError ''int() argument must be a string, a bytes-like object or a real number''"

fun py_int :: "json \<Rightarrow> int res" where
  "py_int (JInt n) = Inr n"
| "py_int (JBool b) = Inr (if b then 1 else 0)"
| "py_int (JFloat (Fin q)) = Inr (if 0 \<le> q then \<lfloor>q\<rfloor> else \<lceil>q\<rceil>)"
| "py_int (JFloat NaN) = Inl (ValueError ''cannot convert float NaN to integer'')"
| "py_int (JFloat _) = Inl (OverflowError ''cannot convert float infinity to integer'')"
| "py_int (JStr s) = (case py_int_str s of Some n \<Rightarrow> Inr n
     | None \<Rightarrow> Inl (ValueError ''invalid literal for int() with base 10''))"
| "py_int _ = Inl int_type_error"

subsection \<open>Reading a bundle back\<close>

definition idem_projection :: "idem_row \<Rightarrow> (string \<times> json) list" where
  "idem_projection r = idem_data (im_key r) (im_request r) (im_response r)"

definition memory_projection :: "memory_row \<Rightarrow> (string \<times> json) list" where
  "memory_projection m =
     [(''partition_digest'', JStr (mm_partition m)), (''memory_kind'', JStr (mm_kind m)),
      (''summary'', JStr (mm_summary m)), (''truth_label'', JStr (mm_label m)),
      (''evidence_refs'', jstrs (mm_refs m)), (''subjects'', jstrs (mm_subjects m)),
      (''metadata'', mm_meta m), (''receipt_hash'', jopt (mm_receipt m))]"

definition trace_projection :: "db \<Rightarrow> scope \<Rightarrow> trace_row \<Rightarrow> (string \<times> json) list res" where
  "trace_projection d s r =
     rbind (canonical_timestamp d (tc_started r)) (\<lambda>started.
     rbind (case tc_completed r of None \<Rightarrow> Inr JNull
            | Some c \<Rightarrow> rbind (canonical_timestamp d c) (\<lambda>x. Inr (JStr x))) (\<lambda>completed.
       Inr (scope_to_dict s @
         [(''trace_id'', JStr (tc_trace r)), (''span_id'', JStr (tc_span r)),
          (''parent_span_id'', jopt (tc_parent r)), (''organ'', JStr (tc_organ r)),
          (''operation'', JStr (tc_operation r)), (''state'', JStr (tc_state r)),
          (''truth_label'', JStr (tc_label r)), (''started_at'', JStr started),
          (''completed_at'', completed), (''input_sha256'', jopt (tc_input r)),
          (''output_sha256'', jopt (tc_output r)), (''attributes'', tc_attrs r)])))"

fun is_obj :: "json \<Rightarrow> bool" where
  "is_obj (JObj _) = True"
| "is_obj _ = False"

fun span_links :: "trace_row list \<Rightarrow> bool" where
  "span_links (a # b # rest) \<longleftrightarrow>
     tc_parent b = Some (tc_span a) \<and> tc_input b = tc_output a \<and> span_links (b # rest)"
| "span_links _ \<longleftrightarrow> True"

definition stage_numbers :: "int list" where
  "stage_numbers = [1, 2, 3, 4, 5, 6, 7, 8, 9]"

text \<open>The rows are there: nine traces in stage order, linked span by span, and a memory record.\<close>

definition bundle_complete :: "memory_row option \<Rightarrow> trace_row list \<Rightarrow> string \<Rightarrow> bool" where
  "bundle_complete memory traces trace_id =
     (case memory of None \<Rightarrow> False | Some m \<Rightarrow>
        length traces = 9 \<and>
        list_all2 (\<lambda>r n. json_eq (jget_null (tc_attrs r) ''sequence'') (JInt n)) traces stage_numbers \<and>
        traces \<noteq> [] \<and> tc_parent (hd traces) = None \<and> span_links traces \<and>
        is_obj (mm_meta m) \<and> json_eq (jget_null (mm_meta m) ''trace_id'') (JStr trace_id))"

definition stage_json :: "trace_row \<Rightarrow> json" where
  "stage_json r = JObj
     [(''sequence'', jget_null (tc_attrs r) ''sequence''), (''stage'', jget_null (tc_attrs r) ''stage''),
      (''state'', jget_null (tc_attrs r) ''stage_state''), (''input_sha256'', jopt (tc_input r)),
      (''basis_sha256'', jget_null (tc_attrs r) ''basis_sha256''), (''output_sha256'', jopt (tc_output r))]"

text \<open>The rows belong together: what the receipt's payload says of them is so.\<close>

definition bundle_linked ::
  "(string \<Rightarrow> string) \<Rightarrow> scope \<Rightarrow> receipt_row \<Rightarrow> memory_row \<Rightarrow> trace_row list \<Rightarrow> string \<Rightarrow> bool" where
  "bundle_linked hx s r m traces digest =
     (let p = rc_payload r; meta = mm_meta m in
      json_eq (jget_null p ''anatomy_schema'') (JStr ''szl.lyte.analysis-anatomy/v1'') \<and>
      json_eq (jget_null p ''anatomy_sha256'') (JStr digest) \<and>
      json_eq (jget_null p ''input_sha256'') (jopt (tc_input (hd traces))) \<and>
      mm_partition m = enterprise_memory_partition hx s \<and> mm_label m = rc_label r \<and>
      r_hash r \<in> set (mm_refs m) \<and> jget_null meta ''approved_knowledge'' = JBool False \<and>
      json_eq (jget_null meta ''analysis_input_sha256'') (jget_null p ''input_sha256'') \<and>
      json_eq (jget_null meta ''analysis_output_sha256'') (jget_null p ''output_sha256'') \<and>
      list_all (\<lambda>t. tc_label t = rc_label r \<and>
                    json_eq (jget_null (tc_attrs t) ''source_revision'') (jget_null p ''source_revision'')) traces)"

definition scoped_traces :: "db \<Rightarrow> scope \<Rightarrow> string \<Rightarrow> trace_row list" where
  "scoped_traces d s trace_id = sort_key r_seq (filter (\<lambda>r. in_scope s r \<and> tc_trace r = trace_id) (d_traces d))"

definition memory_of_receipt :: "db \<Rightarrow> scope \<Rightarrow> string \<Rightarrow> memory_row option" where
  "memory_of_receipt d s hash = List.find (\<lambda>m. in_scope s m \<and> mm_receipt m = Some hash) (d_memories d)"

definition validate_traces ::
  "(string \<Rightarrow> string) \<Rightarrow> db \<Rightarrow> scope \<Rightarrow> trace_row list \<Rightarrow> unit list res" where
  "validate_traces hx d s = rmap (\<lambda>r.
     rbind (trace_projection d s r) (\<lambda>data.
       validate_projection hx d (row.truncate r) s ''szl.lyte.anatomy-trace/v1'' Anatomy data))"

definition linked_trace_id :: "receipt_row \<Rightarrow> string res" where
  "linked_trace_id r =
     guard_else (is_obj (rc_payload r)) (PersistenceError ''analysis receipt has an invalid payload'')
       (case jget_null (rc_payload r) ''trace_id'' of JStr x \<Rightarrow> Inr x
        | _ \<Rightarrow> Inl (PersistenceError ''analysis receipt is missing its anatomy trace linkage''))"

definition resolve_analysis_bundle ::
  "(string \<Rightarrow> string) \<Rightarrow> db \<Rightarrow> scope \<Rightarrow> idem_row \<Rightarrow> string \<Rightarrow> bool \<Rightarrow> analysis_bundle res" where
  "resolve_analysis_bundle hx d s i request replay =
     rbind (validate_projection hx d (row.truncate i) s ''szl.lyte.idempotency-record/v1'' Idempotency
              (idem_projection i)) (\<lambda>_.
     rbind (resolve_idempotent_receipt d s i request) (\<lambda>r.
     rbind (validate_projection hx d (row.truncate r) s ''szl.lyte.receipt/v1'' Receipts
              (receipt_projection r)) (\<lambda>_.
     rbind (linked_trace_id r) (\<lambda>trace_id.
       let memory = memory_of_receipt d s (r_hash r); traces = scoped_traces d s trace_id in
       guard_else (list_all (\<lambda>t. is_obj (tc_attrs t)) traces)
         (PersistenceError ''analysis trace has invalid stage attributes'')
      (guard_else (bundle_complete memory traces trace_id)
         (PersistenceError ''analysis receipt references an incomplete durable bundle'')
      (let m = the memory in
       rbind (validate_projection hx d (row.truncate m) s ''szl.lyte.memory-record/v2'' Memory
                (memory_projection m)) (\<lambda>_.
       rbind (validate_traces hx d s traces) (\<lambda>_.
       rbind (sha256_json hx (JList (map stage_json traces))) (\<lambda>digest.
       guard_else (bundle_linked hx s r m traces digest)
         (PersistenceError ''analysis durable bundle failed receipt linkage validation'')
         (Inr \<lparr>ab_receipt = r, ab_memory = m, ab_traces = traces, ab_replay = replay\<rparr>))))))))))"

subsection \<open>Appending a bundle\<close>

fun draft_links :: "trace list \<Rightarrow> bool" where
  "draft_links (a # b # rest) \<longleftrightarrow>
     tr_parent b = Some (tr_span_id a) \<and> tr_input b = tr_output a \<and> draft_links (b # rest)"
| "draft_links _ \<longleftrightarrow> True"

text \<open>A finished trace that says it is not allowed to act.\<close>

definition sovereign :: "trace \<Rightarrow> bool" where
  "sovereign t =
     (let a = (\<lambda>k. jget_null (JObj (tr_attrs t)) k) in
      tr_state t = COMPLETED \<and> tr_output t \<noteq> None \<and> a ''human_approval_required'' = JBool True \<and>
      a ''can_authorize'' = JBool False \<and> a ''can_execute'' = JBool False \<and>
      a ''effectors_enabled'' = JBool False)"

definition stage_number :: "trace \<Rightarrow> int res" where
  "stage_number t = py_int (case alookup (tr_attrs t) ''sequence'' of None \<Rightarrow> JInt (-1) | Some j \<Rightarrow> j)"

definition check_bundle :: "scope \<Rightarrow> receipt_draft \<Rightarrow> memory_draft \<Rightarrow> trace list \<Rightarrow> string \<Rightarrow> unit res" where
  "check_bundle s rd md traces request =
     guard_else (hex64_ok request) (ValueError ''request_digest must be a lowercase SHA-256 digest'')
    (guard_else (length traces = 9) (ValueError ''analysis bundle requires exactly nine anatomy traces'')
    (let id0 = tr_trace_id (hd traces) in
     guard_else (list_all (\<lambda>t. tr_trace_id t = id0 \<and> tr_scope t = s) traces)
       (ValueError ''analysis traces must share one trace and authenticated scope'')
    (rbind (rmap stage_number traces) (\<lambda>numbers.
     guard_else (numbers = stage_numbers)
       (ValueError ''analysis traces must contain the canonical stage sequence'')
    (guard_else (jget_null (JObj (rd_payload rd)) ''trace_id'' = JStr (uuid_str id0))
       (ValueError ''analysis receipt must link the persisted trace_id'')
    (guard_else (jget_null (JObj (md_meta md)) ''trace_id'' = JStr (uuid_str id0))
       (ValueError ''analysis memory must link the persisted trace_id'')
    (guard_else (tr_parent (hd traces) = None)
       (ValueError ''the first analysis stage cannot have a parent span'')
    (guard_else (draft_links traces)
       (ValueError ''analysis traces must form one digest and parent-span chain'')
    (guard_else (list_all sovereign traces)
       (ValueError ''analysis traces must preserve the human-sovereign boundary'') (Inr ()))))))))))"

text \<open>The rows of the traces, numbered from \<open>n\<close>, each citing the hash of the one before.\<close>

fun trace_records ::
  "(string \<Rightarrow> string) \<Rightarrow> scope \<Rightarrow> int \<Rightarrow> string option \<Rightarrow> datetime \<Rightarrow> (nat \<Rightarrow> uuid) \<Rightarrow> trace list \<Rightarrow>
   trace_row list res" where
  "trace_records hx s n prev t us [] = Inr []"
| "trace_records hx s n prev t us (tr # rest) =
     rbind (trace_record hx s n prev t tr (us (length rest))) (\<lambda>r.
     rbind (trace_records hx s (n + 1) (Some (r_hash r)) t us rest) (\<lambda>rs. Inr (r # rs)))"

definition write_bundle ::
  "(string \<Rightarrow> string) \<Rightarrow> db \<Rightarrow> scope \<Rightarrow> receipt_draft \<Rightarrow> memory_draft \<Rightarrow> trace list \<Rightarrow> string \<Rightarrow> string \<Rightarrow>
   datetime \<Rightarrow> (nat \<Rightarrow> uuid) \<Rightarrow> (idem_row \<times> db) res" where
  "write_bundle hx d s rd md traces key request t us =
     rbind (new_receipt hx d s rd t (us 100)) (\<lambda>(r, d1).
     rbind (append_idempotency hx d1 s key request (r_hash r) t (us 101)) (\<lambda>(i, d2).
     rbind (new_memory hx d2 s md (dedup (md_refs md @ [r_hash r])) (r_hash r) t (us 102)) (\<lambda>(m, d3).
     rbind (locked_head d3 s Anatomy) (\<lambda>h.
     rbind (trace_records hx s (h_seq h + 1) (h_hash h) t us traces) (\<lambda>rows.
     let d4 = advance_head d3 s Anatomy (r_seq (last rows)) (r_hash (last rows)) t in
     rbind (add_receipt d4 r) (\<lambda>d5.
     rbind (add_idem d5 i) (\<lambda>d6.
     rbind (add_memory d6 m) (\<lambda>d7.
     rbind (fold_res add_trace d7 rows) (\<lambda>d8. Inr (i, d8))))))))))"

definition bundle_tx ::
  "(string \<Rightarrow> string) \<Rightarrow> db \<Rightarrow> db \<Rightarrow> scope \<Rightarrow> receipt_draft \<Rightarrow> memory_draft \<Rightarrow> trace list \<Rightarrow> string \<Rightarrow>
   string \<Rightarrow> datetime \<Rightarrow> (nat \<Rightarrow> uuid) \<Rightarrow> (analysis_bundle \<times> db) res" where
  "bundle_tx hx d0 d s rd md traces key request t us =
     rbind (assert_scope d0 s) (\<lambda>_.
     case find_idem d0 s key of
       Some i \<Rightarrow> rbind (resolve_analysis_bundle hx d0 s i request True) (\<lambda>b. Inr (b, d0))
     | None \<Rightarrow>
         rbind (locked_head d s Receipts) (\<lambda>_. rbind (locked_head d s Idempotency) (\<lambda>_.
         rbind (locked_head d s Memory) (\<lambda>_. rbind (locked_head d s Anatomy) (\<lambda>_.
         case find_idem d s key of
           Some i \<Rightarrow> rbind (resolve_analysis_bundle hx d s i request True) (\<lambda>b. Inr (b, d))
         | None \<Rightarrow>
             rbind (write_bundle hx d s rd md traces key request t us) (\<lambda>(i, d1).
             rbind (resolve_analysis_bundle hx d1 s i request False) (\<lambda>b. Inr (b, d1))))))))"

definition append_analysis_bundle ::
  "(string \<Rightarrow> string) \<Rightarrow> db \<Rightarrow> db \<Rightarrow> db \<Rightarrow> scope \<Rightarrow> receipt_draft \<Rightarrow> memory_draft \<Rightarrow> trace list \<Rightarrow>
   string \<Rightarrow> string \<Rightarrow> datetime \<Rightarrow> (nat \<Rightarrow> uuid) \<Rightarrow> (analysis_bundle \<times> db) res" where
  "append_analysis_bundle hx d0 d dr s rd md traces idem_key request t us =
     rbind (check_bundle s rd md traces request) (\<lambda>_.
     rbind (idempotency_digest hx s idem_key) (\<lambda>key.
       let tx = bundle_tx hx d0 d s rd md traces key request t us in
       if tx \<noteq> Inl IntegrityError then tx
       else case find_idem dr s key of
              Some i \<Rightarrow> rbind (resolve_analysis_bundle hx dr s i request True) (\<lambda>b. Inr (b, dr))
            | None \<Rightarrow> Inl (PersistenceError ''analysis bundle append conflicted with concurrent state'')))"

subsection \<open>What a write does\<close>

lemma trace_records_sealed:
  assumes "trace_records hx s n prev t us traces = Inr rows"
  shows "chained hx s Anatomy n prev (map row.truncate rows) \<and> (\<forall>r \<in> set rows. in_scope s r) \<and>
    length rows = length traces \<and> (rows \<noteq> [] \<longrightarrow> r_seq (last rows) = n + int (length rows) - 1)"
  using assms
proof (induction hx s n prev t us traces arbitrary: rows rule: trace_records.induct)
  case (2 hx s n prev t us tr rest)
  then obtain r rs where r: "trace_record hx s n prev t tr (us (length rest)) = Inr r"
    and rs: "trace_records hx s (n + 1) (Some (r_hash r)) t us rest = Inr rs" and rows: "rows = r # rs"
    by (auto simp: rbind_Inr_iff)
  note one = trace_record_sealed [OF r] and ih = "2.IH" [OF rs]
  show ?case using one ih by (auto simp: rows)
qed simp

lemma add_traces: "fold_res add_trace d rows = Inr d' \<Longrightarrow> d' = d\<lparr>d_traces := d_traces d @ rows\<rparr>"
proof (induction rows arbitrary: d)
  case (Cons r rows)
  then obtain d1 where d1: "add_trace d r = Inr d1" and rest: "fold_res add_trace d1 rows = Inr d'"
    by (auto simp: rbind_Inr_iff)
  from d1 have "d1 = d\<lparr>d_traces := d_traces d @ [r]\<rparr>" by (simp add: add_trace_Inr)
  with Cons.IH [OF rest] show ?case by simp
qed simp

lemma new_memory_rows:
  "new_memory hx (d\<lparr>d_receipts := a, d_idems := b\<rparr>) s md refs hash t u =
   map_sum id (\<lambda>(m, d1). (m, d1\<lparr>d_receipts := a, d_idems := b\<rparr>)) (new_memory hx d s md refs hash t u)"
  by (auto simp: new_memory_def locked_head_def advance_head_def rbind_def Let_def
      split: sum.splits option.splits)

text \<open>One record pushed on each of three streams and nine on the fourth.\<close>

inductive bundle_effect ::
  "(string \<Rightarrow> string) \<Rightarrow> db \<Rightarrow> scope \<Rightarrow> string \<Rightarrow> string \<Rightarrow> nat \<Rightarrow> idem_row \<Rightarrow> db \<Rightarrow> bool" where
  written: "pushes hx d s Receipts [row.truncate r] da \<Longrightarrow> pushes hx da s Idempotency [row.truncate i] db \<Longrightarrow>
    pushes hx db s Memory [row.truncate m] dc \<Longrightarrow> pushes hx dc s Anatomy (map row.truncate rows) d' \<Longrightarrow>
    length rows = n \<Longrightarrow> in_scope s r \<Longrightarrow> in_scope s i \<Longrightarrow> im_key i = key \<Longrightarrow> im_request i = request \<Longrightarrow>
    im_response i = r_hash r \<Longrightarrow> mm_receipt m = Some (r_hash r) \<Longrightarrow> in_scope s m \<Longrightarrow>
    d_receipts d' = d_receipts d @ [r] \<Longrightarrow> d_idems d' = d_idems d @ [i] \<Longrightarrow>
    d_memories d' = d_memories d @ [m] \<Longrightarrow> d_traces d' = d_traces d @ rows \<Longrightarrow> d_opers d' = d_opers d \<Longrightarrow>
    bundle_effect hx d s key request n i d'"

lemma write_bundle_effect:
  assumes "write_bundle hx d s rd md traces key request t us = Inr (i, d')" "traces \<noteq> []"
  shows "bundle_effect hx d s key request (length traces) i d'"
proof -
  obtain r d1 where nr: "new_receipt hx d s rd t (us 100) = Inr (r, d1)"
    using assms(1) by (cases "new_receipt hx d s rd t (us 100)") (auto simp: write_bundle_def)
  obtain i' d2 where ai: "append_idempotency hx d1 s key request (r_hash r) t (us 101) = Inr (i', d2)"
    using assms(1) nr
    by (cases "append_idempotency hx d1 s key request (r_hash r) t (us 101)") (auto simp: write_bundle_def)
  let ?refs = "dedup (md_refs md @ [r_hash r])"
  obtain m d3 where nm: "new_memory hx d2 s md ?refs (r_hash r) t (us 102) = Inr (m, d3)"
    using assms(1) nr ai
    by (cases "new_memory hx d2 s md ?refs (r_hash r) t (us 102)") (auto simp: write_bundle_def)
  obtain h where h: "locked_head d3 s Anatomy = Inr h"
    using assms(1) nr ai nm by (cases "locked_head d3 s Anatomy") (auto simp: write_bundle_def)
  obtain rows where rows: "trace_records hx s (h_seq h + 1) (h_hash h) t us traces = Inr rows"
    using assms(1) nr ai nm h
    by (cases "trace_records hx s (h_seq h + 1) (h_hash h) t us traces") (auto simp: write_bundle_def)
  let ?d4 = "advance_head d3 s Anatomy (r_seq (last rows)) (r_hash (last rows)) t"
  obtain d5 d6 d7 where adds: "add_receipt ?d4 r = Inr d5" "add_idem d5 i' = Inr d6" "add_memory d6 m = Inr d7"
    "fold_res add_trace d7 rows = Inr d'" and i: "i' = i"
    using assms(1) nr ai nm h rows by (auto simp: write_bundle_def Let_def rbind_Inr_iff)
  note pr = new_receipt_push [OF nr] and pi = append_idempotency_push [OF ai] and pm = new_memory_push [OF nm]
  note tr = trace_records_sealed [OF rows]
  have ne: "rows \<noteq> []" using tr assms(2) by auto
  let ?ra = "d_receipts d @ [r]" and ?ib = "d_idems d @ [i]"
  have idems1: "d_idems d1 = d_idems d" "d_memories d1 = d_memories d" "d_traces d1 = d_traces d" "d_opers d1 = d_opers d"
    using nr by (auto simp: new_receipt_def rbind_Inr_iff)
  have keep2: "d_receipts d2 = d_receipts d" "d_idems d2 = d_idems d" "d_memories d2 = d_memories d"
    "d_traces d2 = d_traces d" "d_opers d2 = d_opers d"
    using ai idems1 pr(2) by (auto simp: append_idempotency_def rbind_Inr_iff)
  have keep3: "d_receipts d3 = d_receipts d" "d_idems d3 = d_idems d" "d_memories d3 = d_memories d"
    "d_traces d3 = d_traces d" "d_opers d3 = d_opers d"
    using pm(9) keep2 by auto
  define da where "da = d1\<lparr>d_receipts := ?ra\<rparr>"
  define db where "db = d2\<lparr>d_receipts := ?ra, d_idems := ?ib\<rparr>"
  define dc where "dc = d3\<lparr>d_receipts := ?ra, d_idems := ?ib, d_memories := d_memories d @ [m]\<rparr>"
  have d': "d' = ?d4\<lparr>d_receipts := ?ra, d_idems := ?ib, d_memories := d_memories d @ [m],
                     d_traces := d_traces d @ rows\<rparr>"
    using add_traces [OF adds(4)] adds(1-3) keep3
    by (simp add: add_receipt_Inr add_idem_Inr add_memory_Inr i)
  have p1: "pushes hx d s Receipts [row.truncate r] da" using pr(1,2) by (simp add: da_def)
  have "append_idempotency hx da s key request (r_hash r) t (us 101) = Inr (i, d2\<lparr>d_receipts := ?ra\<rparr>)"
    by (simp add: da_def append_idempotency_rows ai i)
  from append_idempotency_push(1) [OF this] have p2: "pushes hx da s Idempotency [row.truncate i] db"
    using keep2 by (simp add: db_def)
  have "new_memory hx db s md ?refs (r_hash r) t (us 102) = Inr (m, d3\<lparr>d_receipts := ?ra, d_idems := ?ib\<rparr>)"
    by (simp add: db_def new_memory_rows nm)
  from new_memory_push(1) [OF this] have p3: "pushes hx db s Memory [row.truncate m] dc"
    using keep3 by (simp add: dc_def)
  have seq: "h_seq h + int (length (map row.truncate rows)) = r_seq (last rows)"
    "r_hash (last (map row.truncate rows)) = r_hash (last rows)" using tr ne by (simp_all add: last_map)
  have heads: "d_heads d' = d_heads (advance_head dc s Anatomy (h_seq h + int (length (map row.truncate rows)))
      (r_hash (last (map row.truncate rows))) t)"
    unfolding seq by (simp add: d' dc_def advance_head_def)
  have hc: "locked_head dc s Anatomy = Inr h" using h by (simp add: dc_def locked_head_def)
  have "stream_rows d' st = stream_rows dc st @ (if st = Anatomy then map row.truncate rows else [])" for st
    by (cases st) (simp_all add: d' dc_def keep3)
  then have p4: "pushes hx dc s Anatomy (map row.truncate rows) d'"
    unfolding pushes_def using hc heads tr ne by (simp add: d' dc_def) blast
  show ?thesis
    by (rule bundle_effect.written [OF p1 p2 p3 p4]) (use tr pr pi pm keep3 in \<open>simp_all add: i [symmetric] d'\<close>)
qed

lemma bundle_effect_inv:
  assumes "bundle_effect hx d s key request n i d'" "db_inv hx d" "has_workspace d s"
  shows "db_inv hx d'"
  using assms
proof cases
  case (written r da db m dc rows)
  have w: "has_workspace da s" "has_workspace db s" "has_workspace dc s"
    using pushes_workspace written(1-3) assms(3) by metis+
  have "db_inv hx da" by (rule push_inv [OF assms(2,3) written(1)])
  from push_inv [OF this w(1) written(2)] have "db_inv hx db" .
  from push_inv [OF this w(2) written(3)] have "db_inv hx dc" .
  from push_inv [OF this w(3) written(4)] show ?thesis .
qed

end
