(* ===== verification/Bundles.thy ===== *)
theory Bundles
  imports Bundle_Store
begin

section \<open>What analysis bundles promise\<close>

text \<open>
  A returned bundle is linked and validated, a claim is written together with what it claims,
  and repeating a request returns the first bundle.
\<close>

subsection \<open>Reading back\<close>

text \<open>The bundle as a reader may rely on it.\<close>

definition bundle_ok :: "(string \<Rightarrow> string) \<Rightarrow> db \<Rightarrow> scope \<Rightarrow> analysis_bundle \<Rightarrow> bool" where
  "bundle_ok hx d s b \<longleftrightarrow>
     (let r = ab_receipt b; m = ab_memory b; ts = ab_traces b in
      r \<in> set (d_receipts d) \<and> in_scope s r \<and> m \<in> set (d_memories d) \<and> in_scope s m \<and>
      mm_receipt m = Some (r_hash r) \<and> mm_label m = rc_label r \<and>
      mm_partition m = enterprise_memory_partition hx s \<and>
      length ts = 9 \<and> span_links ts \<and> tc_parent (hd ts) = None \<and>
      (\<forall>t \<in> set ts. t \<in> set (d_traces d) \<and> in_scope s t \<and> tc_label t = rc_label r \<and>
         jget_null (rc_payload r) ''trace_id'' = JStr (tc_trace t)) \<and>
      validate_projection hx d (row.truncate r) s ''szl.lyte.receipt/v1'' Receipts (receipt_projection r) = Inr () \<and>
      validate_projection hx d (row.truncate m) s ''szl.lyte.memory-record/v2'' Memory (memory_projection m) = Inr ())"

lemma resolve_idempotent_receipt_Inr:
  "resolve_idempotent_receipt d s i request = Inr r \<longleftrightarrow>
     im_request i = request \<and> find_receipt d s (im_response i) = Some r"
  by (auto simp: resolve_idempotent_receipt_def guard_else_Inr_iff split: option.splits)

lemma linked_trace_id_Inr:
  "linked_trace_id r = Inr x \<longleftrightarrow> is_obj (rc_payload r) \<and> jget_null (rc_payload r) ''trace_id'' = JStr x"
  by (cases "jget_null (rc_payload r) ''trace_id''") (auto simp: linked_trace_id_def guard_else_Inr_iff)

lemma resolve_Inr:
  assumes "resolve_analysis_bundle hx d s i request f = Inr b"
  obtains r m trace_id u digest where
    "validate_projection hx d (row.truncate i) s ''szl.lyte.idempotency-record/v1'' Idempotency (idem_projection i) = Inr ()"
    "im_request i = request" "find_receipt d s (im_response i) = Some r"
    "validate_projection hx d (row.truncate r) s ''szl.lyte.receipt/v1'' Receipts (receipt_projection r) = Inr ()"
    "linked_trace_id r = Inr trace_id" "list_all (\<lambda>t. is_obj (tc_attrs t)) (scoped_traces d s trace_id)"
    "memory_of_receipt d s (r_hash r) = Some m"
    "bundle_complete (Some m) (scoped_traces d s trace_id) trace_id"
    "validate_projection hx d (row.truncate m) s ''szl.lyte.memory-record/v2'' Memory (memory_projection m) = Inr ()"
    "validate_traces hx d s (scoped_traces d s trace_id) = Inr u"
    "sha256_json hx (JList (map stage_json (scoped_traces d s trace_id))) = Inr digest"
    "bundle_linked hx s r m (scoped_traces d s trace_id) digest"
    "b = \<lparr>ab_receipt = r, ab_memory = m, ab_traces = scoped_traces d s trace_id, ab_replay = f\<rparr>"
proof -
  have valid: "validate_projection hx d x s sch st data = Inr u \<Longrightarrow>
      validate_projection hx d x s sch st data = Inr ()" for x sch st data and u :: unit by simp
  obtain r trace_id where a: "validate_projection hx d (row.truncate i) s ''szl.lyte.idempotency-record/v1'' Idempotency (idem_projection i) = Inr ()"
    "im_request i = request" "find_receipt d s (im_response i) = Some r"
    "validate_projection hx d (row.truncate r) s ''szl.lyte.receipt/v1'' Receipts (receipt_projection r) = Inr ()"
    "linked_trace_id r = Inr trace_id"
    using assms unfolding resolve_analysis_bundle_def rbind_Inr_iff resolve_idempotent_receipt_Inr by auto
  let ?m = "memory_of_receipt d s (r_hash r)" and ?ts = "scoped_traces d s trace_id"
  have r: "resolve_idempotent_receipt d s i request = Inr r" using a(2,3) by (simp add: resolve_idempotent_receipt_Inr)
  have rest: "list_all (\<lambda>t. is_obj (tc_attrs t)) ?ts" "bundle_complete ?m ?ts trace_id"
    using assms unfolding resolve_analysis_bundle_def a(1) rbind_simps r a(4,5) Let_def guard_else_Inr_iff by blast+
  obtain m where m: "?m = Some m" using rest(2) by (cases ?m) (simp_all add: bundle_complete_def)
  obtain u digest where c:
    "validate_projection hx d (row.truncate m) s ''szl.lyte.memory-record/v2'' Memory (memory_projection m) = Inr ()"
    "validate_traces hx d s ?ts = Inr u" "sha256_json hx (JList (map stage_json ?ts)) = Inr digest"
    "bundle_linked hx s r m ?ts digest"
    "b = \<lparr>ab_receipt = r, ab_memory = m, ab_traces = ?ts, ab_replay = f\<rparr>"
    using assms unfolding resolve_analysis_bundle_def a(1) rbind_simps r a(4,5) Let_def guard_else_Inr_iff
      rbind_Inr_iff m option.sel by auto
  show thesis by (rule that [OF a rest(1) m rest(2) [unfolded m] c])
qed

lemma resolve_intro:
  assumes
    "validate_projection hx d (row.truncate i) s ''szl.lyte.idempotency-record/v1'' Idempotency (idem_projection i) = Inr ()"
    "im_request i = request" "find_receipt d s (im_response i) = Some r"
    "validate_projection hx d (row.truncate r) s ''szl.lyte.receipt/v1'' Receipts (receipt_projection r) = Inr ()"
    "linked_trace_id r = Inr trace_id" "list_all (\<lambda>t. is_obj (tc_attrs t)) (scoped_traces d s trace_id)"
    "memory_of_receipt d s (r_hash r) = Some m"
    "bundle_complete (Some m) (scoped_traces d s trace_id) trace_id"
    "validate_projection hx d (row.truncate m) s ''szl.lyte.memory-record/v2'' Memory (memory_projection m) = Inr ()"
    "validate_traces hx d s (scoped_traces d s trace_id) = Inr u"
    "sha256_json hx (JList (map stage_json (scoped_traces d s trace_id))) = Inr digest"
    "bundle_linked hx s r m (scoped_traces d s trace_id) digest"
  shows "resolve_analysis_bundle hx d s i request f =
    Inr \<lparr>ab_receipt = r, ab_memory = m, ab_traces = scoped_traces d s trace_id, ab_replay = f\<rparr>"
proof -
  have "resolve_idempotent_receipt d s i request = Inr r"
    using assms(2,3) by (simp add: resolve_idempotent_receipt_Inr)
  then show ?thesis
    unfolding resolve_analysis_bundle_def assms(1,4,5,7,9,10,11) rbind_simps Let_def option.sel
    using assms(6,8,12) by (simp add: assms(4,5,7,9,10,11))
qed

text \<open>The same claim read again.\<close>

lemma resolve_again:
  assumes "resolve_analysis_bundle hx d s i request f = Inr b"
  shows "resolve_analysis_bundle hx d s i request2 True =
    (if request2 = request then Inr (b\<lparr>ab_replay := True\<rparr>)
     else Inl (IdempotencyConflict ''idempotency key was already used for a different request''))"
  using assms
proof (cases rule: resolve_Inr)
  case (1 r m trace_id u digest)
  show ?thesis
  proof (cases "request2 = request")
    case True
    then show ?thesis
      using resolve_intro [OF 1(1) _ 1(3-12), of request2 True] 1(2,13) by simp
  next
    case False
    then have "resolve_idempotent_receipt d s i request2 =
        Inl (IdempotencyConflict ''idempotency key was already used for a different request'')"
      using 1(2) by (simp add: resolve_idempotent_receipt_def)
    then show ?thesis using False 1(1) by (simp add: resolve_analysis_bundle_def)
  qed
qed

lemma resolve_ok:
  assumes "resolve_analysis_bundle hx d s i request f = Inr b"
  shows "bundle_ok hx d s b" "ab_replay b = f"
  using assms
proof (atomize (full), cases rule: resolve_Inr)
  case (1 r m trace_id u digest)
  let ?ts = "scoped_traces d s trace_id"
  have r: "r \<in> set (d_receipts d)" "in_scope s r"
    using 1(3) by (auto simp: find_receipt_def find_Some_iff)
  have m: "m \<in> set (d_memories d)" "in_scope s m" "mm_receipt m = Some (r_hash r)"
    using 1(7) by (auto simp: memory_of_receipt_def find_Some_iff)
  have ts: "t \<in> set (d_traces d)" "in_scope s t" "tc_trace t = trace_id" if "t \<in> set ?ts" for t
    using that by (auto simp: scoped_traces_def)
  have tid: "jget_null (rc_payload r) ''trace_id'' = JStr trace_id"
    using 1(5) by (simp add: linked_trace_id_Inr)
  have c: "length ?ts = 9" "span_links ?ts" "tc_parent (hd ?ts) = None"
    using 1(8) by (simp_all add: bundle_complete_def)
  have l: "mm_label m = rc_label r" "mm_partition m = enterprise_memory_partition hx s"
    "\<forall>t \<in> set ?ts. tc_label t = rc_label r"
    using 1(12) by (simp_all add: bundle_linked_def Let_def list_all_iff)
  show "bundle_ok hx d s b \<and> ab_replay b = f"
    unfolding 1(13) bundle_ok_def Let_def using r m ts tid c l 1(4,9) by simp
qed

subsection \<open>Appending\<close>

lemma bundle_tx_Inr:
  assumes "bundle_tx hx d0 d s rd md traces key request t us = Inr (b, d')" "traces \<noteq> []"
  shows "(\<exists>i. find_idem d' s key = Some i \<and> d' \<in> {d0, d} \<and> resolve_analysis_bundle hx d' s i request True = Inr b) \<or>
    (\<exists>i h. find_idem d s key = None \<and> locked_head d s Receipts = Inr h \<and>
       bundle_effect hx d s key request (length traces) i d' \<and>
       resolve_analysis_bundle hx d' s i request False = Inr b)"
proof -
  have ws: "assert_scope d0 s = Inr ()" using assms(1) by (auto simp: bundle_tx_def rbind_Inr_iff)
  show ?thesis
  proof (cases "find_idem d0 s key")
    case (Some i)
    then show ?thesis using assms(1) ws by (auto simp: bundle_tx_def rbind_Inr_iff)
  next
    case None
    with assms(1) ws obtain h where h: "locked_head d s Receipts = Inr h"
      and rest: "(case find_idem d s key of
           Some i \<Rightarrow> rbind (resolve_analysis_bundle hx d s i request True) (\<lambda>b. Inr (b, d))
         | None \<Rightarrow> rbind (write_bundle hx d s rd md traces key request t us) (\<lambda>(i, d1).
             rbind (resolve_analysis_bundle hx d1 s i request False) (\<lambda>b. Inr (b, d1)))) = Inr (b, d')"
      unfolding bundle_tx_def ws rbind_simps None option.case rbind_Inr_iff [of "locked_head d s _"] by blast
    show ?thesis
    proof (cases "find_idem d s key")
      case (Some i)
      then show ?thesis using rest by (auto simp: rbind_Inr_iff)
    next
      case none: None
      then obtain i where w: "write_bundle hx d s rd md traces key request t us = Inr (i, d')"
        and r: "resolve_analysis_bundle hx d' s i request False = Inr b"
        using rest by (auto simp: rbind_Inr_iff)
      show ?thesis using write_bundle_effect [OF w assms(2)] h none r by blast
    qed
  qed
qed

lemma append_bundle_cases:
  assumes "append_analysis_bundle hx d0 d dr s rd md traces idem_key request t us = Inr (b, d')"
  obtains (replayed) key i where "idempotency_digest hx s idem_key = Inr key" "find_idem d' s key = Some i"
      "d' \<in> {d0, d, dr}" "resolve_analysis_bundle hx d' s i request True = Inr b"
  | (appended) key i h where "idempotency_digest hx s idem_key = Inr key" "find_idem d s key = None"
      "locked_head d s Receipts = Inr h" "bundle_effect hx d s key request 9 i d'"
      "resolve_analysis_bundle hx d' s i request False = Inr b"
proof -
  obtain key where chk: "check_bundle s rd md traces request = Inr ()"
    and key: "idempotency_digest hx s idem_key = Inr key"
    using assms by (auto simp: append_analysis_bundle_def rbind_Inr_iff)
  have len: "length traces = 9" using chk unfolding check_bundle_def guard_else_Inr_iff by blast
  then have ne: "traces \<noteq> []" by auto
  show thesis
  proof (cases "bundle_tx hx d0 d s rd md traces key request t us = Inl IntegrityError")
    case True
    then have rec: "(case find_idem dr s key of
           Some i \<Rightarrow> rbind (resolve_analysis_bundle hx dr s i request True) (\<lambda>b. Inr (b, dr))
         | None \<Rightarrow> Inl (PersistenceError ''analysis bundle append conflicted with concurrent state'')) = Inr (b, d')"
      using assms unfolding append_analysis_bundle_def chk key rbind_simps Let_def by (simp only: True simp_thms if_False)
    show thesis
    proof (cases "find_idem dr s key")
      case None
      then show thesis using rec by simp
    next
      case (Some i)
      then have "rbind (resolve_analysis_bundle hx dr s i request True) (\<lambda>b. Inr (b, dr)) = Inr (b, d')"
        using rec by simp
      then have "resolve_analysis_bundle hx dr s i request True = Inr b \<and> d' = dr"
        by (cases "resolve_analysis_bundle hx dr s i request True") simp_all
      then show thesis using replayed [OF key] Some by blast
    qed
  next
    case False
    then have "bundle_tx hx d0 d s rd md traces key request t us = Inr (b, d')"
      using assms chk key by (simp add: append_analysis_bundle_def)
    from bundle_tx_Inr [OF this ne] show thesis
      using replayed [OF key] appended [OF key] unfolding len by blast
  qed
qed

lemma head_workspace:
  assumes "db_inv hx d" "locked_head d s st = Inr h"
  shows "has_workspace d s"
proof -
  have h: "h \<in> set (d_heads d)" "head_key h = scope_key s st" using locked_head_Inr [OF assms(2)] by simp_all
  then have "scope_exists d (h_tenant h) (h_workspace h)" using assms(1) by (simp add: db_inv_def)
  then show ?thesis using h(2) by (simp add: has_workspace_def head_key_def scope_key_def)
qed

lemma bundle_claimed:
  assumes "bundle_effect hx d s key request n i d'" "find_idem d s key = None"
  shows "find_idem d' s key = Some i"
  using assms by cases (simp add: find_idem_def find_snoc)

lemma append_bundle_inv:
  assumes "append_analysis_bundle hx d0 d dr s rd md traces idem_key request t us = Inr (b, d')"
    and "db_inv hx d0" "db_inv hx d" "db_inv hx dr"
  shows "db_inv hx d'"
  using assms(1)
proof (cases rule: append_bundle_cases)
  case (appended key i h)
  from bundle_effect_inv [OF appended(4) assms(3) head_workspace [OF assms(3) appended(3)]] show ?thesis .
qed (use assms in auto)

lemma bundle_repeated:
  assumes "append_analysis_bundle hx d0 d dr s rd md traces idem_key request t us = Inr (b, d')"
    and "db_inv hx d0" "db_inv hx d" "db_inv hx dr"
    and "check_bundle s rd2 md2 traces2 request2 = Inr ()"
  shows "append_analysis_bundle hx d' dl dr2 s rd2 md2 traces2 idem_key request2 t2 us2 =
    (if request2 = request then Inr (b\<lparr>ab_replay := True\<rparr>, d')
     else Inl (IdempotencyConflict ''idempotency key was already used for a different request''))"
proof -
  have inv: "db_inv hx d'" by (rule append_bundle_inv [OF assms(1-4)])
  obtain key i f where key: "idempotency_digest hx s idem_key = Inr key" and i: "find_idem d' s key = Some i"
    and r: "resolve_analysis_bundle hx d' s i request f = Inr b"
    using assms(1)
  proof (cases rule: append_bundle_cases)
    case (appended key i h)
    then show thesis using bundle_claimed that by blast
  qed (use that in blast)
  have "assert_scope d' s = Inr ()" by (rule idem_scope [OF inv i])
  then show ?thesis
    using assms(5) key i unfolding append_analysis_bundle_def bundle_tx_def Let_def
    by (simp add: resolve_again [OF r])
qed

subsection \<open>Properties\<close>

text \<open>C2: A bundle is appended as a whole.  When the call returns, the four chains are valid, the
  returned rows are stored, linked and match their hash bases, and either the call found an
  earlier claim and changed nothing (it returns one of the states it read), or it appended exactly
  one receipt, one claim of the key for that receipt, one memory record and nine traces, each at
  the end of its own stream, and no operational record.\<close>

theorem bundle_atomic:
  assumes "append_analysis_bundle hx d0 d dr s rd md traces idem_key request t us = Inr (b, d')"
    and "db_inv hx d0" "db_inv hx d" "db_inv hx dr"
  shows "db_inv hx d' \<and> bundle_ok hx d' s b \<and>
    (if ab_replay b then d' \<in> {d0, d, dr}
     else \<exists>key i. idempotency_digest hx s idem_key = Inr key \<and> bundle_effect hx d s key request 9 i d' \<and>
            im_response i = r_hash (ab_receipt b))"
  using assms(1)
proof (cases rule: append_bundle_cases)
  case (replayed key i)
  then show ?thesis using append_bundle_inv [OF assms] resolve_ok [OF replayed(4)] by simp
next
  case (appended key i h)
  have "im_response i = r_hash (ab_receipt b)"
    using appended(5) by (cases rule: resolve_Inr) (auto simp: find_receipt_def find_Some_iff)
  then show ?thesis
    using append_bundle_inv [OF assms] resolve_ok [OF appended(5)] appended(1,4) by simp blast
qed

text \<open>Bundles are idempotent: once a call has returned a bundle, a call with the same key on
  the database it left, whatever its drafts, returns the same rows marked as a replay and changes
  nothing if its request digest is the same, and raises \<open>IdempotencyConflict\<close> if it is another.\<close>

theorem bundle_idempotent:
  assumes "append_analysis_bundle hx d0 d dr s rd md traces idem_key request t us = Inr (b, d')"
    and "db_inv hx d0" "db_inv hx d" "db_inv hx dr"
    and "check_bundle s rd2 md2 traces2 request2 = Inr ()"
  shows "append_analysis_bundle hx d' dl dr2 s rd2 md2 traces2 idem_key request2 t2 us2 =
    (if request2 = request then Inr (b\<lparr>ab_replay := True\<rparr>, d')
     else Inl (IdempotencyConflict ''idempotency key was already used for a different request''))"
  by (rule bundle_repeated [OF assms])

end
