(* ===== verification/Bundle_Progress.thy ===== *)
theory Bundle_Progress
  imports Bundles
begin

section \<open>Appends go through\<close>

text \<open>
  The store refuses a record only for a reason.  Where the hash separates the records of a stream
  (\<open>separates\<close>; an injective one does), a record sealed at the head of a valid chain meets the
  uniqueness constraints of its table, and an analysis whose drafts agree is appended.
\<close>

subsection \<open>A sealed record fits its table\<close>

lemma chained_member:
  assumes "chained hx s st n prev rs" "r \<in> set rs"
  shows "\<exists>p. basis_matches s st (r_seq r) p (r_basis r) \<and> sha256_json hx (JObj (r_basis r)) = Inr (r_hash r)"
  using assms by (induction rs arbitrary: n prev) auto

text \<open>
  Records of one stream with different numbers up to \<open>b\<close> have different hashes.  An injective \<open>hx\<close>
  gives this for every \<open>b\<close>; a digest of fixed length can give it only up to some \<open>b\<close>.
\<close>

definition separates :: "(string \<Rightarrow> string) \<Rightarrow> scope \<Rightarrow> stream \<Rightarrow> int \<Rightarrow> bool" where
  "separates hx s st b \<longleftrightarrow> (\<forall>m n p q x y c. 1 \<le> m \<and> m \<le> b \<and> 1 \<le> n \<and> n \<le> b \<and>
     basis_matches s st m p x \<and> basis_matches s st n q y \<and>
     sha256_json hx (JObj x) = Inr c \<and> sha256_json hx (JObj y) = Inr c \<longrightarrow> m = n)"

text \<open>The same for every stream of a scope, with room for \<open>k\<close> more records.\<close>

definition separates_next :: "(string \<Rightarrow> string) \<Rightarrow> db \<Rightarrow> scope \<Rightarrow> nat \<Rightarrow> bool" where
  "separates_next hx d s k \<longleftrightarrow> (\<forall>st h. locked_head d s st = Inr h \<longrightarrow> separates hx s st (h_seq h + int k))"

lemma inj_separates: "inj hx \<Longrightarrow> separates hx s st b"
  unfolding separates_def
proof (intro allI impI, elim conjE)
  fix m n :: int and p q x y c
  assume inj: "inj hx" and x: "basis_matches s st m p x" "sha256_json hx (JObj x) = Inr c"
    and y: "basis_matches s st n q y" "sha256_json hx (JObj y) = Inr c"
  obtain t where "canonical_json (JObj x) = Inr t" "canonical_json (JObj y) = Inr t"
    using x(2) y(2) injD [OF inj] unfolding sha256_json_Inr by metis
  then show "m = n" by (rule basis_matches_determined(1) [OF x(1) y(1) canonical_json_inj])
qed

lemma separates_mono: "separates hx s st b \<Longrightarrow> a \<le> b \<Longrightarrow> separates hx s st a"
  unfolding separates_def by (meson order_trans)

lemma chained_hash_inj:
  assumes sep: "separates hx s st b" and c: "chained hx s st 1 None rs" and b: "int (length rs) \<le> b"
    and xy: "x \<in> set rs" "y \<in> set rs" "r_hash x = r_hash y"
  shows "r_seq x = r_seq y"
proof -
  obtain p q where x: "basis_matches s st (r_seq x) p (r_basis x)" "sha256_json hx (JObj (r_basis x)) = Inr (r_hash x)"
    and y: "basis_matches s st (r_seq y) q (r_basis y)" "sha256_json hx (JObj (r_basis y)) = Inr (r_hash y)"
    using chained_member [OF c] xy by metis
  have "1 \<le> r_seq z \<and> r_seq z \<le> b" if "z \<in> set rs" for z
    using chained_bounds [OF c] b that by fastforce
  then show ?thesis using sep x y xy unfolding separates_def by metis
qed

lemma chained_increasing: "chained hx s st n prev rs \<Longrightarrow> sorted_wrt (\<lambda>x y. r_seq x < r_seq y) rs"
proof (induction rs arbitrary: n prev)
  case (Cons r rs)
  then show ?case using chained_bounds [of hx s st "n + 1" "Some (r_hash r)" rs] by fastforce
qed simp

text \<open>Two rows a table can hold together.\<close>

definition compatible :: "('a row_scheme \<Rightarrow> 'a row_scheme \<Rightarrow> bool) \<Rightarrow> 'a row_scheme \<Rightarrow> 'a row_scheme \<Rightarrow> bool" where
  "compatible clash x r \<longleftrightarrow> r_id x \<noteq> r_id r \<and>
     \<not> (r_tenant x = r_tenant r \<and> r_workspace x = r_workspace r \<and>
        (r_seq x = r_seq r \<or> r_hash x = r_hash r \<or> clash x r))"

lemma row_fits_compatible:
  "row_fits d clash rows r \<longleftrightarrow> scope_exists d (r_tenant r) (r_workspace r) \<and> (\<forall>x \<in> set rows. compatible clash x r)"
  by (simp add: row_fits_def compatible_def list_all_iff)

lemma new_rows_compatible:
  assumes sep: "separates hx s st (h_seq h + int k)" and k: "length new \<le> k"
    and inv: "stream_inv hx d s st" and h: "locked_head d s st = Inr h"
    and c: "chained hx s st (h_seq h + 1) (h_hash h) new" and sc: "\<forall>r \<in> set new. in_scope s r"
  shows "x \<in> set (stream_rows d st) \<Longrightarrow> r \<in> set new \<Longrightarrow> r_id x \<noteq> r_id r \<Longrightarrow> compatible no_clash x r"
    and "sorted_wrt (\<lambda>x r. r_id x \<noteq> r_id r \<longrightarrow> compatible no_clash x r) new"
proof -
  let ?old = "filter (in_scope s) (stream_rows d st)"
  have all: "chained hx s st 1 None (?old @ new)"
    using inv h c by (auto simp: stream_inv_def Let_def chained_append algebra_simps)
  have "int (length (?old @ new)) \<le> h_seq h + int k"
    using inv h k by (auto simp: stream_inv_def Let_def)
  note hash = chained_hash_inj [OF sep all this]
  note sorted = chained_increasing [OF all, unfolded sorted_wrt_append]
  show "compatible no_clash x r" if "x \<in> set (stream_rows d st)" "r \<in> set new" "r_id x \<noteq> r_id r" for x r
  proof (cases "in_scope s x")
    case True
    then have "r_seq x < r_seq r" using sorted that by auto
    moreover have "r_hash x = r_hash r \<Longrightarrow> r_seq x = r_seq r"
      using hash True that by simp
    ultimately show ?thesis using that by (auto simp: compatible_def no_clash_def)
  next
    case False
    then show ?thesis using that sc by (auto simp: compatible_def in_scope_def)
  qed
  have "r_seq x < r_seq r \<longrightarrow> r_id x \<noteq> r_id r \<longrightarrow> compatible no_clash x r" if "x \<in> set new" "r \<in> set new" for x r
    using hash [of x r] that by (auto simp: compatible_def no_clash_def)
  then show "sorted_wrt (\<lambda>x r. r_id x \<noteq> r_id r \<longrightarrow> compatible no_clash x r) new"
    using sorted by (auto intro: sorted_wrt_mono_rel [rotated])
qed

lemma compatible_truncate:
  "compatible no_clash (row.truncate x) (row.truncate r) \<longleftrightarrow> compatible no_clash x r"
  by (simp add: compatible_def no_clash_def)

lemma add_traces_ok:
  assumes "\<forall>r \<in> set rows. scope_exists d (r_tenant r) (r_workspace r)"
    and "\<forall>x \<in> set (d_traces d). \<forall>r \<in> set rows. compatible no_clash x r"
    and "sorted_wrt (compatible no_clash) rows"
  shows "fold_res add_trace d rows = Inr (d\<lparr>d_traces := d_traces d @ rows\<rparr>)"
  using assms
proof (induction rows arbitrary: d)
  case (Cons r rows)
  let ?d = "d\<lparr>d_traces := d_traces d @ [r]\<rparr>"
  have "add_trace d r = Inr ?d"
    using Cons.prems by (simp add: add_trace_Inr row_fits_compatible)
  moreover have "fold_res add_trace ?d rows = Inr (?d\<lparr>d_traces := d_traces ?d @ rows\<rparr>)"
    by (rule Cons.IH) (use Cons.prems in \<open>auto simp: scope_exists_def\<close>)
  ultimately show ?case by simp
qed simp

subsection \<open>Rows of traces\<close>

lemma canonical_timestamp_aware:
  "isoformat_z t = Inr x \<Longrightarrow> canonical_timestamp d t = Inr x"
  by (cases t) (simp_all add: canonical_timestamp_def)

lemma trace_record_row:
  assumes "trace_record hx s n prev t tr u = Inr r"
  shows "r_id r = uuid_str u" "tc_trace r = uuid_str (tr_trace_id tr)" "tc_span r = uuid_str (tr_span_id tr)"
    "tc_parent r = map_option uuid_str (tr_parent tr)" "tc_label r = label_value (tr_label tr)"
    "tc_input r = tr_input tr" "tc_output r = tr_output tr" "tc_attrs r = JObj (tr_attrs tr)"
    "tr_scope tr = s \<Longrightarrow> rbind (trace_projection d s r) (\<lambda>data.
       validate_projection hx d (row.truncate r) s ''szl.lyte.anatomy-trace/v1'' Anatomy data) = Inr ()"
proof -
  obtain j b where j: "trace_to_dict tr = Inr j"
    and b: "seal hx ''szl.lyte.anatomy-trace/v1'' s Anatomy n prev u t (jfields j) = Inr b"
    and r: "row.extend b (trace_row.fields (uuid_str (tr_trace_id tr)) (uuid_str (tr_span_id tr))
              (map_option uuid_str (tr_parent tr)) (organ_value (tr_organ tr)) (tr_operation tr)
              (trace_state_value (tr_state tr)) (label_value (tr_label tr)) (tr_started tr)
              (tr_completed tr) (tr_input tr) (tr_output tr) (JObj (tr_attrs tr))) = r"
    using assms unfolding trace_record_def rbind_Inr_iff sum.inject by blast
  show "r_id r = uuid_str u" using seal_chained(5) [OF b] by (simp add: r [symmetric])
  show fields: "tc_trace r = uuid_str (tr_trace_id tr)" "tc_span r = uuid_str (tr_span_id tr)"
    "tc_parent r = map_option uuid_str (tr_parent tr)" "tc_label r = label_value (tr_label tr)"
    "tc_input r = tr_input tr" "tc_output r = tr_output tr" "tc_attrs r = JObj (tr_attrs tr)"
    by (simp_all add: r [symmetric] row.extend_def trace_row.fields_def)
  have more_fields: "tc_organ r = organ_value (tr_organ tr)" "tc_operation r = tr_operation tr"
    "tc_state r = trace_state_value (tr_state tr)" "tc_started r = tr_started tr" "tc_completed r = tr_completed tr"
    by (simp_all add: r [symmetric] row.extend_def trace_row.fields_def)
  have trunc: "row.truncate r = b" by (simp add: r [symmetric])
  show "rbind (trace_projection d s r) (\<lambda>data.
       validate_projection hx d (row.truncate r) s ''szl.lyte.anatomy-trace/v1'' Anatomy data) = Inr ()"
    if scope: "tr_scope tr = s"
  proof -
    obtain st c where st: "isoformat_z (tr_started tr) = Inr st" and c: "iso_opt (tr_completed tr) = Inr c"
      using j by (auto simp: trace_to_dict_def rbind_Inr_iff)
    have finished: "(case tr_completed tr of None \<Rightarrow> Inr JNull
        | Some x \<Rightarrow> rbind (canonical_timestamp d x) (\<lambda>y. Inr (JStr y))) = Inr c"
      using c canonical_timestamp_aware by (cases "tr_completed tr") (auto simp: iso_opt_def rbind_Inr_iff)
    have parent: "jopt (map_option uuid_str (tr_parent tr)) =
        (case tr_parent tr of None \<Rightarrow> JNull | Some p \<Rightarrow> JStr (uuid_str p))"
      by (cases "tr_parent tr") (simp_all add: jopt_def)
    have "trace_projection d s r = Inr (jfields j)"
      unfolding trace_projection_def fields more_fields finished canonical_timestamp_aware [OF st] parent
      using j by (auto simp: trace_to_dict_def st c scope)
    then show ?thesis using validate_sealed [OF b, of d] by (simp add: trunc)
  qed
qed

lemma trace_records_rows:
  assumes "trace_records hx s n prev t us traces = Inr rows"
  shows "list_all2 (\<lambda>tr r. \<exists>n prev u. trace_record hx s n prev t tr u = Inr r) traces rows \<and>
    map r_id rows = map (\<lambda>i. uuid_str (us i)) (rev [0..<length traces])"
  using assms
proof (induction hx s n prev t us traces arbitrary: rows rule: trace_records.induct)
  case (2 hx s n prev t us tr rest)
  then obtain r rs where r: "trace_record hx s n prev t tr (us (length rest)) = Inr r"
    and rs: "trace_records hx s (n + 1) (Some (r_hash r)) t us rest = Inr rs" and rows: "rows = r # rs"
    by (auto simp: rbind_Inr_iff)
  show ?case using "2.IH" [OF rs] trace_record_row(1) [OF r] r by (auto simp: rows)
qed simp

text \<open>A trace that can be written down.\<close>

definition trace_writable :: "trace \<Rightarrow> bool" where
  "trace_writable tr \<longleftrightarrow> is_aware (tr_started tr) \<and> (\<forall>c. tr_completed tr = Some c \<longrightarrow> is_aware c) \<and>
     (\<exists>x. canonical_json (JObj (tr_attrs tr)) = Inr x)"

lemma trace_record_total:
  assumes "trace_writable tr" "is_aware t"
  shows "\<exists>r. trace_record hx s n prev t tr u = Inr r"
proof -
  obtain st c where st: "isoformat_z (tr_started tr) = Inr st" and c: "iso_opt (tr_completed tr) = Inr c"
    using assms(1) isoformat_z_Inr_iff iso_opt_Inr_iff by (metis trace_writable_def)
  have "json_floats c = {}" using c by (cases "tr_completed tr") (auto simp: iso_opt_def rbind_Inr_iff)
  then obtain kvs where kvs: "trace_to_dict tr = Inr (JObj kvs)"
    and "json_floats (JObj kvs) = json_floats (JObj (tr_attrs tr))"
    by (auto simp: trace_to_dict_def st c scope_to_dict_def jopt_def split: option.splits)
  then have "\<exists>x. canonical_json (JObj kvs) = Inr x"
    using assms(1) unfolding trace_writable_def canonical_json_ok_iff by (simp only:) blast
  from seal_total [OF assms(2) this, of hx "''szl.lyte.anatomy-trace/v1''" s Anatomy n prev u]
  show ?thesis by (auto simp: trace_record_def kvs)
qed

lemma trace_records_total:
  "\<forall>tr \<in> set traces. trace_writable tr \<Longrightarrow> is_aware t \<Longrightarrow> \<exists>rows. trace_records hx s n prev t us traces = Inr rows"
proof (induction traces arbitrary: n prev)
  case (Cons tr rest)
  then obtain r where r: "trace_record hx s n prev t tr (us (length rest)) = Inr r"
    using trace_record_total by fastforce
  obtain rs where "trace_records hx s (n + 1) (Some (r_hash r)) t us rest = Inr rs"
    using Cons.IH Cons.prems by fastforce
  then show ?case by (simp add: r)
qed simp

subsection \<open>The other rows\<close>

lemma append_idempotency_row:
  assumes "append_idempotency hx d s k req resp t u = Inr (i, d1)"
  shows "r_id i = uuid_str u" "\<exists>q x. d1 = advance_head d s Idempotency q x t"
    "validate_projection hx e (row.truncate i) s ''szl.lyte.idempotency-record/v1'' Idempotency (idem_projection i) = Inr ()"
proof -
  obtain h :: head_row and b where
    b: "seal hx ''szl.lyte.idempotency-record/v1'' s Idempotency (h_seq h + 1) (h_hash h) u t
              (idem_data k req resp) = Inr b"
    and i: "row.extend b (idem_row.fields k req resp) = i"
    and d1: "advance_head d s Idempotency (r_seq b) (r_hash b) t = d1"
    using assms unfolding append_idempotency_def rbind_Inr_iff sum.inject prod.inject by blast
  have "idem_projection i = idem_data k req resp" "row.truncate i = b"
    by (simp_all add: i [symmetric] idem_projection_def row.extend_def idem_row.fields_def row.truncate_def)
  then show "validate_projection hx e (row.truncate i) s ''szl.lyte.idempotency-record/v1'' Idempotency (idem_projection i) = Inr ()"
    using validate_sealed [OF b] by simp
  show "r_id i = uuid_str u" using seal_chained(5) [OF b] by (simp add: i [symmetric])
  show "\<exists>q x. d1 = advance_head d s Idempotency q x t" using d1 by blast
qed

lemma new_memory_row:
  assumes "new_memory hx d s md refs hash t u = Inr (m, d1)"
  shows "r_id m = uuid_str u"
    "validate_projection hx e (row.truncate m) s ''szl.lyte.memory-record/v2'' Memory (memory_projection m) = Inr ()"
proof -
  obtain h :: head_row and b where
    b: "seal hx ''szl.lyte.memory-record/v2'' s Memory (h_seq h + 1) (h_hash h) u t
       (memory_data (enterprise_memory_partition hx s) md refs hash) = Inr b"
    and m: "row.extend b (memory_row.fields (enterprise_memory_partition hx s)
       (memory_kind_value (md_kind md)) (md_summary md) (label_value (md_label md)) refs
       (md_subjects md) (JObj (memory_metadata md)) (Some hash)) = m"
    using assms unfolding new_memory_def Let_def rbind_Inr_iff sum.inject prod.inject by blast
  have "memory_projection m = memory_data (enterprise_memory_partition hx s) md refs hash" "row.truncate m = b"
    by (simp_all add: m [symmetric] memory_projection_def memory_data_def row.extend_def memory_row.fields_def
        row.truncate_def jopt_def)
  then show "validate_projection hx e (row.truncate m) s ''szl.lyte.memory-record/v2'' Memory (memory_projection m) = Inr ()"
    using validate_sealed [OF b] by simp
  show "r_id m = uuid_str u" using seal_chained(5) [OF b] by (simp add: m [symmetric])
qed

lemma new_receipt_advance:
  "new_receipt hx d s rd t u = Inr (r, d1) \<Longrightarrow> \<exists>q x. d1 = advance_head d s Receipts q x t"
  unfolding new_receipt_def rbind_Inr_iff sum.inject prod.inject by blast

lemma new_receipt_ok:
  assumes "locked_head d s Receipts = Inr h" "is_aware t" "\<exists>x. canonical_json (JObj (rd_payload rd)) = Inr x"
  shows "\<exists>r d1. new_receipt hx d s rd t u = Inr (r, d1)"
proof -
  obtain psha where psha: "sha256_json hx (JObj (rd_payload rd)) = Inr psha"
    using assms(3) by (auto simp: sha256_json_def)
  have "json_floats (JObj (receipt_data rd psha)) = json_floats (JObj (rd_payload rd))"
    by (auto simp: receipt_data_def jstrs_def)
  then have "\<exists>x. canonical_json (JObj (receipt_data rd psha)) = Inr x"
    using assms(3) unfolding canonical_json_ok_iff by (simp only:)
  from seal_total [OF assms(2) this, of hx "''szl.lyte.receipt/v1''" s Receipts "h_seq h + 1" "h_hash h" u]
  show ?thesis using psha assms(1) by (auto simp: new_receipt_def)
qed

lemma append_idempotency_ok:
  assumes "locked_head d s Idempotency = Inr h" "is_aware t"
  shows "\<exists>i d1. append_idempotency hx d s k req resp t u = Inr (i, d1)"
proof -
  have "\<exists>x. canonical_json (JObj (idem_data k req resp)) = Inr x"
    by (rule canonical_json_total) (simp add: idem_data_def)
  from seal_total [OF assms(2) this, of hx "''szl.lyte.idempotency-record/v1''" s Idempotency "h_seq h + 1" "h_hash h" u]
  show ?thesis using assms(1) by (auto simp: append_idempotency_def)
qed

lemma floats_aset: "json_floats (JObj (aset kvs k v)) \<subseteq> json_floats (JObj kvs) \<union> json_floats v"
  by (induction kvs k v rule: aset.induct) auto

lemma new_memory_ok:
  assumes "locked_head d s Memory = Inr h" "is_aware t" "\<exists>x. canonical_json (JObj (md_meta md)) = Inr x"
  shows "\<exists>m d1. new_memory hx d s md refs hash t u = Inr (m, d1)"
proof -
  have dims: "json_floats (dims_json dims) = {}" for dims by (auto simp: dims_json_def jstrs_def)
  have "json_floats (JObj (memory_data p md refs hash)) = json_floats (JObj (memory_metadata md))" for p
    by (auto simp: memory_data_def jstrs_def)
  moreover have "json_floats (JObj (memory_metadata md)) \<subseteq> json_floats (JObj (md_meta md))"
    using floats_aset [of "md_meta md" "''subject_dimensions''" "dims_json (md_dims md)"] dims
    unfolding memory_metadata_def by blast
  ultimately have "\<exists>x. canonical_json (JObj (memory_data p md refs hash)) = Inr x" for p
    using assms(3) unfolding canonical_json_ok_iff by blast
  from seal_total [OF assms(2) this, of hx "''szl.lyte.memory-record/v2''" s Memory "h_seq h + 1" "h_hash h" u]
  obtain b where "seal hx ''szl.lyte.memory-record/v2'' s Memory (h_seq h + 1) (h_hash h) u t
      (memory_data (enterprise_memory_partition hx s) md refs hash) = Inr b" by blast
  then show ?thesis using assms(1) by (simp add: new_memory_def Let_def)
qed

lemma stream_inv_advance:
  "st \<noteq> st' \<Longrightarrow> stream_inv hx (advance_head d s st' q x t) s st = stream_inv hx d s st"
proof -
  assume "st \<noteq> st'"
  then have "locked_head (advance_head d s st' q x t) s st = locked_head d s st"
    by (simp add: locked_head_advance)
  moreover have "stream_rows (advance_head d s st' q x t) st = stream_rows d st" by (cases st) simp_all
  ultimately show ?thesis by (simp add: stream_inv_def)
qed

text \<open>A pushed record is compatible with what its table holds.\<close>

lemma pushed_compatible:
  assumes "\<And>h. locked_head d s st = Inr h \<Longrightarrow> separates hx s st (h_seq h + 1)"
    and "stream_inv hx d s st" "pushes hx d s st [b] d'" "x \<in> set (stream_rows d st)" "r_id x \<noteq> r_id b"
  shows "compatible no_clash x b"
proof -
  obtain h where "locked_head d s st = Inr h" "chained hx s st (h_seq h + 1) (h_hash h) [b]" "\<forall>r \<in> set [b]. in_scope s r"
    using assms(3) unfolding pushes_def by blast
  from new_rows_compatible(1) [OF _ _ assms(2) this assms(4) _ assms(5), of 1] this assms(1) show ?thesis by simp
qed

subsection \<open>The write goes through\<close>

text \<open>Identifiers drawn by \<open>uuid4()\<close> do not repeat and are not in use.\<close>

definition fresh_ids :: "db \<Rightarrow> (nat \<Rightarrow> uuid) \<Rightarrow> nat \<Rightarrow> bool" where
  "fresh_ids d us k \<longleftrightarrow> inj_on us {..<k} \<and> (\<forall>n st. \<forall>x \<in> set (stream_rows d st). r_id x \<noteq> uuid_str (us n))"

definition drafts_writable :: "receipt_draft \<Rightarrow> memory_draft \<Rightarrow> trace list \<Rightarrow> bool" where
  "drafts_writable rd md traces \<longleftrightarrow>
     (\<exists>x. canonical_json (JObj (rd_payload rd)) = Inr x) \<and>
     (\<exists>x. canonical_json (JObj (md_meta md)) = Inr x) \<and> (\<forall>tr \<in> set traces. trace_writable tr)"

lemma row_member: "x \<in> set rows \<Longrightarrow> row.truncate x \<in> row.truncate ` set rows"
  by (rule imageI)

lemma write_bundle_ok:
  assumes sep: "separates_next hx d s (length traces)" and inv: "\<And>st. stream_inv hx d s st" and ws: "has_workspace d s"
    and aware: "is_aware t" and w: "drafts_writable rd md traces" and ids: "fresh_ids d us (length traces)"
    and key: "find_idem d s key = None" and ne: "traces \<noteq> []"
  obtains r i m rows d' n p e1 f1 e2 f2 e3 f3 where
    "write_bundle hx d s rd md traces key request t us = Inr (i, d')"
    "d_receipts d' = d_receipts d @ [r]" "d_idems d' = d_idems d @ [i]"
    "d_memories d' = d_memories d @ [m]" "d_traces d' = d_traces d @ rows"
    "row_fits d no_clash (d_receipts d) r"
    "new_receipt hx e1 s rd t (us 100) = Inr (r, f1)"
    "append_idempotency hx e2 s key request (r_hash r) t (us 101) = Inr (i, f2)"
    "new_memory hx e3 s md (dedup (md_refs md @ [r_hash r])) (r_hash r) t (us 102) = Inr (m, f3)"
    "trace_records hx s n p t us traces = Inr rows"
proof -
  have hd: "\<exists>h. locked_head d s st = Inr h" for st using inv [of st] by (auto simp: stream_inv_def Let_def)
  have "1 \<le> length traces" using ne by (cases traces) simp_all
  then have one: "separates hx s st (h_seq h + 1)" if "locked_head d s st = Inr h" for st h
    using sep that separates_mono [of hx s st "h_seq h + int (length traces)" "h_seq h + 1"]
    by (simp add: separates_next_def)
  obtain hr where hr: "locked_head d s Receipts = Inr hr" using hd by blast
  obtain r d1 where nr: "new_receipt hx d s rd t (us 100) = Inr (r, d1)"
    using new_receipt_ok [OF hr aware] w by (metis drafts_writable_def)
  obtain q1 x1 where d1: "d1 = advance_head d s Receipts q1 x1 t" using new_receipt_advance [OF nr] by blast
  obtain hi where "locked_head d1 s Idempotency = Inr hi" using hd [of Idempotency] by (auto simp: d1 locked_head_advance)
  then obtain i d2 where ai: "append_idempotency hx d1 s key request (r_hash r) t (us 101) = Inr (i, d2)"
    using append_idempotency_ok [OF _ aware] by blast
  obtain q2 x2 where d2: "d2 = advance_head d1 s Idempotency q2 x2 t" using append_idempotency_row(2) [OF ai] by blast
  let ?refs = "dedup (md_refs md @ [r_hash r])"
  obtain hm where "locked_head d2 s Memory = Inr hm" using hd [of Memory] by (auto simp: d1 d2 locked_head_advance)
  then obtain m d3 where nm: "new_memory hx d2 s md ?refs (r_hash r) t (us 102) = Inr (m, d3)"
    using new_memory_ok [OF _ aware] w by (metis drafts_writable_def)
  obtain q3 x3 where d3: "d3 = advance_head d2 s Memory q3 x3 t" using new_memory_push(9) [OF nm] by blast
  obtain ha where ha: "locked_head d s Anatomy = Inr ha" using hd by blast
  then have ha3: "locked_head d3 s Anatomy = Inr ha" by (simp add: d1 d2 d3 locked_head_advance)
  obtain rows where tr: "trace_records hx s (h_seq ha + 1) (h_hash ha) t us traces = Inr rows"
    using trace_records_total aware w by (metis drafts_writable_def)
  note sealed = trace_records_sealed [OF tr] and rws = trace_records_rows [OF tr]
  let ?d4 = "advance_head d3 s Anatomy (r_seq (last rows)) (r_hash (last rows)) t"
  note pr = new_receipt_push [OF nr] and pi = append_idempotency_push [OF ai] and pm = new_memory_push [OF nm]
  have ex: "in_scope s y \<Longrightarrow> scope_exists ?d4 (r_tenant y) (r_workspace y)" for y
    using ws by (simp add: has_workspace_def in_scope_def scope_exists_def d1 d2 d3)
  have ex0: "in_scope s y \<Longrightarrow> scope_exists d (r_tenant y) (r_workspace y)" for y
    using ws by (simp add: has_workspace_def in_scope_def)
  have new_id: "x \<in> set (stream_rows d st) \<Longrightarrow> r_id x \<noteq> uuid_str (us n)" for x st n
    using ids by (auto simp: fresh_ids_def)
  have cr: "compatible no_clash x r" if "x \<in> set (d_receipts d)" for x
    using pushed_compatible [OF one inv pr(1), of "row.truncate x"] new_id [of "row.truncate x" Receipts 100]
      new_receipt_id [OF nr] that row_member [OF that] by (simp add: compatible_truncate)
  have one1: "separates hx s Idempotency (h_seq h + 1)" if "locked_head d1 s Idempotency = Inr h" for h
    using one that by (simp add: d1 locked_head_advance)
  have one2: "separates hx s Memory (h_seq h + 1)" if "locked_head d2 s Memory = Inr h" for h
    using one that by (simp add: d1 d2 locked_head_advance)
  have inv1: "stream_inv hx d1 s Idempotency" using inv by (simp add: d1 stream_inv_advance)
  have ci: "compatible no_clash x i" if "x \<in> set (d_idems d)" for x
    using pushed_compatible [OF one1 inv1 pi(1), of "row.truncate x"] new_id [of "row.truncate x" Idempotency 101]
      append_idempotency_row(1) [OF ai] that row_member [OF that] by (simp add: compatible_truncate d1)
  have inv2: "stream_inv hx d2 s Memory" using inv by (simp add: d1 d2 stream_inv_advance)
  have cm: "compatible no_clash x m" if "x \<in> set (d_memories d)" for x
    using pushed_compatible [OF one2 inv2 pm(1), of "row.truncate x"] new_id [of "row.truncate x" Memory 102]
      new_memory_row(1) [OF nm] that row_member [OF that] by (simp add: compatible_truncate d1 d2)
  have ids_rows: "\<exists>n. r_id y = uuid_str (us n)" if "y \<in> set rows" for y
  proof -
    have "r_id y \<in> set (map r_id rows)" using that by simp
    then show ?thesis using rws by auto
  qed
  have dist: "distinct (map r_id rows)"
    using ids rws by (auto simp: distinct_map fresh_ids_def inj_on_def)
  have "separates hx s Anatomy (h_seq ha + int (length traces))" "length (map row.truncate rows) \<le> length traces"
    using sep ha sealed by (simp_all add: separates_next_def)
  note compat = new_rows_compatible [OF this inv ha]
  have scoped: "\<forall>y \<in> set (map row.truncate rows). in_scope s y" using sealed by simp
  have ct: "compatible no_clash x y" if "x \<in> set (d_traces d)" "y \<in> set rows" for x y
    using compat(1) [OF _ scoped, of "row.truncate x" "row.truncate y"] sealed that ids_rows [OF that(2)]
      new_id [of "row.truncate x" Anatomy] row_member [OF that(1)] by (auto simp: compatible_truncate)
  have "sorted_wrt (\<lambda>x y. r_id x \<noteq> r_id y \<longrightarrow> compatible no_clash x y) rows"
    using compat(2) [OF _ scoped] sealed by (simp add: sorted_wrt_map compatible_truncate)
  moreover have "sorted_wrt (\<lambda>x y. r_id x \<noteq> r_id y) rows"
    using dist by (simp add: distinct_map sorted_wrt_iff_nth_less nth_eq_iff_index_eq inj_on_def) (metis nat_neq_iff nth_eq_iff_index_eq nth_mem order.strict_trans)
  ultimately have cw: "sorted_wrt (compatible no_clash) rows"
    by (simp add: sorted_wrt_iff_nth_less)
  have noidem: "im_key x \<noteq> key" if "x \<in> set (d_idems d)" "in_scope s x" for x
    using key that by (auto simp: find_idem_def find_None_iff)
  have keep: "d_receipts d3 = d_receipts d" "d_idems d3 = d_idems d" "d_memories d3 = d_memories d"
    "d_traces d3 = d_traces d" by (simp_all add: d1 d2 d3)
  let ?d5 = "?d4\<lparr>d_receipts := d_receipts d @ [r]\<rparr>"
  let ?d6 = "?d5\<lparr>d_idems := d_idems d @ [i]\<rparr>"
  let ?d7 = "?d6\<lparr>d_memories := d_memories d @ [m]\<rparr>"
  let ?d8 = "?d7\<lparr>d_traces := d_traces d @ rows\<rparr>"
  have same: "scope_exists ?d5 = scope_exists ?d4" "scope_exists ?d6 = scope_exists ?d4" "scope_exists ?d7 = scope_exists ?d4"
    by (auto simp: scope_exists_def fun_eq_iff)
  have a1: "add_receipt ?d4 r = Inr ?d5"
    using ex [OF pr(4)] cr by (simp add: add_receipt_Inr row_fits_compatible keep)
  have "compatible idem_clash x i" if "x \<in> set (d_idems d)" for x
    using ci [OF that] noidem [OF that] pi(4,5) by (auto simp: compatible_def no_clash_def idem_clash_def in_scope_def)
  then have a2: "add_idem ?d5 i = Inr ?d6"
    using ex [OF pi(4)] by (simp add: add_idem_Inr row_fits_compatible keep same)
  have a3: "add_memory ?d6 m = Inr ?d7"
    using ex [OF pm(3)] cm by (simp add: add_memory_Inr row_fits_compatible keep same)
  have a4: "fold_res add_trace ?d7 rows = Inr ?d8"
  proof -
    have "\<forall>y \<in> set rows. scope_exists ?d7 (r_tenant y) (r_workspace y)" using sealed ex same by auto
    moreover have "\<forall>x \<in> set (d_traces ?d7). \<forall>y \<in> set rows. compatible no_clash x y" using ct by (simp add: keep)
    ultimately show ?thesis using add_traces_ok [of rows ?d7, OF _ _ cw] by (simp add: keep)
  qed
  have wb: "write_bundle hx d s rd md traces key request t us = Inr (i, ?d8)"
    unfolding write_bundle_def nr rbind_simps prod.case ai nm ha3 tr Let_def a1 a2 a3 a4 by (rule refl)
  have fits: "row_fits d no_clash (d_receipts d) r" using ex0 [OF pr(4)] cr by (simp add: row_fits_compatible)
  show thesis by (rule that [OF wb _ _ _ _ fits nr ai nm tr]) simp_all
qed

subsection \<open>The bundle reads back\<close>

definition written_as :: "(string \<Rightarrow> string) \<Rightarrow> scope \<Rightarrow> datetime \<Rightarrow> trace \<Rightarrow> trace_row \<Rightarrow> bool" where
  "written_as hx s t tr r \<longleftrightarrow> (\<exists>n prev u. trace_record hx s n prev t tr u = Inr r)"

lemma written_fields:
  assumes "written_as hx s t tr r"
  shows "tc_trace r = uuid_str (tr_trace_id tr)" "tc_span r = uuid_str (tr_span_id tr)"
    "tc_parent r = map_option uuid_str (tr_parent tr)" "tc_label r = label_value (tr_label tr)"
    "tc_input r = tr_input tr" "tc_output r = tr_output tr" "tc_attrs r = JObj (tr_attrs tr)"
    "tr_scope tr = s \<Longrightarrow> rbind (trace_projection d s r) (\<lambda>data.
       validate_projection hx d (row.truncate r) s ''szl.lyte.anatomy-trace/v1'' Anatomy data) = Inr ()"
proof -
  obtain n prev u where r: "trace_record hx s n prev t tr u = Inr r"
    using assms unfolding written_as_def by (elim exE)
  note row = trace_record_row [OF r]
  show "tc_trace r = uuid_str (tr_trace_id tr)" "tc_span r = uuid_str (tr_span_id tr)"
    "tc_parent r = map_option uuid_str (tr_parent tr)" "tc_label r = label_value (tr_label tr)"
    "tc_input r = tr_input tr" "tc_output r = tr_output tr" "tc_attrs r = JObj (tr_attrs tr)"
    by (rule row)+
  show "rbind (trace_projection d s r) (\<lambda>data.
       validate_projection hx d (row.truncate r) s ''szl.lyte.anatomy-trace/v1'' Anatomy data) = Inr ()"
    if "tr_scope tr = s" by (rule row(9) [OF that])
qed

lemma written_links:
  "list_all2 (written_as hx s t) traces rows \<Longrightarrow> draft_links traces \<Longrightarrow> span_links rows"
proof (induction traces arbitrary: rows rule: draft_links.induct)
  case (1 a b rest)
  then obtain x y ys where rows: "rows = x # y # ys" and w: "written_as hx s t a x" "written_as hx s t b y"
    "list_all2 (written_as hx s t) (b # rest) (y # ys)"
    by (auto simp: list_all2_Cons1)
  have "span_links (y # ys)" using "1.IH" [OF w(3)] "1.prems"(2) by simp
  then show ?case using "1.prems"(2) written_fields [OF w(1)] written_fields [OF w(2)] by (simp add: rows)
next
  case "2_1"
  then show ?case by simp
next
  case "2_2"
  then show ?case by (auto simp: list_all2_Cons1)
qed

lemma written_validates:
  assumes "list_all2 (written_as hx s t) traces rows" "\<forall>tr \<in> set traces. tr_scope tr = s"
  shows "\<exists>u. validate_traces hx d s rows = Inr u"
  unfolding validate_traces_def
proof (rule rmap_total)
  fix r
  assume "r \<in> set rows"
  then obtain k where k: "k < length rows" "r = rows ! k" by (auto simp: in_set_conv_nth)
  then have "written_as hx s t (traces ! k) r" "traces ! k \<in> set traces"
    using list_all2_nthD2 [OF assms(1) k(1)] list_all2_lengthD [OF assms(1)] by simp_all
  from written_fields(8) [OF this(1)] this(2) assms(2)
  have "rbind (trace_projection d s r) (\<lambda>data.
       validate_projection hx d (row.truncate r) s ''szl.lyte.anatomy-trace/v1'' Anatomy data) = Inr ()" by blast
  then show "\<exists>y. rbind (trace_projection d s r) (\<lambda>data.
       validate_projection hx d (row.truncate r) s ''szl.lyte.anatomy-trace/v1'' Anatomy data) = Inr y" ..
qed

definition stage_draft_json :: "trace \<Rightarrow> json" where
  "stage_draft_json t = JObj
     [(''sequence'', jget_null (JObj (tr_attrs t)) ''sequence''), (''stage'', jget_null (JObj (tr_attrs t)) ''stage''),
      (''state'', jget_null (JObj (tr_attrs t)) ''stage_state''), (''input_sha256'', jopt (tr_input t)),
      (''basis_sha256'', jget_null (JObj (tr_attrs t)) ''basis_sha256''), (''output_sha256'', jopt (tr_output t))]"

lemma written_stages:
  "list_all2 (written_as hx s t) traces rows \<Longrightarrow> map stage_json rows = map stage_draft_json traces"
  by (induction rule: list_all2_induct) (simp_all add: stage_json_def stage_draft_json_def written_fields)

text \<open>
  The drafts of an analysis agree: the receipt's payload states the digest of the stages, the
  memory and the traces repeat its label, revision and digests, and the stages are numbered by
  integers.
\<close>

definition drafts_agree ::
  "(string \<Rightarrow> string) \<Rightarrow> receipt_draft \<Rightarrow> memory_draft \<Rightarrow> trace list \<Rightarrow> string \<Rightarrow> bool" where
  "drafts_agree hx rd md traces digest \<longleftrightarrow>
     (let p = JObj (rd_payload rd); meta = JObj (md_meta md) in
      sha256_json hx (JList (map stage_draft_json traces)) = Inr digest \<and>
      jget_null p ''anatomy_schema'' = JStr ''szl.lyte.analysis-anatomy/v1'' \<and>
      jget_null p ''anatomy_sha256'' = JStr digest \<and>
      jget_null p ''input_sha256'' = jopt (tr_input (hd traces)) \<and>
      jget_null meta ''approved_knowledge'' = JBool False \<and>
      jget_null meta ''analysis_input_sha256'' = jget_null p ''input_sha256'' \<and>
      jget_null meta ''analysis_output_sha256'' = jget_null p ''output_sha256'' \<and>
      md_label md = rd_label rd \<and>
      list_all2 (\<lambda>t n. jget_null (JObj (tr_attrs t)) ''sequence'' = JInt n) traces stage_numbers \<and>
      (\<forall>t \<in> set traces. tr_label t = rd_label rd \<and>
         jget_null (JObj (tr_attrs t)) ''source_revision'' = jget_null p ''source_revision''))"

text \<open>Every memory record of the scope cites a receipt of the scope.\<close>

definition memory_cites :: "db \<Rightarrow> scope \<Rightarrow> bool" where
  "memory_cites d s \<longleftrightarrow> (\<forall>m \<in> set (d_memories d). in_scope s m \<longrightarrow>
     (\<exists>r \<in> set (d_receipts d). in_scope s r \<and> mm_receipt m = Some (r_hash r)))"

lemma metadata_get:
  "k \<noteq> ''subject_dimensions'' \<Longrightarrow> jget_null (JObj (memory_metadata md)) k = jget_null (JObj (md_meta md)) k"
  by (simp add: jget_null_def memory_metadata_def)

lemma check_bundleD:
  assumes "check_bundle s rd md traces request = Inr ()"
  shows "length traces = 9" "\<forall>t \<in> set traces. tr_trace_id t = tr_trace_id (hd traces) \<and> tr_scope t = s"
    "jget_null (JObj (rd_payload rd)) ''trace_id'' = JStr (uuid_str (tr_trace_id (hd traces)))"
    "jget_null (JObj (md_meta md)) ''trace_id'' = JStr (uuid_str (tr_trace_id (hd traces)))"
    "tr_parent (hd traces) = None" "draft_links traces"
proof -
  show "length traces = 9" using assms unfolding check_bundle_def guard_else_Inr_iff by blast
  obtain numbers where "jget_null (JObj (rd_payload rd)) ''trace_id'' = JStr (uuid_str (tr_trace_id (hd traces))) \<and>
    jget_null (JObj (md_meta md)) ''trace_id'' = JStr (uuid_str (tr_trace_id (hd traces))) \<and>
    tr_parent (hd traces) = None \<and> draft_links traces"
    using assms unfolding check_bundle_def guard_else_Inr_iff Let_def rbind_Inr_iff by blast
  then show "jget_null (JObj (rd_payload rd)) ''trace_id'' = JStr (uuid_str (tr_trace_id (hd traces)))"
    "jget_null (JObj (md_meta md)) ''trace_id'' = JStr (uuid_str (tr_trace_id (hd traces)))"
    "tr_parent (hd traces) = None" "draft_links traces" by blast+
  show "\<forall>t \<in> set traces. tr_trace_id t = tr_trace_id (hd traces) \<and> tr_scope t = s"
    using assms unfolding check_bundle_def guard_else_Inr_iff Let_def list_all_iff by blast
qed

lemma find_new:
  "\<forall>x \<in> set xs. \<not> P x \<Longrightarrow> P r \<Longrightarrow> List.find P (xs @ [r]) = Some r"
proof -
  assume "\<forall>x \<in> set xs. \<not> P x" "P r"
  then have "List.find P xs = None" by (auto simp: find_None_iff)
  with \<open>P r\<close> show ?thesis by (simp add: find_snoc)
qed

lemma written_bundle_resolves:
  assumes check: "check_bundle s rd md traces request = Inr ()" and agree: "drafts_agree hx rd md traces digest"
    and none: "scoped_traces d s (uuid_str (tr_trace_id (hd traces))) = []" and cites: "memory_cites d s"
    and d': "d_receipts d' = d_receipts d @ [r]" "d_memories d' = d_memories d @ [m]" "d_traces d' = d_traces d @ rows"
    and fits: "row_fits d no_clash (d_receipts d) r"
    and nr: "new_receipt hx e1 s rd t u1 = Inr (r, f1)"
    and ai: "append_idempotency hx e2 s key request (r_hash r) t u2 = Inr (i, f2)"
    and nm: "new_memory hx e3 s md (dedup (md_refs md @ [r_hash r])) (r_hash r) t u3 = Inr (m, f3)"
    and tr: "trace_records hx s n p t us traces = Inr rows"
  shows "\<exists>b. resolve_analysis_bundle hx d' s i request False = Inr b \<and>
    rc_payload (ab_receipt b) = JObj (rd_payload rd) \<and> list_all2 (written_as hx s t) traces (ab_traces b)"
proof -
  let ?tid = "uuid_str (tr_trace_id (hd traces))" and ?p = "JObj (rd_payload rd)"
  note chk = check_bundleD [OF check] and ag = agree [unfolded drafts_agree_def Let_def]
  note pr = new_receipt_push [OF nr] and vr = new_receipt_validates [OF nr]
  note pi = append_idempotency_push [OF ai] and vi = append_idempotency_row(3) [OF ai, of d']
  note pm = new_memory_push [OF nm] and vm = new_memory_row(2) [OF nm, of d']
  have w: "list_all2 (written_as hx s t) traces rows"
    using trace_records_rows [OF tr] unfolding written_as_def by blast
  have sealed: "chained hx s Anatomy n p (map row.truncate rows)" "\<forall>y \<in> set rows. in_scope s y" "length rows = 9"
    using trace_records_sealed [OF tr] chk(1) by simp_all
  have old: "r_hash x \<noteq> r_hash r" if "x \<in> set (d_receipts d)" "in_scope s x" for x
    using fits that pr(4) by (auto simp: row_fits_def list_all_iff in_scope_def)
  have fr: "find_receipt d' s (im_response i) = Some r"
    using old pr(4) pi(7) unfolding find_receipt_def d' by (intro find_new) auto
  have fm: "memory_of_receipt d' s (r_hash r) = Some m"
    using old cites pm(3,4) unfolding memory_of_receipt_def d' memory_cites_def by (intro find_new) fastforce+
  have each: "\<exists>x \<in> set traces. written_as hx s t x y" if yin: "y \<in> set rows" for y
  proof -
    obtain k where k: "k < length rows" "y = rows ! k" using yin by (auto simp: in_set_conv_nth)
    then show ?thesis using list_all2_nthD2 [OF w k(1)] list_all2_lengthD [OF w] by force
  qed
  have tid: "tc_trace y = ?tid" if yin: "y \<in> set rows" for y
  proof -
    obtain x where x: "x \<in> set traces" "written_as hx s t x y" using each [OF yin] by blast
    have "tr_trace_id x = tr_trace_id (hd traces)" by (rule conjunct1 [OF bspec [OF chk(2) x(1)]])
    then show ?thesis using written_fields(1) [OF x(2)] by simp
  qed
  have "filter (\<lambda>y. in_scope s y \<and> tc_trace y = ?tid) (d_traces d) = []"
  proof -
    have "set (scoped_traces d s ?tid) = {}" by (simp only: none list.set)
    then show ?thesis by (simp add: scoped_traces_def filter_empty_conv)
  qed
  moreover have "filter (\<lambda>y. in_scope s y \<and> tc_trace y = ?tid) rows = rows"
    using sealed(2) tid by (simp add: filter_id_conv)
  moreover have "sort_key r_seq rows = rows"
  proof (rule sort_key_id_if_sorted)
    have "sorted_wrt (\<lambda>x y. r_seq x \<le> r_seq y) (map row.truncate rows)"
      by (rule sorted_wrt_mono_rel [OF _ chained_increasing [OF sealed(1)]]) simp
    then show "sorted (map r_seq rows)" by (simp add: sorted_map sorted_wrt_map)
  qed
  ultimately have ts: "scoped_traces d' s ?tid = rows" by (simp add: scoped_traces_def d')
  have ne: "traces \<noteq> []" "rows \<noteq> []" using chk(1) sealed(3) by auto
  have "written_as hx s t (hd traces) (hd rows)"
    using w ne by (cases traces; cases rows) auto
  note first = written_fields [OF this]
  have pay: "rc_payload r = ?p" by (rule vr(7))
  have lid: "linked_trace_id r = Inr ?tid" using chk(3) by (simp add: linked_trace_id_Inr pay)
  have objs: "list_all (\<lambda>y. is_obj (tc_attrs y)) rows"
    using each written_fields(7) by (force simp: list_all_iff)
  have seqs: "list_all2 (\<lambda>y k. json_eq (jget_null (tc_attrs y) ''sequence'') (JInt k)) rows stage_numbers"
    using ag w by (auto simp: list_all2_conv_all_nth written_fields(7))
  have complete: "bundle_complete (Some m) rows ?tid"
    using sealed(3) seqs ne first(3) chk(4,5,6) written_links [OF w] by (simp add: bundle_complete_def pm(8) metadata_get)
  obtain un where vt: "validate_traces hx d' s rows = Inr un"
    using written_validates [OF w] chk(2) by blast
  have dig: "sha256_json hx (JList (map stage_json rows)) = Inr digest" using ag by (simp add: written_stages [OF w])
  have "tc_label y = label_value (rd_label rd) \<and> jget_null (tc_attrs y) ''source_revision'' = jget_null ?p ''source_revision''"
    if yin: "y \<in> set rows" for y
  proof -
    obtain x where x: "x \<in> set traces" "written_as hx s t x y" using each [OF yin] by blast
    then have "tr_label x = rd_label rd" "jget_null (JObj (tr_attrs x)) ''source_revision'' = jget_null ?p ''source_revision''"
      using ag by blast+
    then show ?thesis using written_fields(4,7) [OF x(2)] by simp
  qed
  then have linked: "bundle_linked hx s r m rows digest"
    using ag first(5) vr(6) pm(5-8) by (simp add: bundle_linked_def Let_def pay metadata_get list_all_iff)
  show ?thesis
    using resolve_intro [where i = i, OF vi pi(6) fr vr(1) lid, unfolded ts, OF objs fm complete vm vt dig linked] pay w by force
qed

lemma append_bundle_ok:
  assumes "separates_next hx d s 9" "db_inv hx d" "assert_scope d s = Inr ()" "memory_cites d s"
    and "check_bundle s rd md traces request = Inr ()" "drafts_agree hx rd md traces digest"
    and "drafts_writable rd md traces" "is_aware t" "fresh_ids d us (length traces)"
    and "idempotency_digest hx s idem_key = Inr key" "find_idem d s key = None"
    and "scoped_traces d s (uuid_str (tr_trace_id (hd traces))) = []"
  shows "\<exists>b d'. append_analysis_bundle hx d d dr s rd md traces idem_key request t us = Inr (b, d') \<and>
           \<not> ab_replay b \<and> bundle_ok hx d' s b \<and>
           rc_payload (ab_receipt b) = JObj (rd_payload rd) \<and> list_all2 (written_as hx s t) traces (ab_traces b)"
proof -
  have inv: "stream_inv hx d s st" for st using db_invD(2) [OF assms(2,3)] .
  have ws: "has_workspace d s" using db_invD(1) [OF assms(2,3)] .
  have len: "length traces = 9" by (rule check_bundleD(1) [OF assms(5)])
  then have ne: "traces \<noteq> []" by auto
  have hd: "\<exists>h. locked_head d s st = Inr h" for st using inv [of st] by (auto simp: stream_inv_def Let_def)
  obtain hr hi hm ha where heads: "locked_head d s Receipts = Inr hr" "locked_head d s Idempotency = Inr hi"
    "locked_head d s Memory = Inr hm" "locked_head d s Anatomy = Inr ha" using hd by metis
  obtain r i m rows d' n p e1 f1 e2 f2 e3 f3 where w: "write_bundle hx d s rd md traces key request t us = Inr (i, d')"
    and tables: "d_receipts d' = d_receipts d @ [r]" "d_memories d' = d_memories d @ [m]" "d_traces d' = d_traces d @ rows"
    and rows: "row_fits d no_clash (d_receipts d) r" "new_receipt hx e1 s rd t (us 100) = Inr (r, f1)"
      "append_idempotency hx e2 s key request (r_hash r) t (us 101) = Inr (i, f2)"
      "new_memory hx e3 s md (dedup (md_refs md @ [r_hash r])) (r_hash r) t (us 102) = Inr (m, f3)"
      "trace_records hx s n p t us traces = Inr rows"
    by (rule write_bundle_ok [OF assms(1) [folded len] inv ws assms(8,7,9,11) ne])
  obtain b where b: "resolve_analysis_bundle hx d' s i request False = Inr b"
    and same: "rc_payload (ab_receipt b) = JObj (rd_payload rd)" "list_all2 (written_as hx s t) traces (ab_traces b)"
    using written_bundle_resolves [OF assms(5,6,12,4) tables rows] by blast
  have "append_analysis_bundle hx d d dr s rd md traces idem_key request t us = Inr (b, d')"
    by (simp add: append_analysis_bundle_def bundle_tx_def assms heads w b Let_def)
  then show ?thesis using resolve_ok [OF b] same by blast
qed

subsection \<open>Properties\<close>


subsection \<open>An example\<close>

definition example_digest :: "nat \<Rightarrow> string" where
  "example_digest n = replicate 64 (digit_char n)"

definition example_stage :: "nat \<Rightarrow> trace" where
  "example_stage n = \<lparr>tr_scope = example_scope, tr_trace_id = 7, tr_span_id = of_nat n,
     tr_organ = REASONING, tr_operation = ''stage'', tr_state = COMPLETED, tr_label = MEASURED,
     tr_started = Aware 0, tr_parent = (if n = 1 then None else Some (of_nat (n - 1))),
     tr_completed = Some (Aware 1), tr_input = Some (example_digest (n - 1)),
     tr_output = Some (example_digest n),
     tr_attrs = [(''sequence'', JInt (int n)), (''human_approval_required'', JBool True),
       (''can_authorize'', JBool False), (''can_execute'', JBool False),
       (''effectors_enabled'', JBool False), (''source_revision'', JStr ''rev'')]\<rparr>"

definition example_traces :: "trace list" where
  "example_traces = map example_stage [1, 2, 3, 4, 5, 6, 7, 8, 9]"

definition example_analysis :: "string \<Rightarrow> receipt_draft" where
  "example_analysis digest = \<lparr>rd_kind = ''analysis'', rd_subject_type = ''service'', rd_subject_id = ''api'',
     rd_payload = [(''trace_id'', JStr (uuid_str 7)), (''anatomy_schema'', JStr ''szl.lyte.analysis-anatomy/v1''),
       (''anatomy_sha256'', JStr digest), (''input_sha256'', JStr (example_digest 0)),
       (''source_revision'', JStr ''rev'')],
     rd_label = MEASURED, rd_refs = []\<rparr>"

definition example_finding :: memory_draft where
  "example_finding = \<lparr>md_kind = OBSERVATION, md_summary = ''s'', md_label = MEASURED, md_refs = [''r''],
     md_subjects = [], md_dims = [], md_meta = [(''trace_id'', JStr (uuid_str 7)),
       (''approved_knowledge'', JBool False), (''analysis_input_sha256'', JStr (example_digest 0))]\<rparr>"

lemma example_draft_links: "draft_links example_traces"
  by (simp add: example_traces_def example_stage_def)

lemma example_sovereign: "list_all sovereign example_traces"
  by (simp add: example_traces_def example_stage_def sovereign_def jget_null_def Let_def)

lemma example_hd: "hd example_traces = example_stage 1"
  by (simp add: example_traces_def)

lemma example_numbers: "rmap stage_number example_traces = Inr stage_numbers"
  by (simp add: example_traces_def example_stage_def stage_number_def stage_numbers_def)

lemma example_check:
  "check_bundle example_scope (example_analysis digest) example_finding example_traces (example_digest 0) = Inr ()"
proof -
  have "hex64_ok (example_digest 0)"
    by (simp add: hex64_ok_def example_digest_def list_all_iff) code_simp
  moreover have "list_all (\<lambda>t. tr_trace_id t = tr_trace_id (hd example_traces) \<and> tr_scope t = example_scope) example_traces"
    by (simp add: example_traces_def example_stage_def)
  moreover have "length example_traces = 9" by (simp add: example_traces_def)
  moreover have "tr_trace_id (example_stage 1) = 7" "tr_parent (example_stage 1) = None"
    by (simp_all add: example_stage_def)
  ultimately show ?thesis
    by (simp add: check_bundle_def Let_def example_numbers example_draft_links example_sovereign example_hd
        example_analysis_def example_finding_def jget_null_def)
qed

lemma example_agree:
  "\<exists>digest. drafts_agree hx (example_analysis digest) example_finding example_traces digest"
proof -
  have "json_floats (JList (map stage_draft_json example_traces)) = {}"
    by (simp add: example_traces_def stage_draft_json_def example_stage_def jget_null_def jopt_def)
  then obtain digest where digest: "sha256_json hx (JList (map stage_draft_json example_traces)) = Inr digest"
    using sha256_json_ok by blast
  have "list_all2 (\<lambda>t n. jget_null (JObj (tr_attrs t)) ''sequence'' = JInt n) example_traces stage_numbers"
    by (simp add: example_traces_def example_stage_def stage_numbers_def jget_null_def)
  moreover have "\<forall>t \<in> set example_traces. tr_label t = MEASURED \<and>
      jget_null (JObj (tr_attrs t)) ''source_revision'' = JStr ''rev''"
    by (simp add: example_traces_def example_stage_def jget_null_def)
  moreover have "tr_input (example_stage 1) = Some (example_digest 0)" by (simp add: example_stage_def)
  ultimately have "drafts_agree hx (example_analysis digest) example_finding example_traces digest"
    using digest
    by (simp add: drafts_agree_def Let_def example_hd) (simp add: example_analysis_def example_finding_def jget_null_def jopt_def)
  then show ?thesis ..
qed

lemma example_writable: "drafts_writable (example_analysis digest) example_finding example_traces"
proof -
  have "json_floats (JObj (rd_payload (example_analysis digest))) = {}" "json_floats (JObj (md_meta example_finding)) = {}"
    by (simp_all add: example_analysis_def example_finding_def)
  moreover have "\<exists>x. canonical_json (JObj (tr_attrs (example_stage n))) = Inr x" for n
    by (rule canonical_json_total) (simp add: example_stage_def)
  then have "\<forall>t \<in> set example_traces. trace_writable t"
    by (simp add: example_traces_def trace_writable_def) (simp add: example_stage_def)
  ultimately show ?thesis unfolding drafts_writable_def using canonical_json_total by blast
qed

lemma fresh_db_tables [simp]: "d_memories fresh_db = []" "d_traces fresh_db = []"
  by (simp_all add: fresh_db_def empty_db_def)

lemma example_key_digest: "idempotency_digest hx example_scope example_key = Inr (hx (idempotency_basis example_scope example_key))"
  by (simp add: idempotency_digest_def example_key_def py_isspace_def code_def)

text \<open>128-bit identifiers, numbered.\<close>

definition example_ids :: "nat \<Rightarrow> uuid" where
  "example_ids n = of_nat n"

lemma example_ids_fresh: "fresh_ids fresh_db example_ids (length example_traces)"
proof -
  have "take_bit 128 (n :: nat) = n" if "n < 9" for n
    by (rule take_bit_nat_eq_self) (rule less_trans [OF that], simp)
  then have "inj_on example_ids {..<9}"
    by (auto simp: inj_on_def example_ids_def word_of_nat_eq_iff)
  moreover have "length example_traces = 9" by (simp add: example_traces_def)
  ultimately show ?thesis by (simp add: fresh_ids_def)
qed

lemma example_state:
  "find_idem fresh_db example_scope k = None" "scoped_traces fresh_db example_scope x = []"
  "memory_cites fresh_db example_scope"
  by (simp_all add: find_idem_def scoped_traces_def memory_cites_def)


lemma example_separates: "separates_next id d s k"
  by (simp add: separates_next_def inj_separates)

lemma example_bundle:
  "\<exists>digest b d'. append_analysis_bundle id fresh_db fresh_db fresh_db example_scope (example_analysis digest)
       example_finding example_traces example_key (example_digest 0) (Aware 5) example_ids = Inr (b, d') \<and> \<not> ab_replay b"
proof -
  obtain digest where agree: "drafts_agree id (example_analysis digest) example_finding example_traces digest"
    using example_agree by blast
  have "is_aware (Aware 5)" by simp
  from append_bundle_ok [OF example_separates fresh_db_inv fresh_db_scope example_state(3) example_check agree
      example_writable this example_ids_fresh example_key_digest example_state(1,2)]
  show ?thesis by blast
qed

theorem bundle_atomic_witness:
  "\<exists>b d'. bundle_ok id d' example_scope b \<and> db_inv id d' \<and>
     (\<exists>key i. bundle_effect id fresh_db example_scope key (example_digest 0) 9 i d')"
proof -
  obtain digest b d' where b: "append_analysis_bundle id fresh_db fresh_db fresh_db example_scope
      (example_analysis digest) example_finding example_traces example_key (example_digest 0) (Aware 5)
      example_ids = Inr (b, d')" "\<not> ab_replay b" using example_bundle by blast
  show ?thesis using bundle_atomic [OF b(1) fresh_db_inv fresh_db_inv fresh_db_inv] b(2) by auto
qed

theorem bundle_idempotent_witness:
  "\<exists>digest b d'. append_analysis_bundle id fresh_db fresh_db fresh_db example_scope (example_analysis digest)
       example_finding example_traces example_key (example_digest 0) (Aware 5) example_ids = Inr (b, d') \<and>
     append_analysis_bundle id d' d' d' example_scope (example_analysis ''other'')
       example_finding example_traces example_key (example_digest 0) (Aware 9) example_ids = Inr (b\<lparr>ab_replay := True\<rparr>, d')"
proof -
  obtain digest b d' where b: "append_analysis_bundle id fresh_db fresh_db fresh_db example_scope
      (example_analysis digest) example_finding example_traces example_key (example_digest 0) (Aware 5)
      example_ids = Inr (b, d')" using example_bundle by blast
  show ?thesis
    using bundle_idempotent [OF b fresh_db_inv fresh_db_inv fresh_db_inv example_check [of "''other''"],
        of d' d' "Aware 9" example_ids] b
    unfolding simp_thms if_True by blast
qed

end
