(* ===== verification/Operational_Store.thy ===== *)
theory Operational_Store
  imports Receipts_Store "HOL-Library.Product_Lexorder"
begin

section \<open>Versioned operational records (store.py)\<close>

text \<open>
  Every write of an operational entity appends a new version to the stream of its scope:
  \<open>insert_operational\<close>, \<open>upsert_operational\<close> with its optimistic concurrency check, and the
  atomic batch.  The reads return one version, or the latest version of every entity.  The
  abstraction is \<open>history\<close>: the versions of one entity in the order they were written.
\<close>

definition entity_kinds :: "entity_kind list" where
  "entity_kinds =
     [Source, SourceCursor, Entity, UserSubject, RoleBinding, Service, DependencyEdge,
      CustomerJourney, JourneyStep, BusinessOutcome, OutcomeMeasurement, TelemetryWindow,
      AgentTraceSummary, DeploymentEvent, Incident, IncidentEvent, Signal, Recommendation,
      Decision, ActionRequest, OutcomeVerification, EvidenceReference, ReplaySnapshot]"

definition parse_entity_kind :: "string \<Rightarrow> string res" where
  "parse_entity_kind k =
     guard_else (k \<in> set (map kind_value entity_kinds))
       (ValueError (CHR 0x27 # k @ [CHR 0x27] @ '' is not a valid OperationalEntityKind'')) (Inr k)"

definition history :: "db \<Rightarrow> scope \<Rightarrow> string \<Rightarrow> string \<Rightarrow> oper_row list" where
  "history d s kind eid = filter (\<lambda>r. in_scope s r \<and> op_kind r = kind \<and> op_id r = eid) (d_opers d)"

text \<open>\<open>ORDER BY version DESC LIMIT 1\<close>\<close>

definition latest_of :: "oper_row list \<Rightarrow> oper_row option" where
  "latest_of rows = (case rev (sort_key op_version rows) of [] \<Rightarrow> None | r # _ \<Rightarrow> Some r)"

definition oper_data :: "operational_draft \<Rightarrow> int \<Rightarrow> json \<Rightarrow> (string \<times> json) list" where
  "oper_data d version observed =
     [(''entity_kind'', JStr (kind_value (od_kind d))), (''entity_id'', JStr (od_id d)),
      (''version'', JInt version), (''name'', JStr (od_name d)),
      (''truth_label'', JStr (label_value (od_label d))), (''body'', JObj (od_body d)),
      (''evidence_refs'', jstrs (od_refs d)), (''source_revision'', jopt (od_revision d)),
      (''observed_at'', observed), (''metadata'', JObj (od_meta d))]"

text \<open>A new version at the head of the stream, stored, and the head advanced over it.\<close>

definition new_version ::
  "(string \<Rightarrow> string) \<Rightarrow> db \<Rightarrow> scope \<Rightarrow> operational_draft \<Rightarrow> int \<Rightarrow> datetime \<Rightarrow> uuid \<Rightarrow>
   (oper_row \<times> db) res" where
  "new_version hx d s draft version t u =
     rbind (locked_head d s Operational) (\<lambda>h.
     rbind (iso_opt (od_observed draft)) (\<lambda>observed.
     rbind (seal hx ''szl.lyte.operational-record/v1'' s Operational (h_seq h + 1) (h_hash h) u t
             (oper_data draft version observed)) (\<lambda>b.
       let r = row.extend b (oper_row.fields (kind_value (od_kind draft)) (od_id draft) version
                 (od_name draft) (label_value (od_label draft)) (JObj (od_body draft)) (od_refs draft)
                 (od_revision draft) (od_observed draft) (JObj (od_meta draft))) in
       rbind (add_oper (advance_head d s Operational (r_seq b) (r_hash b) t) r) (\<lambda>d1. Inr (r, d1)))))"

fun as_oper_conflict :: "string \<Rightarrow> exc \<Rightarrow> exc" where
  "as_oper_conflict m IntegrityError = OperationalConflict m"
| "as_oper_conflict m e = e"

definition current_version :: "oper_row option \<Rightarrow> int" where
  "current_version latest = (case latest of None \<Rightarrow> 0 | Some r \<Rightarrow> op_version r)"

definition write_operational ::
  "(string \<Rightarrow> string) \<Rightarrow> db \<Rightarrow> scope \<Rightarrow> operational_draft \<Rightarrow> bool \<Rightarrow> int option \<Rightarrow> datetime \<Rightarrow> uuid \<Rightarrow>
   (oper_row \<times> db) res" where
  "write_operational hx d s draft insert_only expected t u =
     map_exc (as_oper_conflict ''operational append conflicted with concurrent state'')
      (rbind (assert_scope d s) (\<lambda>_.
         let latest = latest_of (history d s (kind_value (od_kind draft)) (od_id draft));
             current = current_version latest in
         guard_else (\<not> (insert_only \<and> latest \<noteq> None))
           (OperationalConflict ''operational entity already exists in this workspace'')
        (guard_else (case expected of None \<Rightarrow> True | Some v \<Rightarrow> v = current)
           (OperationalConflict (''expected version '' @ show_int (case expected of None \<Rightarrow> 0 | Some v \<Rightarrow> v) @
                                 '', current version is '' @ show_int current))
        (new_version hx d s draft (current + 1) t u))))"

definition insert_operational ::
  "(string \<Rightarrow> string) \<Rightarrow> db \<Rightarrow> scope \<Rightarrow> operational_draft \<Rightarrow> datetime \<Rightarrow> uuid \<Rightarrow> (oper_row \<times> db) res" where
  "insert_operational hx d s draft t u = write_operational hx d s draft True (Some 0) t u"

definition upsert_operational ::
  "(string \<Rightarrow> string) \<Rightarrow> db \<Rightarrow> scope \<Rightarrow> operational_draft \<Rightarrow> int option \<Rightarrow> datetime \<Rightarrow> uuid \<Rightarrow>
   (oper_row \<times> db) res" where
  "upsert_operational hx d s draft expected t u =
     guard_else (case expected of None \<Rightarrow> True | Some v \<Rightarrow> 0 \<le> v)
       (ValueError ''expected_version must be a non-negative integer'')
       (write_operational hx d s draft False expected t u)"

subsection \<open>The batch\<close>

definition unchanged :: "oper_row option \<Rightarrow> operational_draft \<Rightarrow> bool" where
  "unchanged latest draft =
     (case latest of None \<Rightarrow> False
      | Some r \<Rightarrow> json_eq (op_body r) (JObj (od_body draft)) \<and>
                  op_label r = label_value (od_label draft) \<and> op_revision r = od_revision draft)"

fun batch_loop ::
  "(string \<Rightarrow> string) \<Rightarrow> db \<Rightarrow> scope \<Rightarrow> datetime \<Rightarrow> (operational_draft \<times> uuid) list \<Rightarrow>
   (oper_row list \<times> db) res" where
  "batch_loop hx d s t [] = Inr ([], d)"
| "batch_loop hx d s t ((draft, u) # rest) =
     (let latest = latest_of (history d s (kind_value (od_kind draft)) (od_id draft)) in
      if unchanged latest draft then batch_loop hx d s t rest
      else rbind (new_version hx d s draft (current_version latest + 1) t u) (\<lambda>(r, d1).
           rbind (batch_loop hx d1 s t rest) (\<lambda>(rs, d2). Inr (r # rs, d2))))"

definition upsert_operational_batch ::
  "(string \<Rightarrow> string) \<Rightarrow> db \<Rightarrow> scope \<Rightarrow> (operational_draft \<times> uuid) list \<Rightarrow> datetime \<Rightarrow>
   (oper_row list \<times> db) res" where
  "upsert_operational_batch hx d s drafts t =
     guard_else (distinct (map (\<lambda>(x, u). (od_kind x, od_id x)) drafts))
       (ValueError ''operational batch contains duplicate entity identities'')
       (if drafts = [] then Inr ([], d)
        else map_exc (as_oper_conflict ''operational batch append conflicted with concurrent state'')
          (rbind (assert_scope d s) (\<lambda>_.
           rbind (locked_head d s Operational) (\<lambda>_. batch_loop hx d s t drafts))))"

subsection \<open>Reads\<close>

definition get_operational ::
  "db \<Rightarrow> scope \<Rightarrow> string \<Rightarrow> string \<Rightarrow> int option \<Rightarrow> oper_row option res" where
  "get_operational d s kind eid version =
     rbind (parse_entity_kind kind) (\<lambda>k.
     guard_else (strip eid \<noteq> []) (ValueError ''entity_id is required'')
    (rbind (assert_scope d s) (\<lambda>_.
       case version of
         None \<Rightarrow> Inr (latest_of (history d s k eid))
       | Some v \<Rightarrow> guard_else (1 \<le> v) (ValueError ''version must be a positive integer'')
                    (Inr (List.find (\<lambda>r. op_version r = v) (history d s k eid))))))"

definition entity_key :: "oper_row \<Rightarrow> string \<times> string" where
  "entity_key r = (op_kind r, op_id r)"

text \<open>The join with \<open>MAX(version) GROUP BY entity\_kind, entity\_id\<close>, in its order.\<close>

definition is_latest :: "db \<Rightarrow> scope \<Rightarrow> oper_row \<Rightarrow> bool" where
  "is_latest d s r = list_all (\<lambda>x. op_version x \<le> op_version r) (history d s (op_kind r) (op_id r))"

definition latest_rows :: "db \<Rightarrow> scope \<Rightarrow> string option \<Rightarrow> oper_row list" where
  "latest_rows d s kind =
     sort_key entity_key
       (filter (\<lambda>r. in_scope s r \<and> (case kind of None \<Rightarrow> True | Some k \<Rightarrow> op_kind r = k) \<and> is_latest d s r)
          (d_opers d))"

text \<open>\<open>if entity\_kind\<close>: an empty string is no filter.\<close>

definition kind_filter :: "string option \<Rightarrow> string option" where
  "kind_filter kind = (if kind = Some [] then None else kind)"

definition list_operational ::
  "db \<Rightarrow> scope \<Rightarrow> string option \<Rightarrow> int \<Rightarrow> int \<Rightarrow> oper_row list res" where
  "list_operational d s kind limit offset =
     guard_else (1 \<le> limit \<and> limit \<le> 500) (ValueError ''limit must be between 1 and 500'')
    (guard_else (0 \<le> offset \<and> offset \<le> 100000) (ValueError ''offset must be between 0 and 100000'')
    (rbind (case kind_filter kind of None \<Rightarrow> Inr None
            | Some v \<Rightarrow> rbind (parse_entity_kind v) (\<lambda>k. Inr (Some k))) (\<lambda>k.
     rbind (assert_scope d s) (\<lambda>_.
       Inr (page_of (nat offset) (nat limit) (latest_rows d s k))))))"

subsection \<open>Versions are numbered from 1\<close>

definition versions_ok :: "db \<Rightarrow> bool" where
  "versions_ok d \<longleftrightarrow>
     (\<forall>s kind eid. map op_version (history d s kind eid) =
                    map (\<lambda>i. int i + 1) [0..<length (history d s kind eid)])"

lemma latest_of_numbered:
  assumes "map op_version rows = map (\<lambda>i. int i + 1) [0..<length rows]"
  shows "latest_of rows = (if rows = [] then None else Some (last rows))"
    "current_version (latest_of rows) = int (length rows)"
proof -
  have "sorted (map op_version rows)"
    unfolding assms by (simp add: sorted_map)
  then have sorted: "sort_key op_version rows = rows" by (rule sort_key_id_if_sorted)
  show latest: "latest_of rows = (if rows = [] then None else Some (last rows))"
    unfolding latest_of_def sorted by (cases rows rule: rev_cases) simp_all
  show "current_version (latest_of rows) = int (length rows)"
    using assms latest by (cases rows rule: rev_cases) (simp_all add: current_version_def)
qed

lemma versions_okD:
  assumes "versions_ok d"
  shows "latest_of (history d s kind eid) =
      (if history d s kind eid = [] then None else Some (last (history d s kind eid)))"
    "current_version (latest_of (history d s kind eid)) = int (length (history d s kind eid))"
  using latest_of_numbered assms unfolding versions_ok_def by blast+

lemma nth_version:
  assumes "versions_ok d" "n < length (history d s kind eid)"
  shows "op_version (history d s kind eid ! n) = int n + 1"
proof -
  have "op_version (history d s kind eid ! n) = map op_version (history d s kind eid) ! n"
    using assms(2) by simp
  also have "\<dots> = map (\<lambda>i. int i + 1) [0..<length (history d s kind eid)] ! n"
    using assms(1) unfolding versions_ok_def by metis
  also have "\<dots> = int n + 1" using assms(2) by simp
  finally show ?thesis .
qed

lemma add_oper_Inr:
  "add_oper d r = Inr d' \<longleftrightarrow> row_fits d oper_clash (d_opers d) r \<and> d' = d\<lparr>d_opers := d_opers d @ [r]\<rparr>"
  by (auto simp: add_oper_def guard_else_Inr_iff)

text \<open>What a new version is, and what it changes.\<close>

lemma new_version_push:
  assumes "new_version hx d s draft v t u = Inr (r, d')"
  shows "pushes hx d s Operational [row.truncate r] d'" "d_opers d' = d_opers d @ [r]" "in_scope s r"
    "op_kind r = kind_value (od_kind draft)" "op_id r = od_id draft" "op_version r = v"
    "op_name r = od_name draft" "op_label r = label_value (od_label draft)"
    "op_body r = JObj (od_body draft)" "op_refs r = od_refs draft" "op_revision r = od_revision draft"
    "op_observed r = od_observed draft" "op_meta r = JObj (od_meta draft)"
proof -
  obtain h :: head_row and obs b where h: "locked_head d s Operational = Inr h"
    and b: "seal hx ''szl.lyte.operational-record/v1'' s Operational (h_seq h + 1) (h_hash h) u t
             (oper_data draft v obs) = Inr b"
    and add: "add_oper (advance_head d s Operational (r_seq b) (r_hash b) t) r = Inr d'"
    and r: "row.extend b (oper_row.fields (kind_value (od_kind draft)) (od_id draft) v
                 (od_name draft) (label_value (od_label draft)) (JObj (od_body draft)) (od_refs draft)
                 (od_revision draft) (od_observed draft) (JObj (od_meta draft))) = r"
    using assms unfolding new_version_def Let_def rbind_Inr_iff sum.inject prod.inject by blast
  have trunc: "row.truncate r = b" unfolding r [symmetric] by simp
  have d': "d' = (advance_head d s Operational (r_seq b) (r_hash b) t)\<lparr>d_opers := d_opers d @ [r]\<rparr>"
    using add by (simp add: add_oper_Inr)
  show "pushes hx d s Operational [row.truncate r] d'"
    unfolding trunc
  proof (rule single_push [OF h b])
    show "stream_rows d' st = stream_rows d st @ (if st = Operational then [b] else [])" for st
      by (cases st) (simp_all add: d' trunc)
  qed (simp_all add: d')
  show "d_opers d' = d_opers d @ [r]" by (simp add: d')
  show "in_scope s r" using seal_chained(2) [OF b] by (simp add: r [symmetric])
  show "op_kind r = kind_value (od_kind draft)" "op_id r = od_id draft" "op_version r = v"
    "op_name r = od_name draft" "op_label r = label_value (od_label draft)"
    "op_body r = JObj (od_body draft)" "op_refs r = od_refs draft" "op_revision r = od_revision draft"
    "op_observed r = od_observed draft" "op_meta r = JObj (od_meta draft)"
    by (simp_all add: r [symmetric] row.extend_def oper_row.fields_def)
qed

definition same_entity :: "scope \<Rightarrow> string \<Rightarrow> string \<Rightarrow> scope \<Rightarrow> operational_draft \<Rightarrow> bool" where
  "same_entity s' kind eid s draft \<longleftrightarrow> s' = s \<and> kind = kind_value (od_kind draft) \<and> eid = od_id draft"

lemma new_version_history:
  assumes "new_version hx d s draft v t u = Inr (r, d')"
  shows "history d' s' kind eid = history d s' kind eid @ (if same_entity s' kind eid s draft then [r] else [])"
proof -
  note new = new_version_push(2-5) [OF assms]
  have "in_scope s' r \<longleftrightarrow> s' = s" using new(2) in_scope_inj by blast
  then have "(in_scope s' r \<and> op_kind r = kind \<and> op_id r = eid) = same_entity s' kind eid s draft"
    using new(3,4) by (auto simp: same_entity_def)
  then show ?thesis by (simp add: history_def new(1))
qed

lemma new_version_ok:
  assumes "versions_ok d"
    and "new_version hx d s draft (current_version (latest_of (history d s (kind_value (od_kind draft)) (od_id draft))) + 1) t u
         = Inr (r, d')"
  shows "versions_ok d'"
    "op_version r = int (length (history d s (kind_value (od_kind draft)) (od_id draft))) + 1"
proof -
  show v: "op_version r = int (length (history d s (kind_value (od_kind draft)) (od_id draft))) + 1"
    using new_version_push(6) [OF assms(2)] versions_okD(2) [OF assms(1)] by simp
  have "map op_version (history d' s' kind eid) = map (\<lambda>i. int i + 1) [0..<length (history d' s' kind eid)]"
    for s' kind eid
  proof -
    have old: "map op_version (history d s' kind eid) = map (\<lambda>i. int i + 1) [0..<length (history d s' kind eid)]"
      using assms(1) unfolding versions_ok_def by blast
    show ?thesis
    proof (cases "same_entity s' kind eid s draft")
      case True
      then have "op_version r = int (length (history d s' kind eid)) + 1"
        using v by (auto simp: same_entity_def)
      then show ?thesis using old True by (simp add: new_version_history [OF assms(2)])
    next
      case False
      then show ?thesis using old by (simp add: new_version_history [OF assms(2)])
    qed
  qed
  then show "versions_ok d'" unfolding versions_ok_def by blast
qed

subsection \<open>The contract of a versioned store\<close>

text \<open>
  What a caller of optimistic writes relies on: a successful write appends one version to the
  history of its key, leaves the other histories alone, and succeeds with an expected version
  only if that is the current one.
\<close>

locale versioned_store =
  fixes ok :: "'d \<Rightarrow> bool" and hist :: "'d \<Rightarrow> 'k \<Rightarrow> 'r list" and key :: "'w \<Rightarrow> 'k"
    and put :: "'d \<Rightarrow> 'w \<Rightarrow> int option \<Rightarrow> ('r \<times> 'd) res"
  assumes put_ok: "ok d \<Longrightarrow> put d w e = Inr (r, d') \<Longrightarrow> ok d'"
    and put_hist: "ok d \<Longrightarrow> put d w e = Inr (r, d') \<Longrightarrow>
      hist d' = (hist d)(key w := hist d (key w) @ [r])"
    and put_expected: "ok d \<Longrightarrow> put d w (Some v) = Inr (r, d') \<Longrightarrow> v = int (length (hist d (key w)))"
begin

lemma stale_put_fails:
  assumes "ok d" "put d w (Some v) = Inr (r, d1)" "key w' = key w"
    and "ok d2" "hist d2 (key w) = hist d1 (key w) @ new"
  shows "\<not> (\<exists>x. put d2 w' (Some v) = Inr x)"
proof
  assume "\<exists>x. put d2 w' (Some v) = Inr x"
  then obtain r' d3 where again: "put d2 w' (Some v) = Inr (r', d3)" by force
  have "v = int (length (hist d2 (key w)))" using put_expected [OF assms(4) again] assms(3) by simp
  moreover have "v = int (length (hist d (key w)))" by (rule put_expected [OF assms(1,2)])
  ultimately show False using assms(5) put_hist [OF assms(1,2)] by simp
qed

end

definition entity_of :: "scope \<times> operational_draft \<times> datetime \<times> uuid \<Rightarrow> scope \<times> string \<times> string" where
  "entity_of w = (case w of (s, draft, t, u) \<Rightarrow> (s, kind_value (od_kind draft), od_id draft))"

definition histories :: "db \<Rightarrow> scope \<times> string \<times> string \<Rightarrow> oper_row list" where
  "histories d k = (case k of (s, kind, eid) \<Rightarrow> history d s kind eid)"

definition upsert_at ::
  "(string \<Rightarrow> string) \<Rightarrow> db \<Rightarrow> scope \<times> operational_draft \<times> datetime \<times> uuid \<Rightarrow> int option \<Rightarrow> (oper_row \<times> db) res" where
  "upsert_at hx d w e = (case w of (s, draft, t, u) \<Rightarrow> upsert_operational hx d s draft e t u)"

lemma as_oper_conflict_escapes: "as_oper_conflict m e \<noteq> IntegrityError"
  by (cases e) simp_all

lemma write_operational_Inr:
  assumes "write_operational hx d s draft insert_only expected t u = Inr (r, d')"
  shows "assert_scope d s = Inr ()"
    "insert_only \<Longrightarrow> latest_of (history d s (kind_value (od_kind draft)) (od_id draft)) = None"
    "expected = Some v \<Longrightarrow>
       v = current_version (latest_of (history d s (kind_value (od_kind draft)) (od_id draft)))"
    "new_version hx d s draft
       (current_version (latest_of (history d s (kind_value (od_kind draft)) (od_id draft))) + 1) t u = Inr (r, d')"
  using assms by (auto simp: write_operational_def map_exc_Inr_iff rbind_Inr_iff guard_else_Inr_iff Let_def)

lemma write_operational_ok:
  assumes "versions_ok d" "write_operational hx d s draft insert_only expected t u = Inr (r, d')"
  shows "versions_ok d'" "op_version r = int (length (histories d (s, kind_value (od_kind draft), od_id draft))) + 1"
    "histories d' = (histories d)((s, kind_value (od_kind draft), od_id draft) :=
       histories d (s, kind_value (od_kind draft), od_id draft) @ [r])"
proof -
  note new = write_operational_Inr(4) [OF assms(2)]
  show "versions_ok d'" "op_version r = int (length (histories d (s, kind_value (od_kind draft), od_id draft))) + 1"
    using new_version_ok [OF assms(1) new] by (simp_all add: histories_def)
  show "histories d' = (histories d)((s, kind_value (od_kind draft), od_id draft) :=
       histories d (s, kind_value (od_kind draft), od_id draft) @ [r])"
    by (rule ext) (auto simp: histories_def new_version_history [OF new] same_entity_def split: prod.splits)
qed

interpretation ops: versioned_store versions_ok histories entity_of "upsert_at hx" for hx
proof (unfold_locales, goal_cases)
  case (1 d w e r d')
  then show ?case
    by (cases w) (auto simp: upsert_at_def upsert_operational_def guard_else_Inr_iff intro: write_operational_ok(1))
next
  case (2 d w e r d')
  obtain s draft t u where w: "w = (s, draft, t, u)" by (cases w)
  have "write_operational hx d s draft False e t u = Inr (r, d')"
    using 2(2) by (simp add: w upsert_at_def upsert_operational_def guard_else_Inr_iff)
  from write_operational_ok(3) [OF 2(1) this] show ?case by (simp add: w entity_of_def)
next
  case (3 d w v r d')
  obtain s draft t u where w: "w = (s, draft, t, u)" by (cases w)
  have "write_operational hx d s draft False (Some v) t u = Inr (r, d')"
    using 3(2) by (simp add: w upsert_at_def upsert_operational_def guard_else_Inr_iff)
  from write_operational_Inr(3) [OF this refl] show ?case
    using versions_okD(2) [OF 3(1)] by (simp add: w entity_of_def histories_def)
qed

subsection \<open>The batch\<close>

lemma batch_loop_unchanged:
  "\<forall>(x, u) \<in> set drafts. unchanged (latest_of (history d s (kind_value (od_kind x)) (od_id x))) x \<Longrightarrow>
   batch_loop hx d s t drafts = Inr ([], d)"
  by (induction hx d s t drafts rule: batch_loop.induct) (auto simp: Let_def)

lemma new_version_unchanged:
  assumes "versions_ok d'" "history d' s (kind_value (od_kind x)) (od_id x) = old @ [r]"
    and "op_body r = JObj (od_body x)" "op_label r = label_value (od_label x)" "op_revision r = od_revision x"
  shows "unchanged (latest_of (history d' s (kind_value (od_kind x)) (od_id x))) x"
  unfolding versions_okD(1) [OF assms(1)] using assms(2-) by (simp add: unchanged_def)

lemma kind_value_inj [simp]: "kind_value a = kind_value b \<longleftrightarrow> a = b"
  by (cases a; cases b) simp_all

text \<open>What one batch did: every identity of the batch is now unchanged, the others as before.\<close>

lemma batch_loop_effect:
  assumes "batch_loop hx d s t drafts = Inr (rs, d')" "versions_ok d"
    and "distinct (map (\<lambda>(x, u). (od_kind x, od_id x)) drafts)"
  shows "versions_ok d' \<and>
    (\<forall>(x, u) \<in> set drafts. unchanged (latest_of (history d' s (kind_value (od_kind x)) (od_id x))) x) \<and>
    (\<forall>s' kind eid. (\<forall>(x, u) \<in> set drafts. \<not> same_entity s' kind eid s x) \<longrightarrow>
       history d' s' kind eid = history d s' kind eid) \<and>
    d_workspaces d' = d_workspaces d"
  using assms
proof (induction hx d s t drafts arbitrary: rs rule: batch_loop.induct)
  case (2 hx d s t x u rest)
  let ?h = "\<lambda>d. history d s (kind_value (od_kind x)) (od_id x)"
  have dist: "distinct (map (\<lambda>(x, u). (od_kind x, od_id x)) rest)"
    and new: "\<forall>(y, w) \<in> set rest. \<not> same_entity s (kind_value (od_kind x)) (od_id x) s y"
    using "2.prems"(3) by (force simp: same_entity_def)+
  show ?case
  proof (cases "unchanged (latest_of (?h d)) x")
    case True
    then have "batch_loop hx d s t rest = Inr (rs, d')" using "2.prems"(1) by (simp add: Let_def)
    from "2.IH"(1) [OF refl True this "2.prems"(2) dist] True new show ?thesis by auto
  next
    case False
    then obtain r d1 rs' where nv: "new_version hx d s x (current_version (latest_of (?h d)) + 1) t u = Inr (r, d1)"
      and rest: "batch_loop hx d1 s t rest = Inr (rs', d')"
      using "2.prems"(1) by (auto simp: Let_def rbind_Inr_iff)
    note one = new_version_ok [OF "2.prems"(2) nv] and push = new_version_push [OF nv]
    note hist = new_version_history [OF nv]
    have ih: "versions_ok d'"
      "\<forall>(x, u) \<in> set rest. unchanged (latest_of (history d' s (kind_value (od_kind x)) (od_id x))) x"
      "\<And>s' kind eid. \<forall>(x, u) \<in> set rest. \<not> same_entity s' kind eid s x \<Longrightarrow>
         history d' s' kind eid = history d1 s' kind eid"
      "d_workspaces d' = d_workspaces d1"
      using "2.IH"(2) [OF refl False rest one(1) dist] by blast+
    have "?h d' = ?h d1" by (rule ih(3) [OF new])
    then have "?h d' = ?h d @ [r]" using hist by (simp add: same_entity_def)
    from new_version_unchanged [OF ih(1) this push(9,8,11)] have now: "unchanged (latest_of (?h d')) x" .
    have ws: "d_workspaces d' = d_workspaces d" using push(1) ih(4) by (simp add: pushes_def)
    have "history d' s' kind eid = history d s' kind eid"
      if "\<forall>(y, w) \<in> set ((x, u) # rest). \<not> same_entity s' kind eid s y" for s' kind eid
      using ih(3) [of s' kind eid] hist [of s' kind eid] that by simp
    with ih(1,2) now ws show ?thesis by simp
  qed
qed auto

subsection \<open>Latest versions\<close>

lemma history_key: "r \<in> set (history d s kind eid) \<Longrightarrow> op_kind r = kind \<and> op_id r = eid \<and> in_scope s r \<and> r \<in> set (d_opers d)"
  by (auto simp: history_def)

lemma version_inj:
  assumes "versions_ok d" "x \<in> set (history d s kind eid)" "y \<in> set (history d s kind eid)"
    and "op_version x = op_version y"
  shows "x = y"
proof -
  obtain i j where i: "i < length (history d s kind eid)" "x = history d s kind eid ! i"
    and j: "j < length (history d s kind eid)" "y = history d s kind eid ! j"
    using assms(2,3) by (auto simp: in_set_conv_nth)
  then have "int i + 1 = int j + 1" using assms(4) nth_version [OF assms(1)] by metis
  with i j show ?thesis by simp
qed

lemma is_latest_iff:
  assumes ok: "versions_ok d" and r: "r \<in> set (history d s kind eid)"
  shows "is_latest d s r \<longleftrightarrow> r = last (history d s kind eid)"
proof -
  let ?h = "history d s kind eid"
  have ne: "?h \<noteq> []" using r by auto
  have key: "op_kind r = kind" "op_id r = eid" using history_key [OF r] by simp_all
  obtain n where n: "length ?h = Suc n" using ne by (cases "length ?h") auto
  then have len: "op_version (last ?h) = int (length ?h)"
    using nth_version [OF ok, of n s kind eid] by (simp add: last_conv_nth [OF ne])
  have le: "op_version x \<le> int (length ?h)" if "x \<in> set ?h" for x
    using that nth_version [OF ok] by (fastforce simp: in_set_conv_nth)
  show ?thesis
  proof
    assume "is_latest d s r"
    then have "int (length ?h) \<le> op_version r"
      using ne len by (auto simp: is_latest_def list_all_iff key dest!: bspec [where x = "last ?h"])
    with le [OF r] len show "r = last ?h" using version_inj [OF ok r last_in_set [OF ne]] by simp
  next
    assume "r = last ?h"
    with len have "op_version r = int (length ?h)" by simp
    then show "is_latest d s r" using le by (simp add: is_latest_def list_all_iff key)
  qed
qed

lemma set_latest_rows:
  assumes "versions_ok d"
  shows "r \<in> set (latest_rows d s kind) \<longleftrightarrow>
    (\<exists>k i. (kind = None \<or> kind = Some k) \<and> history d s k i \<noteq> [] \<and> r = last (history d s k i))"
proof
  assume "r \<in> set (latest_rows d s kind)"
  then have r: "r \<in> set (history d s (op_kind r) (op_id r))" and "is_latest d s r"
    "kind = None \<or> kind = Some (op_kind r)"
    by (auto simp: latest_rows_def history_def split: option.splits)
  then show "\<exists>k i. (kind = None \<or> kind = Some k) \<and> history d s k i \<noteq> [] \<and> r = last (history d s k i)"
    using is_latest_iff [OF assms r] by (metis empty_iff list.set(1))
next
  assume "\<exists>k i. (kind = None \<or> kind = Some k) \<and> history d s k i \<noteq> [] \<and> r = last (history d s k i)"
  then obtain k i where k: "kind = None \<or> kind = Some k" "history d s k i \<noteq> []" "r = last (history d s k i)"
    by blast
  then have r: "r \<in> set (history d s k i)" by simp
  then show "r \<in> set (latest_rows d s kind)"
    using is_latest_iff [OF assms r] history_key [OF r] k by (auto simp: latest_rows_def)
qed

lemma distinct_latest_rows:
  assumes ok: "versions_ok d"
  shows "distinct (map entity_key (latest_rows d s kind))"
proof -
  have uniq: "r = x" if rin: "r \<in> set (latest_rows d s kind)" and xin: "x \<in> set (latest_rows d s kind)"
    and same: "entity_key r = entity_key x" for r x
  proof -
    obtain k i where r: "r = last (history d s k i)" "history d s k i \<noteq> []"
      using set_latest_rows [OF ok, THEN iffD1, OF rin] by blast
    obtain k' i' where x: "x = last (history d s k' i')" "history d s k' i' \<noteq> []"
      using set_latest_rows [OF ok, THEN iffD1, OF xin] by blast
    note kr = history_key [OF last_in_set [OF r(2)], folded r(1)]
      and kx = history_key [OF last_in_set [OF x(2)], folded x(1)]
    have eq: "op_kind r = op_kind x" "op_id r = op_id x" using same unfolding entity_key_def by simp_all
    have "k = op_kind r" "i = op_id r" "k' = op_kind x" "i' = op_id x" using kr kx by blast+
    then have "k = k'" "i = i'" using eq by (simp_all only:)
    then show ?thesis using r(1) x(1) by (simp only:)
  qed
  have "distinct (filter P (d_opers d))" if sub: "\<And>r. P r \<Longrightarrow> in_scope s r" for P
  proof -
    have "distinct xs" if "\<forall>k i. distinct (map op_version (filter (\<lambda>r. in_scope s r \<and> op_kind r = k \<and> op_id r = i) xs))"
      "\<forall>r \<in> set xs. in_scope s r" for xs
      using that
    proof (induction xs)
      case (Cons x xs)
      have "x \<notin> set xs"
        using Cons.prems(1) [rule_format, of "op_kind x" "op_id x"] Cons.prems(2) by auto
      moreover have "distinct (map op_version (filter (\<lambda>r. in_scope s r \<and> op_kind r = k \<and> op_id r = i) xs))" for k i
        using Cons.prems(1) [rule_format, of k i] by (auto split: if_splits)
      ultimately show ?case using Cons.IH Cons.prems(2) by simp
    qed simp
    note core = this
    have "distinct (map op_version (filter (\<lambda>r. in_scope s r \<and> op_kind r = k \<and> op_id r = i) (filter P (d_opers d))))" for k i
    proof -
      have "distinct (map op_version (history d s k i))"
        using ok by (simp add: versions_ok_def distinct_map inj_on_def)
      then have "distinct (map op_version (filter P (history d s k i)))" by (rule distinct_map_filter)
      moreover have "filter P (history d s k i) =
          filter (\<lambda>r. in_scope s r \<and> op_kind r = k \<and> op_id r = i) (filter P (d_opers d))"
        by (simp add: history_def conj_commute)
      ultimately show ?thesis by simp
    qed
    then show ?thesis using core [of "filter P (d_opers d)"] sub by simp
  qed
  note filtered = this
  have "distinct (latest_rows d s kind)"
    unfolding latest_rows_def distinct_sort by (rule filtered) (rule conjunct1)
  then show ?thesis using uniq by (auto simp: distinct_map inj_on_def)
qed

subsection \<open>Properties\<close>

text \<open>The specification: a store of histories, one per entity.\<close>

definition spec_refuses :: "('k \<Rightarrow> 'r list) \<Rightarrow> 'k \<Rightarrow> bool \<Rightarrow> int option \<Rightarrow> bool" where
  "spec_refuses H k insert_only expected =
     (insert_only \<and> H k \<noteq> [] \<or> expected \<noteq> None \<and> expected \<noteq> Some (int (length (H k))))"

definition spec_append :: "('k \<Rightarrow> 'r list) \<Rightarrow> 'k \<Rightarrow> 'r \<Rightarrow> ('k \<Rightarrow> 'r list)" where
  "spec_append H k r = H(k := H k @ [r])"


lemma stale_upsert_fails:
  assumes "versions_ok d" "upsert_operational hx d s draft (Some v) t u = Inr (r, d1)"
    and "od_kind draft2 = od_kind draft" "od_id draft2 = od_id draft"
    and "versions_ok d2"
    and "history d2 s (kind_value (od_kind draft)) (od_id draft) =
         history d1 s (kind_value (od_kind draft)) (od_id draft) @ later"
  shows "\<not> (\<exists>x. upsert_operational hx d2 s draft2 (Some v) t2 u2 = Inr x)"
  using ops.stale_put_fails [of d hx "(s, draft, t, u)" v r d1 "(s, draft2, t2, u2)" d2 later] assms
  by (simp add: upsert_at_def entity_of_def histories_def)


text \<open>\<open>list_operational\<close> lists the entities of the scope, each once, by its latest version:
  the pages cut one list that has no entity twice and whose members are exactly the last records
  of the non-empty histories (of the requested kind, if one is given).\<close>

theorem list_operational_latest:
  assumes "versions_ok d" "list_operational d s kind limit offset = Inr rows"
  shows "rows = page_of (nat offset) (nat limit) (latest_rows d s (kind_filter kind)) \<and>
    distinct (map entity_key (latest_rows d s (kind_filter kind))) \<and> sorted (map entity_key (latest_rows d s (kind_filter kind))) \<and>
    (\<forall>r. r \<in> set (latest_rows d s (kind_filter kind)) \<longleftrightarrow>
       (\<exists>kd i. (kind_filter kind = None \<or> kind_filter kind = Some kd) \<and> history d s kd i \<noteq> [] \<and> r = last (history d s kd i)))"
proof -
  have "rows = page_of (nat offset) (nat limit) (latest_rows d s (kind_filter kind))"
    using assms(2) unfolding list_operational_def parse_entity_kind_def
    by (cases "kind_filter kind") (auto simp: guard_else_Inr_iff rbind_Inr_iff split: if_splits)
  moreover have "sorted (map entity_key (latest_rows d s (kind_filter kind)))" by (simp add: latest_rows_def)
  ultimately show ?thesis using distinct_latest_rows [OF assms(1)] set_latest_rows [OF assms(1)] by blast
qed

text \<open>What the batch compares: identity, body, label and source revision.\<close>

definition batch_view :: "operational_draft \<times> uuid \<Rightarrow>
    entity_kind \<times> string \<times> (string \<times> json) list \<times> truth_label \<times> string option" where
  "batch_view p = (case p of (x, u) \<Rightarrow> (od_kind x, od_id x, od_body x, od_label x, od_revision x))"

lemma batch_loop_head:
  "batch_loop hx d s t drafts = Inr (rs, d') \<Longrightarrow> locked_head d s Operational = Inr h \<Longrightarrow>
   \<exists>h'. locked_head d' s Operational = Inr h'"
proof (induction hx d s t drafts arbitrary: rs h rule: batch_loop.induct)
  case (2 hx d s t x u rest)
  let ?latest = "latest_of (history d s (kind_value (od_kind x)) (od_id x))"
  show ?case
  proof (cases "unchanged ?latest x")
    case True
    then have "batch_loop hx d s t rest = Inr (rs, d')" using "2.prems"(1) by (simp add: Let_def)
    from "2.IH"(1) [OF refl True this "2.prems"(2)] show ?thesis .
  next
    case False
    then obtain r d1 rs' where nv: "new_version hx d s x (current_version ?latest + 1) t u = Inr (r, d1)"
      and rest: "batch_loop hx d1 s t rest = Inr (rs', d')"
      using "2.prems"(1) by (auto simp: Let_def rbind_Inr_iff)
    obtain q y t' where "d_heads d1 = d_heads (advance_head d s Operational q y t')"
      using new_version_push(1) [OF nv] unfolding pushes_def by blast
    from locked_head_heads [OF this] have "\<exists>h'. locked_head d1 s Operational = Inr h'"
      by (simp add: locked_head_advance "2.prems"(2))
    then obtain h1 where "locked_head d1 s Operational = Inr h1" ..
    from "2.IH"(2) [OF refl False rest this] show ?thesis .
  qed
qed auto

lemma unchanged_view:
  assumes "batch_view (x, u) = batch_view (y, w)"
  shows "unchanged l x = unchanged l y" "od_kind x = od_kind y" "od_id x = od_id y"
  using assms by (cases l; simp add: batch_view_def unchanged_def)+

text \<open>The batch is idempotent, and blind to everything but identity, body, label and source
  revision: after a batch has been written, any batch that agrees with it in these (whatever its
  names, evidence references, observation times and metadata) writes nothing and returns no
  record.  Versions stay numbered from 1.\<close>

theorem batch_idempotent:
  assumes "versions_ok d" "upsert_operational_batch hx d s drafts t = Inr (rs, d')"
    and "map batch_view drafts2 = map batch_view drafts"
  shows "upsert_operational_batch hx d' s drafts2 t2 = Inr ([], d') \<and> versions_ok d'"
proof (cases "drafts = []")
  case True
  then show ?thesis using assms by (simp add: upsert_operational_batch_def)
next
  case False
  have view: "map (\<lambda>(x, u). (od_kind x, od_id x)) zs = map (\<lambda>(k, i, _). (k, i)) (map batch_view zs)"
    for zs :: "(operational_draft \<times> uuid) list"
    by (induction zs) (auto simp: batch_view_def)
  have keys: "map (\<lambda>(x, u). (od_kind x, od_id x)) drafts2 = map (\<lambda>(x, u). (od_kind x, od_id x)) drafts"
    by (simp only: view assms(3))
  have dist: "distinct (map (\<lambda>(x, u). (od_kind x, od_id x)) drafts)"
    using assms(2) by (auto simp: upsert_operational_batch_def guard_else_Inr_iff)
  obtain h where ws: "assert_scope d s = Inr ()" and h: "locked_head d s Operational = Inr h"
    and loop: "batch_loop hx d s t drafts = Inr (rs, d')"
    using assms(2) False by (auto simp: upsert_operational_batch_def guard_else_Inr_iff map_exc_Inr_iff rbind_Inr_iff)
  have eff: "versions_ok d'"
    "\<forall>(x, u) \<in> set drafts. unchanged (latest_of (history d' s (kind_value (od_kind x)) (od_id x))) x"
    "d_workspaces d' = d_workspaces d"
    using batch_loop_effect [OF loop assms(1) dist] by blast+
  have ws': "assert_scope d' s = Inr ()" using ws eff(3) by (simp add: assert_scope_def find_workspace_def)
  obtain h' where h': "locked_head d' s Operational = Inr h'" using batch_loop_head [OF loop h] by blast
  have "\<forall>(x, u) \<in> set drafts2. unchanged (latest_of (history d' s (kind_value (od_kind x)) (od_id x))) x"
  proof (clarify)
    fix x u assume "(x, u) \<in> set drafts2"
    then have "batch_view (x, u) \<in> set (map batch_view drafts)" unfolding assms(3) [symmetric] by simp
    then obtain y w where "(y, w) \<in> set drafts" "batch_view (x, u) = batch_view (y, w)" by auto
    then show "unchanged (latest_of (history d' s (kind_value (od_kind x)) (od_id x))) x"
      using eff(2) unchanged_view by fastforce
  qed
  then have "batch_loop hx d' s t2 drafts2 = Inr ([], d')" by (rule batch_loop_unchanged)
  then show ?thesis using eff(1) ws' h' dist by (simp add: upsert_operational_batch_def keys)
qed

subsection \<open>An example\<close>

definition example_service :: operational_draft where
  "example_service = \<lparr>od_kind = Service, od_id = ''api'', od_name = ''API'', od_body = [], od_label = SAMPLE,
     od_refs = [], od_revision = None, od_observed = None, od_meta = []\<rparr>"

lemma fresh_db_opers [simp]: "d_opers fresh_db = []"
  by (simp add: fresh_db_def empty_db_def)

lemma fresh_db_history [simp]: "history fresh_db s kind eid = []"
  by (simp add: history_def)

lemma fresh_db_versions: "versions_ok fresh_db"
  by (simp add: versions_ok_def)

lemma latest_of_Nil [simp]: "latest_of [] = None"
  by (simp add: latest_of_def)

lemma new_version_fresh: "\<exists>r d'. new_version hx fresh_db example_scope example_service 1 (Aware 0) u = Inr (r, d')"
proof -
  have "\<exists>x. canonical_json (JObj (oper_data example_service 1 JNull)) = Inr x"
    by (rule canonical_json_total) (auto simp: oper_data_def jstrs_def jopt_def example_service_def)
  from seal_total [OF _ this, of "Aware 0" hx "''szl.lyte.operational-record/v1''" example_scope Operational 1 None u]
  obtain b where b: "seal hx ''szl.lyte.operational-record/v1'' example_scope Operational 1 None u (Aware 0)
      (oper_data example_service 1 JNull) = Inr b" by auto
  have "scope_exists fresh_db (uuid_str 1) (uuid_str 2)" by (simp add: scope_exists_def fresh_db_def)
  then have "row_fits (advance_head fresh_db example_scope Operational n y t) oper_clash [] (row.extend b m)" for n y t m
    using seal_chained(2) [OF b] by (simp add: row_fits_def in_scope_def example_scope_def scope_exists_def)
  then show ?thesis
    using b by (simp add: new_version_def fresh_db_head iso_opt_def add_oper_Inr [THEN iffD2] Let_def)
      (simp add: example_service_def add_oper_def)
qed

lemma write_fresh:
  "expected \<in> {None, Some 0} \<Longrightarrow>
   \<exists>r d'. write_operational hx fresh_db example_scope example_service insert_only expected (Aware 0) u = Inr (r, d')"
  using new_version_fresh [of hx u] fresh_db_scope
  by (auto simp: write_operational_def Let_def current_version_def)


lemma upsert_fresh: "\<exists>r d'. upsert_operational id fresh_db example_scope example_service (Some 0) (Aware 0) 5 = Inr (r, d')"
  using write_fresh [of "Some 0"] by (simp add: upsert_operational_def)

lemma upsert_versions:
  assumes "upsert_operational hx d s draft e t u = Inr (r, d')" "versions_ok d"
  shows "versions_ok d'"
  using assms write_operational_ok(1) by (auto simp: upsert_operational_def guard_else_Inr_iff)


theorem list_operational_latest_witness:
  "\<exists>r d'. insert_operational id fresh_db example_scope example_service (Aware 0) 5 = Inr (r, d') \<and>
          list_operational d' example_scope None 10 0 = Inr [r] \<and>
          distinct (map entity_key (latest_rows d' example_scope None))"
proof -
  obtain r d' where w: "write_operational id fresh_db example_scope example_service True (Some 0) (Aware 0) 5 = Inr (r, d')"
    using write_fresh [of "Some 0"] by blast
  note push = new_version_push [OF write_operational_Inr(4) [OF w]]
  have ws: "assert_scope d' example_scope = Inr ()"
    using fresh_db_scope push(1) by (simp add: assert_scope_def find_workspace_def pushes_def)
  have "latest_rows d' example_scope None = [r]"
    using push(2,3) by (simp add: latest_rows_def is_latest_def history_def)
  then have list: "list_operational d' example_scope None 10 0 = Inr [r]"
    by (simp add: list_operational_def ws kind_filter_def page_of_def)
  from list_operational_latest [OF write_operational_ok(1) [OF fresh_db_versions w] this] list w
  show ?thesis by (auto simp: kind_filter_def insert_operational_def)
qed

text \<open>A batch that renames an entity and gives it new evidence after it was written.\<close>

theorem batch_idempotent_witness:
  "\<exists>rs d'. upsert_operational_batch id fresh_db example_scope [(example_service, 5)] (Aware 0) = Inr (rs, d') \<and>
     rs \<noteq> [] \<and>
     upsert_operational_batch id d' example_scope
       [(example_service\<lparr>od_name := ''Renamed'', od_refs := [''r'']\<rparr>, 6)] (Aware 1) = Inr ([], d')"
proof -
  obtain r d' where nv: "new_version id fresh_db example_scope example_service 1 (Aware 0) 5 = Inr (r, d')"
    using new_version_fresh by blast
  have first: "upsert_operational_batch id fresh_db example_scope [(example_service, 5)] (Aware 0) = Inr ([r], d')"
    by (simp add: upsert_operational_batch_def fresh_db_scope fresh_db_head unchanged_def current_version_def nv)
  have "map batch_view [(example_service\<lparr>od_name := ''Renamed'', od_refs := [''r'']\<rparr>, 6)] =
      map batch_view [(example_service, 5)]" by (simp add: batch_view_def)
  from batch_idempotent [OF fresh_db_versions first this] first show ?thesis by blast
qed

end
