(* ===== verification/Store.thy ===== *)
theory Store
  imports Bundle_Progress Operational_Store
begin

section \<open>The store as a state machine\<close>

text \<open>
  One rule per writing operation of the store, labelled with the scope it writes; a transaction
  runs on the committed state, which is also what its recovery reads.  The reachable states
  satisfy the invariant, every step only appends, and a step of one scope leaves what other
  scopes read as it was.
\<close>

inductive store_step :: "(string \<Rightarrow> string) \<Rightarrow> scope option \<Rightarrow> db \<Rightarrow> db \<Rightarrow> bool" for hx where
  tenant: "create_tenant d spec t = Inr (r, d') \<Longrightarrow> store_step hx None d d'"
| workspace: "create_workspace d spec clock = Inr (w, d') \<Longrightarrow>
    store_step hx (Some \<lparr>sc_tenant = wsp_tenant spec, sc_workspace = wsp_id spec\<rparr>) d d'"
| provision: "provision_scope hx (d, d, d) (d, d, d) ts ws clock u = Inr (p, d') \<Longrightarrow>
    store_step hx (Some (scope_of ts ws)) d d'"
| receipt: "append_receipt hx d d s rd key created clk u1 u2 = Inr (r, d') \<Longrightarrow> store_step hx (Some s) d d'"
| memory: "append_memory hx d s md rh t u = Inr (m, d') \<Longrightarrow> store_step hx (Some s) d d'"
| anatomy: "append_anatomy_trace hx d tr t u = Inr (r, d') \<Longrightarrow> store_step hx (Some (tr_scope tr)) d d'"
| analysis: "append_analysis_bundle hx d d d s rd md traces key request t us = Inr (b, d') \<Longrightarrow>
    store_step hx (Some s) d d'"
| insert: "insert_operational hx d s od t u = Inr (r, d') \<Longrightarrow> store_step hx (Some s) d d'"
| upsert: "upsert_operational hx d s od e t u = Inr (r, d') \<Longrightarrow> store_step hx (Some s) d d'"
| batch: "upsert_operational_batch hx d s drafts t = Inr (rs, d') \<Longrightarrow> store_step hx (Some s) d d'"

inductive store_run :: "(string \<Rightarrow> string) \<Rightarrow> db \<Rightarrow> scope option list \<Rightarrow> db \<Rightarrow> bool" for hx where
  stop: "store_run hx d [] d"
| step: "store_run hx d ls d1 \<Longrightarrow> store_step hx l d1 d2 \<Longrightarrow> store_run hx d (ls @ [l]) d2"

inductive_cases store_run_snoc: "store_run hx d (ls @ [l]) d'"

definition store_reachable :: "(string \<Rightarrow> string) \<Rightarrow> db \<Rightarrow> bool" where
  "store_reachable hx d \<longleftrightarrow> (\<exists>sq ls. store_run hx (empty_db sq) ls d)"

subsection \<open>What a step may change\<close>

definition added_in :: "scope \<Rightarrow> 'a row_scheme list \<Rightarrow> 'a row_scheme list \<Rightarrow> bool" where
  "added_in s xs ys \<longleftrightarrow> (\<exists>new. ys = xs @ new \<and> (\<forall>r \<in> set new. in_scope s r))"

definition extends :: "scope \<Rightarrow> db \<Rightarrow> db \<Rightarrow> bool" where
  "extends s d d' \<longleftrightarrow>
     d_sqlite d' = d_sqlite d \<and> (\<exists>x. d_tenants d' = d_tenants d @ x) \<and>
     (\<exists>x. d_workspaces d' = d_workspaces d @ x) \<and>
     added_in s (d_receipts d) (d_receipts d') \<and> added_in s (d_idems d) (d_idems d') \<and>
     added_in s (d_memories d) (d_memories d') \<and> added_in s (d_traces d) (d_traces d') \<and>
     added_in s (d_opers d) (d_opers d') \<and>
     (\<forall>s' st h. s' \<noteq> s \<longrightarrow> locked_head d s' st = Inr h \<longrightarrow> locked_head d' s' st = Inr h)"

lemma added_in_refl [simp]: "added_in s xs xs"
  by (simp add: added_in_def)

lemma added_in_append [simp]: "added_in s xs (xs @ new) \<longleftrightarrow> (\<forall>r \<in> set new. in_scope s r)"
  by (simp add: added_in_def)

lemma added_in_trans: "added_in s xs ys \<Longrightarrow> added_in s ys zs \<Longrightarrow> added_in s xs zs"
  unfolding added_in_def by auto

lemma extends_refl [simp]: "extends s d d"
  by (simp add: extends_def)

lemma extends_trans:
  assumes "extends s d d1" "extends s d1 d2"
  shows "extends s d d2"
proof -
  have "\<exists>x. d_tenants d2 = d_tenants d @ x" "\<exists>x. d_workspaces d2 = d_workspaces d @ x"
    using assms unfolding extends_def by force+
  moreover have "added_in s (d_receipts d) (d_receipts d2)" "added_in s (d_idems d) (d_idems d2)"
    "added_in s (d_memories d) (d_memories d2)" "added_in s (d_traces d) (d_traces d2)"
    "added_in s (d_opers d) (d_opers d2)"
    using assms added_in_trans unfolding extends_def by blast+
  ultimately show ?thesis using assms unfolding extends_def by auto
qed

lemma pushes_other_heads:
  assumes "pushes hx d s st rs d'" "s' \<noteq> s"
  shows "locked_head d' s' x = locked_head d s' x"
proof -
  obtain q y t where "d_heads d' = d_heads (advance_head d s st q y t)"
    using assms(1) unfolding pushes_def by blast
  from locked_head_heads [OF this] show ?thesis using assms(2) by (simp add: locked_head_advance)
qed

lemma pushes_extends:
  assumes "pushes hx d s st rs d'"
    and "added_in s (d_receipts d) (d_receipts d')" "added_in s (d_idems d) (d_idems d')"
    "added_in s (d_memories d) (d_memories d')" "added_in s (d_traces d) (d_traces d')"
    "added_in s (d_opers d) (d_opers d')"
  shows "extends s d d'"
  using assms pushes_other_heads [OF assms(1)] unfolding extends_def pushes_def by simp

subsection \<open>Each operation\<close>

definition cites_ok :: "db \<Rightarrow> bool" where
  "cites_ok d \<longleftrightarrow> (\<forall>m \<in> set (d_memories d). \<exists>r \<in> set (d_receipts d).
     r_tenant r = r_tenant m \<and> r_workspace r = r_workspace m \<and> mm_receipt m = Some (r_hash r))"

text \<open>Everything the store keeps true.\<close>

definition store_inv :: "(string \<Rightarrow> string) \<Rightarrow> db \<Rightarrow> bool" where
  "store_inv hx d \<longleftrightarrow> db_inv hx d \<and> versions_ok d \<and> cites_ok d"

lemma versions_frame: "d_opers d' = d_opers d \<Longrightarrow> versions_ok d' = versions_ok d"
  by (simp add: versions_ok_def history_def)

lemma cites_frame:
  "d_memories d' = d_memories d \<Longrightarrow> \<exists>new. d_receipts d' = d_receipts d @ new \<Longrightarrow> cites_ok d \<Longrightarrow> cites_ok d'"
  by (fastforce simp: cites_ok_def)

lemma cites_ok_memory_cites: "cites_ok d \<Longrightarrow> memory_cites d s"
  by (fastforce simp: cites_ok_def memory_cites_def in_scope_def)

lemma receipt_tx_frame:
  assumes "receipt_tx hx d s rd kd request t u1 u2 = Inr (r, d')"
  shows "d_memories d' = d_memories d \<and> d_traces d' = d_traces d \<and> d_opers d' = d_opers d"
proof (cases "case kd of None \<Rightarrow> None | Some k \<Rightarrow> find_idem d s k")
  case (Some rec)
  then show ?thesis using assms by (auto simp: receipt_tx_def rbind_Inr_iff)
next
  case None
  with assms obtain x d1 where nr: "new_receipt hx d s rd t u1 = Inr (x, d1)"
    and rest: "(case kd of None \<Rightarrow> rbind (add_receipt d1 x) (\<lambda>d2. Inr (x, d2))
       | Some k \<Rightarrow> rbind (append_idempotency hx d1 s k request (r_hash x) t u2) (\<lambda>(i, d2).
           rbind (add_receipt d2 x) (\<lambda>d3. rbind (add_idem d3 i) (\<lambda>d4. Inr (x, d4))))) = Inr (r, d')"
    by (auto simp: receipt_tx_def rbind_Inr_iff)
  obtain q y where d1: "d1 = advance_head d s Receipts q y t" using new_receipt_advance [OF nr] by blast
  show ?thesis
  proof (cases kd)
    case None
    then show ?thesis using rest by (auto simp: rbind_Inr_iff add_receipt_Inr d1)
  next
    case (Some k)
    then obtain i d2 d3 where ai: "append_idempotency hx d1 s k request (r_hash x) t u2 = Inr (i, d2)"
      and add: "add_receipt d2 x = Inr d3" "add_idem d3 i = Inr d'"
      using rest by (auto simp: rbind_Inr_iff)
    obtain q' y' where "d2 = advance_head d1 s Idempotency q' y' t" using append_idempotency_row(2) [OF ai] by blast
    then show ?thesis using add by (auto simp: add_receipt_Inr add_idem_Inr d1)
  qed
qed

lemma pushes_frame:
  assumes "pushes hx d s st rs d'"
  shows "d_sqlite d' = d_sqlite d" "d_tenants d' = d_tenants d" "d_workspaces d' = d_workspaces d"
  using assms unfolding pushes_def by blast+

lemma receipt_effect_extends:
  assumes "receipt_effect hx d s kd request r d'"
    and "d_memories d' = d_memories d \<and> d_traces d' = d_traces d \<and> d_opers d' = d_opers d"
  shows "extends s d d'" "\<exists>new. d_receipts d' = d_receipts d @ new"
proof -
  have "extends s d d' \<and> (\<exists>new. d_receipts d' = d_receipts d @ new)"
    using assms(1)
  proof cases
    case (replay k rec)
    then show ?thesis by simp
  next
    case plain
    have "added_in s (d_receipts d) (d_receipts d')" using plain(3,6) by simp
    then have "extends s d d'"
      by (intro pushes_extends [OF plain(2)]) (use plain(5) assms(2) in simp_all)
    then show ?thesis using plain(3) by simp
  next
    case (claimed k dm i)
    have "added_in s (d_receipts d) (d_receipts d')" "added_in s (d_idems d) (d_idems d')"
      using claimed(5,7,8,9) by simp_all
    moreover have "d_sqlite d' = d_sqlite d" "d_tenants d' = d_tenants d" "d_workspaces d' = d_workspaces d"
      using pushes_frame [OF claimed(3)] pushes_frame [OF claimed(4)] by simp_all
    moreover have "locked_head d' s' st = locked_head d s' st" if "s' \<noteq> s" for s' st
      using pushes_other_heads [OF claimed(3) that] pushes_other_heads [OF claimed(4) that] by simp
    ultimately have "extends s d d'" using assms(2) unfolding extends_def by simp
    then show ?thesis using claimed(5) by simp
  qed
  then show "extends s d d'" "\<exists>new. d_receipts d' = d_receipts d @ new" by blast+
qed

lemma append_receipt_tx:
  assumes "append_receipt hx d d s rd key created clk u1 u2 = Inr (r, d')"
  shows "d' = d \<or> (\<exists>kd request t. receipt_tx hx d s rd kd request t u1 u2 = Inr (r, d'))"
proof -
  define t where "t = (case created of None \<Rightarrow> clk | Some c \<Rightarrow> c)"
  obtain request kd where q: "receipt_attempt hx d d s rd kd request t u1 u2 = Inr (r, d')"
    using assms by (auto simp: append_receipt_def rbind_Inr_iff t_def)
  show ?thesis
  proof (cases "receipt_tx hx d s rd kd request t u1 u2 = Inl IntegrityError")
    case True
    then have "receipt_recovery d s kd request = Inr (r, d')" using q by (simp add: receipt_attempt_def)
    then have "d' = d" by (auto simp: receipt_recovery_def rbind_Inr_iff split: option.splits)
    then show ?thesis by blast
  next
    case False
    then have "receipt_tx hx d s rd kd request t u1 u2 = Inr (r, d')" using q by (simp add: receipt_attempt_def)
    then show ?thesis by blast
  qed
qed

lemma receipt_step:
  assumes "append_receipt hx d d s rd key created clk u1 u2 = Inr (r, d')"
  shows "extends s d d'" "store_inv hx d \<Longrightarrow> store_inv hx d'"
proof -
  have eff: "d' = d \<or> (\<exists>kd request. receipt_effect hx d s kd request r d' \<and>
      d_memories d' = d_memories d \<and> d_traces d' = d_traces d \<and> d_opers d' = d_opers d)"
    using append_receipt_tx [OF assms] receipt_tx_effect receipt_tx_frame by meson
  show "extends s d d'"
    using eff
  proof
    assume "\<exists>kd request. receipt_effect hx d s kd request r d' \<and>
      d_memories d' = d_memories d \<and> d_traces d' = d_traces d \<and> d_opers d' = d_opers d"
    then show ?thesis by (elim exE conjE) (rule receipt_effect_extends(1); simp)
  qed simp
  show "store_inv hx d'" if inv: "store_inv hx d"
  proof -
    have db: "db_inv hx d'" using append_receipt_inv [OF assms] inv by (simp add: store_inv_def)
    have "d_opers d' = d_opers d" "d_memories d' = d_memories d" "\<exists>new. d_receipts d' = d_receipts d @ new"
      using eff receipt_effect_extends(2) by auto
    then show ?thesis using db inv versions_frame cites_frame unfolding store_inv_def by blast
  qed
qed

lemma single_extends:
  assumes "pushes hx d s st rs d'" "assert_scope d s = Inr ()" "store_inv hx d"
  shows "db_inv hx d'"
  using push_inv [OF _ _ assms(1)] db_invD(1) [OF _ assms(2)] assms(3) by (auto simp: store_inv_def)

lemma memory_step:
  assumes "append_memory hx d s md rh t u = Inr (m, d')"
  shows "extends s d d'" "store_inv hx d \<Longrightarrow> store_inv hx d'"
proof -
  note push = append_memory_push [OF assms]
  obtain e where e: "find_receipt d s rh = Some e"
    using assms push(1) by (cases "find_receipt d s rh") (simp_all add: append_memory_def guard_else_Inr_iff)
  obtain d1 where nm: "new_memory hx d s md (md_refs md) rh t u = Inr (m, d1)" and add: "add_memory d1 m = Inr d'"
    using assms push(1) e by (auto simp: append_memory_def guard_else_Inr_iff rbind_Inr_iff)
  have frame: "d_receipts d' = d_receipts d" "d_idems d' = d_idems d" "d_traces d' = d_traces d" "d_opers d' = d_opers d"
    using new_memory_push(9) [OF nm] add by (auto simp: add_memory_Inr)
  show "extends s d d'"
    by (rule pushes_extends [OF push(2)]) (simp_all add: frame push(3,4))
  show "store_inv hx d'" if inv: "store_inv hx d"
  proof -
    obtain y where "y \<in> set (d_receipts d)" "in_scope s y" "r_hash y = rh" using push(6) by blast
    then have "cites_ok d'"
      using inv push(4,5) unfolding store_inv_def cites_ok_def push(3) frame by (auto simp: in_scope_def)
    then show ?thesis
      using single_extends [OF push(2,1) inv] inv versions_frame [OF frame(4)] by (simp add: store_inv_def)
  qed
qed

lemma anatomy_step:
  assumes "append_anatomy_trace hx d tr t u = Inr (r, d')"
  shows "extends (tr_scope tr) d d'" "store_inv hx d \<Longrightarrow> store_inv hx d'"
proof -
  note push = append_anatomy_trace_push [OF assms]
  let ?s = "tr_scope tr"
  obtain h :: head_row where rec: "trace_record hx ?s (h_seq h + 1) (h_hash h) t tr u = Inr r"
    and add: "add_trace (advance_head d ?s Anatomy (r_seq r) (r_hash r) t) r = Inr d'"
    using assms unfolding append_anatomy_trace_def Let_def push(1) rbind_simps rbind_Inr_iff sum.inject prod.inject
    by blast
  have frame: "d_receipts d' = d_receipts d" "d_idems d' = d_idems d" "d_memories d' = d_memories d" "d_opers d' = d_opers d"
    using add by (simp_all add: add_trace_Inr)
  show "extends ?s d d'"
    by (rule pushes_extends [OF push(2)]) (simp_all add: frame push(3) trace_record_sealed(2) [OF rec])
  show "store_inv hx d'" if inv: "store_inv hx d"
    using single_extends [OF push(2,1) inv] inv versions_frame [OF frame(4)] cites_frame [OF frame(3)] frame(1)
    by (simp add: store_inv_def)
qed

lemma new_version_frame:
  assumes "new_version hx d s od v t u = Inr (r, d')"
  shows "d_receipts d' = d_receipts d" "d_idems d' = d_idems d" "d_memories d' = d_memories d" "d_traces d' = d_traces d"
proof -
  obtain q y r' where "add_oper (advance_head d s Operational q y t) r' = Inr d'"
    using assms unfolding new_version_def Let_def rbind_Inr_iff sum.inject prod.inject by blast
  then show "d_receipts d' = d_receipts d" "d_idems d' = d_idems d" "d_memories d' = d_memories d" "d_traces d' = d_traces d"
    by (simp_all add: add_oper_Inr)
qed

lemma new_version_extends:
  assumes "new_version hx d s od v t u = Inr (r, d')"
  shows "extends s d d'"
  by (rule pushes_extends [OF new_version_push(1) [OF assms]])
     (simp_all add: new_version_frame [OF assms] new_version_push(2,3) [OF assms])

lemma write_step:
  assumes "write_operational hx d s od ins e t u = Inr (r, d')"
  shows "extends s d d'" "store_inv hx d \<Longrightarrow> store_inv hx d'"
proof -
  note nv = write_operational_Inr(4) [OF assms] and ws = write_operational_Inr(1) [OF assms]
  show "extends s d d'" by (rule new_version_extends [OF nv])
  show "store_inv hx d'" if inv: "store_inv hx d"
    using single_extends [OF new_version_push(1) [OF nv] ws inv] inv write_operational_ok(1) [OF _ assms]
      cites_frame [OF new_version_frame(3) [OF nv]] new_version_frame(1) [OF nv]
    by (simp add: store_inv_def)
qed

lemma upsert_write:
  "upsert_operational hx d s od e t u = Inr (r, d') \<Longrightarrow> write_operational hx d s od False e t u = Inr (r, d')"
  by (simp add: upsert_operational_def guard_else_Inr_iff)

lemma pushes_assert_scope: "pushes hx d s st rs d' \<Longrightarrow> assert_scope d' s' = assert_scope d s'"
  by (simp add: pushes_def assert_scope_def find_workspace_def)

lemma batch_loop_step:
  assumes "batch_loop hx d s t drafts = Inr (rs, d')" "assert_scope d s = Inr ()"
  shows "extends s d d' \<and> (store_inv hx d \<longrightarrow> store_inv hx d')"
  using assms
proof (induction hx d s t drafts arbitrary: rs rule: batch_loop.induct)
  case (2 hx d s t x u rest)
  let ?latest = "latest_of (history d s (kind_value (od_kind x)) (od_id x))"
  show ?case
  proof (cases "unchanged ?latest x")
    case True
    then have "batch_loop hx d s t rest = Inr (rs, d')" using "2.prems"(1) by (simp add: Let_def)
    from "2.IH"(1) [OF refl True this "2.prems"(2)] show ?thesis .
  next
    case False
    then obtain r d1 rs' where nv: "new_version hx d s x (current_version ?latest + 1) t u = Inr (r, d1)"
      and rest: "batch_loop hx d1 s t rest = Inr (rs', d')"
      using "2.prems"(1) by (auto simp: Let_def rbind_Inr_iff)
    note push = new_version_push(1) [OF nv]
    have "assert_scope d1 s = Inr ()" using pushes_assert_scope [OF push] "2.prems"(2) by simp
    from "2.IH"(2) [OF refl False rest this] have ih: "extends s d1 d'" "store_inv hx d1 \<longrightarrow> store_inv hx d'" by blast+
    have "store_inv hx d1" if inv: "store_inv hx d"
      using single_extends [OF push "2.prems"(2) inv] inv new_version_ok(1) [OF _ nv]
        cites_frame [OF new_version_frame(3) [OF nv]] new_version_frame(1) [OF nv]
      by (simp add: store_inv_def)
    then show ?thesis using ih extends_trans [OF new_version_extends [OF nv] ih(1)] by blast
  qed
qed auto

lemma batch_step:
  assumes "upsert_operational_batch hx d s drafts t = Inr (rs, d')"
  shows "extends s d d'" "store_inv hx d \<Longrightarrow> store_inv hx d'"
proof -
  have "extends s d d' \<and> (store_inv hx d \<longrightarrow> store_inv hx d')"
  proof (cases "drafts = []")
    case True
    then show ?thesis using assms by (simp add: upsert_operational_batch_def)
  next
    case False
    then obtain "assert_scope d s = Inr ()" "batch_loop hx d s t drafts = Inr (rs, d')"
      using assms by (auto simp: upsert_operational_batch_def guard_else_Inr_iff map_exc_Inr_iff rbind_Inr_iff)
    then show ?thesis using batch_loop_step by blast
  qed
  then show "extends s d d'" "store_inv hx d \<Longrightarrow> store_inv hx d'" by blast+
qed

lemma bundle_effect_extends:
  assumes "bundle_effect hx d s key request n i d'"
  shows "extends s d d'" "d_opers d' = d_opers d" "cites_ok d \<Longrightarrow> cites_ok d'"
proof -
  have "extends s d d' \<and> d_opers d' = d_opers d \<and> (cites_ok d \<longrightarrow> cites_ok d')"
    using assms
  proof cases
    case (written r da db m dc rows)
    have sc: "\<forall>y \<in> set rows. in_scope s y" using written(4) unfolding pushes_def by simp
    have heads: "locked_head d' s' st = locked_head d s' st" if "s' \<noteq> s" for s' st
      using pushes_other_heads [OF written(1) that] pushes_other_heads [OF written(2) that]
        pushes_other_heads [OF written(3) that] pushes_other_heads [OF written(4) that] by simp
    have same: "d_sqlite d' = d_sqlite d" "d_tenants d' = d_tenants d" "d_workspaces d' = d_workspaces d"
      using pushes_frame [OF written(1)] pushes_frame [OF written(2)] pushes_frame [OF written(3)]
        pushes_frame [OF written(4)] by simp_all
    have "extends s d d'"
      unfolding extends_def using same heads sc written(6,7,12) by (simp add: written(13-17))
    moreover have "cites_ok d'" if "cites_ok d"
      using that written(6,11,12) unfolding cites_ok_def written(13,15) by (auto simp: in_scope_def)
    ultimately show ?thesis using written(17) by blast
  qed
  then show "extends s d d'" "d_opers d' = d_opers d" "cites_ok d \<Longrightarrow> cites_ok d'" by blast+
qed

lemma bundle_step:
  assumes "append_analysis_bundle hx d d d s rd md traces key request t us = Inr (b, d')"
  shows "extends s d d'" "store_inv hx d \<Longrightarrow> store_inv hx d'"
proof -
  have eff: "d' = d \<or> (\<exists>k i. bundle_effect hx d s k request 9 i d')"
    using assms by (cases rule: append_bundle_cases) auto
  then show "extends s d d'" using bundle_effect_extends(1) by auto
  show "store_inv hx d'" if inv: "store_inv hx d"
  proof -
    have "db_inv hx d'" using append_bundle_inv [OF assms] inv by (simp add: store_inv_def)
    moreover have "versions_ok d'" "cites_ok d'"
      using eff bundle_effect_extends(2,3) versions_frame inv unfolding store_inv_def by metis+
    ultimately show ?thesis by (simp add: store_inv_def)
  qed
qed

lemma create_tenant_Inr:
  "create_tenant d spec t = Inr (r, d') \<Longrightarrow> d' = d\<lparr>d_tenants := d_tenants d @ [r]\<rparr>"
  by (auto simp: create_tenant_def add_tenant_def Let_def rbind_Inr_iff guard_else_Inr_iff)

lemma tenants_inv: "store_inv hx (d\<lparr>d_tenants := x\<rparr>) = store_inv hx d"
  by (simp add: store_inv_def versions_ok_def history_def cites_ok_def)

lemma tenants_extend:
  "extends s d (d\<lparr>d_tenants := d_tenants d @ x\<rparr>)"
  by (simp add: extends_def locked_head_def)

lemma new_workspace_extends:
  assumes "add_workspace_with_heads d tenant spec clock = Inr (w, d2)"
  shows "extends s d d2" "versions_ok d2 = versions_ok d" "cites_ok d2 = cites_ok d"
proof -
  note w = add_workspace_with_heads_Inr(1) [OF assms]
  have "locked_head d2 s' st = Inr h" if "locked_head d s' st = Inr h" for s' st h
    using that by (auto simp: locked_head_def w find_append split: option.splits)
  then show "extends s d d2" by (simp add: extends_def w)
  show "versions_ok d2 = versions_ok d" "cites_ok d2 = cites_ok d"
    by (simp_all add: w versions_ok_def history_def cites_ok_def)
qed

lemma workspace_step:
  assumes "create_workspace d spec clock = Inr (w, d')"
  shows "extends s d d'" "store_inv hx d \<Longrightarrow> store_inv hx d'"
proof -
  have new: "add_workspace_with_heads d (uuid_str (wsp_tenant spec)) spec clock = Inr (w, d')"
    using assms by (simp add: create_workspace_def guard_else_Inr_iff)
  show "extends s d d'" by (rule new_workspace_extends(1) [OF new])
  show "store_inv hx d \<Longrightarrow> store_inv hx d'"
    using new_workspace_inv(1) [OF _ new] new_workspace_extends(2,3) [OF new] by (simp add: store_inv_def)
qed

lemma provision_tenant_extends:
  assumes "provision_tenant d ts t = Inr (tn, made, d1)"
  shows "extends s d d1" "store_inv hx d1 = store_inv hx d"
proof -
  have "\<exists>x. d1 = d\<lparr>d_tenants := d_tenants d @ x\<rparr>"
  proof (cases "find_tenant d (uuid_str (tsp_id ts))")
    case None
    then obtain r where "create_tenant d ts t = Inr (r, d1)"
      using assms by (auto simp: provision_tenant_def rbind_Inr_iff)
    then show ?thesis using create_tenant_Inr by blast
  next
    case (Some r)
    then have "d1 = d" using assms by (simp add: provision_tenant_def guard_else_Inr_iff)
    then show ?thesis by (intro exI [of _ "[]"]) simp
  qed
  then show "extends s d d1" "store_inv hx d1 = store_inv hx d" using tenants_extend tenants_inv by auto
qed

lemma provision_once_step:
  assumes "provision_scope_once hx d ts ws clock u = Inr (p, d')"
  shows "extends (scope_of ts ws) d d'" "store_inv hx d \<Longrightarrow> store_inv hx d'"
proof -
  let ?s = "scope_of ts ws"
  have tid: "wsp_tenant ws = tsp_id ts"
    using assms by (simp add: provision_scope_once_def guard_else_Inr_iff)
  obtain tn made d1 where pt: "provision_tenant d ts (clock 0) = Inr (tn, made, d1)"
    using assms tid by (cases "provision_tenant d ts (clock 0)") (auto simp: provision_scope_once_def)
  note t = provision_tenant_extends [OF pt]
  have "extends ?s d1 d' \<and> (store_inv hx d1 \<longrightarrow> store_inv hx d')"
  proof (cases "find_workspace d1 (uuid_str (wsp_id ws))")
    case None
    with assms tid pt obtain w d2 hash where
      new: "add_workspace_with_heads d1 (uuid_str (tsp_id ts)) ws (\<lambda>n. clock (n + 1)) = Inr (w, d2)"
      and rc: "append_provisioning_receipt hx d2 ts ws (clock 7) u = Inr (hash, d')"
      by (auto simp: provision_scope_once_def rbind_Inr_iff Let_def)
    obtain r e where nr: "new_receipt hx d2 ?s (provisioning_draft ts ws) (clock 7) u = Inr (r, e)"
      and add: "add_receipt e r = Inr d'"
      using rc by (auto simp: append_provisioning_receipt_def rbind_Inr_iff)
    note push = new_receipt_push [OF nr]
    have d': "d' = e\<lparr>d_receipts := d_receipts e @ [r]\<rparr>" using add by (simp add: add_receipt_Inr)
    have p: "pushes hx d2 ?s Receipts [row.truncate r] d'" using push(1) by (simp add: d')
    obtain q y where e: "e = advance_head d2 ?s Receipts q y (clock 7)" using new_receipt_advance [OF nr] by blast
    have "extends ?s d2 d'" by (rule pushes_extends [OF p]) (simp_all add: d' e push(4))
    then have "extends ?s d1 d'" using extends_trans new_workspace_extends(1) [OF new] by blast
    moreover have "store_inv hx d'" if inv: "store_inv hx d1"
    proof -
      have inv2: "store_inv hx d2"
        using inv new_workspace_inv(1) [OF _ new] new_workspace_extends(2,3) [OF new] by (simp add: store_inv_def)
      have "db_inv hx d1" using inv by (simp add: store_inv_def)
      from new_workspace_inv(3) [OF this new] have "has_workspace d2 ?s" by (simp add: scope_of_def tid)
      then have "db_inv hx d'" using push_inv [OF _ _ p] inv2 by (simp add: store_inv_def)
      moreover have "d_opers d' = d_opers d2" "d_memories d' = d_memories d2" "d_receipts d' = d_receipts d2 @ [r]"
        by (simp_all add: d' e)
      ultimately show ?thesis using inv2 versions_frame cites_frame unfolding store_inv_def by blast
    qed
    ultimately show ?thesis by blast
  next
    case (Some w)
    with assms tid pt have "d' = d1" by (auto simp: provision_scope_once_def rbind_Inr_iff Let_def)
    then show ?thesis by simp
  qed
  then show "extends ?s d d'" "store_inv hx d \<Longrightarrow> store_inv hx d'" using t extends_trans by blast+
qed

lemma provision_step:
  assumes "provision_scope hx (d, d, d) (d, d, d) ts ws clock u = Inr (p, d')"
  shows "extends (scope_of ts ws) d d'" "store_inv hx d \<Longrightarrow> store_inv hx d'"
proof -
  have "d' = d \<or> provision_scope_once hx d ts ws clock u = Inr (p, d')"
    using assms by (auto simp: provision_scope_def Let_def split: if_splits sum.splits)
  then show "extends (scope_of ts ws) d d'" "store_inv hx d \<Longrightarrow> store_inv hx d'"
    using provision_once_step by auto
qed

subsection \<open>Steps and runs\<close>

lemma store_step_effect:
  assumes "store_step hx l d d'"
  shows "l = None \<or> l = Some s \<Longrightarrow> extends s d d'" "store_inv hx d \<Longrightarrow> store_inv hx d'"
proof -
  have "(l = None \<or> l = Some s \<longrightarrow> extends s d d') \<and> (store_inv hx d \<longrightarrow> store_inv hx d')"
    using assms
  proof cases
    case (tenant spec t r)
    then show ?thesis using create_tenant_Inr [OF tenant(2)] by (simp add: tenants_extend tenants_inv)
  next
    case (workspace spec clock w)
    then show ?thesis using workspace_step [OF workspace(2)] by auto
  next
    case (provision ts ws clock u p)
    then show ?thesis using provision_step [OF provision(2)] by auto
  next
    case (receipt s rd key created clk u1 u2 r)
    then show ?thesis using receipt_step [OF receipt(2)] by auto
  next
    case (memory s md rh t u m)
    then show ?thesis using memory_step [OF memory(2)] by auto
  next
    case (anatomy tr t u r)
    then show ?thesis using anatomy_step [OF anatomy(2)] by auto
  next
    case (analysis s rd md traces key request t us b)
    then show ?thesis using bundle_step [OF analysis(2)] by auto
  next
    case (insert s od t u r)
    then have "write_operational hx d s od True (Some 0) t u = Inr (r, d')" by (simp add: insert_operational_def)
    then show ?thesis using write_step insert(1) by auto
  next
    case (upsert s od e t u r)
    then show ?thesis using write_step [OF upsert_write [OF upsert(2)]] by auto
  next
    case (batch s drafts t rs)
    then show ?thesis using batch_step [OF batch(2)] by auto
  qed
  then show "l = None \<or> l = Some s \<Longrightarrow> extends s d d'" "store_inv hx d \<Longrightarrow> store_inv hx d'" by blast+
qed

lemma store_run_inv: "store_run hx d ls d' \<Longrightarrow> store_inv hx d \<Longrightarrow> store_inv hx d'"
  by (induction rule: store_run.induct) (use store_step_effect(2) in blast)+

lemma store_inv_empty: "store_inv hx (empty_db sq)"
  unfolding store_inv_def cites_ok_def versions_ok_def history_def
  using db_inv_empty by (simp add: empty_db_def)

lemma reachable_inv: "store_reachable hx d \<Longrightarrow> store_inv hx d"
  unfolding store_reachable_def using store_run_inv store_inv_empty by blast

lemma added_map: "added_in s xs ys \<Longrightarrow> added_in s (map row.truncate xs) (map row.truncate ys)"
  by (auto simp: added_in_def)

lemma extends_stream: "extends s d d' \<Longrightarrow> added_in s (stream_rows d st) (stream_rows d' st)"
  by (cases st) (simp_all add: extends_def added_map)

text \<open>What a run leaves of the rows of a table: those it had, in their order, then new ones, each
  in the scope of one of the run's steps.\<close>

definition added_by :: "scope option list \<Rightarrow> 'a row_scheme list \<Rightarrow> 'a row_scheme list \<Rightarrow> bool" where
  "added_by ls xs ys \<longleftrightarrow> (\<exists>new. ys = xs @ new \<and> (\<forall>r \<in> set new. \<exists>s. Some s \<in> set ls \<and> in_scope s r))"

lemma added_by_snoc:
  assumes "added_by ls xs ys" "\<And>s. l = None \<or> l = Some s \<Longrightarrow> added_in s ys zs"
  shows "added_by (ls @ [l]) xs zs"
proof -
  obtain new where ys: "ys = xs @ new" and old: "\<forall>r \<in> set new. \<exists>s. Some s \<in> set ls \<and> in_scope s r"
    using assms(1) by (auto simp: added_by_def)
  have "\<exists>more. zs = ys @ more \<and> (\<forall>r \<in> set more. \<exists>s. Some s = l \<and> in_scope s r)"
  proof (cases l)
    case None
    obtain m where m: "zs = ys @ m" "\<forall>r \<in> set m. in_scope \<lparr>sc_tenant = 0, sc_workspace = 0\<rparr> r"
      using assms(2) [of "\<lparr>sc_tenant = 0, sc_workspace = 0\<rparr>"] None by (auto simp: added_in_def)
    obtain m' where "zs = ys @ m'" "\<forall>r \<in> set m'. in_scope \<lparr>sc_tenant = 1, sc_workspace = 0\<rparr> r"
      using assms(2) [of "\<lparr>sc_tenant = 1, sc_workspace = 0\<rparr>"] None by (auto simp: added_in_def)
    with m have "m = []" using in_scope_inj by (cases m) fastforce+
    with m show ?thesis by simp
  next
    case (Some s)
    then show ?thesis using assms(2) [of s] by (auto simp: added_in_def)
  qed
  then show ?thesis using ys old unfolding added_by_def by fastforce
qed

lemma added_by_other:
  "added_by ls xs ys \<Longrightarrow> Some s \<notin> set ls \<Longrightarrow> filter (in_scope s) ys = filter (in_scope s) xs"
proof -
  assume "added_by ls xs ys" and s: "Some s \<notin> set ls"
  then obtain new where ys: "ys = xs @ new" and new: "\<forall>r \<in> set new. \<exists>s. Some s \<in> set ls \<and> in_scope s r"
    by (auto simp: added_by_def)
  have "\<not> in_scope s r" if "r \<in> set new" for r
    using new s that in_scope_inj [of s r] by blast
  then have "filter (in_scope s) new = []" by (simp add: filter_empty_conv)
  then show ?thesis by (simp add: ys)
qed

text \<open>What a run may change, table by table.\<close>

lemma store_run_effect:
  assumes "store_run hx d ls d'"
  shows "d_sqlite d' = d_sqlite d" "\<exists>x. d_workspaces d' = d_workspaces d @ x"
    "added_by ls (d_receipts d) (d_receipts d')" "added_by ls (d_idems d) (d_idems d')"
    "added_by ls (d_memories d) (d_memories d')" "added_by ls (d_traces d) (d_traces d')"
    "added_by ls (d_opers d) (d_opers d')"
    "Some s \<notin> set ls \<Longrightarrow> locked_head d s st = Inr h \<Longrightarrow> locked_head d' s st = Inr h"
proof -
  have "d_sqlite d' = d_sqlite d \<and> (\<exists>x. d_workspaces d' = d_workspaces d @ x) \<and>
    added_by ls (d_receipts d) (d_receipts d') \<and> added_by ls (d_idems d) (d_idems d') \<and>
    added_by ls (d_memories d) (d_memories d') \<and> added_by ls (d_traces d) (d_traces d') \<and>
    added_by ls (d_opers d) (d_opers d') \<and>
    (Some s \<notin> set ls \<longrightarrow> locked_head d s st = Inr h \<longrightarrow> locked_head d' s st = Inr h)"
    using assms
  proof (induction rule: store_run.induct)
    case (stop d)
    then show ?case by (simp add: added_by_def)
  next
    case (step d ls d1 l d2)
    have ext: "extends s' d1 d2" if "l = None \<or> l = Some s'" for s'
      using store_step_effect(1) [OF step.hyps(2) that] .
    obtain s0 where s0: "l = None \<or> l = Some s0" by (cases l) auto
    note e = ext [OF this]
    have "d_sqlite d2 = d_sqlite d1" "\<exists>x. d_workspaces d2 = d_workspaces d1 @ x"
      using e unfolding extends_def by blast+
    moreover have "added_by (ls @ [l]) (d_receipts d) (d_receipts d2)" "added_by (ls @ [l]) (d_idems d) (d_idems d2)"
      "added_by (ls @ [l]) (d_memories d) (d_memories d2)" "added_by (ls @ [l]) (d_traces d) (d_traces d2)"
      "added_by (ls @ [l]) (d_opers d) (d_opers d2)"
      using step.IH ext by (auto intro!: added_by_snoc simp: extends_def)
    moreover have "locked_head d2 s st = Inr h" if h: "locked_head d1 s st = Inr h" and nl: "Some s \<notin> set (ls @ [l])"
    proof -
      have "sc_tenant (s\<lparr>sc_tenant := sc_tenant s + 1\<rparr>) \<noteq> sc_tenant s" by simp
      then have "s\<lparr>sc_tenant := sc_tenant s + 1\<rparr> \<noteq> s" by (intro notI) simp
      then have "\<exists>s'. s' \<noteq> s \<and> (l = None \<or> l = Some s')" using nl by (cases l) auto
      then obtain s' where "s' \<noteq> s" "l = None \<or> l = Some s'" by blast
      then have "extends s' d1 d2" by (intro ext)
      then show ?thesis using h \<open>s' \<noteq> s\<close> [symmetric] unfolding extends_def by auto
    qed
    ultimately show ?case using step.IH by auto
  qed
  then show "d_sqlite d' = d_sqlite d" "\<exists>x. d_workspaces d' = d_workspaces d @ x"
    "added_by ls (d_receipts d) (d_receipts d')" "added_by ls (d_idems d) (d_idems d')"
    "added_by ls (d_memories d) (d_memories d')" "added_by ls (d_traces d) (d_traces d')"
    "added_by ls (d_opers d) (d_opers d')"
    "Some s \<notin> set ls \<Longrightarrow> locked_head d s st = Inr h \<Longrightarrow> locked_head d' s st = Inr h"
    by blast+
qed

subsection \<open>Properties of the reachable states\<close>

lemma assert_scope_kept:
  assumes "\<exists>x. d_workspaces d' = d_workspaces d @ x" "assert_scope d s = Inr ()"
  shows "assert_scope d' s = Inr ()"
  using assms by (auto simp: assert_scope_def find_workspace_def find_append split: option.splits)

text \<open>C1: In every state that the store's operations can reach from the empty database, each
  stream of each workspace that exists verifies: \<open>verify_chain\<close> answers, reports valid and
  counts exactly the rows of the scope.\<close>

theorem reachable_chains_valid:
  assumes "store_reachable hx d" "assert_scope d s = Inr ()"
  shows "\<exists>v. verify_chain hx d s (stream_value st) = Inr v \<and> cv_valid v \<and> cv_error v = None \<and>
             cv_count v = length (filter (in_scope s) (stream_rows d st)) \<and>
             cv_head v = last_hash None (filter (in_scope s) (stream_rows d st))"
  using reachable_inv [OF assms(1)] assms(2) by (intro stream_inv_valid db_invD(2)) (auto simp: store_inv_def)

text \<open>The five tables are append-only: any run of the store's operations leaves every stored
  row where it was, unchanged, and puts its new rows behind them, each in a scope that one of the
  run's operations was called for.\<close>

theorem runs_only_append:
  assumes "store_run hx d ls d'"
  shows "\<exists>new. stream_rows d' st = stream_rows d st @ new \<and>
               (\<forall>r \<in> set new. \<exists>s. Some s \<in> set ls \<and> in_scope s r)"
proof -
  note e = store_run_effect [OF assms]
  have "added_by ls (stream_rows d st) (stream_rows d' st)"
    using e(3-7) by (cases st) (auto simp: added_by_def)
  then show ?thesis by (simp add: added_by_def)
qed

text \<open>A receipt once read stays readable with the same content, whatever the store does
  afterwards.\<close>

theorem receipt_lasts:
  assumes "store_run hx d ls d'" "get_receipt d s hash = Inr (Some r)"
  shows "get_receipt d' s hash = Inr (Some r)"
proof -
  note e = store_run_effect [OF assms(1)]
  have "assert_scope d s = Inr ()" "find_receipt d s hash = Some r" "hex64_ok hash"
    using assms(2) by (auto simp: get_receipt_def guard_else_Inr_iff rbind_Inr_iff)
  moreover from this(2) have "find_receipt d' s hash = Some r"
    using e(3) by (auto simp: find_receipt_def added_by_def find_append)
  ultimately show ?thesis using assert_scope_kept [OF e(2)] by (simp add: get_receipt_def)
qed

text \<open>C7: No lost updates.  After a write with expected version \<open>v\<close> has succeeded, every other
  write of the same entity with the same expected version fails, in every state that any run of
  the store's operations leads to.\<close>

theorem no_lost_update:
  assumes "store_reachable hx d" "upsert_operational hx d s draft (Some v) t u = Inr (r, d1)"
    and "store_run hx d1 ls d2" "od_kind draft2 = od_kind draft" "od_id draft2 = od_id draft"
  shows "\<not> (\<exists>x. upsert_operational hx d2 s draft2 (Some v) t2 u2 = Inr x)"
proof -
  have inv: "store_inv hx d" by (rule reachable_inv [OF assms(1)])
  have "store_inv hx d1" using write_step(2) [OF upsert_write [OF assms(2)] inv] .
  from store_run_inv [OF assms(3) this] have "versions_ok d2" by (simp add: store_inv_def)
  moreover have "\<exists>later. history d2 s k e = history d1 s k e @ later" for k e
    using store_run_effect(7) [OF assms(3)] by (auto simp: added_by_def history_def)
  ultimately show ?thesis
    using stale_upsert_fails [OF _ assms(2,4,5)] inv unfolding store_inv_def by metis
qed

lemma scope_filter:
  assumes "filter (in_scope s) ys = filter (in_scope s) xs" "\<And>r. P r \<Longrightarrow> in_scope s r"
  shows "filter P ys = filter P xs"
proof -
  have "filter P zs = filter P (filter (in_scope s) zs)" for zs
    using assms(2) by (auto intro: filter_cong)
  then show ?thesis using assms(1) by metis
qed

text \<open>Two states that a scope cannot tell apart.\<close>

definition same_view :: "scope \<Rightarrow> db \<Rightarrow> db \<Rightarrow> bool" where
  "same_view s d d' \<longleftrightarrow>
     assert_scope d s = Inr () \<and> assert_scope d' s = Inr () \<and> (\<forall>st. locked_head d' s st = locked_head d s st) \<and>
     filter (in_scope s) (d_receipts d') = filter (in_scope s) (d_receipts d) \<and>
     filter (in_scope s) (d_idems d') = filter (in_scope s) (d_idems d) \<and>
     filter (in_scope s) (d_memories d') = filter (in_scope s) (d_memories d) \<and>
     filter (in_scope s) (d_traces d') = filter (in_scope s) (d_traces d) \<and>
     filter (in_scope s) (d_opers d') = filter (in_scope s) (d_opers d)"

lemma same_view_run:
  assumes "store_reachable hx d" "assert_scope d s = Inr ()" "store_run hx d ls d'" "Some s \<notin> set ls"
  shows "same_view s d d'"
proof -
  note e = store_run_effect [OF assms(3)]
  have "locked_head d' s st = locked_head d s st" for st
  proof -
    obtain h where "locked_head d s st = Inr h"
      using reachable_inv [OF assms(1)] db_invD(2) [OF _ assms(2), of hx st]
      by (auto simp: store_inv_def stream_inv_def Let_def)
    then show ?thesis using e(8) [OF assms(4)] by simp
  qed
  then show ?thesis
    using assert_scope_kept [OF e(2) assms(2)] assms(2) e(3-7) [THEN added_by_other, OF assms(4)]
    by (simp add: same_view_def)
qed

lemma same_view_receipts:
  assumes "same_view s d d'"
  shows "get_receipt d' s hash = get_receipt d s hash" "list_receipts d' s limit offset = list_receipts d s limit offset"
proof -
  have f: "filter (in_scope s) (d_receipts d') = filter (in_scope s) (d_receipts d)"
    using assms by (simp add: same_view_def)
  then have "find_receipt d' s hash = find_receipt d s hash"
    using scope_filter [OF f, of "\<lambda>r. in_scope s r \<and> r_hash r = hash"] by (simp add: find_receipt_def find_Some_filter)
  then show "get_receipt d' s hash = get_receipt d s hash" "list_receipts d' s limit offset = list_receipts d s limit offset"
    using assms by (simp_all add: same_view_def get_receipt_def list_receipts_def)
qed

lemma same_view_memory:
  assumes "same_view s d d'"
  shows "list_memory hx d' s q = list_memory hx d s q"
proof -
  have f: "filter (in_scope s) (d_memories d') = filter (in_scope s) (d_memories d)"
    using assms by (simp add: same_view_def)
  have "memory_window hx d' s kind q = memory_window hx d s kind q" for kind
    using scope_filter [OF f, of "memory_selected hx s kind q"] by (simp add: memory_window_def memory_selected_def)
  then show ?thesis using assms by (simp add: same_view_def list_memory_def)
qed

lemma same_view_operational:
  assumes "same_view s d d'"
  shows "get_operational d' s kind eid v = get_operational d s kind eid v"
    "list_operational d' s k limit offset = list_operational d s k limit offset"
proof -
  have f: "filter (in_scope s) (d_opers d') = filter (in_scope s) (d_opers d)"
    using assms by (simp add: same_view_def)
  have h: "history d' s kind eid = history d s kind eid" for kind eid
    unfolding history_def by (rule scope_filter [OF f]) simp
  have "latest_rows d' s kind = latest_rows d s kind" for kind
  proof -
    have "is_latest d' s = is_latest d s" by (intro ext) (simp add: is_latest_def h)
    then show ?thesis unfolding latest_rows_def by (intro arg_cong [where f = "sort_key entity_key"]) (simp, rule scope_filter [OF f], simp)
  qed
  then show "get_operational d' s kind eid v = get_operational d s kind eid v"
    "list_operational d' s k limit offset = list_operational d s k limit offset"
    using assms by (cases v; simp add: same_view_def get_operational_def list_operational_def h)+
qed

lemma same_view_chain:
  assumes "same_view s d d'"
  shows "verify_chain hx d' s kind = verify_chain hx d s kind"
proof -
  have r: "records d' s st = records d s st" for st
    using assms by (cases st) (simp_all add: records_def same_view_def filter_map o_def)
  have h: "locked_head d' s = locked_head d s" and a: "assert_scope d' s = assert_scope d s"
    using assms by (auto simp: same_view_def)
  show ?thesis unfolding verify_chain_def r h a ..
qed

text \<open>C5: Scopes are isolated.  Whatever operations run for other scopes, every read of an
  existing workspace answers as before: receipts by hash and by page, memory search, operational
  entities by key, version and page, and the verification of each of its chains.\<close>

theorem scopes_isolated:
  assumes "store_reachable hx d" "assert_scope d s = Inr ()"
    and "store_run hx d ls d'" "Some s \<notin> set ls"
  shows "get_receipt d' s hash = get_receipt d s hash \<and>
         list_receipts d' s limit offset = list_receipts d s limit offset \<and>
         list_memory hx d' s q = list_memory hx d s q \<and>
         get_operational d' s kind eid v = get_operational d s kind eid v \<and>
         list_operational d' s k limit offset = list_operational d s k limit offset \<and>
         verify_chain hx d' s stream = verify_chain hx d s stream"
  using same_view_receipts same_view_memory same_view_operational same_view_chain same_view_run [OF assms]
  by simp

text \<open>C17: In every reachable state, each stored memory of a scope rests on
  evidence: it holds the hash of a receipt that the store finds in the same scope.\<close>

theorem memory_rests_on_receipts:
  assumes "store_reachable hx d" "m \<in> set (d_memories d)" "in_scope s m"
  shows "\<exists>hash r. mm_receipt m = Some hash \<and> find_receipt d s hash = Some r"
proof -
  have "cites_ok d" using reachable_inv [OF assms(1)] by (simp add: store_inv_def)
  with assms(2,3) obtain r hash where r: "r \<in> set (d_receipts d)" "in_scope s r" "r_hash r = hash" "mm_receipt m = Some hash"
    unfolding cites_ok_def in_scope_def by metis
  then show ?thesis by (cases "find_receipt d s hash") (auto simp: find_receipt_def find_None_iff)
qed

subsection \<open>Examples\<close>

lemma fresh_db_steps:
  "create_tenant (empty_db True) example_tenant (Aware 0) =
     Inr (\<lparr>t_id = uuid_str 1, t_slug = ''acme'', t_name = ''Acme'', t_at = Aware 0\<rparr>,
       (empty_db True)\<lparr>d_tenants := d_tenants fresh_db\<rparr>)"
  "create_workspace ((empty_db True)\<lparr>d_tenants := d_tenants fresh_db\<rparr>) example_workspace (\<lambda>n. Aware 0) =
     Inr (\<lparr>w_id = uuid_str 2, w_tenant = uuid_str 1, w_slug = ''main'', w_name = ''Main'', w_at = Aware 0\<rparr>, fresh_db)"
  by (simp add: create_tenant_def add_tenant_def example_tenant_def fresh_db_def empty_db_def Let_def)
     (simp add: create_workspace_def find_tenant_def add_workspace_with_heads_def add_workspace_def fresh_db_def
       empty_db_def example_workspace_def stream_kinds_def add_head_def new_head_def scope_exists_def head_key_def
       upt_rec Let_def)

lemma fresh_db_reachable: "store_reachable hx fresh_db"
  unfolding store_reachable_def
  using store_run.step [OF store_run.step [OF store_run.stop store_step.tenant [OF fresh_db_steps(1)]]
      store_step.workspace [OF fresh_db_steps(2)]] by blast

theorem reachable_chains_valid_witness:
  "\<exists>v. verify_chain id fresh_db example_scope ''receipts'' = Inr v \<and> cv_valid v"
  using reachable_chains_valid [OF fresh_db_reachable fresh_db_scope, of id Receipts] by auto

lemma receipt_run:
  "\<exists>r d'. append_receipt hx fresh_db fresh_db example_scope example_draft (Some example_key) None (Aware 0) 7 8 = Inr (r, d') \<and>
          store_run hx fresh_db [Some example_scope] d' \<and> d_receipts d' = [r] \<and> in_scope example_scope r \<and>
          (\<exists>x. r_hash r = hx x) \<and> assert_scope d' example_scope = Inr () \<and> d_tenants d' = d_tenants fresh_db"
proof -
  obtain r d' where a: "append_receipt hx fresh_db fresh_db example_scope example_draft (Some example_key) None (Aware 0) 7 8 = Inr (r, d')"
    using append_receipt_fresh by blast
  have run: "store_run hx fresh_db [Some example_scope] d'"
    using store_run.step [OF store_run.stop store_step.receipt [OF a]] by simp
  have ws: "assert_scope d' example_scope = Inr ()"
    using assert_scope_kept [OF store_run_effect(2) [OF run] fresh_db_scope] .
  have d': "d_receipts d' = [r] \<and> in_scope example_scope r \<and> d_tenants d' = d_tenants fresh_db"
    using a
  proof (cases rule: append_receipt_cases)
    case (1 request kd)
    from 1(4) show ?thesis
    proof cases
      case (claimed k dm i)
      then show ?thesis using pushes_frame(2) [OF claimed(3)] pushes_frame(2) [OF claimed(4)] by simp
    qed (auto simp: find_idem_def dest: pushes_frame(2))
  next
    case (2 request k rec)
    then show ?thesis by (simp add: find_idem_def)
  qed
  have "stream_inv hx d' example_scope Receipts"
    using store_run_inv [OF run reachable_inv [OF fresh_db_reachable]] db_invD(2) [OF _ ws] by (simp add: store_inv_def)
  then have "sha256_json hx (JObj (r_basis r)) = Inr (r_hash r)" using d' by (simp add: stream_inv_def)
  then have "\<exists>x. r_hash r = hx x" by (auto simp: sha256_json_def rbind_Inr_iff intro: sym)
  then show ?thesis using a run ws d' by blast
qed

theorem runs_only_append_witness:
  "\<exists>r d' new. append_receipt id fresh_db fresh_db example_scope example_draft (Some example_key) None (Aware 0) 7 8 = Inr (r, d') \<and>
     stream_rows d' Idempotency = new \<and> (\<forall>x \<in> set new. in_scope example_scope x)"
proof -
  obtain r d' where "append_receipt id fresh_db fresh_db example_scope example_draft (Some example_key) None (Aware 0) 7 8 = Inr (r, d')"
    "store_run id fresh_db [Some example_scope] d'" using receipt_run by blast
  then show ?thesis using runs_only_append [of id fresh_db "[Some example_scope]" d' Idempotency] by auto
qed

definition other_tenant :: tenant_spec where
  "other_tenant = \<lparr>tsp_slug = ''other'', tsp_name = ''Other'', tsp_id = 3\<rparr>"

theorem receipt_lasts_witness:
  "\<exists>hx r d' d2. store_run hx fresh_db [Some example_scope] d' \<and> store_run hx d' [None] d2 \<and>
     get_receipt d2 example_scope (replicate 64 (CHR ''a'')) = Inr (Some r)"
proof -
  let ?hx = "\<lambda>x. replicate 64 (CHR ''a'')"
  obtain r d' where a: "append_receipt ?hx fresh_db fresh_db example_scope example_draft (Some example_key) None (Aware 0) 7 8 = Inr (r, d')"
    and run: "store_run ?hx fresh_db [Some example_scope] d'" and d': "d_receipts d' = [r]" "in_scope example_scope r"
    "r_hash r = replicate 64 (CHR ''a'')" "assert_scope d' example_scope = Inr ()" "d_tenants d' = d_tenants fresh_db"
    using receipt_run [of ?hx] by blast
  have "\<exists>x d2. create_tenant d' other_tenant (Aware 0) = Inr (x, d2)"
    by (simp add: create_tenant_def add_tenant_def d'(5) other_tenant_def fresh_db_def empty_db_def Let_def)
  then obtain d2 where again: "store_run ?hx d' [None] d2"
    using store_run.step [OF store_run.stop store_step.tenant] by fastforce
  have "hex64_ok (replicate 64 (CHR ''a''))" by (simp add: hex64_ok_def list_all_iff)
  then have "get_receipt d' example_scope (replicate 64 (CHR ''a'')) = Inr (Some r)"
    using d' by (simp add: get_receipt_def find_receipt_def)
  from receipt_lasts [OF again this] run again show ?thesis by blast
qed

definition other_workspace :: workspace_spec where
  "other_workspace = \<lparr>wsp_tenant = 3, wsp_slug = ''main'', wsp_name = ''Main'', wsp_id = 4\<rparr>"

lemma other_steps:
  "\<exists>r d1 w d2. create_tenant fresh_db other_tenant (Aware 0) = Inr (r, d1) \<and>
     create_workspace d1 other_workspace (\<lambda>n. Aware 0) = Inr (w, d2)"
  by (simp add: create_tenant_def add_tenant_def other_tenant_def fresh_db_def empty_db_def Let_def
       create_workspace_def find_tenant_def add_workspace_with_heads_def add_workspace_def
       other_workspace_def stream_kinds_def add_head_def new_head_def scope_exists_def head_key_def upt_rec)

theorem scopes_isolated_witness:
  "\<exists>d'. store_run id fresh_db [None, Some \<lparr>sc_tenant = 3, sc_workspace = 4\<rparr>] d' \<and>
     verify_chain id d' example_scope ''receipts'' = verify_chain id fresh_db example_scope ''receipts''"
proof -
  obtain r d1 w d2 where t: "create_tenant fresh_db other_tenant (Aware 0) = Inr (r, d1)"
    and w: "create_workspace d1 other_workspace (\<lambda>n. Aware 0) = Inr (w, d2)" using other_steps by blast
  have run: "store_run id fresh_db [None, Some \<lparr>sc_tenant = 3, sc_workspace = 4\<rparr>] d2"
    using store_run.step [OF store_run.step [OF store_run.stop store_step.tenant [OF t]] store_step.workspace [OF w]]
    by (simp add: other_workspace_def)
  then show ?thesis
    using scopes_isolated [OF fresh_db_reachable fresh_db_scope run] by (auto simp: example_scope_def)
qed

lemma upsert_other_name:
  "od_kind (draft\<lparr>od_name := n\<rparr>) = od_kind draft" "od_id (draft\<lparr>od_name := n\<rparr>) = od_id draft"
  by simp_all

theorem no_lost_update_witness:
  "\<exists>r d1. upsert_operational id fresh_db example_scope example_service (Some 0) (Aware 0) 5 = Inr (r, d1) \<and>
     \<not> (\<exists>x. upsert_operational id d1 example_scope (example_service\<lparr>od_name := ''B''\<rparr>) (Some 0) (Aware 1) 7 = Inr x)"
proof -
  obtain r d1 where w: "upsert_operational id fresh_db example_scope example_service (Some 0) (Aware 0) 5 = Inr (r, d1)"
    using upsert_fresh by blast
  from no_lost_update [OF fresh_db_reachable w store_run.stop upsert_other_name] w show ?thesis by blast
qed

theorem memory_rests_on_receipts_witness:
  "\<exists>d m hash r. store_reachable id d \<and> d_memories d = [m] \<and> mm_receipt m = Some hash \<and>
     find_receipt d example_scope hash = Some r"
proof -
  obtain digest b d' where b: "append_analysis_bundle id fresh_db fresh_db fresh_db example_scope
      (example_analysis digest) example_finding example_traces example_key (example_digest 0) (Aware 5)
      example_ids = Inr (b, d')" "\<not> ab_replay b" using example_bundle by blast
  obtain sq ls where "store_run id (empty_db sq) ls fresh_db"
    using fresh_db_reachable unfolding store_reachable_def by blast
  from store_run.step [OF this store_step.analysis [OF b(1)]] have d': "store_reachable id d'"
    unfolding store_reachable_def by blast
  have "\<exists>m. d_memories d' = [m] \<and> in_scope example_scope m"
    using b(1)
  proof (cases rule: append_bundle_cases)
    case (replayed key i)
    then show ?thesis using b(2) by (auto elim: resolve_Inr)
  next
    case (appended key i h)
    from appended(4) show ?thesis by cases (simp add: fresh_db_def empty_db_def)
  qed
  then obtain m where "d_memories d' = [m]" "in_scope example_scope m" by blast
  then show ?thesis using memory_rests_on_receipts [OF d', of m example_scope] d' by fastforce
qed

end
