(* ===== verification/Preservation.thy ===== *)
theory Preservation
  imports Store
begin

section \<open>The preservation audit (lyte/persistence/preservation.py)\<close>

text \<open>
  Before a snapshot is taken or restored, \<open>\_chains\<close> reads all rows of all streams and rebuilds
  from the columns of each row what was hashed.  The model reads the tables of \<open>Rows\<close>.  The
  audit is stricter than \<open>verify\_chain\<close>: it looks at every column, and at rows and heads of no
  workspace; it accepts every database the store can reach.  The target checks of a restore are
  modelled at the end.
\<close>

subsection \<open>Rebuilding what was hashed\<close>

datatype any_row = ReceiptRow receipt_row | IdemRow idem_row | MemoryRow memory_row
  | TraceRow trace_row | OperRow oper_row

fun common :: "any_row \<Rightarrow> row" where
  "common (ReceiptRow r) = row.truncate r"
| "common (IdemRow r) = row.truncate r"
| "common (MemoryRow r) = row.truncate r"
| "common (TraceRow r) = row.truncate r"
| "common (OperRow r) = row.truncate r"

fun row_stream :: "any_row \<Rightarrow> stream" where
  "row_stream (ReceiptRow _) = Receipts"
| "row_stream (IdemRow _) = Idempotency"
| "row_stream (MemoryRow _) = Memory"
| "row_stream (TraceRow _) = Anatomy"
| "row_stream (OperRow _) = Operational"

text \<open>The columns of one table.\<close>

fun table_rows :: "db \<Rightarrow> stream \<Rightarrow> any_row list" where
  "table_rows d Receipts = map ReceiptRow (d_receipts d)"
| "table_rows d Idempotency = map IdemRow (d_idems d)"
| "table_rows d Memory = map MemoryRow (d_memories d)"
| "table_rows d Anatomy = map TraceRow (d_traces d)"
| "table_rows d Operational = map OperRow (d_opers d)"

text \<open>\<open>\_timestamp\<close>: a value without a zone is read as UTC.\<close>

definition utc_stamp :: "datetime option \<Rightarrow> json" where
  "utc_stamp t = (case t of None \<Rightarrow> JNull | Some x \<Rightarrow> JStr (iso_utc (micros x)))"

fun projection_schema :: "stream \<Rightarrow> string" where
  "projection_schema Receipts = ''szl.lyte.receipt/v1''"
| "projection_schema Idempotency = ''szl.lyte.idempotency-record/v1''"
| "projection_schema Memory = ''szl.lyte.memory-record/v2''"
| "projection_schema Anatomy = ''szl.lyte.anatomy-trace/v1''"
| "projection_schema Operational = ''szl.lyte.operational-record/v1''"

fun projection_data :: "(string \<Rightarrow> string) \<Rightarrow> any_row \<Rightarrow> (string \<times> json) list res" where
  "projection_data hx (ReceiptRow r) =
     rbind (sha256_json hx (rc_payload r)) (\<lambda>x.
       guard_else (x = rc_payload_sha r) (PreservationError ''PAYLOAD_DIGEST_MISMATCH'') (Inr
         [(''kind'', JStr (rc_kind r)), (''subject_type'', JStr (rc_subject_type r)),
          (''subject_id'', JStr (rc_subject_id r)), (''truth_label'', JStr (rc_label r)),
          (''payload_sha256'', JStr (rc_payload_sha r)), (''evidence_refs'', jstrs (rc_refs r)),
          (''payload'', rc_payload r)]))"
| "projection_data hx (IdemRow r) = Inr
     [(''key_digest'', JStr (im_key r)), (''request_digest'', JStr (im_request r)),
      (''response_receipt_hash'', JStr (im_response r))]"
| "projection_data hx (MemoryRow r) = Inr
     [(''memory_kind'', JStr (mm_kind r)), (''summary'', JStr (mm_summary r)),
      (''truth_label'', JStr (mm_label r)), (''evidence_refs'', jstrs (mm_refs r)),
      (''subjects'', jstrs (mm_subjects r)), (''receipt_hash'', jopt (mm_receipt r)),
      (''partition_digest'', JStr (mm_partition r)), (''metadata'', mm_meta r)]"
| "projection_data hx (TraceRow r) = Inr
     [(''trace_id'', JStr (tc_trace r)), (''span_id'', JStr (tc_span r)),
      (''parent_span_id'', jopt (tc_parent r)), (''organ'', JStr (tc_organ r)),
      (''operation'', JStr (tc_operation r)), (''state'', JStr (tc_state r)),
      (''truth_label'', JStr (tc_label r)), (''input_sha256'', jopt (tc_input r)),
      (''output_sha256'', jopt (tc_output r)), (''attributes'', tc_attrs r),
      (''tenant_id'', JStr (r_tenant r)), (''workspace_id'', JStr (r_workspace r)),
      (''started_at'', utc_stamp (Some (tc_started r))), (''completed_at'', utc_stamp (tc_completed r))]"
| "projection_data hx (OperRow r) = Inr
     [(''entity_kind'', JStr (op_kind r)), (''entity_id'', JStr (op_id r)),
      (''version'', JInt (op_version r)), (''name'', JStr (op_name r)),
      (''truth_label'', JStr (op_label r)), (''evidence_refs'', jstrs (op_refs r)),
      (''source_revision'', jopt (op_revision r)), (''body'', op_body r),
      (''metadata'', op_meta r), (''observed_at'', utc_stamp (op_observed r))]"

definition projection :: "(string \<Rightarrow> string) \<Rightarrow> any_row \<Rightarrow> (string \<times> json) list res" where
  "projection hx x =
     rbind (projection_data hx x) (\<lambda>data.
       let r = common x; st = row_stream x in
       Inr [(''schema'', JStr (projection_schema st)), (''tenant_id'', JStr (r_tenant r)),
            (''workspace_id'', JStr (r_workspace r)), (''stream_kind'', JStr (stream_value st)),
            (''sequence'', JInt (r_seq r)), (''previous_hash'', jopt (r_prev r)),
            (''created_at'', utc_stamp (Some (r_at r))), (''data'', JObj data)])"

subsection \<open>The audit\<close>

type_synonym progress = "string \<times> string \<Rightarrow> int \<times> string option"

abbreviation chain_mismatch :: exc where
  "chain_mismatch \<equiv> PreservationError ''HASH_CHAIN_MISMATCH''"

definition row_scope :: "row \<Rightarrow> string \<times> string" where
  "row_scope r = (r_tenant r, r_workspace r)"

text \<open>The loop over the rows of one table; \<open>prog\<close> is the dictionary \<open>progress\<close> with its default.\<close>

fun audit_rows ::
  "(string \<Rightarrow> string) \<Rightarrow> (string \<times> string) list \<Rightarrow> progress \<Rightarrow> any_row list \<Rightarrow> progress res" where
  "audit_rows hx scopes prog [] = Inr prog"
| "audit_rows hx scopes prog (x # xs) =
     (let r = common x; sc = row_scope r; (n, prev) = prog sc in
      if sc \<notin> set scopes \<or> r_seq r \<noteq> n + 1 \<or> r_prev r \<noteq> prev then Inl chain_mismatch
      else rbind (projection hx x) (\<lambda>p.
           if \<not> json_eq (JObj (r_basis r)) (JObj p) then Inl chain_mismatch
           else rbind (sha256_json hx (JObj (r_basis r))) (\<lambda>digest.
                if digest \<noteq> r_hash r then Inl chain_mismatch
                else audit_rows hx scopes (prog(sc := (n + 1, Some (r_hash r)))) xs)))"

definition table_order :: "any_row \<Rightarrow> string \<times> string \<times> int" where
  "table_order x = (r_tenant (common x), r_workspace (common x), r_seq (common x))"

definition head_of :: "db \<Rightarrow> string \<times> string \<Rightarrow> stream \<Rightarrow> head_row option" where
  "head_of d sc st = List.find (\<lambda>h. head_key h = (fst sc, snd sc, st)) (d_heads d)"

definition audit_stream :: "(string \<Rightarrow> string) \<Rightarrow> db \<Rightarrow> (string \<times> string) list \<Rightarrow> stream \<Rightarrow> unit res" where
  "audit_stream hx d scopes st =
     rbind (audit_rows hx scopes (\<lambda>_. (0, None)) (sort_key table_order (table_rows d st))) (\<lambda>prog.
       guard_else (list_all (\<lambda>sc. case head_of d sc st of None \<Rightarrow> False
                                  | Some h \<Rightarrow> prog sc = (h_seq h, h_hash h)) scopes)
         (PreservationError ''STREAM_HEAD_MISMATCH'') (Inr ()))"

definition workspace_scopes :: "db \<Rightarrow> (string \<times> string) list" where
  "workspace_scopes d = remdups (map (\<lambda>w. (w_tenant w, w_id w)) (d_workspaces d))"

definition expected_keys :: "(string \<times> string) list \<Rightarrow> (string \<times> string \<times> stream) list" where
  "expected_keys scopes = concat (map (\<lambda>sc. map (\<lambda>st. (fst sc, snd sc, st)) stream_kinds) scopes)"

definition audit_chains :: "(string \<Rightarrow> string) \<Rightarrow> db \<Rightarrow> nat res" where
  "audit_chains hx d =
     (let scopes = workspace_scopes d; keys = expected_keys scopes in
      guard_else (set (map head_key (d_heads d)) = set keys) (PreservationError ''STREAM_HEAD_SET_MISMATCH'')
        (rbind (rmap (audit_stream hx d scopes) stream_kinds) (\<lambda>_. Inr (length keys))))"

subsection \<open>Rows project to their bases\<close>

lemma json_eq_perm:
  assumes "mset kvs = mset lvs" "distinct (map fst kvs)"
  shows "json_eq (JObj kvs) (JObj lvs)"
proof -
  let ?f = "\<lambda>kv. (fst kv, jnorm (snd kv))"
  have "mset (map ?f kvs) = mset (map ?f lvs)" using assms(1) by simp
  moreover have "distinct (map fst (map ?f kvs))" using assms(2) by (simp add: comp_def)
  ultimately have "sort_key fst (map ?f kvs) = sort_key fst (map ?f lvs)" by (rule sort_key_mset)
  then show ?thesis by (simp add: json_eq_def)
qed

lemma json_eq_last: "json_eq a b \<Longrightarrow> json_eq (JObj (kvs @ [(k, a)])) (JObj (kvs @ [(k, b)]))"
  by (simp add: json_eq_def)

text \<open>What a later audit needs of a row.\<close>

definition faithful :: "(string \<Rightarrow> string) \<Rightarrow> any_row \<Rightarrow> bool" where
  "faithful hx x \<longleftrightarrow> (\<exists>p. projection hx x = Inr p \<and> json_eq (JObj (r_basis (common x))) (JObj p))"

lemma sealed_faithful:
  assumes "seal hx (projection_schema st) s st n prev u t data = Inr b"
    and "common x = b" "row_stream x = st"
    and projected: "case projection_data hx x of Inl e \<Rightarrow> False | Inr data' \<Rightarrow> mset data = mset data'"
    and "distinct (map fst data)"
  shows "faithful hx x"
proof -
  obtain data' where data': "projection_data hx x = Inr data'" "mset data = mset data'"
    using projected by (auto split: sum.splits)
  let ?front = "[(''schema'', JStr (projection_schema st)), (''tenant_id'', JStr (r_tenant b)),
    (''workspace_id'', JStr (r_workspace b)), (''stream_kind'', JStr (stream_value st)),
    (''sequence'', JInt (r_seq b)), (''previous_hash'', jopt (r_prev b)),
    (''created_at'', utc_stamp (Some (r_at b)))]"
  have "r_basis b = ?front @ [(''data'', JObj data)]"
    using assms(1) by (cases t) (auto simp: seal_Inr utc_stamp_def)
  moreover have "projection hx x = Inr (?front @ [(''data'', JObj data')])"
    using assms(2,3) data' by (simp add: projection_def)
  moreover have "json_eq (JObj data) (JObj data')" by (rule json_eq_perm [OF data'(2) assms(5)])
  ultimately show ?thesis using assms(2) json_eq_last unfolding faithful_def by metis
qed

lemma utc_stamp_iso: "isoformat_z t = Inr x \<Longrightarrow> utc_stamp (Some t) = JStr x"
  by (cases t) (simp_all add: utc_stamp_def)

lemma utc_stamp_iso_opt: "iso_opt t = Inr j \<Longrightarrow> utc_stamp t = j"
  by (cases t) (auto simp: iso_opt_def utc_stamp_def rbind_Inr_iff dest: utc_stamp_iso)

lemma new_receipt_faithful:
  assumes "new_receipt hx d s draft t u = Inr (r, d1)"
  shows "faithful hx (ReceiptRow r)"
proof -
  obtain h :: head_row and psha b where
    b: "seal hx ''szl.lyte.receipt/v1'' s Receipts (h_seq h + 1) (h_hash h) u t (receipt_data draft psha) = Inr b"
    and psha: "sha256_json hx (JObj (rd_payload draft)) = Inr psha" and r: "receipt_of b draft psha = r"
    using assms unfolding new_receipt_def rbind_Inr_iff sum.inject prod.inject by blast
  have fields: "row.truncate r = b" "rc_kind r = rd_kind draft" "rc_subject_type r = rd_subject_type draft"
    "rc_subject_id r = rd_subject_id draft" "rc_label r = label_value (rd_label draft)"
    "rc_payload r = JObj (rd_payload draft)" "rc_payload_sha r = psha" "rc_refs r = rd_refs draft"
    by (simp_all add: r [symmetric] receipt_of_def row.extend_def receipt_row.fields_def row.truncate_def)
  show ?thesis
    by (rule sealed_faithful [of hx Receipts s "h_seq h + 1" "h_hash h" u t "receipt_data draft psha" b])
       (use b psha in \<open>simp_all add: fields receipt_data_def\<close>)
qed

lemma append_idempotency_faithful:
  assumes "append_idempotency hx d s k req resp t u = Inr (i, d1)"
  shows "faithful hx (IdemRow i)"
proof -
  obtain h :: head_row and b where
    b: "seal hx ''szl.lyte.idempotency-record/v1'' s Idempotency (h_seq h + 1) (h_hash h) u t
              (idem_data k req resp) = Inr b" and i: "row.extend b (idem_row.fields k req resp) = i"
    using assms unfolding append_idempotency_def rbind_Inr_iff sum.inject prod.inject by blast
  have fields: "row.truncate i = b" "im_key i = k" "im_request i = req" "im_response i = resp"
    by (simp_all add: i [symmetric] row.extend_def idem_row.fields_def row.truncate_def)
  show ?thesis
    by (rule sealed_faithful [of hx Idempotency s "h_seq h + 1" "h_hash h" u t "idem_data k req resp" b])
       (use b in \<open>simp_all add: fields idem_data_def\<close>)
qed

lemma new_memory_faithful:
  assumes "new_memory hx d s md refs hash t u = Inr (m, d1)"
  shows "faithful hx (MemoryRow m)"
proof -
  let ?pd = "enterprise_memory_partition hx s"
  obtain h :: head_row and b where
    b: "seal hx ''szl.lyte.memory-record/v2'' s Memory (h_seq h + 1) (h_hash h) u t
       (memory_data ?pd md refs hash) = Inr b"
    and m: "row.extend b (memory_row.fields ?pd (memory_kind_value (md_kind md)) (md_summary md)
       (label_value (md_label md)) refs (md_subjects md) (JObj (memory_metadata md)) (Some hash)) = m"
    using assms unfolding new_memory_def Let_def rbind_Inr_iff sum.inject prod.inject by blast
  have fields: "row.truncate m = b" "mm_kind m = memory_kind_value (md_kind md)" "mm_summary m = md_summary md"
    "mm_label m = label_value (md_label md)" "mm_refs m = refs" "mm_subjects m = md_subjects md"
    "mm_meta m = JObj (memory_metadata md)" "mm_receipt m = Some hash" "mm_partition m = ?pd"
    by (simp_all add: m [symmetric] row.extend_def memory_row.fields_def row.truncate_def)
  show ?thesis
    by (rule sealed_faithful [of hx Memory s "h_seq h + 1" "h_hash h" u t "memory_data ?pd md refs hash" b])
       (use b in \<open>simp_all add: fields memory_data_def jopt_def\<close>)
qed

lemma trace_record_faithful:
  assumes "trace_record hx s n prev t tr u = Inr r" "tr_scope tr = s"
  shows "faithful hx (TraceRow r)"
proof -
  obtain j b where j: "trace_to_dict tr = Inr j"
    and b: "seal hx ''szl.lyte.anatomy-trace/v1'' s Anatomy n prev u t (jfields j) = Inr b"
    and r: "row.extend b (trace_row.fields (uuid_str (tr_trace_id tr)) (uuid_str (tr_span_id tr))
              (map_option uuid_str (tr_parent tr)) (organ_value (tr_organ tr)) (tr_operation tr)
              (trace_state_value (tr_state tr)) (label_value (tr_label tr)) (tr_started tr)
              (tr_completed tr) (tr_input tr) (tr_output tr) (JObj (tr_attrs tr))) = r"
    using assms(1) unfolding trace_record_def rbind_Inr_iff sum.inject by blast
  have fields: "row.truncate r = b" "tc_trace r = uuid_str (tr_trace_id tr)" "tc_span r = uuid_str (tr_span_id tr)"
    "tc_parent r = map_option uuid_str (tr_parent tr)" "tc_organ r = organ_value (tr_organ tr)"
    "tc_operation r = tr_operation tr" "tc_state r = trace_state_value (tr_state tr)"
    "tc_label r = label_value (tr_label tr)" "tc_started r = tr_started tr" "tc_completed r = tr_completed tr"
    "tc_input r = tr_input tr" "tc_output r = tr_output tr" "tc_attrs r = JObj (tr_attrs tr)"
    by (simp_all add: r [symmetric] row.extend_def trace_row.fields_def row.truncate_def)
  obtain st c where st: "isoformat_z (tr_started tr) = Inr st" and c: "iso_opt (tr_completed tr) = Inr c"
    using j by (auto simp: trace_to_dict_def rbind_Inr_iff)
  have "in_scope s b" by (rule seal_chained(2) [OF b])
  then have scope: "r_tenant r = uuid_str (sc_tenant s)" "r_workspace r = uuid_str (sc_workspace s)"
    by (simp_all add: r [symmetric] in_scope_def)
  have parent: "jopt (map_option uuid_str (tr_parent tr)) =
      (case tr_parent tr of None \<Rightarrow> JNull | Some p \<Rightarrow> JStr (uuid_str p))"
    by (cases "tr_parent tr") (simp_all add: jopt_def)
  have data: "jfields j = scope_to_dict s @
       [(''trace_id'', JStr (tc_trace r)), (''span_id'', JStr (tc_span r)), (''parent_span_id'', jopt (tc_parent r)),
        (''organ'', JStr (tc_organ r)), (''operation'', JStr (tc_operation r)), (''state'', JStr (tc_state r)),
        (''truth_label'', JStr (tc_label r)), (''started_at'', JStr st), (''completed_at'', c),
        (''input_sha256'', jopt (tc_input r)), (''output_sha256'', jopt (tc_output r)), (''attributes'', tc_attrs r)]"
    using j by (auto simp: trace_to_dict_def st c assms(2) fields parent)
  show ?thesis
    by (rule sealed_faithful [of hx Anatomy s n prev u t "jfields j" b])
       (use b in \<open>simp_all add: fields(1) data scope_to_dict_def scope utc_stamp_iso [OF st [folded fields(9)]]
          utc_stamp_iso_opt [OF c [folded fields(10)]]\<close>)
qed

lemma new_version_faithful:
  assumes "new_version hx d s draft v t u = Inr (r, d1)"
  shows "faithful hx (OperRow r)"
proof -
  obtain h :: head_row and b observed where
    observed: "iso_opt (od_observed draft) = Inr observed" and
    b: "seal hx ''szl.lyte.operational-record/v1'' s Operational (h_seq h + 1) (h_hash h) u t
       (oper_data draft v observed) = Inr b"
    and r: "row.extend b (oper_row.fields (kind_value (od_kind draft)) (od_id draft) v
       (od_name draft) (label_value (od_label draft)) (JObj (od_body draft)) (od_refs draft)
       (od_revision draft) (od_observed draft) (JObj (od_meta draft))) = r"
    using assms unfolding new_version_def Let_def rbind_Inr_iff sum.inject prod.inject by blast
  have fields: "row.truncate r = b" "op_kind r = kind_value (od_kind draft)" "op_id r = od_id draft"
    "op_version r = v" "op_name r = od_name draft" "op_label r = label_value (od_label draft)"
    "op_body r = JObj (od_body draft)" "op_refs r = od_refs draft" "op_revision r = od_revision draft"
    "op_observed r = od_observed draft" "op_meta r = JObj (od_meta draft)"
    by (simp_all add: r [symmetric] row.extend_def oper_row.fields_def row.truncate_def)
  show ?thesis
    by (rule sealed_faithful [of hx Operational s "h_seq h + 1" "h_hash h" u t "oper_data draft v observed" b])
       (use b in \<open>simp_all add: fields oper_data_def utc_stamp_iso_opt [OF observed]\<close>)
qed

subsection \<open>Every writer adds faithful rows only\<close>

definition named_by_uuids :: "workspace_row \<Rightarrow> bool" where
  "named_by_uuids w \<longleftrightarrow> (\<exists>s :: scope. w_tenant w = uuid_str (sc_tenant s) \<and> w_id w = uuid_str (sc_workspace s))"

definition grown :: "(string \<Rightarrow> string) \<Rightarrow> db \<Rightarrow> db \<Rightarrow> bool" where
  "grown hx d d' \<longleftrightarrow>
     (\<forall>st. set (table_rows d' st) \<subseteq> set (table_rows d st) \<union> Collect (faithful hx)) \<and>
     set (d_workspaces d') \<subseteq> set (d_workspaces d) \<union> Collect named_by_uuids"

lemma grown_refl [simp]: "grown hx d d"
  by (simp add: grown_def)

lemma grown_trans: "grown hx d d1 \<Longrightarrow> grown hx d1 d2 \<Longrightarrow> grown hx d d2"
  unfolding grown_def by blast

text \<open>Rows put at the ends of the tables.\<close>

lemma grownI:
  assumes "d_workspaces d' = d_workspaces d"
    and "d_receipts d' = d_receipts d @ a" "d_idems d' = d_idems d @ b" "d_memories d' = d_memories d @ c"
    and "d_traces d' = d_traces d @ e" "d_opers d' = d_opers d @ f"
    and "\<forall>x \<in> set a. faithful hx (ReceiptRow x)" "\<forall>x \<in> set b. faithful hx (IdemRow x)"
    and "\<forall>x \<in> set c. faithful hx (MemoryRow x)" "\<forall>x \<in> set e. faithful hx (TraceRow x)"
    and "\<forall>x \<in> set f. faithful hx (OperRow x)"
  shows "grown hx d d'"
proof -
  have "set (table_rows d' st) \<subseteq> set (table_rows d st) \<union> Collect (faithful hx)" for st
    using assms(2-) by (cases st) auto
  then show ?thesis using assms(1) by (simp add: grown_def)
qed

lemma receipt_tx_grown:
  assumes "receipt_tx hx d s rd kd request t u1 u2 = Inr (r, d')"
  shows "grown hx d d'"
proof (cases "case kd of None \<Rightarrow> None | Some k \<Rightarrow> find_idem d s k")
  case (Some rec)
  then show ?thesis using assms by (auto simp: receipt_tx_def rbind_Inr_iff)
next
  case None
  with assms obtain x d1 where nr: "new_receipt hx d s rd t u1 = Inr (x, d1)"
    and rest: "(case kd of None \<Rightarrow> rbind (add_receipt d1 x) (\<lambda>d2. Inr (x, d2))
       | Some k \<Rightarrow> rbind (append_idempotency hx d1 s k request (r_hash x) t u2) (\<lambda>(i, d2).
           rbind (add_receipt d2 x) (\<lambda>d3. rbind (add_idem d3 i) (\<lambda>d4. Inr (x, d4))))) = Inr (r, d')"
    by (auto simp: receipt_tx_def rbind_Inr_iff)
  obtain q y where d1: "d1 = advance_head d s Receipts q y t" using new_receipt_advance [OF nr] by blast
  note x = new_receipt_faithful [OF nr]
  show ?thesis
  proof (cases kd)
    case None
    then have "d' = d1\<lparr>d_receipts := d_receipts d1 @ [x]\<rparr>" using rest by (auto simp: rbind_Inr_iff add_receipt_Inr)
    then show ?thesis using x by (intro grownI [of _ _ "[x]" "[]" "[]" "[]" "[]"]) (simp_all add: d1)
  next
    case (Some k)
    then obtain i d2 d3 where ai: "append_idempotency hx d1 s k request (r_hash x) t u2 = Inr (i, d2)"
      and add: "add_receipt d2 x = Inr d3" "add_idem d3 i = Inr d'"
      using rest by (auto simp: rbind_Inr_iff)
    obtain q' y' where "d2 = advance_head d1 s Idempotency q' y' t" using append_idempotency_row(2) [OF ai] by blast
    then show ?thesis using add x append_idempotency_faithful [OF ai]
      by (intro grownI [of _ _ "[x]" "[i]" "[]" "[]" "[]"]) (simp_all add: d1 add_receipt_Inr add_idem_Inr)
  qed
qed

lemma append_receipt_grown:
  "append_receipt hx d d s rd key created clk u1 u2 = Inr (r, d') \<Longrightarrow> grown hx d d'"
  by (drule append_receipt_tx) (auto dest: receipt_tx_grown)

lemma append_memory_grown:
  assumes "append_memory hx d s md rh t u = Inr (m, d')"
  shows "grown hx d d'"
proof -
  note push = append_memory_push [OF assms]
  obtain e where e: "find_receipt d s rh = Some e"
    using assms push(1) by (cases "find_receipt d s rh") (simp_all add: append_memory_def guard_else_Inr_iff)
  obtain d1 where nm: "new_memory hx d s md (md_refs md) rh t u = Inr (m, d1)" and add: "add_memory d1 m = Inr d'"
    using assms push(1) e by (auto simp: append_memory_def guard_else_Inr_iff rbind_Inr_iff)
  obtain q y where "d1 = advance_head d s Memory q y t" using new_memory_push(9) [OF nm] by blast
  then show ?thesis using add new_memory_faithful [OF nm]
    by (intro grownI [of _ _ "[]" "[]" "[m]" "[]" "[]"]) (simp_all add: add_memory_Inr)
qed

lemma append_trace_grown:
  assumes "append_anatomy_trace hx d tr t u = Inr (r, d')"
  shows "grown hx d d'"
proof -
  obtain h :: head_row where rec: "trace_record hx (tr_scope tr) (h_seq h + 1) (h_hash h) t tr u = Inr r"
    and add: "add_trace (advance_head d (tr_scope tr) Anatomy (r_seq r) (r_hash r) t) r = Inr d'"
    using assms unfolding append_anatomy_trace_def Let_def append_anatomy_trace_push(1) [OF assms] rbind_simps
      rbind_Inr_iff sum.inject prod.inject by blast
  then show ?thesis using trace_record_faithful [OF rec refl]
    by (intro grownI [of _ _ "[]" "[]" "[]" "[r]" "[]"]) (simp_all add: add_trace_Inr)
qed

lemma trace_records_faithful:
  assumes "trace_records hx s n prev t us traces = Inr rows" "\<forall>tr \<in> set traces. tr_scope tr = s"
  shows "\<forall>r \<in> set rows. faithful hx (TraceRow r)"
  using assms
proof (induction hx s n prev t us traces arbitrary: rows rule: trace_records.induct)
  case (2 hx s n prev t us tr rest)
  then obtain r rs where r: "trace_record hx s n prev t tr (us (length rest)) = Inr r"
    and rs: "trace_records hx s (n + 1) (Some (r_hash r)) t us rest = Inr rs" and rows: "rows = r # rs"
    by (auto simp: rbind_Inr_iff)
  have "tr_scope tr = s" "\<forall>tr \<in> set rest. tr_scope tr = s" using "2.prems"(2) by simp_all
  then show ?case using "2.IH" [OF rs] trace_record_faithful [OF r] by (simp add: rows)
qed simp

lemma write_bundle_grown:
  assumes "write_bundle hx d s rd md traces key request t us = Inr (i, d')" "\<forall>tr \<in> set traces. tr_scope tr = s"
  shows "grown hx d d'"
proof -
  obtain r d1 where nr: "new_receipt hx d s rd t (us 100) = Inr (r, d1)"
    using assms(1) by (cases "new_receipt hx d s rd t (us 100)") (auto simp: write_bundle_def)
  obtain i' d2 where ai: "append_idempotency hx d1 s key request (r_hash r) t (us 101) = Inr (i', d2)"
    using assms(1) nr
    by (cases "append_idempotency hx d1 s key request (r_hash r) t (us 101)") (auto simp: write_bundle_def)
  let ?refs = "dedup (md_refs md @ [r_hash r])"
  obtain m d3 where nm: "new_memory hx d2 s md ?refs (r_hash r) t (us 102) = Inr (m, d3)"
    using assms(1) nr ai
    by (cases "new_memory hx d2 s md ?refs (r_hash r) t (us 102)") (auto simp: write_bundle_def)
  obtain h where h: "locked_head d3 s Anatomy = Inr h"
    using assms(1) nr ai nm by (cases "locked_head d3 s Anatomy") (auto simp: write_bundle_def)
  obtain rows where rows: "trace_records hx s (h_seq h + 1) (h_hash h) t us traces = Inr rows"
    using assms(1) nr ai nm h
    by (cases "trace_records hx s (h_seq h + 1) (h_hash h) t us traces") (auto simp: write_bundle_def)
  let ?d4 = "advance_head d3 s Anatomy (r_seq (last rows)) (r_hash (last rows)) t"
  obtain d5 d6 d7 where adds: "add_receipt ?d4 r = Inr d5" "add_idem d5 i' = Inr d6" "add_memory d6 m = Inr d7"
    "fold_res add_trace d7 rows = Inr d'"
    using assms(1) nr ai nm h rows by (auto simp: write_bundle_def Let_def rbind_Inr_iff)
  obtain q1 y1 q2 y2 q3 y3 where "d1 = advance_head d s Receipts q1 y1 t"
    "d2 = advance_head d1 s Idempotency q2 y2 t" "d3 = advance_head d2 s Memory q3 y3 t"
    using new_receipt_advance [OF nr] append_idempotency_row(2) [OF ai] new_memory_push(9) [OF nm] by blast
  then show ?thesis
    using adds(1-3) add_traces [OF adds(4)] new_receipt_faithful [OF nr] append_idempotency_faithful [OF ai]
      new_memory_faithful [OF nm] trace_records_faithful [OF rows assms(2)]
    by (intro grownI [of _ _ "[r]" "[i']" "[m]" rows "[]"]) (simp_all add: add_receipt_Inr add_idem_Inr add_memory_Inr)
qed

lemma append_bundle_grown:
  assumes "append_analysis_bundle hx d d d s rd md traces idem_key request t us = Inr (b, d')"
  shows "grown hx d d'"
  using assms
proof (cases rule: append_bundle_cases)
  case (appended key i h)
  have chk: "check_bundle s rd md traces request = Inr ()"
    using assms by (auto simp: append_analysis_bundle_def rbind_Inr_iff)
  then have scope: "\<forall>tr \<in> set traces. tr_scope tr = s"
    unfolding check_bundle_def Let_def guard_else_Inr_iff list_all_iff by blast
  have tx: "bundle_tx hx d d s rd md traces key request t us = Inr (b, d')"
    using assms chk appended(1,2) by (simp add: append_analysis_bundle_def Let_def split: if_splits)
  then have "assert_scope d s = Inr ()" by (auto simp: bundle_tx_def rbind_Inr_iff)
  then obtain i where "write_bundle hx d s rd md traces key request t us = Inr (i, d')"
    using tx appended(2) by (auto simp: bundle_tx_def rbind_Inr_iff)
  then show ?thesis using write_bundle_grown scope by blast
qed auto

lemma new_version_grown:
  assumes "new_version hx d s od v t u = Inr (r, d')"
  shows "grown hx d d'"
proof -
  obtain q y r' where "add_oper (advance_head d s Operational q y t) r' = Inr d'" "r' = r"
    using assms unfolding new_version_def Let_def rbind_Inr_iff sum.inject prod.inject by blast
  then show ?thesis using new_version_faithful [OF assms]
    by (intro grownI [of _ _ "[]" "[]" "[]" "[]" "[r]"]) (simp_all add: add_oper_Inr)
qed

lemma batch_loop_grown: "batch_loop hx d s t drafts = Inr (rs, d') \<Longrightarrow> grown hx d d'"
proof (induction hx d s t drafts arbitrary: rs rule: batch_loop.induct)
  case (2 hx d s t x u rest)
  let ?latest = "latest_of (history d s (kind_value (od_kind x)) (od_id x))"
  show ?case
  proof (cases "unchanged ?latest x")
    case True
    then have "batch_loop hx d s t rest = Inr (rs, d')" using "2.prems" by (simp add: Let_def)
    from "2.IH"(1) [OF refl True this] show ?thesis .
  next
    case False
    then obtain r d1 rs' where nv: "new_version hx d s x (current_version ?latest + 1) t u = Inr (r, d1)"
      and rest: "batch_loop hx d1 s t rest = Inr (rs', d')"
      using "2.prems" by (auto simp: Let_def rbind_Inr_iff)
    show ?thesis using "2.IH"(2) [OF refl False rest] new_version_grown [OF nv] grown_trans by blast
  qed
qed simp

lemma batch_grown: "upsert_operational_batch hx d s drafts t = Inr (rs, d') \<Longrightarrow> grown hx d d'"
  by (cases "drafts = []")
     (auto simp: upsert_operational_batch_def guard_else_Inr_iff map_exc_Inr_iff rbind_Inr_iff dest: batch_loop_grown)

lemma tenants_grown: "grown hx d (d\<lparr>d_tenants := x\<rparr>)"
  by (rule grownI [of _ _ "[]" "[]" "[]" "[]" "[]"]) simp_all

lemma new_workspace_grown:
  assumes "add_workspace_with_heads d (uuid_str x) spec clock = Inr (w, d2)"
  shows "grown hx d d2"
proof -
  note w = add_workspace_with_heads_Inr [OF assms]
  have "named_by_uuids w"
    unfolding named_by_uuids_def w(2,3) by (rule exI [of _ "\<lparr>sc_tenant = x, sc_workspace = wsp_id spec\<rparr>"]) simp
  moreover have "table_rows d2 st = table_rows d st" for st by (cases st) (simp_all add: w(1))
  ultimately show ?thesis by (simp add: grown_def w(1))
qed

lemma provision_once_grown:
  assumes "provision_scope_once hx d ts ws clock u = Inr (p, d')"
  shows "grown hx d d'"
proof -
  let ?s = "scope_of ts ws"
  obtain tn made d1 where pt: "provision_tenant d ts (clock 0) = Inr (tn, made, d1)"
    using assms by (cases "provision_tenant d ts (clock 0)") (auto simp: provision_scope_once_def guard_else_Inr_iff)
  have "grown hx d (d\<lparr>d_tenants := d_tenants d1\<rparr>)" by (rule tenants_grown)
  then have first: "grown hx d d1" using provision_tenant_Inr(4) [OF pt] by simp
  show ?thesis
  proof (cases "find_workspace d1 (uuid_str (wsp_id ws))")
    case None
    with assms pt obtain w d2 hash where
      new: "add_workspace_with_heads d1 (uuid_str (tsp_id ts)) ws (\<lambda>n. clock (n + 1)) = Inr (w, d2)"
      and rc: "append_provisioning_receipt hx d2 ts ws (clock 7) u = Inr (hash, d')"
      by (auto simp: provision_scope_once_def guard_else_Inr_iff rbind_Inr_iff Let_def)
    obtain r e where nr: "new_receipt hx d2 ?s (provisioning_draft ts ws) (clock 7) u = Inr (r, e)"
      and add: "add_receipt e r = Inr d'"
      using rc by (auto simp: append_provisioning_receipt_def rbind_Inr_iff)
    obtain q y where "e = advance_head d2 ?s Receipts q y (clock 7)" using new_receipt_advance [OF nr] by blast
    then have "grown hx d2 d'" using add new_receipt_faithful [OF nr]
      by (intro grownI [of _ _ "[r]" "[]" "[]" "[]" "[]"]) (simp_all add: add_receipt_Inr)
    then show ?thesis using first new_workspace_grown [OF new] grown_trans by blast
  next
    case (Some w)
    with assms pt have "d' = d1" by (auto simp: provision_scope_once_def guard_else_Inr_iff rbind_Inr_iff Let_def)
    then show ?thesis using first by simp
  qed
qed

lemma store_step_grown: "store_step hx l d d' \<Longrightarrow> grown hx d d'"
proof (induction rule: store_step.induct)
  case (tenant d spec t r d')
  then show ?case using create_tenant_Inr tenants_grown by metis
next
  case (workspace d spec clock w d')
  then show ?case by (auto simp: create_workspace_def guard_else_Inr_iff dest: new_workspace_grown)
next
  case (provision d ts ws clock u p d')
  then have "d' = d \<or> provision_scope_once hx d ts ws clock u = Inr (p, d')"
    by (auto simp: provision_scope_def Let_def split: if_splits sum.splits)
  then show ?case using provision_once_grown by auto
next
  case (insert d s od t u r d')
  then have "write_operational hx d s od True (Some 0) t u = Inr (r, d')" by (simp add: insert_operational_def)
  then show ?case using write_operational_Inr(4) new_version_grown by blast
next
  case (upsert d s od e t u r d')
  then show ?case using write_operational_Inr(4) [OF upsert_write] new_version_grown by blast
qed (rule append_receipt_grown append_memory_grown append_trace_grown append_bundle_grown batch_grown; assumption)+

definition all_faithful :: "(string \<Rightarrow> string) \<Rightarrow> db \<Rightarrow> bool" where
  "all_faithful hx d \<longleftrightarrow> (\<forall>st. \<forall>x \<in> set (table_rows d st). faithful hx x) \<and> (\<forall>w \<in> set (d_workspaces d). named_by_uuids w)"

lemma grown_faithful: "grown hx d d' \<Longrightarrow> all_faithful hx d \<Longrightarrow> all_faithful hx d'"
  unfolding grown_def all_faithful_def by blast

lemma run_faithful: "store_run hx d ls d' \<Longrightarrow> all_faithful hx d \<Longrightarrow> all_faithful hx d'"
  by (induction rule: store_run.induct) (use store_step_grown grown_faithful in blast)+

lemma reachable_faithful: "store_reachable hx d \<Longrightarrow> all_faithful hx d"
proof -
  have "table_rows (empty_db sq) st = []" for sq st by (cases st) (simp_all add: empty_db_def)
  then have "all_faithful hx (empty_db sq)" for sq by (simp add: all_faithful_def empty_db_def)
  then show "store_reachable hx d \<Longrightarrow> all_faithful hx d" unfolding store_reachable_def using run_faithful by blast
qed

subsection \<open>The loop, exactly\<close>

text \<open>What the loop asks of the rows of one scope, and where it gets to.\<close>

fun linked :: "(string \<Rightarrow> string) \<Rightarrow> int \<times> string option \<Rightarrow> row list \<Rightarrow> bool" where
  "linked hx p [] \<longleftrightarrow> True"
| "linked hx p (r # rs) \<longleftrightarrow>
     r_seq r = fst p + 1 \<and> r_prev r = snd p \<and> sha256_json hx (JObj (r_basis r)) = Inr (r_hash r) \<and>
     linked hx (fst p + 1, Some (r_hash r)) rs"

fun reached :: "int \<times> string option \<Rightarrow> row list \<Rightarrow> int \<times> string option" where
  "reached p [] = p"
| "reached p (r # rs) = reached (fst p + 1, Some (r_hash r)) rs"

definition of_scope :: "string \<times> string \<Rightarrow> any_row list \<Rightarrow> row list" where
  "of_scope sc xs = filter (\<lambda>r. row_scope r = sc) (map common xs)"

lemma of_scope_simps [simp]:
  "of_scope sc [] = []"
  "of_scope sc (x # xs) = (if row_scope (common x) = sc then [common x] else []) @ of_scope sc xs"
  by (simp_all add: of_scope_def)

lemma audit_rows_exact:
  "audit_rows hx scopes prog xs = Inr prog' \<longleftrightarrow>
     (\<forall>x \<in> set xs. row_scope (common x) \<in> set scopes \<and> faithful hx x) \<and>
     (\<forall>sc. linked hx (prog sc) (of_scope sc xs)) \<and> prog' = (\<lambda>sc. reached (prog sc) (of_scope sc xs))"
proof (induction xs arbitrary: prog)
  case Nil
  then show ?case by auto
next
  case (Cons x xs)
  let ?r = "common x"
  let ?sc = "row_scope ?r" and ?next = "(fst (prog (row_scope ?r)) + 1, Some (r_hash ?r))"
  have run: "audit_rows hx scopes prog (x # xs) = Inr prog' \<longleftrightarrow>
      ?sc \<in> set scopes \<and> r_seq ?r = fst (prog ?sc) + 1 \<and> r_prev ?r = snd (prog ?sc) \<and> faithful hx x \<and>
      sha256_json hx (JObj (r_basis ?r)) = Inr (r_hash ?r) \<and>
      audit_rows hx scopes (prog(?sc := ?next)) xs = Inr prog'"
    by (auto simp: Let_def rbind_Inr_iff faithful_def split: prod.splits if_splits)
  let ?one = "r_seq ?r = fst (prog ?sc) + 1 \<and> r_prev ?r = snd (prog ?sc) \<and>
      sha256_json hx (JObj (r_basis ?r)) = Inr (r_hash ?r)"
  have each: "linked hx (prog sc) (of_scope sc (x # xs)) \<longleftrightarrow>
      (sc = ?sc \<longrightarrow> ?one) \<and> linked hx ((prog(?sc := ?next)) sc) (of_scope sc xs)" for sc
    by (cases "sc = ?sc") simp_all
  have links: "(\<forall>sc. linked hx (prog sc) (of_scope sc (x # xs))) \<longleftrightarrow>
      ?one \<and> (\<forall>sc. linked hx ((prog(?sc := ?next)) sc) (of_scope sc xs))"
    unfolding each by blast
  have ends: "(\<lambda>sc. reached (prog sc) (of_scope sc (x # xs))) =
      (\<lambda>sc. reached ((prog(?sc := ?next)) sc) (of_scope sc xs))"
    by (rule ext) simp
  show ?case unfolding run links ends Cons.IH by auto
qed

subsection \<open>From projections to hash bases\<close>

lemma json_eq_field:
  assumes "json_eq (JObj a) (JObj b)"
  shows "map_option jnorm (alookup a k) = map_option jnorm (alookup b k)"
proof -
  have norm: "alookup (sort_key fst (map (\<lambda>kv. (fst kv, jnorm (snd kv))) kvs)) k = map_option jnorm (alookup kvs k)" for kvs
    unfolding alookup_sort_key by (induction kvs) auto
  show ?thesis using assms norm [of a] norm [of b] by (simp add: json_eq_def)
qed

lemma faithful_basis:
  assumes "faithful hx x" "in_scope s (common x)"
  shows "basis_matches s (row_stream x) (r_seq (common x)) (r_prev (common x)) (r_basis (common x))"
proof -
  obtain p where p: "projection hx x = Inr p" and eq: "json_eq (JObj (r_basis (common x))) (JObj p)"
    using assms(1) by (auto simp: faithful_def)
  have field: "basis_is (r_basis (common x)) k v" if "alookup p k = Some v" for k v
    using json_eq_field [OF eq, of k] that by (auto simp: basis_is_def jget_null_def json_eq_def)
  obtain data where "p = [(''schema'', JStr (projection_schema (row_stream x))),
      (''tenant_id'', JStr (r_tenant (common x))), (''workspace_id'', JStr (r_workspace (common x))),
      (''stream_kind'', JStr (stream_value (row_stream x))), (''sequence'', JInt (r_seq (common x))),
      (''previous_hash'', jopt (r_prev (common x))), (''created_at'', utc_stamp (Some (r_at (common x)))),
      (''data'', JObj data)]"
    using p by (auto simp: projection_def rbind_Inr_iff Let_def)
  then show ?thesis
    unfolding basis_matches_def using assms(2) by (intro conjI field) (simp_all add: in_scope_def)
qed

lemma linked_chained:
  assumes "\<forall>x \<in> set xs. faithful hx x \<and> row_stream x = st \<and> in_scope s (common x)"
  shows "linked hx (n, prev) (map common xs) \<longleftrightarrow> chained hx s st (n + 1) prev (map common xs)"
  using assms
proof (induction xs arbitrary: n prev)
  case (Cons x xs)
  have "basis_matches s st (r_seq (common x)) (r_prev (common x)) (r_basis (common x))"
    using faithful_basis [of hx x s] Cons.prems by simp
  moreover have "linked hx (n + 1, Some (r_hash (common x))) (map common xs) \<longleftrightarrow>
      chained hx s st (n + 1 + 1) (Some (r_hash (common x))) (map common xs)"
    using Cons.IH Cons.prems by simp
  ultimately show ?case by auto
qed simp

lemma reached_last: "reached (n, prev) rs = (n + int (length rs), last_hash prev rs)"
  by (induction rs arbitrary: n prev) auto

subsection \<open>The order of the rows\<close>

lemma sort_key_cong_order:
  assumes "\<And>x y. x \<in> set xs \<Longrightarrow> y \<in> set xs \<Longrightarrow> f x \<le> f y \<longleftrightarrow> g x \<le> g y"
  shows "sort_key f xs = sort_key g xs"
  using assms
proof (induction xs)
  case (Cons a xs)
  have ins: "insort_key f a ys = insort_key g a ys" if "set ys \<subseteq> set xs" for ys
    using that Cons.prems by (induction ys) auto
  have "sort_key f xs = sort_key g xs" using Cons by simp
  then show ?case using ins [of "sort_key g xs"] by simp
qed simp

lemma common_table: "map common (table_rows d st) = stream_rows d st"
  by (cases st) (simp_all add: comp_def)

lemma table_stream: "x \<in> set (table_rows d st) \<Longrightarrow> row_stream x = st"
  by (cases st) auto

definition scope_pair :: "scope \<Rightarrow> string \<times> string" where
  "scope_pair s = (uuid_str (sc_tenant s), uuid_str (sc_workspace s))"

lemma row_scope_pair: "row_scope r = scope_pair s \<longleftrightarrow> in_scope s r"
  by (auto simp: row_scope_def scope_pair_def in_scope_def)

text \<open>The rows of a scope in the audit are those that \<open>verify_chain\<close> reads.\<close>

definition scoped_rows :: "db \<Rightarrow> scope \<Rightarrow> stream \<Rightarrow> any_row list" where
  "scoped_rows d s st = filter (\<lambda>x. in_scope s (common x)) (sort_key table_order (table_rows d st))"

lemma scoped_rows_sorted:
  "scoped_rows d s st = sort_key (\<lambda>x. r_seq (common x)) (filter (\<lambda>x. in_scope s (common x)) (table_rows d st))"
proof -
  have "scoped_rows d s st = sort_key table_order (filter (\<lambda>x. in_scope s (common x)) (table_rows d st))"
    unfolding scoped_rows_def by (rule filter_sort)
  also have "\<dots> = sort_key (\<lambda>x. r_seq (common x)) (filter (\<lambda>x. in_scope s (common x)) (table_rows d st))"
    by (rule sort_key_cong_order) (auto simp: table_order_def in_scope_def less_eq_prod_def less_prod_def)
  finally show ?thesis .
qed

lemma map_sort_key: "map f (sort_key (\<lambda>x. g (f x)) xs) = sort_key g (map f xs)"
proof (induction xs)
  case (Cons x xs)
  have "map f (insort_key (\<lambda>x. g (f x)) x ys) = insort_key g (f x) (map f ys)" for ys
    by (induction ys) auto
  then show ?case using Cons by simp
qed simp

lemma scoped_records: "map common (scoped_rows d s st) = records d s st"
proof -
  have "map common (filter (\<lambda>x. in_scope s (common x)) xs) = filter (in_scope s) (map common xs)" for xs
    by (induction xs) auto
  then show ?thesis
    unfolding scoped_rows_sorted records_def map_sort_key common_table [symmetric] by simp
qed

lemma of_scope_records: "of_scope (scope_pair s) (sort_key table_order (table_rows d st)) = records d s st"
  unfolding scoped_records [symmetric] scoped_rows_def of_scope_def row_scope_pair
  by (simp add: filter_map comp_def)

subsection \<open>The audit of a stream and of the database\<close>

lemma workspace_scopes_iff: "(t, w) \<in> set (workspace_scopes d) \<longleftrightarrow> scope_exists d t w"
  by (auto simp: workspace_scopes_def scope_exists_def list_ex_iff)

lemma scope_pair_listed: "scope_pair s \<in> set (workspace_scopes d) \<longleftrightarrow> has_workspace d s"
  by (simp add: scope_pair_def workspace_scopes_iff has_workspace_def)

lemma head_of_locked: "head_of d (scope_pair s) st = Some h \<longleftrightarrow> locked_head d s st = Inr h"
  by (simp add: head_of_def locked_head_def scope_pair_def scope_key_def split: option.splits)

lemma audit_stream_exact:
  "audit_stream hx d scopes st = Inr () \<longleftrightarrow>
     (\<forall>x \<in> set (table_rows d st). row_scope (common x) \<in> set scopes \<and> faithful hx x) \<and>
     (\<forall>sc. linked hx (0, None) (of_scope sc (sort_key table_order (table_rows d st)))) \<and>
     (\<forall>sc \<in> set scopes. \<exists>h. head_of d sc st = Some h \<and>
        reached (0, None) (of_scope sc (sort_key table_order (table_rows d st))) = (h_seq h, h_hash h))"
  by (auto simp: audit_stream_def rbind_Inr_iff guard_else_Inr_iff audit_rows_exact list_all_iff
      split: option.splits)

lemma audit_chains_exact:
  "audit_chains hx d = Inr n \<longleftrightarrow>
     head_key ` set (d_heads d) = set (expected_keys (workspace_scopes d)) \<and>
     (\<forall>st. audit_stream hx d (workspace_scopes d) st = Inr ()) \<and>
     n = length (expected_keys (workspace_scopes d))"
proof -
  have "(\<exists>us. rmap f stream_kinds = Inr us) \<longleftrightarrow> (\<forall>st. f st = Inr ())" for f :: "stream \<Rightarrow> unit res"
  proof
    assume "\<exists>us. rmap f stream_kinds = Inr us"
    then obtain us where us: "list_all2 (\<lambda>st u. f st = Inr u) stream_kinds us" by (auto simp: rmap_Inr_all2)
    show "\<forall>st. f st = Inr ()"
    proof
      fix st
      obtain i where "i < length stream_kinds" "stream_kinds ! i = st"
        using set_stream_kinds [of st] by (auto simp: in_set_conv_nth)
      then show "f st = Inr ()" using list_all2_nthD [OF us] by fastforce
    qed
  qed (auto simp: stream_kinds_def)
  then show ?thesis by (auto simp: audit_chains_def Let_def guard_else_Inr_iff rbind_Inr_iff)
qed

lemma expected_keys_iff: "(t, w, st) \<in> set (expected_keys scopes) \<longleftrightarrow> (t, w) \<in> set scopes"
  by (force simp: expected_keys_def)

lemma length_expected_keys: "length (expected_keys scopes) = 5 * length scopes"
  by (induction scopes) (simp_all add: expected_keys_def stream_kinds_def)

lemma records_chained:
  assumes "\<forall>x \<in> set (table_rows d st). faithful hx x"
  shows "linked hx (0, None) (records d s st) \<longleftrightarrow> chained hx s st 1 None (records d s st)"
proof -
  have "\<forall>x \<in> set (scoped_rows d s st). faithful hx x \<and> row_stream x = st \<and> in_scope s (common x)"
    using assms by (auto simp: scoped_rows_def table_stream)
  from linked_chained [OF this, of 0 None] show ?thesis by (simp add: scoped_records)
qed

lemma assert_scope_workspace: "assert_scope d s = Inr () \<Longrightarrow> has_workspace d s"
  by (auto simp: assert_scope_def has_workspace_def scope_exists_def find_workspace_def
      find_Some_iff guard_else_Inr_iff list_ex_iff split: option.splits)

lemma audited_stream:
  assumes "audit_chains hx d = Inr n" "assert_scope d s = Inr ()"
  obtains h where "locked_head d s st = Inr h" "chained hx s st 1 None (records d s st)"
    "h_seq h = int (length (records d s st))" "h_hash h = last_hash None (records d s st)"
    "\<forall>x \<in> set (table_rows d st). faithful hx x"
proof -
  have a: "audit_stream hx d (workspace_scopes d) st = Inr ()"
    using assms(1) by (simp add: audit_chains_exact)
  have rows: "\<forall>x \<in> set (table_rows d st). faithful hx x" and link: "linked hx (0, None) (records d s st)"
    using a unfolding audit_stream_exact of_scope_records [symmetric] by blast+
  have "has_workspace d s" by (rule assert_scope_workspace [OF assms(2)])
  then obtain h where h: "locked_head d s st = Inr h" "reached (0, None) (records d s st) = (h_seq h, h_hash h)"
    using a unfolding audit_stream_exact scope_pair_listed [symmetric] of_scope_records [symmetric]
      head_of_locked [symmetric] by blast
  have "chained hx s st 1 None (records d s st)" using records_chained [OF rows] link by simp
  moreover have "h_seq h = int (length (records d s st))" "h_hash h = last_hash None (records d s st)"
    using h(2) by (simp_all add: reached_last)
  ultimately show thesis using that h(1) rows by blast
qed

lemma reachable_audit:
  assumes "store_reachable hx d"
  shows "audit_chains hx d = Inr (5 * length (d_workspaces d))"
proof -
  have inv: "db_inv hx d" using reachable_inv [OF assms] by (simp add: store_inv_def)
  have faith: "all_faithful hx d" by (rule reachable_faithful [OF assms])
  let ?scopes = "workspace_scopes d"
  have named: "\<exists>s. sc = scope_pair s \<and> has_workspace d s" if listed: "sc \<in> set ?scopes" for sc
  proof -
    obtain t w where sc: "sc = (t, w)" by (cases sc)
    then obtain x where "x \<in> set (d_workspaces d)" "w_tenant x = t" "w_id x = w"
      using listed by (auto simp: workspace_scopes_def)
    then obtain s :: scope where "sc = scope_pair s"
      using faith sc by (auto simp: all_faithful_def named_by_uuids_def scope_pair_def)
    then show ?thesis using listed scope_pair_listed by blast
  qed
  have stream: "chained hx s st 1 None (records d s st) \<and>
      (\<exists>h. locked_head d s st = Inr h \<and> h_seq h = int (length (records d s st)) \<and>
         h_hash h = last_hash None (records d s st))" if "has_workspace d s" for s st
  proof -
    have si: "stream_inv hx d s st" using inv that by (simp add: db_inv_def)
    then have "sort_key r_seq (filter (in_scope s) (stream_rows d st)) = filter (in_scope s) (stream_rows d st)"
      unfolding stream_inv_def Let_def using chained_sorted by blast
    then show ?thesis using si by (simp add: stream_inv_def records_def Let_def)
  qed
  have rows: "row_scope (common x) \<in> set ?scopes \<and> faithful hx x" if "x \<in> set (table_rows d st)" for x st
  proof -
    have "common x \<in> set (stream_rows d st)" using that unfolding common_table [symmetric] by simp
    then have "scope_exists d (r_tenant (common x)) (r_workspace (common x))" using inv by (simp add: db_inv_def)
    then show ?thesis using faith that by (auto simp: row_scope_def workspace_scopes_iff all_faithful_def)
  qed
  have links: "linked hx (0, None) (of_scope sc (sort_key table_order (table_rows d st)))" for sc st
  proof (cases "sc \<in> set ?scopes")
    case True
    then obtain s where s: "sc = scope_pair s" "has_workspace d s" using named by blast
    then show ?thesis using stream records_chained [of d st hx s] rows by (simp add: of_scope_records)
  next
    case False
    then have "of_scope sc (sort_key table_order (table_rows d st)) = []"
      using rows by (auto simp: of_scope_def filter_empty_conv)
    then show ?thesis by simp
  qed
  have "audit_stream hx d ?scopes st = Inr ()" for st
    unfolding audit_stream_exact
  proof (intro conjI allI ballI)
    fix sc assume "sc \<in> set ?scopes"
    then obtain s where s: "sc = scope_pair s" "has_workspace d s" using named by blast
    then obtain h where "locked_head d s st = Inr h" "h_seq h = int (length (records d s st))"
      "h_hash h = last_hash None (records d s st)" using stream by blast
    then show "\<exists>h. head_of d sc st = Some h \<and>
        reached (0, None) (of_scope sc (sort_key table_order (table_rows d st))) = (h_seq h, h_hash h)"
      by (auto simp: s(1) head_of_locked of_scope_records reached_last)
  qed (use rows links in auto)
  moreover have "head_key ` set (d_heads d) = set (expected_keys ?scopes)"
  proof (intro equalityI subsetI)
    fix k assume "k \<in> head_key ` set (d_heads d)"
    then obtain h where "h \<in> set (d_heads d)" "k = (h_tenant h, h_workspace h, h_stream h)" by (auto simp: head_key_def)
    then show "k \<in> set (expected_keys ?scopes)" using inv by (simp add: expected_keys_iff workspace_scopes_iff db_inv_def)
  next
    fix k assume k: "k \<in> set (expected_keys ?scopes)"
    obtain t w st where kk: "k = (t, w, st)" by (cases k)
    with k have "(t, w) \<in> set ?scopes" by (simp add: expected_keys_iff)
    then obtain s where s: "(t, w) = scope_pair s" "has_workspace d s" using named by blast
    then obtain h where "locked_head d s st = Inr h" using stream by blast
    then have "h \<in> set (d_heads d)" "head_key h = k"
      using locked_head_Inr [of d s st h] s(1) by (simp_all add: kk scope_key_def scope_pair_def)
    then show "k \<in> head_key ` set (d_heads d)" by force
  qed
  moreover have "length ?scopes = length (d_workspaces d)"
  proof -
    have "distinct (map w_id (d_workspaces d))" using inv by (simp add: db_inv_def)
    then have "distinct (map (\<lambda>w. (w_tenant w, w_id w)) (d_workspaces d))"
      by (simp add: distinct_map inj_on_def)
    then show ?thesis by (simp add: workspace_scopes_def distinct_remdups_id)
  qed
  ultimately show ?thesis by (simp add: audit_chains_exact length_expected_keys)
qed

subsection \<open>Equal heads, equal columns\<close>

lemma jnorm_sort_keys: "jnorm (sort_keys j) = jnorm j"
proof (induction j rule: sort_keys.induct)
  case (2 kvs)
  let ?f = "\<lambda>kv. (fst kv, jnorm (snd kv))" and ?g = "\<lambda>kv. (fst kv, sort_keys (snd kv))"
  have "map ?f (sort_key fst (map ?g kvs)) = sort_key fst (map ?f (map ?g kvs))"
    using map_sort_key [of ?f fst "map ?g kvs"] by simp
  moreover have "map ?f (map ?g kvs) = map ?f kvs" using 2 by auto
  ultimately show ?case by (simp del: map_map add: sort_key_id_if_sorted)
qed auto

lemma same_basis_eq: "same_basis x y \<Longrightarrow> json_eq (JObj (r_basis x)) (JObj (r_basis y))"
  unfolding same_basis_def json_eq_def using jnorm_sort_keys by metis

text \<open>The two rows say the same in every hashed column.\<close>

definition same_columns :: "(string \<Rightarrow> string) \<Rightarrow> any_row \<Rightarrow> any_row \<Rightarrow> bool" where
  "same_columns hx x y \<longleftrightarrow>
     (\<exists>p q. projection hx x = Inr p \<and> projection hx y = Inr q \<and> json_eq (JObj p) (JObj q))"

lemma same_basis_columns:
  assumes "faithful hx x" "faithful hx y" "same_basis (common x) (common y)"
  shows "same_columns hx x y"
  using assms same_basis_eq json_eq_trans json_eq_sym unfolding faithful_def same_columns_def by meson

subsection \<open>The target of a restore\<close>

text \<open>
  \<open>\_target\<close> and \<open>\_target\_schema\<close>: the checks before an import may connect.  Parameters:
  \<open>lookup\<close> and \<open>names\<close> are the environment, \<open>make\_url\<close> is SQLAlchemy's, \<open>loopback\<close> is
  \<open>ipaddress.ip\_address(host).is\_loopback\<close> (\<open>None\<close> if that raises), \<open>is\_file\<close> the file
  test.  A query value is \<open>None\<close> when the key is repeated.
\<close>

record target_url =
  tu_driver :: string
  tu_host :: "string option"
  tu_user :: "string option"
  tu_password :: "string option"
  tu_database :: "string option"
  tu_query :: "(string \<times> string option) list"

definition schema_char :: "char \<Rightarrow> bool" where
  "schema_char c = (CHR ''a'' \<le> c \<and> c \<le> CHR ''z'' \<or> is_digit c \<or> c = CHR ''_'')"

definition target_schema :: "(string \<Rightarrow> string option) \<Rightarrow> string res" where
  "target_schema lookup =
     (let s = (case lookup ''LYTE_MIGRATION_SCHEMA'' of None \<Rightarrow> ''public'' | Some v \<Rightarrow> v) in
      guard_else (s \<noteq> [] \<and> length s \<le> 63 \<and> list_all schema_char s \<and> \<not> is_digit (hd s) \<and> take 3 s \<noteq> ''pg_'')
        (PreservationError ''TARGET_SCHEMA_INVALID'') (Inr s))"

definition named_part :: "string option \<Rightarrow> bool" where
  "named_part x = (case x of None \<Rightarrow> False | Some v \<Rightarrow> v \<noteq> [])"

definition query_value :: "target_url \<Rightarrow> string \<Rightarrow> string option" where
  "query_value u k = (case alookup (tu_query u) k of Some (Some v) \<Rightarrow> Some v | _ \<Rightarrow> None)"

definition check_target ::
  "(string \<Rightarrow> string option) \<Rightarrow> string list \<Rightarrow> (string \<Rightarrow> target_url res) \<Rightarrow> (string \<Rightarrow> bool option) \<Rightarrow>
   (string \<Rightarrow> bool) \<Rightarrow> (target_url \<times> string) res" where
  "check_target lookup names make_url loopback is_file =
     (let value = (case lookup ''LYTE_MIGRATION_TARGET_URL'' of None \<Rightarrow> [] | Some v \<Rightarrow> v) in
      guard_else (value \<noteq> []) (PreservationError ''TARGET_ENV_REQUIRED'')
     (guard_else (list_all (\<lambda>n. take 2 (py_upper n) \<noteq> ''PG'') names)
        (PreservationError ''AMBIENT_LIBPQ_ENV_UNSUPPORTED'')
     (rbind (make_url value) (\<lambda>u.
      guard_else (tu_driver u \<in> {''postgresql'', ''postgresql+psycopg''})
        (PreservationError ''POSTGRESQL_TARGET_REQUIRED'')
     (guard_else (list_all named_part [tu_host u, tu_user u, tu_password u, tu_database u])
        (PreservationError ''EXPLICIT_TARGET_IDENTITY_REQUIRED'')
     (let host = (case tu_host u of None \<Rightarrow> [] | Some h \<Rightarrow> h) in
      guard_else (list_all (\<lambda>c. c \<notin> set (CHR 0x5C # CHR 0x09 # CHR 0x0D # CHR 0x0A # '',/ '')) host)
        (PreservationError ''SINGLE_TCP_HOST_REQUIRED'')
     (guard_else (list_all (\<lambda>(k, v). k \<in> {''sslmode'', ''sslrootcert'', ''sslcert'', ''sslkey''} \<and> v \<noteq> None) (tu_query u))
        (PreservationError ''TARGET_QUERY_UNSUPPORTED'')
     (let local_host = (loopback host = Some True); mode = query_value u ''sslmode'' in
      guard_else (mode = Some ''verify-full'' \<or> local_host \<and> mode = Some ''disable'')
        (PreservationError ''VERIFIED_TLS_REQUIRED'')
     (guard_else (mode = Some ''verify-full'' \<longrightarrow>
           is_file (case query_value u ''sslrootcert'' of None \<Rightarrow> [] | Some p \<Rightarrow> p))
        (PreservationError ''EXPLICIT_TLS_ROOT_REQUIRED'')
     (guard_else (alookup (tu_query u) ''sslcert'' = None \<longleftrightarrow> alookup (tu_query u) ''sslkey'' = None)
        (PreservationError ''TLS_CLIENT_CERT_PAIR_REQUIRED'')
     (rbind (target_schema lookup) (\<lambda>s. Inr (u, s)))))))))))))"

text \<open>A target that passes is reached over verified TLS or on the local machine, and is what its
  URL says.\<close>

lemma check_target_verified:
  assumes "check_target lookup names make_url loopback is_file = Inr (u, s)"
  shows "\<exists>h. tu_host u = Some h \<and> h \<noteq> [] \<and>
      (query_value u ''sslmode'' = Some ''verify-full'' \<and> (\<exists>p. is_file p) \<or> loopback h = Some True)"
    "\<exists>v. lookup ''LYTE_MIGRATION_TARGET_URL'' = Some v \<and> make_url v = Inr u"
    "target_schema lookup = Inr s"
proof -
  obtain h where h: "tu_host u = Some h" "h \<noteq> []"
    using assms by (auto simp: check_target_def Let_def guard_else_Inr_iff rbind_Inr_iff named_part_def split: option.splits)
  then show "\<exists>h. tu_host u = Some h \<and> h \<noteq> [] \<and>
      (query_value u ''sslmode'' = Some ''verify-full'' \<and> (\<exists>p. is_file p) \<or> loopback h = Some True)"
    using assms by (auto simp: check_target_def Let_def guard_else_Inr_iff rbind_Inr_iff)
qed (use assms in \<open>auto simp: check_target_def Let_def guard_else_Inr_iff rbind_Inr_iff split: option.splits\<close>)

subsection \<open>Properties\<close>



text \<open>The preservation audit is at least as strict as \<open>verify\_chain\<close>: on a database that
  passes it, \<open>verify\_chain\<close> reports every stream of every existing workspace valid, with the number
  of its rows.\<close>

theorem audit_implies_verified:
  assumes "audit_chains hx d = Inr n" "assert_scope d s = Inr ()"
  shows "\<exists>v. verify_chain hx d s (stream_value st) = Inr v \<and> cv_valid v \<and>
             cv_count v = length (records d s st) \<and> cv_head v = last_hash None (records d s st)"
proof -
  obtain h where h: "locked_head d s st = Inr h" "chained hx s st 1 None (records d s st)"
    "h_seq h = int (length (records d s st))" "h_hash h = last_hash None (records d s st)"
    using audited_stream [OF assms] by metis
  have "verify_rows hx s st 1 None (records d s st) = Inr (None, last_hash None (records d s st))"
    using h(2) by (simp add: verify_rows_iff)
  then show ?thesis using assms(2) h by (simp add: verify_chain_def Let_def)
qed

lemma fresh_audit: "audit_chains id fresh_db = Inr 5"
  using reachable_audit [OF fresh_db_reachable, of id] by (simp add: fresh_db_def)

theorem audit_implies_verified_witness:
  "\<exists>v. verify_chain id fresh_db example_scope ''memory'' = Inr v \<and> cv_valid v"
  using audit_implies_verified [OF fresh_audit fresh_db_scope, of Memory] by auto

text \<open>C23: The audit makes every hashed column tamper-evident.  If two databases both pass it and
  the heads of the same stream of the same workspace hold the same hash, then the stream has the
  same rows in both, equal in every column that was hashed (payloads and metadata up to the order of
  keys), or the bases of two rows collide under the hash.\<close>

theorem audited_head_fixes_columns:
  assumes "audit_chains hx d = Inr n" "assert_scope d s = Inr ()" "locked_head d s st = Inr h"
    and "audit_chains hx d' = Inr n'" "assert_scope d' s = Inr ()" "locked_head d' s st = Inr h'"
    and "h_hash h = h_hash h'" "h_hash h \<noteq> None"
  shows "list_all2 (same_columns hx) (scoped_rows d s st) (scoped_rows d' s st) \<or>
         (\<exists>x \<in> set (records d s st). \<exists>y \<in> set (records d' s st). bases_collide hx x y)"
proof -
  obtain g where g: "locked_head d s st = Inr g" "chained hx s st 1 None (records d s st)"
    "h_hash g = last_hash None (records d s st)" "\<forall>x \<in> set (table_rows d st). faithful hx x"
    using audited_stream [OF assms(1,2)] by metis
  obtain g' where g': "locked_head d' s st = Inr g'" "chained hx s st 1 None (records d' s st)"
    "h_hash g' = last_hash None (records d' s st)" "\<forall>x \<in> set (table_rows d' st). faithful hx x"
    using audited_stream [OF assms(4,5)] by metis
  have heads: "g = h" "g' = h'" using g(1) g'(1) assms(3,6) by simp_all
  have ne: "records d s st \<noteq> []" "records d' s st \<noteq> []"
    using g(3) g'(3) assms(7,8) by (auto simp: heads)
  have "last_hash None (records d s st) = last_hash None (records d' s st)"
    using g(3) g'(3) assms(7) by (simp add: heads)
  from chains_with_same_head [OF g(2) g'(2) this ne] show ?thesis
  proof
    assume "list_all2 same_basis (records d s st) (records d' s st)"
    then have "list_all2 (\<lambda>x y. same_basis (common x) (common y)) (scoped_rows d s st) (scoped_rows d' s st)"
      unfolding scoped_records [symmetric] list_all2_map1 list_all2_map2 .
    moreover have "\<forall>x \<in> set (scoped_rows d s st). faithful hx x" "\<forall>x \<in> set (scoped_rows d' s st). faithful hx x"
      using g(4) g'(4) by (simp_all add: scoped_rows_def)
    ultimately show ?thesis
      using same_basis_columns by (smt (verit) list_all2_conv_all_nth nth_mem)
  qed blast
qed

theorem audited_head_fixes_columns_witness:
  "\<exists>r d. append_receipt id fresh_db fresh_db example_scope example_draft (Some example_key) None (Aware 0) 7 8 = Inr (r, d) \<and>
     length (scoped_rows d example_scope Receipts) = 1 \<and>
     list_all2 (same_columns id) (scoped_rows d example_scope Receipts) (scoped_rows d example_scope Receipts)"
proof -
  obtain r d where a: "append_receipt id fresh_db fresh_db example_scope example_draft (Some example_key) None (Aware 0) 7 8 = Inr (r, d)"
    and run: "store_run id fresh_db [Some example_scope] d" and d: "d_receipts d = [r]" "in_scope example_scope r"
    "assert_scope d example_scope = Inr ()"
    using receipt_run [of id] by blast
  obtain sq ls where "store_run id (empty_db sq) ls fresh_db"
    using fresh_db_reachable unfolding store_reachable_def by blast
  from store_run.step [OF this store_step.receipt [OF a]] have "store_reachable id d"
    unfolding store_reachable_def by blast
  then have audit: "audit_chains id d = Inr (5 * length (d_workspaces d))" by (rule reachable_audit)
  have recs: "scoped_rows d example_scope Receipts = [ReceiptRow r]"
    using d by (simp add: scoped_rows_def)
  then have "records d example_scope Receipts = [row.truncate r]"
    unfolding scoped_records [symmetric] by simp
  then obtain h where h: "locked_head d example_scope Receipts = Inr h" "h_hash h = Some (r_hash r)"
    using audited_stream [OF audit d(3), of Receipts] by (metis last_hash.simps truncate_fields(6))
  have "h_hash h \<noteq> None" using h(2) by simp
  from audited_head_fixes_columns [OF audit d(3) h(1) audit d(3) h(1) refl this]
  have "list_all2 (same_columns id) (scoped_rows d example_scope Receipts) (scoped_rows d example_scope Receipts)"
    by (simp add: bases_collide_def collision_def)
  then show ?thesis using a recs by auto
qed

end
