(* ===== verification/Analysis_Anatomy.thy ===== *)
theory Analysis_Anatomy
  imports Store
begin

section \<open>The anatomy of an analysis (lyte/intelligence/living\_anatomy.py)\<close>

text \<open>
  One analysis runs through nine stages.  \<open>build\_analysis\_anatomy\<close> binds their results into a
  chain of digests: the basis of a stage holds the output digest of the stage before, its
  output digest is taken over its basis digest, state and result.  \<open>to\_traces\<close> turns the
  stages into the traces that the store appends, \<open>stored\_trace\_to\_api\<close> reads them back.
  Arguments: \<open>tid\<close> is the trace identifier, \<open>sp k\<close> the span identifier of stage \<open>k\<close>, \<open>clk\<close>
  the clock readings (two per stage).
\<close>

subsection \<open>Stages\<close>

record stage_spec =
  sg_sequence :: int
  sg_stage :: string
  sg_description :: string
  sg_organ :: organ
  sg_operation :: string

definition analysis_stages :: "stage_spec list" where
  "analysis_stages =
    [\<lparr>sg_sequence = 1, sg_stage = ''sense'',
      sg_description = ''Acquire an allowlisted source or explicit caller observation.'',
      sg_organ = SOURCE, sg_operation = ''analysis.sense''\<rparr>,
     \<lparr>sg_sequence = 2, sg_stage = ''normalize'',
      sg_description = ''Validate request schema, aggregate bounds, units, and currency.'',
      sg_organ = SIGNAL, sg_operation = ''analysis.normalize''\<rparr>,
     \<lparr>sg_sequence = 3, sg_stage = ''context'',
      sg_description = ''Bind authenticated tenant/workspace, declared service, and evidence references.'',
      sg_organ = SIGNAL, sg_operation = ''analysis.context''\<rparr>,
     \<lparr>sg_sequence = 4, sg_stage = ''formula'',
      sg_description = ''Calculate reliability and economic results with explicit availability.'',
      sg_organ = REASONING, sg_operation = ''analysis.formula''\<rparr>,
     \<lparr>sg_sequence = 5, sg_stage = ''policy'',
      sg_description = ''Deny effectors, unsupported authority, and unsupported causality.'',
      sg_organ = TRUST_GATE, sg_operation = ''analysis.policy''\<rparr>,
     \<lparr>sg_sequence = 6, sg_stage = ''decide'',
      sg_description = ''Return REVIEW, ABSTAIN, or DENY for a human owner.'',
      sg_organ = TRUST_GATE, sg_operation = ''analysis.decide''\<rparr>,
     \<lparr>sg_sequence = 7, sg_stage = ''verify'',
      sg_description = ''Check scoped evidence, receipt integrity, and runtime source; mark missing freshness.'',
      sg_organ = TRUST_GATE, sg_operation = ''analysis.verify''\<rparr>,
     \<lparr>sg_sequence = 8, sg_stage = ''remember'',
      sg_description = ''Persist scoped summaries and evidence references, never raw tokens.'',
      sg_organ = SECOND_BRAIN, sg_operation = ''analysis.remember''\<rparr>,
     \<lparr>sg_sequence = 9, sg_stage = ''receipt'',
      sg_description = ''Append a finite canonical record to the scoped hash chain.'',
      sg_organ = RECEIPT_BUS, sg_operation = ''analysis.receipt''\<rparr>]"

definition stage_states :: "string list list" where
  "stage_states =
    [[''OBSERVED''], [''VALIDATED''], [''BOUND''], [''CALCULATED'', ''PARTIAL'', ''UNAVAILABLE''],
     [''ENFORCED'', ''DENIED''], [''REVIEW'', ''ABSTAIN'', ''DENY''],
     [''VERIFIED'', ''PARTIAL'', ''FAILED'', ''UNAVAILABLE''], [''PERSISTED''], [''APPENDED'']]"

record analysis_stage =
  as_spec :: stage_spec
  as_state :: string
  as_input :: string
  as_basis :: string
  as_output :: string
  as_label :: truth_label
  as_revision :: "string option"

record analysis_anatomy =
  aa_trace_id :: uuid
  aa_stages :: "analysis_stage list"

definition stage_to_api :: "uuid \<Rightarrow> analysis_stage \<Rightarrow> (string \<times> json) list" where
  "stage_to_api tid s =
     [(''sequence'', JInt (sg_sequence (as_spec s))), (''stage'', JStr (sg_stage (as_spec s))),
      (''operation'', JStr (sg_operation (as_spec s))), (''organ'', JStr (organ_value (sg_organ (as_spec s)))),
      (''state'', JStr (as_state s)), (''execution_state'', JStr (trace_state_value COMPLETED)),
      (''input_sha256'', JStr (as_input s)), (''basis_sha256'', JStr (as_basis s)),
      (''output_sha256'', JStr (as_output s)), (''truth_label'', JStr (label_value (as_label s))),
      (''source_revision'', jopt (as_revision s)), (''trace_id'', JStr (uuid_str tid)),
      (''notes'', JList [JStr (sg_description (as_spec s))])]"

subsection \<open>Binding the stages\<close>

definition stage_basis :: "stage_spec \<Rightarrow> truth_label \<Rightarrow> string option \<Rightarrow> string \<Rightarrow> json" where
  "stage_basis spec label revision inp =
     JObj [(''schema'', JStr ''szl.lyte.analysis-stage-basis/v1''), (''sequence'', JInt (sg_sequence spec)),
           (''stage'', JStr (sg_stage spec)), (''operation'', JStr (sg_operation spec)),
           (''input_sha256'', JStr inp), (''truth_label'', JStr (label_value label)),
           (''source_revision'', jopt revision)]"

definition stage_result :: "stage_spec \<Rightarrow> string \<Rightarrow> string \<Rightarrow> (string \<times> json) list \<Rightarrow> json" where
  "stage_result spec state basis result =
     JObj [(''schema'', JStr ''szl.lyte.analysis-stage-output/v1''), (''stage'', JStr (sg_stage spec)),
           (''state'', JStr state), (''basis_sha256'', JStr basis), (''result'', JObj result)]"

fun bind_stages ::
  "(string \<Rightarrow> string) \<Rightarrow> truth_label \<Rightarrow> string option \<Rightarrow> string \<Rightarrow>
   (stage_spec \<times> string list) list \<Rightarrow> (string \<times> (string \<times> json) list) list \<Rightarrow> analysis_stage list res" where
  "bind_stages hx label revision inp ((spec, allowed) # specs) ((state, result) # results) =
     (let st = py_upper (strip state) in
      guard_else (st \<in> set allowed) (ValueError (''invalid state for analysis stage '' @ sg_stage spec))
     (rbind (sha256_json hx (stage_basis spec label revision inp)) (\<lambda>basis.
      rbind (sha256_json hx (stage_result spec st basis result)) (\<lambda>out.
      rbind (bind_stages hx label revision out specs results) (\<lambda>stages.
        Inr (\<lparr>as_spec = spec, as_state = st, as_input = inp, as_basis = basis, as_output = out,
              as_label = label, as_revision = revision\<rparr> # stages))))))"
| "bind_stages hx label revision inp _ _ = Inr []"

definition build_analysis_anatomy ::
  "(string \<Rightarrow> string) \<Rightarrow> string \<Rightarrow> truth_label \<Rightarrow> string option \<Rightarrow> (string \<times> (string \<times> json) list) list \<Rightarrow>
   uuid \<Rightarrow> analysis_anatomy res" where
  "build_analysis_anatomy hx inp label revision results tid =
     guard_else (length results = length analysis_stages)
       (ValueError ''analysis anatomy requires exactly nine stage results'')
    (rbind (bind_stages hx label revision inp (zip analysis_stages stage_states) results) (\<lambda>stages.
       Inr \<lparr>aa_trace_id = tid, aa_stages = stages\<rparr>))"

subsection \<open>Traces\<close>

definition stage_attributes :: "analysis_stage \<Rightarrow> (string \<times> json) list" where
  "stage_attributes s =
     [(''schema'', JStr ''szl.lyte.analysis-anatomy/v1''), (''sequence'', JInt (sg_sequence (as_spec s))),
      (''stage'', JStr (sg_stage (as_spec s))), (''stage_state'', JStr (as_state s)),
      (''basis_sha256'', JStr (as_basis s)), (''description'', JStr (sg_description (as_spec s))),
      (''source_revision'', jopt (as_revision s)), (''human_approval_required'', JBool True),
      (''can_authorize'', JBool False), (''can_execute'', JBool False), (''effectors_enabled'', JBool False)]"

fun traces_from ::
  "scope \<Rightarrow> uuid \<Rightarrow> (nat \<Rightarrow> uuid) \<Rightarrow> (nat \<Rightarrow> datetime) \<Rightarrow> nat \<Rightarrow> uuid option \<Rightarrow> analysis_stage list \<Rightarrow>
   trace list res" where
  "traces_from s tid sp clk k parent [] = Inr []"
| "traces_from s tid sp clk k parent (st # rest) =
     rbind (trace_start s (sg_organ (as_spec st)) (sg_operation (as_spec st)) (Some tid) parent (as_label st)
              (Some (as_input st)) (Some (stage_attributes st)) None tid (sp k) (clk (2 * k))) (\<lambda>started.
     rbind (trace_finish started COMPLETED None (Some (as_output st)) None None (clk (2 * k + 1))) (\<lambda>t.
     rbind (traces_from s tid sp clk (k + 1) (Some (tr_span_id t)) rest) (\<lambda>ts. Inr (t # ts))))"

definition to_traces :: "analysis_anatomy \<Rightarrow> scope \<Rightarrow> (nat \<Rightarrow> uuid) \<Rightarrow> (nat \<Rightarrow> datetime) \<Rightarrow> trace list res" where
  "to_traces a s sp clk = traces_from s (aa_trace_id a) sp clk 0 None (aa_stages a)"

definition attribute :: "json \<Rightarrow> string \<Rightarrow> json res" where
  "attribute attrs k = (case jget attrs k of None \<Rightarrow> Inl (KeyError k) | Some v \<Rightarrow> Inr v)"

definition stored_trace_to_api :: "trace_row \<Rightarrow> (string \<times> json) list res" where
  "stored_trace_to_api r =
     (let attrs = tc_attrs r in
      guard_else (is_obj attrs) (TypeError ''attributes_json is not a mapping'')
     (rbind (attribute attrs ''sequence'') (\<lambda>sequence.
      rbind (attribute attrs ''stage'') (\<lambda>stage.
      rbind (attribute attrs ''stage_state'') (\<lambda>state.
      rbind (attribute attrs ''basis_sha256'') (\<lambda>basis.
      rbind (attribute attrs ''description'') (\<lambda>description.
        Inr [(''sequence'', sequence), (''stage'', stage), (''operation'', JStr (tc_operation r)),
             (''organ'', JStr (tc_organ r)), (''state'', state), (''execution_state'', JStr (tc_state r)),
             (''input_sha256'', jopt (tc_input r)), (''basis_sha256'', basis),
             (''output_sha256'', jopt (tc_output r)), (''truth_label'', JStr (tc_label r)),
             (''source_revision'', jget_null attrs ''source_revision''), (''trace_id'', JStr (tc_trace r)),
             (''span_id'', JStr (tc_span r)), (''parent_span_id'', jopt (tc_parent r)),
             (''notes'', JList [description])])))))))"

subsection \<open>What a built anatomy is\<close>

fun digests_link :: "string \<Rightarrow> analysis_stage list \<Rightarrow> bool" where
  "digests_link inp [] \<longleftrightarrow> True"
| "digests_link inp (s # rest) \<longleftrightarrow> as_input s = inp \<and> digests_link (as_output s) rest"

lemma bind_stages_shape:
  assumes "bind_stages hx label revision inp specs results = Inr stages" "length specs = length results"
  shows "map as_spec stages = map fst specs \<and> digests_link inp stages \<and>
    (\<forall>s \<in> set stages. as_label s = label \<and> as_revision s = revision \<and>
       (\<exists>x. as_basis s = hx x) \<and> (\<exists>x. as_output s = hx x))"
  using assms
proof (induction hx label revision inp specs results arbitrary: stages rule: bind_stages.induct)
  case (1 hx label revision inp spec allowed specs state result results)
  then obtain basis out rest where st: "py_upper (strip state) \<in> set allowed"
    and b: "sha256_json hx (stage_basis spec label revision inp) = Inr basis"
    and out: "sha256_json hx (stage_result spec (py_upper (strip state)) basis result) = Inr out"
    and rest: "bind_stages hx label revision out specs results = Inr rest"
    and stages: "stages = \<lparr>as_spec = spec, as_state = py_upper (strip state), as_input = inp, as_basis = basis,
      as_output = out, as_label = label, as_revision = revision\<rparr> # rest"
    by (auto simp: Let_def guard_else_Inr_iff rbind_Inr_iff)
  have "\<exists>x. basis = hx x" "\<exists>x. out = hx x" using b out by (auto simp: sha256_json_Inr)
  moreover from "1.IH" [OF refl rest] "1.prems"(2)
  have "map as_spec rest = map fst specs \<and> digests_link out rest \<and>
    (\<forall>s \<in> set rest. as_label s = label \<and> as_revision s = revision \<and>
       (\<exists>x. as_basis s = hx x) \<and> (\<exists>x. as_output s = hx x))" by simp
  ultimately show ?case by (simp add: stages)
qed auto

lemma length_analysis_stages [simp]: "length analysis_stages = 9" "length stage_states = 9"
  by (simp_all add: analysis_stages_def stage_states_def)

lemma map_fst_stages: "map fst (zip analysis_stages stage_states) = analysis_stages"
  by (rule map_fst_zip) simp

lemma built_anatomy:
  assumes "build_analysis_anatomy hx inp label revision results tid = Inr a"
  shows "aa_trace_id a = tid" "map as_spec (aa_stages a) = analysis_stages" "digests_link inp (aa_stages a)"
    "\<forall>s \<in> set (aa_stages a). as_label s = label \<and> as_revision s = revision \<and>
       (\<exists>x. as_basis s = hx x) \<and> (\<exists>x. as_output s = hx x)"
proof -
  obtain stages where len: "length results = 9"
    and b: "bind_stages hx label revision inp (zip analysis_stages stage_states) results = Inr stages"
    and a: "a = \<lparr>aa_trace_id = tid, aa_stages = stages\<rparr>"
    using assms by (auto simp: build_analysis_anatomy_def guard_else_Inr_iff rbind_Inr_iff)
  from bind_stages_shape [OF b] len
  show "aa_trace_id a = tid" "map as_spec (aa_stages a) = analysis_stages" "digests_link inp (aa_stages a)"
    "\<forall>s \<in> set (aa_stages a). as_label s = label \<and> as_revision s = revision \<and>
       (\<exists>x. as_basis s = hx x) \<and> (\<exists>x. as_output s = hx x)"
    by (simp_all add: a map_fst_stages)
qed

subsection \<open>The traces of a built anatomy\<close>

definition stage_trace ::
  "scope \<Rightarrow> uuid \<Rightarrow> (nat \<Rightarrow> uuid) \<Rightarrow> (nat \<Rightarrow> datetime) \<Rightarrow> nat \<Rightarrow> uuid option \<Rightarrow> analysis_stage \<Rightarrow> trace" where
  "stage_trace s tid sp clk k parent st =
     \<lparr>tr_scope = s, tr_trace_id = tid, tr_span_id = sp k, tr_organ = sg_organ (as_spec st),
      tr_operation = sg_operation (as_spec st), tr_state = COMPLETED, tr_label = as_label st,
      tr_started = clk (2 * k), tr_parent = parent, tr_completed = Some (clk (2 * k + 1)),
      tr_input = Some (as_input st), tr_output = Some (as_output st), tr_attrs = stage_attributes st\<rparr>"

fun stage_traces ::
  "scope \<Rightarrow> uuid \<Rightarrow> (nat \<Rightarrow> uuid) \<Rightarrow> (nat \<Rightarrow> datetime) \<Rightarrow> nat \<Rightarrow> uuid option \<Rightarrow> analysis_stage list \<Rightarrow> trace list" where
  "stage_traces s tid sp clk k parent [] = []"
| "stage_traces s tid sp clk k parent (st # rest) =
     stage_trace s tid sp clk k parent st # stage_traces s tid sp clk (k + 1) (Some (sp k)) rest"

text \<open>A clock that tells zoned time and does not run backwards within a stage.\<close>

definition clock_ok :: "(nat \<Rightarrow> datetime) \<Rightarrow> bool" where
  "clock_ok clk \<longleftrightarrow> (\<forall>k. is_aware (clk k)) \<and> (\<forall>k. micros (clk (2 * k)) \<le> micros (clk (2 * k + 1)))"

definition stage_ok :: "analysis_stage \<Rightarrow> bool" where
  "stage_ok st \<longleftrightarrow> name_ok (sg_operation (as_spec st)) \<and> sha256_ok (as_input st) \<and> sha256_ok (as_output st)"

lemma attribute_names:
  shows "\<not> is_sensitive_key ''schema''" "\<not> is_sensitive_key ''sequence''" "\<not> is_sensitive_key ''stage''"
    "\<not> is_sensitive_key ''stage_state''" "\<not> is_sensitive_key ''basis_sha256''" "\<not> is_sensitive_key ''description''"
    "\<not> is_sensitive_key ''source_revision''" "\<not> is_sensitive_key ''human_approval_required''" "\<not> is_sensitive_key ''can_authorize''"
    "\<not> is_sensitive_key ''can_execute''" "\<not> is_sensitive_key ''effectors_enabled''"
proof -
  show "\<not> is_sensitive_key ''schema''" using snake_key [of "[''schema'']"] by (simp add: snake_simps)
  show "\<not> is_sensitive_key ''sequence''" using snake_key [of "[''sequence'']"] by (simp add: snake_simps)
  show "\<not> is_sensitive_key ''stage''" using snake_key [of "[''stage'']"] by (simp add: snake_simps)
  show "\<not> is_sensitive_key ''stage_state''" using snake_key [of "[''stage'', ''state'']"] by (simp add: snake_simps)
  show "\<not> is_sensitive_key ''basis_sha256''" using snake_key [of "[''basis'', ''sha256'']"] by (simp add: snake_simps)
  show "\<not> is_sensitive_key ''description''" using snake_key [of "[''description'']"] by (simp add: snake_simps)
  show "\<not> is_sensitive_key ''source_revision''" using snake_key [of "[''source'', ''revision'']"] by (simp add: snake_simps)
  show "\<not> is_sensitive_key ''human_approval_required''" using snake_key [of "[''human'', ''approval'', ''required'']"] by (simp add: snake_simps)
  show "\<not> is_sensitive_key ''can_authorize''" using snake_key [of "[''can'', ''authorize'']"] by (simp add: snake_simps)
  show "\<not> is_sensitive_key ''can_execute''" using snake_key [of "[''can'', ''execute'']"] by (simp add: snake_simps)
  show "\<not> is_sensitive_key ''effectors_enabled''" using snake_key [of "[''effectors'', ''enabled'']"] by (simp add: snake_simps)
qed

lemma attribute_keys: "\<forall>k \<in> json_keys (JObj (stage_attributes st)). \<not> is_sensitive_key k"
  by (cases "as_revision st") (simp_all add: stage_attributes_def jopt_def attribute_names)

lemma traces_from_eq:
  assumes "clock_ok clk" "\<forall>st \<in> set stages. stage_ok st"
  shows "traces_from s tid sp clk k parent stages = Inr (stage_traces s tid sp clk k parent stages)"
  using assms(2)
proof (induction stages arbitrary: k parent)
  case (Cons st rest)
  let ?t = "stage_trace s tid sp clk k parent st"
  let ?started = "?t\<lparr>tr_state := STARTED, tr_completed := None, tr_output := None\<rparr>"
  have ok: "name_ok (sg_operation (as_spec st))" "sha256_ok (as_input st)" "sha256_ok (as_output st)"
    using Cons.prems by (simp_all add: stage_ok_def)
  have clk: "is_aware (clk (2 * k))" "is_aware (clk (2 * k + 1))" "micros (clk (2 * k)) \<le> micros (clk (2 * k + 1))"
    using assms(1) by (simp_all add: clock_ok_def)
  have "trace_ok ?started" "trace_ok ?t"
    using ok clk attribute_keys by (simp_all add: trace_ok_def stage_trace_def opt_digest_ok_def)
  then have "mk_trace ?started = Inr ?started" "mk_trace ?t = Inr ?t" by (simp_all add: mk_trace_Inr_iff)
  then have "trace_start s (sg_organ (as_spec st)) (sg_operation (as_spec st)) (Some tid) parent (as_label st)
      (Some (as_input st)) (Some (stage_attributes st)) None tid (sp k) (clk (2 * k)) = Inr ?started"
    "trace_finish ?started COMPLETED None (Some (as_output st)) None None (clk (2 * k + 1)) = Inr ?t"
    by (simp_all add: trace_start_def trace_finish_def or_else_def stage_trace_def merge_dict_def)
  moreover have "tr_span_id ?t = sp k" by (simp add: stage_trace_def)
  ultimately show ?case using Cons by simp
qed simp

lemma stage_operations: "\<forall>spec \<in> set analysis_stages. name_ok (sg_operation spec)"
  by code_simp

lemma hex64_sha256_ok:
  assumes "is_hex64 s"
  shows "sha256_ok s"
proof -
  have "lower_hex c" if "is_digit c \<or> c \<in> set ''abcdef''" for c
    using that by (auto simp: lower_hex_def code_def)
  then show ?thesis using assms unfolding is_hex64_def sha256_ok_def list_all_iff by blast
qed

lemma digests_link_ok:
  "digests_link inp stages \<Longrightarrow> sha256_ok inp \<Longrightarrow> \<forall>s \<in> set stages. sha256_ok (as_output s) \<Longrightarrow>
   \<forall>s \<in> set stages. sha256_ok (as_input s)"
  by (induction stages arbitrary: inp) auto

lemma built_stages_ok:
  assumes "build_analysis_anatomy hx inp label revision results tid = Inr a"
    and "hex_digest hx" "is_hex64 inp"
  shows "\<forall>st \<in> set (aa_stages a). stage_ok st"
proof -
  note b = built_anatomy [OF assms(1)]
  have hex: "sha256_ok (hx x)" for x using assms(2) hex64_sha256_ok by (simp add: hex_digest_def)
  then have out: "\<forall>s \<in> set (aa_stages a). sha256_ok (as_output s)" using b(4) by auto
  have "as_spec st \<in> set analysis_stages" if "st \<in> set (aa_stages a)" for st
    unfolding b(2) [symmetric] using that by simp
  then show ?thesis
    using digests_link_ok [OF b(3) hex64_sha256_ok [OF assms(3)] out] out stage_operations by (simp add: stage_ok_def)
qed

lemma to_traces_eq:
  assumes "build_analysis_anatomy hx inp label revision results tid = Inr a"
    and "hex_digest hx" "is_hex64 inp" "clock_ok clk"
  shows "to_traces a s sp clk = Inr (stage_traces s tid sp clk 0 None (aa_stages a))"
  unfolding to_traces_def built_anatomy(1) [OF assms(1)]
  by (rule traces_from_eq [OF assms(4) built_stages_ok [OF assms(1-3)]])

subsection \<open>Traces fit the bundle\<close>

lemma stage_traces_facts:
  "length (stage_traces s tid sp clk k parent stages) = length stages"
  "\<forall>t \<in> set (stage_traces s tid sp clk k parent stages). tr_trace_id t = tid \<and> tr_scope t = s"
  "map tr_attrs (stage_traces s tid sp clk k parent stages) = map stage_attributes stages"
  "map tr_label (stage_traces s tid sp clk k parent stages) = map as_label stages"
  "map tr_input (stage_traces s tid sp clk k parent stages) = map (\<lambda>st. Some (as_input st)) stages"
  "stages \<noteq> [] \<Longrightarrow> tr_parent (hd (stage_traces s tid sp clk k parent stages)) = parent"
  by (induction stages arbitrary: k parent) (auto simp: stage_trace_def)

lemma stage_traces_link:
  "digests_link inp stages \<Longrightarrow> draft_links (stage_traces s tid sp clk k parent stages)"
proof (induction stages arbitrary: k parent inp)
  case (Cons st rest)
  then show ?case
    using Cons.IH [of "as_output st" "k + 1" "Some (sp k)"] by (cases rest) (auto simp: stage_trace_def)
qed simp

lemma sovereign_stage: "sovereign (stage_trace s tid sp clk k parent st)"
  by (simp add: sovereign_def stage_trace_def stage_attributes_def jget_null_def Let_def)

lemma stage_traces_sovereign: "list_all sovereign (stage_traces s tid sp clk k parent stages)"
  by (induction stages arbitrary: k parent) (simp_all add: sovereign_stage)

lemma stage_traces_numbers:
  "map as_spec stages = analysis_stages \<Longrightarrow>
   rmap stage_number (stage_traces s tid sp clk k parent stages) = Inr stage_numbers"
proof -
  assume "map as_spec stages = analysis_stages"
  then have "map sg_sequence (map as_spec stages) = stage_numbers"
    by (simp add: analysis_stages_def stage_numbers_def)
  moreover have "rmap stage_number (stage_traces s tid sp clk k parent stages) =
      Inr (map (\<lambda>st. sg_sequence (as_spec st)) stages)"
    by (induction stages arbitrary: k parent)
       (simp_all add: stage_number_def stage_trace_def stage_attributes_def)
  ultimately show ?thesis by (simp add: comp_def)
qed

lemma stage_traces_writable:
  assumes "clock_ok clk"
  shows "\<forall>t \<in> set (stage_traces s tid sp clk k parent stages). trace_writable t"
proof -
  have "\<exists>x. canonical_json (JObj (stage_attributes st)) = Inr x" for st
    by (rule canonical_json_total) (cases "as_revision st"; simp add: stage_attributes_def jopt_def)
  moreover have "is_aware (clk n)" for n using assms by (simp add: clock_ok_def)
  ultimately show ?thesis
    by (induction stages arbitrary: k parent) (simp_all add: trace_writable_def stage_trace_def)
qed

text \<open>The entry of one stage in the digest of the anatomy.\<close>

definition stage_entry :: "analysis_stage \<Rightarrow> json" where
  "stage_entry st = JObj
     [(''sequence'', JInt (sg_sequence (as_spec st))), (''stage'', JStr (sg_stage (as_spec st))),
      (''state'', JStr (as_state st)), (''input_sha256'', JStr (as_input st)),
      (''basis_sha256'', JStr (as_basis st)), (''output_sha256'', JStr (as_output st))]"

lemma stage_traces_entries:
  "map stage_draft_json (stage_traces s tid sp clk k parent stages) = map stage_entry stages"
  by (induction stages arbitrary: k parent)
     (simp_all add: stage_draft_json_def stage_entry_def stage_trace_def stage_attributes_def jget_null_def jopt_def)

subsection \<open>What the last digest says\<close>

text \<open>The texts that building an anatomy hashes.\<close>

fun hashed_texts ::
  "(string \<Rightarrow> string) \<Rightarrow> analysis_stage list \<Rightarrow> (string \<times> (string \<times> json) list) list \<Rightarrow> string set" where
  "hashed_texts hx (s # stages) ((state, result) # results) =
     {x. canonical_json (stage_basis (as_spec s) (as_label s) (as_revision s) (as_input s)) = Inr x \<or>
         canonical_json (stage_result (as_spec s) (as_state s) (as_basis s) result) = Inr x} \<union>
     hashed_texts hx stages results"
| "hashed_texts hx _ _ = {}"

definition same_stage :: "(string \<times> (string \<times> json) list) \<times> analysis_stage \<Rightarrow> (string \<times> (string \<times> json) list) \<times> analysis_stage \<Rightarrow> bool" where
  "same_stage x y \<longleftrightarrow> as_state (snd x) = as_state (snd y) \<and> sort_keys (JObj (snd (fst x))) = sort_keys (JObj (snd (fst y)))"

text \<open>Equal digests of two hashed values are equal values or a collision of their texts.\<close>

lemma sha_eq_cases:
  assumes "sha256_json hx a = Inr d" "sha256_json hx b = Inr d"
  obtains (same) "sort_keys a = sort_keys b"
  | (collide) x y where "canonical_json a = Inr x" "canonical_json b = Inr y" "collision hx x y"
proof -
  obtain x y where xy: "canonical_json a = Inr x" "canonical_json b = Inr y" "hx x = hx y"
    using assms unfolding sha256_json_Inr by metis
  show thesis
  proof (cases "x = y")
    case True
    then show thesis using xy canonical_json_inj same by blast
  next
    case False
    then show thesis using xy collide by (simp add: collision_def)
  qed
qed

lemma sort_keys_field:
  assumes "sort_keys (JObj a) = sort_keys (JObj b)"
  shows "map_option sort_keys (alookup a k) = map_option sort_keys (alookup b k)"
  using jget_sort_keys [of a k] jget_sort_keys [of b k] assms by (simp del: sort_keys.simps)

lemma same_basis_fields:
  assumes "sort_keys (stage_basis spec label revision inp) = sort_keys (stage_basis spec' label' revision' inp')"
  shows "inp = inp'" "label = label'" "revision = revision'"
proof -
  note f = sort_keys_field [OF assms [unfolded stage_basis_def]]
  show "inp = inp'" using f [of "''input_sha256''"] by simp
  show "label = label'" using f [of "''truth_label''"] by simp
  show "revision = revision'" using f [of "''source_revision''"] by (cases revision; cases revision') (simp_all add: jopt_def)
qed

lemma same_result_fields:
  assumes "sort_keys (stage_result spec state basis result) = sort_keys (stage_result spec' state' basis' result')"
  shows "state = state'" "basis = basis'" "sort_keys (JObj result) = sort_keys (JObj result')"
proof -
  note f = sort_keys_field [OF assms [unfolded stage_result_def]]
  show "state = state'" using f [of "''state''"] by simp
  show "basis = basis'" using f [of "''basis_sha256''"] by simp
  show "sort_keys (JObj result) = sort_keys (JObj result')" using f [of "''result''"] by simp
qed

fun final_digest :: "string \<Rightarrow> analysis_stage list \<Rightarrow> string" where
  "final_digest d [] = d"
| "final_digest d (s # rest) = final_digest (as_output s) rest"

lemma final_digest_fixes:
  assumes "bind_stages hx label revision inp specs results = Inr stages"
    and "bind_stages hx label' revision' inp' specs results' = Inr stages'"
    and "length specs = length results" "length specs = length results'"
    and "final_digest inp stages = final_digest inp' stages'"
    and "\<not> (\<exists>x \<in> hashed_texts hx stages results. \<exists>y \<in> hashed_texts hx stages' results'. collision hx x y)"
  shows "inp = inp' \<and> (specs \<noteq> [] \<longrightarrow> label = label' \<and> revision = revision') \<and>
    list_all2 same_stage (zip results stages) (zip results' stages')"
  using assms
proof (induction specs arbitrary: inp inp' results results' stages stages')
  case (Cons sp specs)
  obtain spec allowed where sp: "sp = (spec, allowed)" by (cases sp)
  obtain state result rest where r: "results = (state, result) # rest" using Cons.prems(3) by (cases results) auto
  obtain state' result' rest' where r': "results' = (state', result') # rest'" using Cons.prems(4) by (cases results') auto
  obtain b out ss where b: "sha256_json hx (stage_basis spec label revision inp) = Inr b"
    and out: "sha256_json hx (stage_result spec (py_upper (strip state)) b result) = Inr out"
    and ss: "bind_stages hx label revision out specs rest = Inr ss"
    and stages: "stages = \<lparr>as_spec = spec, as_state = py_upper (strip state), as_input = inp, as_basis = b,
      as_output = out, as_label = label, as_revision = revision\<rparr> # ss"
    using Cons.prems(1) by (auto simp: sp r Let_def guard_else_Inr_iff rbind_Inr_iff)
  obtain b' out' ss' where b': "sha256_json hx (stage_basis spec label' revision' inp') = Inr b'"
    and out': "sha256_json hx (stage_result spec (py_upper (strip state')) b' result') = Inr out'"
    and ss': "bind_stages hx label' revision' out' specs rest' = Inr ss'"
    and stages': "stages' = \<lparr>as_spec = spec, as_state = py_upper (strip state'), as_input = inp', as_basis = b',
      as_output = out', as_label = label', as_revision = revision'\<rparr> # ss'"
    using Cons.prems(2) by (auto simp: sp r' Let_def guard_else_Inr_iff rbind_Inr_iff)
  have none: "\<not> collision hx x y" if "x \<in> hashed_texts hx stages results" "y \<in> hashed_texts hx stages' results'" for x y
    using Cons.prems(6) that by blast
  have ih: "out = out' \<and> (specs \<noteq> [] \<longrightarrow> label = label' \<and> revision = revision') \<and>
      list_all2 same_stage (zip rest ss) (zip rest' ss')"
  proof (rule Cons.IH [OF ss ss'])
    show "\<not> (\<exists>x \<in> hashed_texts hx ss rest. \<exists>y \<in> hashed_texts hx ss' rest'. collision hx x y)"
      using none by (auto simp: stages stages' r r')
  qed (use Cons.prems in \<open>simp_all add: r r' stages stages'\<close>)
  then have out_eq: "out' = out" by simp
  have sorted_result: "sort_keys (stage_result spec (py_upper (strip state)) b result) =
      sort_keys (stage_result spec (py_upper (strip state')) b' result')"
    using out out' [unfolded out_eq]
  proof (cases rule: sha_eq_cases)
    case (collide x y)
    then have "x \<in> hashed_texts hx stages results" "y \<in> hashed_texts hx stages' results'"
      by (simp_all add: stages stages' r r')
    then show ?thesis using none collide by blast
  qed
  note result = same_result_fields [OF sorted_result]
  have sorted_basis: "sort_keys (stage_basis spec label revision inp) = sort_keys (stage_basis spec label' revision' inp')"
    using b b' [folded result(2)]
  proof (cases rule: sha_eq_cases)
    case (collide x y)
    then have "x \<in> hashed_texts hx stages results" "y \<in> hashed_texts hx stages' results'"
      by (simp_all add: stages stages' r r')
    then show ?thesis using none collide by blast
  qed
  note basis = same_basis_fields [OF sorted_basis]
  have "same_stage ((state, result), hd stages) ((state', result'), hd stages')"
    using result by (simp add: stages stages' same_stage_def del: sort_keys.simps)
  then show ?case using ih basis by (simp add: stages stages' r r')
qed auto

subsection \<open>The rows of an anatomy\<close>

lemma length_built_stages:
  assumes "build_analysis_anatomy hx inp label revision results tid = Inr a"
  shows "length (aa_stages a) = 9"
  using arg_cong [OF built_anatomy(2) [OF assms], of length] by simp

lemma stage_traces_nth:
  "j < length stages \<Longrightarrow> stage_traces s tid sp clk k parent stages ! j =
    stage_trace s tid sp clk (k + j) (if j = 0 then parent else Some (sp (k + j - 1))) (stages ! j)"
  by (induction stages arbitrary: k parent j) (auto simp: nth_Cons split: nat.split)

lemma row_to_api:
  assumes "trace_record hx s n prev t (stage_trace s tid sp clk k parent st) u = Inr r"
  shows "stored_trace_to_api r = Inr
    (take 12 (stage_to_api tid st) @
     [(''span_id'', JStr (uuid_str (sp k))), (''parent_span_id'', jopt (map_option uuid_str parent))] @
     drop 12 (stage_to_api tid st))"
proof -
  obtain b where r: "r = row.extend b (trace_row.fields (uuid_str tid) (uuid_str (sp k))
      (map_option uuid_str parent) (organ_value (sg_organ (as_spec st))) (sg_operation (as_spec st))
      (trace_state_value COMPLETED) (label_value (as_label st)) (clk (2 * k)) (Some (clk (2 * k + 1)))
      (Some (as_input st)) (Some (as_output st)) (JObj (stage_attributes st)))"
    using assms by (auto simp: trace_record_def rbind_Inr_iff stage_trace_def)
  have f: "tc_trace r = uuid_str tid" "tc_span r = uuid_str (sp k)" "tc_parent r = map_option uuid_str parent"
    "tc_organ r = organ_value (sg_organ (as_spec st))" "tc_operation r = sg_operation (as_spec st)"
    "tc_state r = trace_state_value COMPLETED" "tc_label r = label_value (as_label st)"
    "tc_input r = Some (as_input st)" "tc_output r = Some (as_output st)" "tc_attrs r = JObj (stage_attributes st)"
    by (simp_all add: r row.defs trace_row.defs)
  show ?thesis
    by (simp add: stored_trace_to_api_def f attribute_def stage_attributes_def jget_null_def stage_to_api_def jopt_def)
qed

subsection \<open>Properties\<close>

text \<open>C25: What is stored of a stage is what was run.  The rows written for the traces of a built
  anatomy, read back by \<open>stored\_trace\_to\_api\<close>, give for each of the nine stages exactly the
  fields of \<open>AnalysisStage.to\_api\<close> and the span identifiers, each stage naming the span of the
  one before as its parent.\<close>

theorem stored_stages_roundtrip:
  assumes "build_analysis_anatomy hx inp label revision results tid = Inr a"
    and "hex_digest hx" "is_hex64 inp" "clock_ok clk"
    and "to_traces a s sp clk = Inr traces" "trace_records hx s n prev t us traces = Inr rows"
  shows "length rows = 9 \<and> (\<forall>j < 9. stored_trace_to_api (rows ! j) = Inr
    (take 12 (stage_to_api tid (aa_stages a ! j)) @
     [(''span_id'', JStr (uuid_str (sp j))),
      (''parent_span_id'', if j = 0 then JNull else JStr (uuid_str (sp (j - 1))))] @
     drop 12 (stage_to_api tid (aa_stages a ! j))))"
proof -
  have len: "length (aa_stages a) = 9" by (rule length_built_stages [OF assms(1)])
  have ts: "traces = stage_traces s tid sp clk 0 None (aa_stages a)"
    using to_traces_eq [OF assms(1-4)] assms(5) by simp
  have w: "list_all2 (\<lambda>tr r. \<exists>n prev u. trace_record hx s n prev t tr u = Inr r) traces rows"
    using trace_records_rows [OF assms(6)] by blast
  have rows: "length rows = 9" using list_all2_lengthD [OF w] by (simp add: ts stage_traces_facts(1) len)
  have "stored_trace_to_api (rows ! j) = Inr
    (take 12 (stage_to_api tid (aa_stages a ! j)) @
     [(''span_id'', JStr (uuid_str (sp j))),
      (''parent_span_id'', if j = 0 then JNull else JStr (uuid_str (sp (j - 1))))] @
     drop 12 (stage_to_api tid (aa_stages a ! j)))" if j: "j < 9" for j
  proof -
    obtain n prev u where "trace_record hx s n prev t (traces ! j) u = Inr (rows ! j)"
      using list_all2_nthD2 [OF w, of j] j rows by auto
    then have "trace_record hx s n prev t
        (stage_trace s tid sp clk j (if j = 0 then None else Some (sp (j - 1))) (aa_stages a ! j)) u = Inr (rows ! j)"
      using j len by (cases j) (simp_all add: ts stage_traces_nth)
    from row_to_api [OF this] show ?thesis by (simp add: jopt_def)
  qed
  then show ?thesis using rows by blast
qed

text \<open>C24: The last digest fixes the whole analysis.  Two anatomies whose last stages have the same
  output digest have the same input digest, truth label and source revision, and in every stage
  the same state and the same result up to the order of its keys, unless two different texts that
  building them hashed collide.\<close>

theorem anatomy_digest_fixes_stages:
  assumes "build_analysis_anatomy hx inp label revision results tid = Inr a"
    and "build_analysis_anatomy hx inp' label' revision' results' tid' = Inr a'"
    and "final_digest inp (aa_stages a) = final_digest inp' (aa_stages a')"
    and "\<not> (\<exists>x \<in> hashed_texts hx (aa_stages a) results. \<exists>y \<in> hashed_texts hx (aa_stages a') results'. collision hx x y)"
  shows "inp = inp' \<and> label = label' \<and> revision = revision' \<and>
    list_all2 same_stage (zip results (aa_stages a)) (zip results' (aa_stages a'))"
proof -
  obtain stages where b: "bind_stages hx label revision inp (zip analysis_stages stage_states) results = Inr stages"
    and len: "length results = 9" and a: "aa_stages a = stages"
    using assms(1) by (auto simp: build_analysis_anatomy_def guard_else_Inr_iff rbind_Inr_iff)
  obtain stages' where b': "bind_stages hx label' revision' inp' (zip analysis_stages stage_states) results' = Inr stages'"
    and len': "length results' = 9" and a': "aa_stages a' = stages'"
    using assms(2) by (auto simp: build_analysis_anatomy_def guard_else_Inr_iff rbind_Inr_iff)
  have "zip analysis_stages stage_states \<noteq> []" by (metis length_zip length_analysis_stages list.size(3) min.idem zero_neq_numeral)
  then show ?thesis
    using final_digest_fixes [OF b b'] assms(3,4) len len' by (simp add: a a')
qed

subsection \<open>Examples\<close>

definition example_results :: "(string \<times> (string \<times> json) list) list" where
  "example_results = map (\<lambda>st. (st, []))
     [''observed'', '' VALIDATED '', ''BOUND'', ''PARTIAL'', ''ENFORCED'', ''ABSTAIN'', ''PARTIAL'', ''PERSISTED'', ''APPENDED'']"

definition example_clock :: "nat \<Rightarrow> datetime" where
  "example_clock k = Aware (int k)"

lemma example_clock_ok: "clock_ok example_clock"
  by (simp add: clock_ok_def example_clock_def)

lemma bind_stages_ok:
  assumes "list_all2 (\<lambda>spec res. py_upper (strip (fst res)) \<in> set (snd spec)) specs results"
    and "\<forall>res \<in> set results. \<exists>x. canonical_json (JObj (snd res)) = Inr x"
  shows "\<exists>stages. bind_stages hx label revision inp specs results = Inr stages"
  using assms
proof (induction arbitrary: inp rule: list_all2_induct)
  case (Cons spec specs res results)
  obtain sp allowed st result where c: "spec = (sp, allowed)" "res = (st, result)" by fastforce
  have "\<exists>x. canonical_json (stage_basis sp label revision inp) = Inr x"
    by (cases revision; intro canonical_json_total) (simp_all add: stage_basis_def jopt_def)
  then obtain b where b: "sha256_json hx (stage_basis sp label revision inp) = Inr b"
    by (auto simp: sha256_json_Inr)
  have "\<exists>x. canonical_json (stage_result sp (py_upper (strip st)) b result) = Inr x"
    using Cons.prems unfolding canonical_json_ok_iff by (simp add: c stage_result_def)
  then obtain out where out: "sha256_json hx (stage_result sp (py_upper (strip st)) b result) = Inr out"
    by (auto simp: sha256_json_Inr)
  obtain stages where "bind_stages hx label revision out specs results = Inr stages" using Cons by fastforce
  then show ?case using Cons.hyps b out by (simp add: c Let_def)
qed simp

lemma build_ok:
  assumes "list_all2 (\<lambda>states res. py_upper (strip (fst res)) \<in> set states) stage_states results"
    and "\<forall>res \<in> set results. \<exists>x. canonical_json (JObj (snd res)) = Inr x"
  shows "\<exists>stages. build_analysis_anatomy hx inp label revision results = (\<lambda>tid. Inr \<lparr>aa_trace_id = tid, aa_stages = stages\<rparr>)"
proof -
  have len: "length results = 9" using list_all2_lengthD [OF assms(1)] by simp
  have "list_all2 (\<lambda>spec res. py_upper (strip (fst res)) \<in> set (snd spec)) (zip analysis_stages stage_states) results"
    using assms(1) len by (simp add: list_all2_conv_all_nth)
  from bind_stages_ok [OF this assms(2)]
  obtain stages where "bind_stages hx label revision inp (zip analysis_stages stage_states) results = Inr stages" by blast
  then show ?thesis by (auto simp: build_analysis_anatomy_def len fun_eq_iff)
qed

lemma example_builds:
  "\<exists>stages. build_analysis_anatomy hx inp label revision example_results = (\<lambda>tid. Inr \<lparr>aa_trace_id = tid, aa_stages = stages\<rparr>)"
proof (rule build_ok)
  show "list_all2 (\<lambda>states res. py_upper (strip (fst res)) \<in> set states) stage_states example_results" by code_simp
  have "\<exists>x. canonical_json (JObj []) = Inr x" by (rule canonical_json_total) simp
  then show "\<forall>res \<in> set example_results. \<exists>x. canonical_json (JObj (snd res)) = Inr x"
    by (simp add: example_results_def)
qed

lemma example_built:
  "\<exists>stages. \<forall>tid. build_analysis_anatomy hx inp label revision example_results tid = Inr \<lparr>aa_trace_id = tid, aa_stages = stages\<rparr>"
  using example_builds [of hx inp label revision] by auto

definition example_hash :: "string \<Rightarrow> string" where
  "example_hash x = replicate 64 (if x = [] then CHR ''a'' else CHR ''b'')"

lemma example_hash_hex: "hex_digest example_hash" "is_hex64 (example_hash [])"
proof -
  have "is_hex64 (example_hash x)" for x by (simp add: example_hash_def is_hex64_def list_all_iff)
  then show "hex_digest example_hash" "is_hex64 (example_hash [])" by (simp_all add: hex_digest_def)
qed

lemma example_ids_zero: "example_ids 0 = 0"
  by (simp add: example_ids_def)

theorem stored_stages_roundtrip_witness:
  "\<exists>stages traces rows.
     build_analysis_anatomy example_hash (example_hash []) MEASURED None example_results 7 =
       Inr \<lparr>aa_trace_id = 7, aa_stages = stages\<rparr> \<and>
     to_traces \<lparr>aa_trace_id = 7, aa_stages = stages\<rparr> example_scope example_ids example_clock = Inr traces \<and>
     trace_records example_hash example_scope 1 None (Aware 50) example_ids traces = Inr rows \<and>
     length rows = 9 \<and> stored_trace_to_api (rows ! 0) = Inr
       (take 12 (stage_to_api 7 (stages ! 0)) @
        [(''span_id'', JStr (uuid_str 0)), (''parent_span_id'', JNull)] @ drop 12 (stage_to_api 7 (stages ! 0)))"
proof -
  obtain stages where b: "build_analysis_anatomy example_hash (example_hash []) MEASURED None example_results 7 =
      Inr \<lparr>aa_trace_id = 7, aa_stages = stages\<rparr>"
    using example_built [of example_hash "example_hash []" MEASURED None] by blast
  let ?a = "\<lparr>aa_trace_id = 7, aa_stages = stages\<rparr>"
  let ?ts = "stage_traces example_scope 7 example_ids example_clock 0 None stages"
  have ts: "to_traces ?a example_scope example_ids example_clock = Inr ?ts"
    using to_traces_eq [OF b example_hash_hex example_clock_ok] by simp
  obtain rows where rows: "trace_records example_hash example_scope 1 None (Aware 50) example_ids ?ts = Inr rows"
    using trace_records_total [OF stage_traces_writable [OF example_clock_ok], of "Aware 50"] by fastforce
  note stored = stored_stages_roundtrip [OF b example_hash_hex example_clock_ok ts rows]
  have "length rows = 9 \<and> stored_trace_to_api (rows ! 0) = Inr
       (take 12 (stage_to_api 7 (stages ! 0)) @
        [(''span_id'', JStr (uuid_str 0)), (''parent_span_id'', JNull)] @ drop 12 (stage_to_api 7 (stages ! 0)))"
    using conjunct1 [OF stored] conjunct2 [OF stored, rule_format, of 0] by (simp add: example_ids_zero)
  with b ts rows show ?thesis by blast
qed

theorem anatomy_digest_fixes_stages_witness:
  "\<exists>a a'. build_analysis_anatomy id ''request'' MEASURED None example_results 1 = Inr a \<and>
     build_analysis_anatomy id ''request'' MEASURED None example_results 2 = Inr a' \<and>
     list_all2 same_stage (zip example_results (aa_stages a)) (zip example_results (aa_stages a'))"
proof -
  obtain stages where
    b: "build_analysis_anatomy id ''request'' MEASURED None example_results 1 = Inr \<lparr>aa_trace_id = 1, aa_stages = stages\<rparr>"
      "build_analysis_anatomy id ''request'' MEASURED None example_results 2 = Inr \<lparr>aa_trace_id = 2, aa_stages = stages\<rparr>"
    using example_built [of id "''request''" MEASURED None] by blast
  from anatomy_digest_fixes_stages [OF b] b show ?thesis by (auto simp: collision_def)
qed

end
