(* ===== verification/Formulas.thy ===== *)
theory Formulas
  imports Truth
begin

section \<open>Evidence-labelled formulas (lyte/domain/formulas.py)\<close>

text \<open>
  A numeric argument is what the caller passes: an \<open>int\<close>, a \<open>float\<close> or (refused) a
  \<open>bool\<close>; \<open>None\<close> is a missing input.  All arithmetic is binary64 (theory Binary64).
  \<open>fr\_make\<close> is the \<open>FormulaResult\<close> constructor with its checks, and \<open>fr\_ok\<close> the
  invariant it establishes.  \<open>math.exp\<close> and \<open>math.log\<close> come from the C library, which
  rounds them in its own way: they are the parameters \<open>lexp\<close> and \<open>llog\<close> of
  \<open>lambda\_advisory\<close>, applied only where Python does not raise.
\<close>

datatype pynum = PInt int | PFloat pyfloat | PBool bool

datatype input =
    InNum "pynum option"
  | InStr "string option"
  | InNums "pynum list option"
  | InFloats "(string \<times> pyfloat option) list"

record formula_result =
  fr_name :: string
  fr_value :: "pyfloat option"
  fr_label :: truth_label
  fr_expression :: string
  fr_unit :: string
  fr_inputs :: "(string \<times> input) list"
  fr_reason :: "string option"
  fr_proof :: string
  fr_can_authorize :: bool

abbreviation executable_definition :: string where
  "executable_definition \<equiv> ''EXECUTABLE_DEFINITION''"

definition fr_make ::
  "string \<Rightarrow> pyfloat option \<Rightarrow> truth_label \<Rightarrow> string \<Rightarrow> string \<Rightarrow> (string \<times> input) list \<Rightarrow>
   string option \<Rightarrow> string \<Rightarrow> bool \<Rightarrow> formula_result res" where
  "fr_make name v l expression unit inputs reason proof can_authorize =
     guard_else (strip unit \<noteq> []) (ValueError ''formula unit metadata is required'')
    (rbind
      (if l = UNAVAILABLE then
         (if v \<noteq> None then Inl (ValueError ''UNAVAILABLE formula values must be null'')
          else if norm_reason reason = None
               then Inl (ValueError ''UNAVAILABLE formula values require a reason'')
          else Inr ())
       else case v of
              None \<Rightarrow> Inl (ValueError ''available formula values must be finite'')
            | Some x \<Rightarrow> if isfinite x then Inr ()
                        else Inl (ValueError ''available formula values must be finite''))
      (\<lambda>_. guard_else (\<not> can_authorize) (ValueError ''Lyte formulas cannot authorize actions'')
        (Inr \<lparr>fr_name = name, fr_value = v, fr_label = l, fr_expression = expression,
              fr_unit = unit, fr_inputs = inputs, fr_reason = reason, fr_proof = proof,
              fr_can_authorize = can_authorize\<rparr>)))"

definition fr_available :: "formula_result \<Rightarrow> bool" where
  "fr_available r = (fr_label r \<noteq> UNAVAILABLE)"

definition fr_ok :: "formula_result \<Rightarrow> bool" where
  "fr_ok r \<longleftrightarrow>
     (fr_available r \<longleftrightarrow> (\<exists>q. fr_value r = Some (Fin q))) \<and>
     (\<not> fr_available r \<longrightarrow> fr_value r = None \<and> norm_reason (fr_reason r) \<noteq> None) \<and>
     strip (fr_unit r) \<noteq> [] \<and> \<not> fr_can_authorize r"

lemma fr_make_ok: "fr_make n v l e u i r p c = Inr f \<Longrightarrow> fr_ok f"
  by (auto simp: fr_make_def fr_ok_def fr_available_def res_simps isfinite_iff
           split: if_splits option.splits)

lemma fr_make_fields:
  "fr_make n v l e u i r p c = Inr f \<Longrightarrow>
     fr_name f = n \<and> fr_value f = v \<and> fr_label f = l \<and> fr_reason f = r \<and> fr_inputs f = i"
  by (auto simp: fr_make_def res_simps)

lemma fr_make_finite [simp]:
  "l \<noteq> UNAVAILABLE \<Longrightarrow> strip u \<noteq> [] \<Longrightarrow>
     fr_make n (Some (Fin q)) l e u i r p False =
       Inr \<lparr>fr_name = n, fr_value = Some (Fin q), fr_label = l, fr_expression = e, fr_unit = u,
            fr_inputs = i, fr_reason = r, fr_proof = p, fr_can_authorize = False\<rparr>"
  by (simp add: fr_make_def)

subsection \<open>Argument checks\<close>

definition finite_arg :: "pynum \<Rightarrow> string \<Rightarrow> rat option \<Rightarrow> pyfloat res" where
  "finite_arg value name minimum =
     (case value of
        PBool _ \<Rightarrow> Inl (ValueError (name @ '' must be numeric, not boolean''))
      | _ \<Rightarrow>
        rbind (case value of PInt i \<Rightarrow> float_of_int i | PFloat x \<Rightarrow> Inr x | PBool b \<Rightarrow> Inr (Fin 0))
          (\<lambda>number.
            if \<not> isfinite number then Inl (ValueError (name @ '' must be finite''))
            else case minimum of
                   None \<Rightarrow> Inr number
                 | Some m \<Rightarrow> if flt number (Fin m)
                              then Inl (ValueError (name @ '' must be at least '' @ the (float_repr m)))
                              else Inr number))"

definition count_arg :: "pynum \<Rightarrow> string \<Rightarrow> int res" where
  "count_arg value name =
     (case value of
        PBool _ \<Rightarrow> Inl (ValueError (name @ '' must be numeric, not boolean''))
      | PFloat _ \<Rightarrow> Inl (ValueError (name @ '' must be an integer''))
      | PInt i \<Rightarrow> if i < 0 then Inl (ValueError (name @ '' must be non-negative'')) else Inr i)"

definition missing_keys :: "(string \<times> input) list \<Rightarrow> string list" where
  "missing_keys inputs =
     map fst (filter (\<lambda>kv. snd kv = InNum None \<or> snd kv = InStr None) inputs)"

definition fr_unavailable ::
  "string \<Rightarrow> string \<Rightarrow> (string \<times> input) list \<Rightarrow> string list \<Rightarrow> string \<Rightarrow> string \<Rightarrow>
   formula_result res" where
  "fr_unavailable name expression inputs missing unit proof =
     fr_make name None UNAVAILABLE expression unit inputs
       (Some (''missing required input(s): '' @ join '', '' (sort missing))) proof False"

lemma missing_reason [simp]: "norm_reason (Some (''missing required input(s): '' @ s)) \<noteq> None"
  using strip_nonblank [of "CHR ''m''" "''missing required input(s): '' @ s"]
  by (simp add: norm_reason_def py_isspace_def code_def)

lemma fr_unavailable_result:
  "strip unit \<noteq> [] \<Longrightarrow> \<exists>f. fr_unavailable n e i m unit p = Inr f \<and> fr_label f = UNAVAILABLE"
  using missing_reason by (simp add: fr_unavailable_def fr_make_def)

lemma finite_arg_Inr:
  "finite_arg v n m = Inr x \<Longrightarrow> \<exists>q. x = Fin q \<and> (\<forall>b. m = Some b \<longrightarrow> b \<le> q)"
  by (auto simp: finite_arg_def res_simps isfinite_iff split: pynum.splits if_splits option.splits)

lemma count_arg_Inr: "count_arg v n = Inr i \<longleftrightarrow> v = PInt i \<and> 0 \<le> i"
  by (auto simp: count_arg_def split: pynum.splits if_splits)

text \<open>Floats in the arguments of a formula are floats.\<close>

definition wf_num :: "pynum option \<Rightarrow> bool" where
  "wf_num v = (case v of Some (PFloat x) \<Rightarrow> wf_float x | _ \<Rightarrow> True)"

lemma finite_arg_f64:
  assumes "finite_arg v n m = Inr (Fin q)" "wf_num (Some v)"
  shows "f64 q"
proof (cases v)
  case (PInt i)
  with assms(1) have "rnd (of_int i) = Fin q"
    by (auto simp: finite_arg_def float_of_int_def res_simps split: pyfloat.splits if_splits option.splits)
  then show ?thesis by (rule f64_rnd)
next
  case (PFloat x)
  with assms show ?thesis
    by (auto simp: finite_arg_def res_simps wf_num_def split: if_splits option.splits)
next
  case (PBool b)
  with assms(1) show ?thesis by (simp add: finite_arg_def)
qed

subsection \<open>Ratios of counts\<close>

text \<open>
  \<open>availability\_sli\<close>, \<open>error\_rate\<close> and \<open>change\_failure\_rate\<close> are one routine with
  three pairs of names.
\<close>

definition count_ratio ::
  "string \<Rightarrow> string \<Rightarrow> string \<Rightarrow> pynum option \<Rightarrow> pynum option \<Rightarrow> formula_result res" where
  "count_ratio name part_key total_key part tot =
     (let inputs = [(part_key, InNum part), (total_key, InNum tot)];
          expression = part_key @ '' / '' @ total_key
      in case (part, tot) of
           (Some p, Some t) \<Rightarrow>
             rbind (count_arg p part_key) (\<lambda>good.
             rbind (count_arg t total_key) (\<lambda>all.
               if all = 0 then
                 fr_unavailable name expression inputs [''nonzero '' @ total_key] ''fraction''
                   executable_definition
               else if all < good then
                 Inl (ValueError (part_key @ '' cannot exceed '' @ total_key))
               else rbind (int_div good all) (\<lambda>v.
                 fr_make name (Some v) MEASURED expression ''fraction'' inputs None
                   executable_definition False)))
         | _ \<Rightarrow> fr_unavailable name expression inputs (missing_keys inputs) ''fraction''
                  executable_definition)"

definition availability_sli :: "pynum option \<Rightarrow> pynum option \<Rightarrow> formula_result res" where
  "availability_sli good_events total_events =
     count_ratio ''availability_sli'' ''good_events'' ''total_events'' good_events total_events"

definition error_rate :: "pynum option \<Rightarrow> pynum option \<Rightarrow> formula_result res" where
  "error_rate bad_events total_events =
     count_ratio ''error_rate'' ''bad_events'' ''total_events'' bad_events total_events"

definition change_failure_rate :: "pynum option \<Rightarrow> pynum option \<Rightarrow> formula_result res" where
  "change_failure_rate failed_changes total_changes =
     count_ratio ''change_failure_rate'' ''failed_changes'' ''total_changes''
       failed_changes total_changes"

definition agent_success_rate :: "pynum option \<Rightarrow> pynum option \<Rightarrow> formula_result res" where
  "agent_success_rate successful tot =
     rbind (change_failure_rate successful tot) (\<lambda>base.
       fr_make ''agent_success_rate'' (fr_value base) (fr_label base)
         ''successful_traces / total_traces'' ''fraction''
         [(''successful_traces'', InNum successful), (''total_traces'', InNum tot)]
         (fr_reason base) executable_definition False)"

subsection \<open>Error budgets\<close>

definition allowed_bad_rate :: "pynum option \<Rightarrow> formula_result res" where
  "allowed_bad_rate target =
     (let inputs = [(''target'', InNum target)]; expression = ''1 - target'' in
      case target of
        None \<Rightarrow> fr_unavailable ''allowed_bad_rate'' expression inputs [''target''] ''fraction''
                  executable_definition
      | Some t \<Rightarrow>
          rbind (finite_arg t ''target'' (Some 0)) (\<lambda>tv.
            if fle (Fin 1) tv then Inl (ValueError ''target must be less than 1'')
            else fr_make ''allowed_bad_rate'' (Some (fsub (Fin 1) tv)) MEASURED expression
                   ''fraction'' inputs None executable_definition False))"

definition error_budget_burn_rate ::
  "pynum option \<Rightarrow> pynum option \<Rightarrow> pynum option \<Rightarrow> formula_result res" where
  "error_budget_burn_rate good tot target =
     (let inputs = [(''good_events'', InNum good), (''total_events'', InNum tot),
                    (''target'', InNum target)];
          expression = ''(1 - availability_sli) / (1 - target)'' in
      case (good, tot, target) of
        (Some _, Some _, Some t) \<Rightarrow>
          rbind (finite_arg t ''target'' (Some 0)) (\<lambda>tv.
            if fle (Fin 1) tv then Inl (ValueError ''target must be less than 1'')
            else rbind (availability_sli good tot) (\<lambda>sli.
              case fr_value sli of
                None \<Rightarrow> fr_make ''error_budget_burn_rate'' None UNAVAILABLE expression ''x'' inputs
                          (fr_reason sli) executable_definition False
              | Some v \<Rightarrow>
                  rbind (fdiv (fsub (Fin 1) v) (fsub (Fin 1) tv)) (\<lambda>burn.
                    fr_make ''error_budget_burn_rate'' (Some burn) MEASURED expression ''x'' inputs
                      None executable_definition False)))
      | _ \<Rightarrow> fr_unavailable ''error_budget_burn_rate'' expression inputs (missing_keys inputs) ''x''
               executable_definition)"

definition error_budget_remaining ::
  "pynum option \<Rightarrow> pynum option \<Rightarrow> pynum option \<Rightarrow> formula_result res" where
  "error_budget_remaining good tot target =
     (let inputs = [(''good_events'', InNum good), (''total_events'', InNum tot),
                    (''target'', InNum target)];
          expression = ''max(0, 1 - error_budget_burn_rate)'' in
      rbind (error_budget_burn_rate good tot target) (\<lambda>burn.
        case fr_value burn of
          None \<Rightarrow> fr_make ''error_budget_remaining'' None UNAVAILABLE expression ''fraction'' inputs
                    (fr_reason burn) executable_definition False
        | Some b \<Rightarrow> fr_make ''error_budget_remaining'' (Some (fmax (Fin 0) (fsub (Fin 1) b)))
                      MEASURED expression ''fraction'' inputs None executable_definition False))"

subsection \<open>Rates, means and costs\<close>

definition requests_per_second :: "pynum option \<Rightarrow> pynum option \<Rightarrow> formula_result res" where
  "requests_per_second requests window =
     (let inputs = [(''requests'', InNum requests), (''window_seconds'', InNum window)];
          expression = ''requests / window_seconds'' in
      case (requests, window) of
        (Some r, Some w) \<Rightarrow>
          rbind (count_arg r ''requests'') (\<lambda>n.
          rbind (finite_arg w ''window_seconds'' (Some 0)) (\<lambda>seconds.
            if feq seconds (Fin 0) then
              fr_unavailable ''requests_per_second'' expression inputs [''nonzero window_seconds'']
                ''requests/second'' executable_definition
            else rbind (float_of_int n) (\<lambda>nf. rbind (fdiv nf seconds) (\<lambda>v.
              fr_make ''requests_per_second'' (Some v) MEASURED expression ''requests/second''
                inputs None executable_definition False))))
      | _ \<Rightarrow> fr_unavailable ''requests_per_second'' expression inputs (missing_keys inputs)
               ''requests/second'' executable_definition)"

definition mean_time_to_recovery :: "pynum list option \<Rightarrow> formula_result res" where
  "mean_time_to_recovery recovery =
     (let inputs = [(''recovery_durations_seconds'', InNums recovery)];
          expression = ''sum(recovery_duration_seconds) / recovered_incidents'' in
      case recovery of
        None \<Rightarrow> fr_unavailable ''mean_time_to_recovery'' expression inputs
                  [''recovery_durations_seconds''] ''seconds'' executable_definition
      | Some items \<Rightarrow>
          rbind (rmap (\<lambda>i. finite_arg i ''recovery_duration_seconds'' (Some 0)) items)
            (\<lambda>durations.
              if durations = [] then
                fr_unavailable ''mean_time_to_recovery'' expression inputs
                  [''at least one recovered incident''] ''seconds'' executable_definition
              else rbind (float_of_int (int (length durations))) (\<lambda>n.
                rbind (fdiv (py_sum durations) n) (\<lambda>v.
                  fr_make ''mean_time_to_recovery'' (Some v) MEASURED expression ''seconds'' inputs
                    None executable_definition False))))"

definition apdex :: "pynum option \<Rightarrow> pynum option \<Rightarrow> pynum option \<Rightarrow> formula_result res" where
  "apdex satisfied tolerated tot =
     (let inputs = [(''satisfied'', InNum satisfied), (''tolerated'', InNum tolerated),
                    (''total'', InNum tot)];
          expression = ''(satisfied + 0.5 * tolerated) / total'' in
      case (satisfied, tolerated, tot) of
        (Some s, Some t, Some n) \<Rightarrow>
          rbind (count_arg s ''satisfied'') (\<lambda>sc.
          rbind (count_arg t ''tolerated'') (\<lambda>tc.
          rbind (count_arg n ''total'') (\<lambda>nc.
            if nc = 0 then
              fr_unavailable ''apdex'' expression inputs [''nonzero total''] ''score''
                executable_definition
            else if nc < sc + tc then
              Inl (ValueError ''satisfied plus tolerated cannot exceed total'')
            else rbind (float_of_int tc) (\<lambda>tf. rbind (float_of_int sc) (\<lambda>sf.
              rbind (float_of_int nc) (\<lambda>nf.
                rbind (fdiv (fadd sf (fmul (Fin (1 / 2)) tf)) nf) (\<lambda>v.
                  fr_make ''apdex'' (Some v) MEASURED expression ''score'' inputs None
                    executable_definition False)))))))
      | _ \<Rightarrow> fr_unavailable ''apdex'' expression inputs (missing_keys inputs) ''score''
               executable_definition)"

definition cost_per_success :: "pynum option \<Rightarrow> pynum option \<Rightarrow> formula_result res" where
  "cost_per_success cost_usd successful =
     (let inputs = [(''cost_usd'', InNum cost_usd), (''successful_outcomes'', InNum successful)];
          expression = ''cost_usd / successful_outcomes'' in
      case (cost_usd, successful) of
        (Some c, Some s) \<Rightarrow>
          rbind (finite_arg c ''cost_usd'' (Some 0)) (\<lambda>cost.
          rbind (count_arg s ''successful_outcomes'') (\<lambda>n.
            if n = 0 then
              fr_unavailable ''cost_per_success'' expression inputs
                [''nonzero successful_outcomes''] ''USD/success'' executable_definition
            else rbind (float_of_int n) (\<lambda>nf. rbind (fdiv cost nf) (\<lambda>v.
              fr_make ''cost_per_success'' (Some v) MEASURED expression ''USD/success'' inputs None
                executable_definition False))))
      | _ \<Rightarrow> fr_unavailable ''cost_per_success'' expression inputs (missing_keys inputs)
               ''USD/success'' executable_definition)"

definition outcome_attainment ::
  "pynum option \<Rightarrow> pynum option \<Rightarrow> string option \<Rightarrow> formula_result res" where
  "outcome_attainment current target direction =
     (let inputs = [(''current'', InNum current), (''target'', InNum target),
                    (''direction'', InStr direction)];
          expression = ''current / target if higher_is_better else target / current'' in
      case (current, target, direction) of
        (Some c, Some t, Some d) \<Rightarrow>
          rbind (finite_arg c ''current'' (Some 0)) (\<lambda>cv.
          rbind (finite_arg t ''target'' (Some 0)) (\<lambda>tv.
            if feq tv (Fin 0) then Inl (ValueError ''target must be greater than zero'')
            else
              let dir = py_lower (strip d) in
              rbind (if dir = ''higher'' then fdiv cv tv
                     else if dir = ''lower'' then (if feq cv (Fin 0) then Inr (Fin 1) else fdiv tv cv)
                     else Inl (ValueError (''direction must be '' @ [CHR 0x27] @ ''higher'' @ [CHR 0x27] @ '' or '' @
                            [CHR 0x27] @ ''lower'' @ [CHR 0x27])))
                (\<lambda>score. fr_make ''outcome_attainment'' (Some (fmin (Fin 1) (fmax (Fin 0) score)))
                   MODELED expression ''fraction'' inputs None executable_definition False)))
      | _ \<Rightarrow> fr_unavailable ''outcome_attainment'' expression inputs (missing_keys inputs)
               ''fraction'' executable_definition)"

definition revenue_at_risk ::
  "pynum option \<Rightarrow> pynum option \<Rightarrow> pynum option \<Rightarrow> pynum option \<Rightarrow> formula_result res" where
  "revenue_at_risk volume observed baseline aov =
     (let inputs = [(''volume'', InNum volume), (''observed_conversion_rate'', InNum observed),
                    (''baseline_conversion_rate'', InNum baseline),
                    (''average_order_value_usd'', InNum aov)];
          expression = ''volume * max(0, baseline_conversion_rate - observed_conversion_rate) '' @
                       ''* average_order_value_usd'' in
      case (volume, observed, baseline, aov) of
        (Some v, Some ob, Some ba, Some ao) \<Rightarrow>
          rbind (count_arg v ''volume'') (\<lambda>count.
          rbind (finite_arg ob ''observed_conversion_rate'' (Some 0)) (\<lambda>o'.
          rbind (finite_arg ba ''baseline_conversion_rate'' (Some 0)) (\<lambda>b.
          rbind (finite_arg ao ''average_order_value_usd'' (Some 0)) (\<lambda>a.
            if flt (Fin 1) o' \<or> flt (Fin 1) b
            then Inl (ValueError ''conversion rates must be at most 1'')
            else rbind (float_of_int count) (\<lambda>cf.
              fr_make ''revenue_at_risk''
                (Some (fmul (fmul cf (fmax (Fin 0) (fsub b o'))) a))
                MODELED expression ''USD'' inputs None ''DECLARED_MODEL'' False)))))
      | _ \<Rightarrow> fr_unavailable ''revenue_at_risk'' expression inputs (missing_keys inputs) ''USD''
               executable_definition)"

subsection \<open>The Lambda advisory\<close>

datatype axis = AxNone | AxNum pynum | AxTruth "pynum truth_value"

definition trust_ceiling :: pyfloat where
  "trust_ceiling = rnd (97 / 100)"

definition axis_value :: "axis \<Rightarrow> pynum option" where
  "axis_value a = (case a of AxNone \<Rightarrow> None | AxNum n \<Rightarrow> Some n
                   | AxTruth t \<Rightarrow> if tv_available t then tv_value t else None)"

text \<open>The loop over the axes: the clean values and the missing names, both in order.\<close>

fun clean_axes ::
  "(string \<times> axis) list \<Rightarrow> (string \<times> pyfloat) list \<Rightarrow> string list \<Rightarrow>
   ((string \<times> pyfloat) list \<times> string list) res" where
  "clean_axes [] clean missing = Inr (clean, missing)"
| "clean_axes ((raw_name, raw_value) # axes) clean missing =
     (let name = strip raw_name in
      if name = [] then Inl (ValueError ''axis names cannot be empty'')
      else if name \<in> fst ` set clean \<or> name \<in> set missing then
        Inl (ValueError (''duplicate normalized axis name: '' @ name))
      else case axis_value raw_value of
             None \<Rightarrow> clean_axes axes clean (missing @ [name])
           | Some v \<Rightarrow>
               rbind (finite_arg v (''axis.'' @ name) (Some 0)) (\<lambda>number.
                 if flt (Fin 1) number then Inl (ValueError (''axis.'' @ name @ '' must be at most 1''))
                 else clean_axes axes (clean @ [(name, number)]) missing))"

text \<open>\<open>math.log\<close> raises on zero and below; \<open>math.exp\<close> raises on overflow.\<close>

definition py_log :: "(pyfloat \<Rightarrow> pyfloat) \<Rightarrow> pyfloat \<Rightarrow> pyfloat res" where
  "py_log llog x = (if fle x (Fin 0) then Inl (ValueError ''math domain error'') else Inr (llog x))"

definition py_exp :: "(pyfloat \<Rightarrow> pyfloat) \<Rightarrow> pyfloat \<Rightarrow> pyfloat res" where
  "py_exp lexp x = (if isfinite x \<and> lexp x = PInf then Inl (OverflowError ''math range error'')
                    else Inr (lexp x))"

definition weight_axes ::
  "(string \<times> pyfloat) list \<Rightarrow> (string \<times> pynum) list option \<Rightarrow> (string \<times> pyfloat) list res" where
  "weight_axes clean weights =
     (case weights of
        None \<Rightarrow> rmap (\<lambda>(name, _). rbind (fdiv (Fin 1) (Fin (of_nat (length clean))))
                        (\<lambda>w. Inr (name, w))) clean
      | Some ws \<Rightarrow>
          if fst ` set ws \<noteq> fst ` set clean then
            Inl (ValueError ''weights must name exactly the supplied axes'')
          else rbind (rmap (\<lambda>(name, _). rbind (finite_arg (the (alookup ws name)) (''weight.'' @ name) (Some 0))
                              (\<lambda>w. Inr (name, w))) clean) (\<lambda>raw.
            let total_weight = py_sum (map snd raw) in
            if fle total_weight (Fin 0) then Inl (ValueError ''weight sum must be positive'')
            else rmap (\<lambda>(name, w). rbind (fdiv w total_weight) (\<lambda>n. Inr (name, n))) raw))"

definition axis_term :: "(pyfloat \<Rightarrow> pyfloat) \<Rightarrow> (string \<times> pyfloat) list \<Rightarrow> string \<times> pyfloat \<Rightarrow> pyfloat res" where
  "axis_term llog normalized nv =
     rbind (py_log llog (snd nv)) (\<lambda>l. Inr (fmul (the (alookup normalized (fst nv))) l))"

definition advisory_score ::
  "(pyfloat \<Rightarrow> pyfloat) \<Rightarrow> (pyfloat \<Rightarrow> pyfloat) \<Rightarrow> (string \<times> pyfloat) list \<Rightarrow>
   (string \<times> pyfloat) list \<Rightarrow> pyfloat res" where
  "advisory_score lexp llog clean normalized =
     (if \<exists>nv \<in> set clean. feq (snd nv) (Fin 0) \<and> flt (Fin 0) (the (alookup normalized (fst nv)))
      then Inr (Fin 0)
      else rbind (rmap (axis_term llog normalized) clean) (\<lambda>terms. py_exp lexp (py_sum terms)))"

definition lambda_advisory ::
  "(pyfloat \<Rightarrow> pyfloat) \<Rightarrow> (pyfloat \<Rightarrow> pyfloat) \<Rightarrow> (string \<times> axis) list \<Rightarrow>
   (string \<times> pynum) list option \<Rightarrow> formula_result res" where
  "lambda_advisory lexp llog axes weights =
     (let name = ''lambda_advisory'';
          expression = ''min(0.97, exp(sum(normalized_weight * ln(axis))))'';
          status = ''CONJECTURE_1_ADVISORY'' in
      if axes = [] then
        fr_unavailable name expression [(''axes'', InFloats [])] [''at least one axis'']
          ''dimensionless'' status
      else rbind (clean_axes axes [] []) (\<lambda>(clean, missing).
        let inputs = [(''axes'', InFloats (map (\<lambda>(n, _). (strip n, alookup clean (strip n))) axes))] in
        if missing \<noteq> [] then
          fr_unavailable name expression inputs (map (\<lambda>n. ''axis.'' @ n) missing) ''dimensionless'' status
        else rbind (weight_axes clean weights) (\<lambda>normalized.
          rbind (advisory_score lexp llog clean normalized) (\<lambda>score.
            fr_make name (Some (fmin trust_ceiling score)) MODELED expression ''score''
              (inputs @ [(''weights'', InFloats (map (\<lambda>(n, w). (n, Some w)) normalized))])
              None status False))))"

definition journey_health ::
  "(pyfloat \<Rightarrow> pyfloat) \<Rightarrow> (pyfloat \<Rightarrow> pyfloat) \<Rightarrow> (string \<times> axis) list \<Rightarrow>
   (string \<times> pynum) list option \<Rightarrow> formula_result res" where
  "journey_health lexp llog stage_attainment weights =
     rbind (lambda_advisory lexp llog stage_attainment weights) (\<lambda>advisory.
       fr_make ''journey_health'' (fr_value advisory) (fr_label advisory) (fr_expression advisory)
         ''score'' (fr_inputs advisory) (fr_reason advisory) ''DECLARED_WEIGHTED_COMPOSITION'' False)"

definition fr_to_dict :: "(input \<Rightarrow> json) \<Rightarrow> formula_result \<Rightarrow> json" where
  "fr_to_dict enc r =
     JObj [(''name'', JStr (fr_name r)),
           (''value'', case fr_value r of None \<Rightarrow> JNull | Some v \<Rightarrow> JFloat v),
           (''truth_label'', JStr (label_value (fr_label r))),
           (''expression'', JStr (fr_expression r)),
           (''unit'', JStr (fr_unit r)),
           (''inputs'', JObj (map (\<lambda>kv. (fst kv, enc (snd kv))) (fr_inputs r))),
           (''reason'', jopt (fr_reason r)),
           (''proof_status'', JStr (fr_proof r)),
           (''can_authorize'', JBool False)]"

subsection \<open>Every result is well formed\<close>

named_theorems formula_ok "results of a formula satisfy the invariant of FormulaResult"

lemma fr_unavailable_ok: "fr_unavailable n e i m u p = Inr f \<Longrightarrow> fr_ok f \<and> \<not> fr_available f"
  unfolding fr_unavailable_def
  using fr_make_ok fr_make_fields by (fastforce simp: fr_available_def)

lemma count_ratio_ok [formula_ok]: "count_ratio n pk tk p t = Inr f \<Longrightarrow> fr_ok f"
  by (auto simp: count_ratio_def Let_def res_simps fr_make_ok fr_unavailable_ok
           split: option.splits if_splits)

lemmas ratio_defs = availability_sli_def error_rate_def change_failure_rate_def

lemma ratios_ok [formula_ok]:
  "availability_sli a b = Inr f \<Longrightarrow> fr_ok f"
  "error_rate a b = Inr f \<Longrightarrow> fr_ok f"
  "change_failure_rate a b = Inr f \<Longrightarrow> fr_ok f"
  "agent_success_rate a b = Inr f \<Longrightarrow> fr_ok f"
  by (auto simp: ratio_defs agent_success_rate_def res_simps count_ratio_ok fr_make_ok)

lemma budgets_ok [formula_ok]:
  "allowed_bad_rate c = Inr f \<Longrightarrow> fr_ok f"
  "error_budget_burn_rate a b c = Inr f \<Longrightarrow> fr_ok f"
  "error_budget_remaining a b c = Inr f \<Longrightarrow> fr_ok f"
  by (auto simp: allowed_bad_rate_def error_budget_burn_rate_def error_budget_remaining_def Let_def
        res_simps fr_make_ok fr_unavailable_ok split: option.splits if_splits)

lemma rates_ok [formula_ok]:
  "requests_per_second a b = Inr f \<Longrightarrow> fr_ok f"
  "mean_time_to_recovery l = Inr f \<Longrightarrow> fr_ok f"
  "apdex a b c = Inr f \<Longrightarrow> fr_ok f"
  "cost_per_success a b = Inr f \<Longrightarrow> fr_ok f"
  by (auto simp: requests_per_second_def mean_time_to_recovery_def apdex_def cost_per_success_def
        Let_def res_simps fr_make_ok fr_unavailable_ok split: option.splits if_splits)

lemma outcomes_ok [formula_ok]:
  "outcome_attainment a b d = Inr f \<Longrightarrow> fr_ok f"
  "revenue_at_risk a b c e = Inr f \<Longrightarrow> fr_ok f"
  by (auto simp: outcome_attainment_def revenue_at_risk_def Let_def res_simps fr_make_ok
        fr_unavailable_ok split: option.splits if_splits)

lemma advisory_ok [formula_ok]:
  "lambda_advisory lexp llog axes ws = Inr f \<Longrightarrow> fr_ok f"
  "journey_health lexp llog axes ws = Inr f \<Longrightarrow> fr_ok f"
  by (auto simp: lambda_advisory_def journey_health_def Let_def res_simps fr_make_ok
        fr_unavailable_ok split: if_splits)

subsection \<open>Correctness\<close>

lemma count_ratio_value:
  assumes "0 \<le> g" "g \<le> t" "0 < t"
  shows "\<exists>f r. count_ratio n pk tk (Some (PInt g)) (Some (PInt t)) = Inr f \<and> fr_value f = Some (Fin r) \<and>
           fr_label f = MEASURED \<and> fr_reason f = None \<and> rnd (of_int g / of_int t) = Fin r \<and> 0 \<le> r \<and> r \<le> 1"
proof -
  obtain r where r: "int_div g t = Inr (Fin r)" "0 \<le> r" "r \<le> 1"
    using int_div_unit [of g t] assms by auto
  then have "rnd (of_int g / of_int t) = Fin r"
    using assms by (auto simp: int_div_def split: pyfloat.splits)
  with r assms show ?thesis
    by (simp add: count_ratio_def Let_def count_arg_def strip_def lstrip_def rstrip_def
        py_isspace_def code_def)
qed

text \<open>for counts with 0 <= good <= total and total > 0 the availability SLI is returned, labelled
  MEASURED, and is the float nearest to good/total; it lies in [0,1] and is exactly 1 when every
  event is good.\<close>

theorem availability_sli_value:
  assumes "0 \<le> g" "g \<le> t" "0 < t"
  shows "\<exists>f r. availability_sli (Some (PInt g)) (Some (PInt t)) = Inr f \<and> fr_value f = Some (Fin r) \<and>
           fr_label f = MEASURED \<and> rnd (of_int g / of_int t) = Fin r \<and> 0 \<le> r \<and> r \<le> 1 \<and>
           (g = t \<longrightarrow> r = 1)"
proof -
  obtain f r where f: "availability_sli (Some (PInt g)) (Some (PInt t)) = Inr f"
      "fr_value f = Some (Fin r)" "fr_label f = MEASURED" "rnd (of_int g / of_int t) = Fin r"
      "0 \<le> r" "r \<le> 1"
    using count_ratio_value [OF assms] unfolding availability_sli_def by blast
  moreover have "g = t \<longrightarrow> r = 1" using f(4) assms(3) by auto
  ultimately show ?thesis by blast
qed

theorem availability_sli_value_witness:
  "\<exists>f r. availability_sli (Some (PInt 3)) (Some (PInt 4)) = Inr f \<and> fr_value f = Some (Fin r) \<and>
         fr_label f = MEASURED \<and> rnd (of_int 3 / of_int 4) = Fin r \<and> 0 \<le> r \<and> r \<le> 1 \<and>
         ((3::int) = 4 \<longrightarrow> r = 1)"
  by (rule availability_sli_value [of 3 4]) simp_all

lemma f64_pow53: "f64 (2 ^ 53)"
  using f64_of_int [of "2 ^ 53"] by simp

text \<open>The float quotient of an unavailability in [0,1] and an error budget of at least one ulp.\<close>

lemma burn_bounds:
  assumes a: "0 \<le> a" "a \<le> 1" and b: "2 powi (- 53) \<le> b"
  shows "\<exists>q. fdiv (Fin a) (Fin b) = Inr (Fin q) \<and> 0 \<le> q \<and> q \<le> 2 ^ 53"
proof -
  have bp: "0 < b" using b powi_pos [of "- 53"] by linarith
  have "a * 1 \<le> 2 ^ 53 * b"
  proof -
    have "a * 1 \<le> 2 ^ 53 * 2 powi (- 53)" using a(2) by (simp add: power_int_minus)
    also have "\<dots> \<le> 2 ^ 53 * b" using b by simp
    finally show ?thesis .
  qed
  then have "a / b \<le> 2 ^ 53" using bp by (simp add: pos_divide_le_eq)
  moreover have "0 \<le> a / b" using a bp by simp
  ultimately obtain q where "rnd (a / b) = Fin q" "0 \<le> q" "q \<le> 2 ^ 53"
    using rnd_between [of 0 "2 ^ 53" "a / b"] f64_pow53 by auto
  with bp show ?thesis by simp
qed

lemma target_checks:
  assumes "f64 T" "0 \<le> T" "T < 1"
  shows "finite_arg (PFloat (Fin T)) n (Some 0) = Inr (Fin T)" "\<not> fle (Fin 1) (Fin T)"
  using assms by (simp_all add: finite_arg_def)

text \<open>for valid counts and any float target in [0,1) the burn rate and the remaining budget
  are always returned (no division by zero, no overflow): the burn rate lies in [0, 2^53], the
  remaining budget in [0,1]; a burn of at least 1 leaves no budget, and with every event good the
  burn is 0 and the whole budget remains.\<close>

theorem error_budget_total:
  assumes cnt: "0 \<le> g" "g \<le> t" "0 < t" and T: "f64 T" "0 \<le> T" "T < 1"
  shows "\<exists>f b h p.
     error_budget_burn_rate (Some (PInt g)) (Some (PInt t)) (Some (PFloat (Fin T))) = Inr f \<and>
     fr_value f = Some (Fin b) \<and> 0 \<le> b \<and> b \<le> 2 ^ 53 \<and>
     error_budget_remaining (Some (PInt g)) (Some (PInt t)) (Some (PFloat (Fin T))) = Inr h \<and>
     fr_value h = Some (Fin p) \<and> 0 \<le> p \<and> p \<le> 1 \<and> (1 \<le> b \<longrightarrow> p = 0) \<and> (g = t \<longrightarrow> b = 0 \<and> p = 1)"
proof -
  obtain f r where f: "availability_sli (Some (PInt g)) (Some (PInt t)) = Inr f"
      "fr_value f = Some (Fin r)" and rr: "rnd (of_int g / of_int t) = Fin r" and r: "0 \<le> r" "r \<le> 1"
    using count_ratio_value [OF cnt] unfolding availability_sli_def by blast
  obtain a where a: "fsub (Fin 1) (Fin r) = Fin a" "0 \<le> a" "a \<le> 1"
    using one_minus_unit [OF r] by blast
  obtain d where d: "fsub (Fin 1) (Fin T) = Fin d" "2 powi (- 53) \<le> d"
    using one_minus_pos [OF T] by blast
  obtain b where b: "fdiv (Fin a) (Fin d) = Inr (Fin b)" "0 \<le> b" "b \<le> 2 ^ 53"
    using burn_bounds [OF a(2,3) d(2)] by blast
  have le: "1 - b \<le> 1" "- (2 ^ 53) \<le> 1 - b" using b by linarith+
  obtain c where c: "rnd (1 - b) = Fin c" "c \<le> 1"
    using rnd_between [OF _ f64_1 le(2) le(1)] f64_pow53 by (auto simp: f64_minus)
  have full: "g = t \<longrightarrow> b = 0 \<and> c = 1"
  proof
    assume "g = t"
    with rr cnt(3) have "r = 1" by auto
    with a(1) have "a = 0" by simp
    with b(1) have "b = 0" by (auto split: if_splits)
    with c show "b = 0 \<and> c = 1" by simp
  qed
  have neg: "1 \<le> b \<longrightarrow> c \<le> 0"
    using rnd_mono_Fin [OF c(1) rnd_0] by auto
  note sp = strip_def lstrip_def rstrip_def py_isspace_def code_def
  have burn: "error_budget_burn_rate (Some (PInt g)) (Some (PInt t)) (Some (PFloat (Fin T))) =
      fr_make ''error_budget_burn_rate'' (Some (Fin b)) MEASURED
        ''(1 - availability_sli) / (1 - target)'' ''x''
        [(''good_events'', InNum (Some (PInt g))), (''total_events'', InNum (Some (PInt t))),
         (''target'', InNum (Some (PFloat (Fin T))))] None executable_definition False"
    using T(3) target_checks [OF T] f a d b
    by (simp add: error_budget_burn_rate_def Let_def del: fsub_Fin fdiv.simps fle.simps)
  show ?thesis
    using b c full neg
    by (auto simp: error_budget_remaining_def burn Let_def fmax_def sp)
qed

theorem error_budget_total_witness:
  "\<exists>f b h p.
     error_budget_burn_rate (Some (PInt 9)) (Some (PInt 10)) (Some (PFloat (Fin (1 / 2)))) = Inr f \<and>
     fr_value f = Some (Fin b) \<and> 0 \<le> b \<and> b \<le> 2 ^ 53 \<and>
     error_budget_remaining (Some (PInt 9)) (Some (PInt 10)) (Some (PFloat (Fin (1 / 2)))) = Inr h \<and>
     fr_value h = Some (Fin p) \<and> 0 \<le> p \<and> p \<le> 1 \<and> (1 \<le> b \<longrightarrow> p = 0) \<and>
     ((9::int) = 10 \<longrightarrow> b = 0 \<and> p = 1)"
  by (rule error_budget_total [of 9 10 "1 / 2"]) simp_all

text \<open>whatever its arguments, a formula that returns gives a result whose value is present and
  finite exactly when its label is not UNAVAILABLE, that states a reason when it is, and that never
  carries authority.\<close>

theorem formula_results_ok:
  "\<forall>f. Inr f \<in> {availability_sli a b, error_rate a b, change_failure_rate a b, agent_success_rate a b,
     allowed_bad_rate c, error_budget_burn_rate a b c, error_budget_remaining a b c,
     requests_per_second a b, mean_time_to_recovery l, apdex a b c, cost_per_success a b,
     outcome_attainment a b d, revenue_at_risk a b c e, lambda_advisory lexp llog axes ws,
     journey_health lexp llog axes ws} \<longrightarrow>
   ((fr_label f = UNAVAILABLE \<longleftrightarrow> fr_value f = None) \<and>
    (\<forall>v. fr_value f = Some v \<longrightarrow> isfinite v) \<and>
    (fr_label f = UNAVAILABLE \<longrightarrow> norm_reason (fr_reason f) \<noteq> None) \<and> \<not> fr_can_authorize f)"
proof (intro allI impI)
  fix f
  assume "Inr f \<in> {availability_sli a b, error_rate a b, change_failure_rate a b, agent_success_rate a b,
     allowed_bad_rate c, error_budget_burn_rate a b c, error_budget_remaining a b c,
     requests_per_second a b, mean_time_to_recovery l, apdex a b c, cost_per_success a b,
     outcome_attainment a b d, revenue_at_risk a b c e, lambda_advisory lexp llog axes ws,
     journey_health lexp llog axes ws}"
  then have "fr_ok f" by (auto dest: formula_ok [OF sym])
  then show "(fr_label f = UNAVAILABLE \<longleftrightarrow> fr_value f = None) \<and>
    (\<forall>v. fr_value f = Some v \<longrightarrow> isfinite v) \<and>
    (fr_label f = UNAVAILABLE \<longrightarrow> norm_reason (fr_reason f) \<noteq> None) \<and> \<not> fr_can_authorize f"
    by (auto simp: fr_ok_def fr_available_def)
qed

theorem formula_results_ok_witness:
  "\<exists>f. availability_sli None (Some (PInt 4)) = Inr f \<and> fr_label f = UNAVAILABLE \<and> fr_value f = None \<and>
       \<not> fr_can_authorize f"
proof -
  have "strip ''fraction'' \<noteq> []"
    using strip_nonblank [of "CHR ''f''" "''fraction''"] by (simp add: py_isspace_def code_def)
  then obtain f where f: "availability_sli None (Some (PInt 4)) = Inr f" "fr_label f = UNAVAILABLE"
    using fr_unavailable_result unfolding availability_sli_def count_ratio_def Let_def by fastforce
  note r = formula_results_ok [of None "Some (PInt 4)" None None None None "\<lambda>x. x" "\<lambda>x. x" "[]" None,
      THEN spec, of f, THEN mp]
  have "fr_value f = None \<and> \<not> fr_can_authorize f"
    using r f by simp
  with f show ?thesis by blast
qed

subsection \<open>The advisory score\<close>

definition unit_axes :: "(string \<times> pyfloat) list \<Rightarrow> bool" where
  "unit_axes clean = (\<forall>nv \<in> set clean. \<exists>q. snd nv = Fin q \<and> 0 \<le> q \<and> q \<le> 1)"

lemma clean_axes_unit:
  "clean_axes axes clean missing = Inr (c, m) \<Longrightarrow> unit_axes clean \<Longrightarrow> unit_axes c"
proof (induction axes clean missing rule: clean_axes.induct)
  case (1 clean missing)
  then show ?case by simp
next
  case (2 raw_name raw_value axes clean missing)
  then show ?case
  proof (cases "axis_value raw_value")
    case None
    with 2 show ?thesis by (auto simp: Let_def split: if_splits)
  next
    case (Some v)
    with "2.prems"(1) obtain x where x: "finite_arg v (''axis.'' @ strip raw_name) (Some 0) = Inr x"
        "\<not> flt (Fin 1) x"
        "clean_axes axes (clean @ [(strip raw_name, x)]) missing = Inr (c, m)"
      by (auto simp: Let_def res_simps split: if_splits)
    from finite_arg_Inr [OF x(1)] x(2) obtain q where "x = Fin q" "0 \<le> q" "q \<le> 1" by auto
    with "2.prems"(2) have "unit_axes (clean @ [(strip raw_name, x)])"
      by (auto simp: unit_axes_def)
    moreover have "strip raw_name \<noteq> []" "\<not> (strip raw_name \<in> fst ` set clean \<or> strip raw_name \<in> set missing)"
      using "2.prems"(1) by (auto simp: Let_def split: if_splits)
    ultimately show ?thesis using "2.IH"(2) Some x by blast
  qed
qed

definition ceiling_q :: rat where
  "ceiling_q = rndq (97 / 100)"

lemma trust_ceiling_Fin: "trust_ceiling = Fin ceiling_q" "0 < ceiling_q" "ceiling_q < 1"
proof -
  have lo: "f64 (1 / 2)" by simp
  have hi: "f64 (63 / 64)"
  proof -
    have "f64 (of_int 63 * 2 powi (- 6))" by (rule f64I) (simp_all add: power_int_minus)
    then show ?thesis by (simp add: power_int_minus)
  qed
  obtain r where r: "rnd (97 / 100) = Fin r" "1 / 2 \<le> r" "r \<le> 63 / 64"
    using rnd_between [OF lo hi, of "97 / 100"] by auto
  then have "r = ceiling_q" by (simp add: rnd_Fin_iff ceiling_q_def)
  with r show "trust_ceiling = Fin ceiling_q" "0 < ceiling_q" "ceiling_q < 1"
    by (simp_all add: trust_ceiling_def)
qed

lemma advisory_score_nonneg:
  assumes "\<forall>x q. lexp x = Fin q \<longrightarrow> 0 \<le> q"
    and "advisory_score lexp llog clean normalized = Inr (Fin q)"
  shows "0 \<le> q"
  using assms by (auto simp: advisory_score_def py_exp_def res_simps split: if_splits)

text \<open>C36: an available Lambda advisory is labelled MODELED and its value lies in [0, 0.97] (the float
  nearest to 0.97), whatever the axes, the weights and the C library's exp and log are, as long as
  exp returns no negative number.\<close>

theorem lambda_advisory_bounded:
  assumes "\<forall>x. lexp x \<noteq> NInf \<and> (\<forall>q. lexp x = Fin q \<longrightarrow> 0 \<le> q)"
    and "lambda_advisory lexp llog axes ws = Inr f" and "fr_label f \<noteq> UNAVAILABLE"
  shows "fr_label f = MODELED \<and> (\<exists>q. fr_value f = Some (Fin q) \<and> 0 \<le> q \<and> fle (Fin q) trust_ceiling)"
proof -
  from assms(2,3) obtain clean normalized score where
    s: "advisory_score lexp llog clean normalized = Inr score"
    and v: "fr_value f = Some (fmin trust_ceiling score)" and l: "fr_label f = MODELED"
    by (fastforce simp: lambda_advisory_def Let_def res_simps fr_available_def
        dest!: fr_unavailable_ok dest: fr_make_fields split: if_splits)
  have "\<exists>q. fmin trust_ceiling score = Fin q \<and> 0 \<le> q \<and> fle (Fin q) trust_ceiling"
  proof (cases score)
    case (Fin q)
    then have "0 \<le> q" using advisory_score_nonneg assms(1) s by blast
    with Fin show ?thesis by (auto simp: fmin_def trust_ceiling_Fin less_imp_le)
  next
    case NInf
    with s assms(1) show ?thesis by (auto simp: advisory_score_def py_exp_def res_simps split: if_splits)
  qed (auto simp: fmin_def trust_ceiling_Fin less_imp_le)
  with v l show ?thesis by simp
qed

text \<open>The missing branch of the advisory: an axis of zero whose weight is zero reaches \<open>math.log\<close>.\<close>

lemma rmap_first_error:
  assumes "x \<in> set xs" "f x = Inl e" "\<forall>y \<in> set xs. f y = Inl e \<or> (\<exists>v. f y = Inr v)"
  shows "rmap f xs = Inl e"
  using assms by (induction xs) (auto simp: res_simps)

lemma zero_weight_axis_raises:
  assumes "unit_axes clean" and z: "(n, Fin 0) \<in> set clean"
    and "\<forall>nv \<in> set clean. snd nv = Fin 0 \<longrightarrow> \<not> flt (Fin 0) (the (alookup normalized (fst nv)))"
  shows "advisory_score lexp llog clean normalized = Inl (ValueError ''math domain error'')"
proof -
  have no: "\<not> (\<exists>nv \<in> set clean. feq (snd nv) (Fin 0) \<and> flt (Fin 0) (the (alookup normalized (fst nv))))"
    using assms(1,3) by (fastforce simp: unit_axes_def)
  have "rmap (axis_term llog normalized) clean = Inl (ValueError ''math domain error'')"
  proof (rule rmap_first_error [OF z])
    show "axis_term llog normalized (n, Fin 0) = Inl (ValueError ''math domain error'')"
      by (simp add: axis_term_def py_log_def)
    show "\<forall>y\<in>set clean. axis_term llog normalized y = Inl (ValueError ''math domain error'') \<or>
        (\<exists>v. axis_term llog normalized y = Inr v)"
      by (auto simp: axis_term_def py_log_def)
  qed
  with no show ?thesis by (simp add: advisory_score_def)
qed

text \<open>an axis measured as 0 that carries weight 0 does not drop out of the weighted mean: the
  advisory raises ValueError from math.log instead of returning a score.\<close>

theorem lambda_zero_weight_raises:
  "lambda_advisory lexp llog
     [(''a'', AxNum (PFloat (Fin 0))), (''b'', AxNum (PFloat (Fin 1)))]
     (Some [(''a'', PFloat (Fin 0)), (''b'', PFloat (Fin 1))]) = Inl (ValueError ''math domain error'')"
proof -
  have st: "strip ''a'' = ''a''" "strip ''b'' = ''b''"
    by (simp_all add: strip_def lstrip_def rstrip_def py_isspace_def code_def)
  have c: "clean_axes [(''a'', AxNum (PFloat (Fin 0))), (''b'', AxNum (PFloat (Fin 1)))] [] [] =
      Inr ([(''a'', Fin 0), (''b'', Fin 1)], [])"
    by (simp add: st axis_value_def finite_arg_def)
  have w: "weight_axes [(''a'', Fin 0), (''b'', Fin 1)]
      (Some [(''a'', PFloat (Fin 0)), (''b'', PFloat (Fin 1))]) = Inr [(''a'', Fin 0), (''b'', Fin 1)]"
    by (simp add: weight_axes_def finite_arg_def py_sum_def Let_def fsub_def)
  have "advisory_score lexp llog [(''a'', Fin 0), (''b'', Fin 1)] [(''a'', Fin 0), (''b'', Fin 1)] =
      Inl (ValueError ''math domain error'')"
    by (rule zero_weight_axis_raises [of _ "''a''"]) (auto simp: unit_axes_def)
  then show ?thesis by (simp add: lambda_advisory_def Let_def c w del: clean_axes.simps)
qed

theorem lambda_advisory_bounded_witness:
  "\<exists>f. lambda_advisory (\<lambda>x. Fin 1) (\<lambda>x. x) [(''a'', AxNum (PFloat (Fin (1 / 2))))] None = Inr f \<and>
     fr_label f = MODELED \<and> (\<exists>q. fr_value f = Some (Fin q) \<and> 0 \<le> q \<and> fle (Fin q) trust_ceiling)"
proof -
  have st: "strip ''a'' = ''a''" "strip ''score'' \<noteq> []"
    by (simp_all add: strip_def lstrip_def rstrip_def py_isspace_def code_def)
  have "\<exists>f. lambda_advisory (\<lambda>x. Fin 1) (\<lambda>x. x) [(''a'', AxNum (PFloat (Fin (1 / 2))))] None = Inr f \<and>
      fr_label f \<noteq> UNAVAILABLE"
    using st
    by (simp add: trust_ceiling_Fin lambda_advisory_def Let_def axis_value_def finite_arg_def weight_axes_def
        advisory_score_def axis_term_def py_log_def py_exp_def fmin_def)
  then obtain f where f: "lambda_advisory (\<lambda>x. Fin 1) (\<lambda>x. x)
      [(''a'', AxNum (PFloat (Fin (1 / 2))))] None = Inr f" "fr_label f \<noteq> UNAVAILABLE" by blast
  have e: "\<forall>x::pyfloat. (\<lambda>x. Fin 1) x \<noteq> NInf \<and> (\<forall>q. (\<lambda>x. Fin 1) x = Fin q \<longrightarrow> 0 \<le> q)" by simp
  from lambda_advisory_bounded [OF e f] f(1) show ?thesis by blast
qed

end
