(* ===== verification/Float_Text.thy ===== *)
theory Float_Text
  imports Canonical
begin

section \<open>Every finite float has a text\<close>

text \<open>
  \<open>repr\_pos\<close> looks for the shortest decimal of at most 17 digits that reads back as the float.
  Seventeen digits always suffice: the nearest 17-digit decimal is less than half a unit in the
  last binary place away.  So canonical JSON is total on finite values.
\<close>

subsection \<open>The nearest integer\<close>

lemma rhe_error: "\<bar>of_int (rhe x) - x\<bar> \<le> 1 / 2"
proof -
  have "0 \<le> x - of_int \<lfloor>x\<rfloor>" "x - of_int \<lfloor>x\<rfloor> < 1" by linarith+
  then show ?thesis unfolding rhe_def Let_def by auto
qed

lemma rhe_near:
  assumes "\<bar>x - of_int z\<bar> < 1 / 2"
  shows "rhe x = z"
proof -
  have "\<bar>of_int (rhe x) - of_int z :: rat\<bar> < 1" using rhe_error [of x] assms by linarith
  then have "\<bar>of_int (rhe x - z) :: rat\<bar> < of_int 1" by simp
  then have "\<bar>rhe x - z\<bar> < 1" unfolding of_int_abs [symmetric] of_int_less_iff .
  then show ?thesis by simp
qed

subsection \<open>The decimal exponent\<close>

lemma ten_powi_pos [simp]: "0 < (10::rat) powi a"
  by (simp add: zero_less_power_int)

lemma ten_powi_add: "(10::rat) powi (a + b) = 10 powi a * 10 powi b"
  by (simp add: power_int_add)

lemma ten_powi_diff: "(10::rat) powi (a - b) = 10 powi a / 10 powi b"
  by (simp add: power_int_diff)

lemma show_nat_length:
  "n < 10 ^ length (show_nat n) \<and> (0 < n \<longrightarrow> 10 ^ (length (show_nat n) - 1) \<le> n)"
proof (induction n rule: show_nat.induct)
  case (1 n)
  show ?case
  proof (cases "n < 10")
    case True
    then show ?thesis by (subst (1 2) show_nat.simps) simp
  next
    case False
    let ?m = "n div 10"
    have ih: "?m < 10 ^ length (show_nat ?m)" "10 ^ (length (show_nat ?m) - 1) \<le> ?m"
      using 1 False by auto
    have len: "length (show_nat n) = Suc (length (show_nat ?m))"
      using False by (subst show_nat.simps) simp
    have "0 < length (show_nat ?m)" by simp
    then obtain j where j: "length (show_nat ?m) = Suc j" using gr0_implies_Suc by blast
    have "n < 10 * 10 ^ Suc j" using ih(1) j by (simp add: div_less_iff_less_mult)
    moreover have "10 * 10 ^ j \<le> n" using ih(2) j by (simp add: less_eq_div_iff_mult_less_eq mult.commute)
    ultimately show ?thesis by (simp add: len j)
  qed
qed

lemma show_nat_length_eq:
  assumes "10 ^ k \<le> n" "n < 10 ^ Suc k"
  shows "length (show_nat n) = Suc k"
proof -
  have "0 < n" using assms(1) by (metis le_zero_eq not_gr_zero power_not_zero zero_neq_numeral)
  then have b: "n < 10 ^ length (show_nat n)" "10 ^ (length (show_nat n) - 1) \<le> n"
    using show_nat_length by blast+
  have "(10::nat) ^ k < 10 ^ length (show_nat n)" "(10::nat) ^ (length (show_nat n) - 1) < 10 ^ Suc k"
    using assms b by linarith+
  then have "k < length (show_nat n)" "length (show_nat n) - 1 < Suc k"
    by (simp_all only: power_strict_increasing_iff [of "10::nat"] rel_simps)
  then show ?thesis by linarith
qed

lemma ndigits_powi:
  assumes "0 < n"
  shows "10 powi (ndigits n - 1) \<le> (of_nat n :: rat)" "(of_nat n :: rat) < 10 powi (ndigits n)" "0 < ndigits n"
proof -
  have b: "n < 10 ^ length (show_nat n)" "10 ^ (length (show_nat n) - 1) \<le> n"
    using show_nat_length assms by blast+
  show pos: "0 < ndigits n" by (simp add: ndigits_def)
  have lower: "(of_nat (10 ^ (length (show_nat n) - 1)) :: rat) \<le> of_nat n" using b(2) by (simp only: of_nat_le_iff)
  show "10 powi (ndigits n - 1) \<le> (of_nat n :: rat)"
  proof -
    have "nat (ndigits n - 1) = length (show_nat n) - 1" unfolding ndigits_def by linarith
    then show ?thesis using pos lower by (simp add: power_int_def)
  qed
  have "(of_nat n :: rat) < of_nat (10 ^ length (show_nat n))" using b(1) by (simp only: of_nat_less_iff)
  then show "(of_nat n :: rat) < 10 powi (ndigits n)" by (simp add: ndigits_def power_int_def)
qed

lemma flog10_bounds:
  assumes "0 < q"
  shows "10 powi (flog10 q) \<le> q" "q < 10 powi (flog10 q + 1)"
proof -
  obtain n d where nd: "quotient_of q = (n, d)" by (cases "quotient_of q")
  then have q: "q = of_int n / of_int d" and d: "0 < d"
    by (rule quotient_of_div, rule quotient_of_denom_pos)
  with assms have n: "0 < n" by (simp add: zero_less_divide_iff)
  have N: "10 powi (ndigits (nat n) - 1) \<le> (of_int n :: rat)" "(of_int n :: rat) < 10 powi (ndigits (nat n))"
    using ndigits_powi [of "nat n"] n by simp_all
  have D: "10 powi (ndigits (nat d) - 1) \<le> (of_int d :: rat)" "(of_int d :: rat) < 10 powi (ndigits (nat d))"
    using ndigits_powi [of "nat d"] d by simp_all
  let ?k = "ndigits (nat n) - ndigits (nat d)"
  have lo: "10 powi (?k - 1) < q"
  proof -
    have "(10::rat) powi (?k - 1) = 10 powi (ndigits (nat n) - 1) / 10 powi (ndigits (nat d))"
      by (simp flip: ten_powi_diff add: algebra_simps)
    also have "\<dots> < of_int n / of_int d" using N D d n by (intro frac_less2) auto
    finally show ?thesis using q by simp
  qed
  have hi: "q < 10 powi (?k + 1)"
  proof -
    have "of_int n / of_int d < (10::rat) powi (ndigits (nat n)) / 10 powi (ndigits (nat d) - 1)"
      using N D d n by (intro frac_less) auto
    also have "\<dots> = 10 powi (?k + 1)" by (simp flip: ten_powi_diff add: algebra_simps)
    finally show ?thesis using q by simp
  qed
  show "10 powi (flog10 q) \<le> q" "q < 10 powi (flog10 q + 1)"
    using lo hi by (auto simp: flog10_def nd Let_def)
qed

subsection \<open>A close decimal rounds back\<close>

lemma float_mantissa:
  assumes "f64 q" "0 < q" "e \<le> bexp q"
  shows "\<exists>z. q = of_int z * 2 powi e"
proof -
  have "q = of_int (rhe (mant q)) * 2 powi (bexp q)" using assms(1,2) rndq_pos f64_iff by metis
  also have "(2::rat) powi (bexp q) = 2 powi (bexp q - e) * 2 powi e" by (simp flip: powi_split)
  also have "(2::rat) powi (bexp q - e) = of_int (2 ^ nat (bexp q - e))" using assms(3) by (simp add: powi_nat)
  finally have "q = of_int (rhe (mant q) * 2 ^ nat (bexp q - e)) * 2 powi e" by simp
  then show ?thesis by blast
qed

text \<open>A number above a float and less than half a unit away has the float's binary exponent.\<close>

lemma close_above_exponent:
  assumes "f64 q" "0 < q" "q \<le> v" "v < q + 2 powi (bexp q) / 2"
  shows "bexp v = bexp q"
proof -
  let ?e = "bexp q"
  have v: "0 < v" using assms by linarith
  obtain z where z: "q = of_int z * 2 powi ?e" using float_mantissa [OF assms(1,2) order_refl] by blast
  have "mant q < 2 ^ 53" by (rule mant_less [OF assms(2)])
  moreover have "mant q = of_int z" unfolding mant_def using z powi_pos [of ?e] by (simp add: nonzero_divide_eq_eq)
  ultimately have "(of_int z :: rat) < of_int (2 ^ 53)" by simp
  then have "z + 1 \<le> 2 ^ 53" unfolding of_int_less_iff by simp
  then have "(of_int (z + 1) :: rat) \<le> of_int (2 ^ 53)" by (simp only: of_int_le_iff)
  then have "of_int (z + 1) * 2 powi ?e \<le> (2 ^ 53 * 2 powi ?e :: rat)" by (intro mult_right_mono) simp_all
  moreover have "v < of_int (z + 1) * 2 powi ?e" 
  proof -
    have "w / 2 < w" if "0 < w" for w :: rat using that by simp
    then have "v < q + 2 powi ?e" using assms(4) powi_pos [of ?e] by (meson add_less_cancel_left less_trans)
    then show ?thesis using z by (simp add: distrib_right)
  qed
  moreover have "(2 ^ 53 * 2 powi ?e :: rat) = 2 powi (?e + 53)" by (simp add: powi_split)
  ultimately have less: "v < 2 powi (?e + 53)" by linarith
  have "bexp q \<le> bexp v" by (rule bexp_mono [OF assms(2,3)])
  moreover have "bexp v \<le> ?e"
  proof -
    have "2 powi (flog2 v) \<le> v" by (rule flog2_bounds(1) [OF v])
    then have "(2::rat) powi (flog2 v) < 2 powi (?e + 53)" using less by linarith
    then have "flog2 v - 52 \<le> ?e" by (simp add: powi_less_iff)
    moreover have "- 1074 \<le> ?e" by (simp add: bexp_def)
    ultimately show ?thesis by (simp add: bexp_def [of v])
  qed
  ultimately show ?thesis by simp
qed

lemma rnd_close:
  assumes "f64 q" "0 < q" "\<bar>v - q\<bar> \<le> q / (2 * 10 ^ 16)"
  shows "rnd v = Fin q"
proof -
  have "q / (2 * 10 ^ 16) < q" using assms(2) by (simp add: pos_divide_less_eq)
  then have v: "0 < v" using assms(2,3) by linarith
  have "q < 2 ^ 53 * 2 powi (bexp q)" using mant_less [OF assms(2)] by (simp add: mant_def pos_divide_less_eq)
  moreover have "2 ^ 53 * w < 10 ^ 16 * w" if "0 < w" for w :: rat using that by simp
  ultimately have "q < 10 ^ 16 * 2 powi (bexp q)" using powi_pos less_trans by blast
  then have small: "q / (2 * 10 ^ 16) < 2 powi (bexp q) / 2" by (simp add: pos_divide_less_eq)
  have e: "bexp v \<le> bexp q"
  proof (cases "v \<le> q")
    case True
    then show ?thesis by (rule bexp_mono [OF v])
  next
    case False
    then show ?thesis
      using close_above_exponent [OF assms(1,2), of v] assms(3) small by simp
  qed
  obtain z where z: "q = of_int z * 2 powi (bexp v)" using float_mantissa [OF assms(1,2) e] by blast
  let ?u = "2 powi (bexp v) :: rat"
  have "v < 2 ^ 53 * ?u" using mant_less [OF v] by (simp add: mant_def pos_divide_less_eq)
  moreover have "q < 10 ^ 16 * w" if "0 < w" "v < 2 ^ 53 * w" for w :: rat
  proof -
    have "q - v \<le> q / (2 * 10 ^ 16)" using assms(3) by linarith
    then show ?thesis using that by simp
  qed
  ultimately have "q < 10 ^ 16 * ?u" using powi_pos by blast
  then have "\<bar>v - q\<bar> < ?u / 2" using assms(3) by (simp add: field_simps)
  then have "\<bar>v - q\<bar> / ?u < 1 / 2" by (simp add: pos_divide_less_eq)
  moreover have "\<bar>mant v - of_int z\<bar> = \<bar>v - q\<bar> / ?u"
  proof -
    have "q / ?u = of_int z" by (subst z) simp
    then have "mant v - of_int z = (v - q) / ?u" by (simp add: mant_def diff_divide_distrib)
    then show ?thesis by (simp add: abs_divide)
  qed
  ultimately have "rhe (mant v) = z" by (intro rhe_near) simp
  then have "rndq v = q" using rndq_pos [OF v] z by simp
  then show ?thesis using assms(1) by (simp add: rnd_Fin_iff f64_iff)
qed

subsection \<open>Seventeen digits suffice\<close>

lemma dec_digits_mantissa:
  assumes "0 < q"
  shows "10 ^ n \<le> rhe (q / 10 powi (flog10 q - int n))" "rhe (q / 10 powi (flog10 q - int n)) \<le> 10 ^ Suc n"
proof -
  define w :: rat where "w = 10 powi (flog10 q - int n)"
  have w: "0 < w" by (simp add: w_def)
  have p: "(10::rat) powi (flog10 q) = 10 ^ n * w" "(10::rat) powi (flog10 q + 1) = 10 ^ Suc n * w"
  proof -
    have "flog10 q = (flog10 q - int n) + int n" "flog10 q + 1 = (flog10 q - int n) + int (Suc n)" by simp_all
    then show "(10::rat) powi (flog10 q) = 10 ^ n * w" "(10::rat) powi (flog10 q + 1) = 10 ^ Suc n * w"
      unfolding w_def by (metis mult.commute power_int_of_nat ten_powi_add)+
  qed
  have "10 ^ n * w \<le> q" "q < 10 ^ Suc n * w" using flog10_bounds [OF assms] unfolding p .
  then have "10 ^ n \<le> q / w" "q / w \<le> 10 ^ Suc n" using w by (simp_all add: pos_le_divide_eq pos_divide_le_eq)
  then show "10 ^ n \<le> rhe (q / 10 powi (flog10 q - int n))" "rhe (q / 10 powi (flog10 q - int n)) \<le> 10 ^ Suc n"
    using rhe_mono [of "of_int (10 ^ n)" "q / w"] rhe_of_int [of "10 ^ n"]
      rhe_mono [of "q / w" "of_int (10 ^ Suc n)"] rhe_of_int [of "10 ^ Suc n"] by (simp_all add: w_def)
qed

lemma dec_digits_eq:
  "dec_digits q (Suc n) =
    (let m = rhe (q / 10 powi (flog10 q - int n)) in
     if nat m = 10 ^ Suc n then (10 ^ n, flog10 q + 1) else (nat m, flog10 q))"
  by (simp add: dec_digits_def Let_def)

lemma dec_digits_length:
  assumes "0 < q"
  shows "length (show_nat (fst (dec_digits q (Suc n)))) = Suc n"
proof -
  let ?m = "rhe (q / 10 powi (flog10 q - int n))"
  note b = dec_digits_mantissa [OF assms, of n]
  have "nat (10 ^ n) \<le> nat ?m" "nat ?m \<le> nat (10 ^ Suc n)" using b by (simp_all only: nat_mono)
  then have "10 ^ n \<le> nat ?m" "nat ?m \<le> 10 ^ Suc n" by (simp_all add: nat_power_eq nat_mult_distrib)
  then show ?thesis
    using show_nat_length_eq [of n "10 ^ n"] show_nat_length_eq [of n "nat ?m"] by (auto simp: dec_digits_eq Let_def)
qed

lemma dec_digits_close:
  assumes "0 < q"
  shows "\<bar>dec_value 17 (dec_digits q 17) - q\<bar> \<le> q / (2 * 10 ^ 16)"
proof -
  let ?k = "flog10 q"
  define w :: rat where "w = 10 powi (?k - int 16)"
  have w: "0 < w" by (simp add: w_def)
  have "(10::rat) powi ?k = 10 ^ 16 * w" using ten_powi_add [of "?k - int 16" "int 16"] by (simp add: w_def)
  then have b: "10 ^ 16 * w \<le> q" using flog10_bounds(1) [OF assms] by simp
  define m where "m = rhe (q / w)"
  have m: "10 ^ 16 \<le> m" "m \<le> 10 ^ 17" using dec_digits_mantissa [OF assms, of 16] by (simp_all add: m_def w_def)
  have "\<bar>of_int m - q / w\<bar> \<le> 1 / 2" unfolding m_def by (rule rhe_error)
  then have "\<bar>of_int m - q / w\<bar> * w \<le> 1 / 2 * w" using w by (intro mult_right_mono) simp_all
  moreover have "\<bar>of_int m - q / w\<bar> * w = \<bar>of_int m * w - q\<bar>"
    using w by (simp add: abs_mult_pos' [symmetric] left_diff_distrib abs_mult_pos)
  ultimately have err: "\<bar>of_int m * w - q\<bar> \<le> q / (2 * 10 ^ 16)" using b by simp
  have digits: "dec_digits q 17 = (if nat m = 10 ^ 17 then (10 ^ 16, ?k + 1) else (nat m, ?k))"
    using dec_digits_eq [of q 16] by (simp add: Let_def m_def w_def)
  have "dec_value 17 (dec_digits q 17) = of_int m * w"
  proof (cases "m = 10 ^ 17")
    case True
    have "(10::rat) powi (?k + 1 + 1 - 17) = 10 * w" using ten_powi_add [of "?k - 16" 1] by (simp add: w_def)
    then show ?thesis using True by (simp add: digits dec_value_def)
  next
    case False
    then have "nat m \<noteq> 10 ^ 17" using m(1) by (metis int_nat_eq of_nat_power of_nat_numeral order_trans zero_le_power zero_le_numeral)
    then show ?thesis using m(1) by (simp add: digits dec_value_def w_def)
  qed
  with err show ?thesis by simp
qed

lemma repr_pos_total:
  assumes "f64 q" "0 < q"
  shows "\<exists>s. repr_pos q = Some s"
proof -
  have "repr_reads_back q 17"
    using dec_digits_close [OF assms(2)] dec_digits_length [OF assms(2), of 16] rnd_close [OF assms]
    by (simp add: repr_reads_back_def Let_def)
  moreover have "17 \<in> set [1..<18 :: nat]" by simp
  ultimately have "List.find (repr_reads_back q) [1..<18] \<noteq> None" unfolding find_None_iff by blast
  then show ?thesis by (auto simp: repr_pos_def split: prod.splits)
qed

lemma float_repr_total:
  assumes "f64 q"
  shows "\<exists>s. float_repr q = Some s"
proof -
  consider "q = 0" | "0 < q" | "q < 0" by linarith
  then show ?thesis
  proof cases
    case 2
    then show ?thesis using repr_pos_total [OF assms] by (simp add: float_repr_def)
  next
    case 3
    then obtain s where "repr_pos (- q) = Some s" using repr_pos_total [of "- q"] assms f64_minus by auto
    then show ?thesis using 3 by (simp add: float_repr_def)
  qed (simp add: float_repr_def)
qed

lemma strict_float_finite:
  "wf_float x \<Longrightarrow> (\<exists>t. strict_float x = Inr t) \<longleftrightarrow> isfinite x"
  using float_repr_total by (cases x) (force simp: strict_float_def)+

subsection \<open>Six significant digits\<close>

text \<open>\<open>format(x, ".6g")\<close>\<close>

definition drop_zeros :: "string \<Rightarrow> string" where
  "drop_zeros s = rev (dropWhile (\<lambda>c. c = CHR ''0'') (rev s))"

definition general_pos :: "rat \<Rightarrow> string" where
  "general_pos q =
     (let (m, k) = dec_digits q 6; ds = drop_zeros (show_nat m); n = int (length ds) in
      if 0 \<le> k \<and> k < 6 then
        (if n \<le> k + 1 then ds @ replicate (nat (k + 1 - n)) (CHR ''0'')
         else take (nat (k + 1)) ds @ ''.'' @ drop (nat (k + 1)) ds)
      else if - 4 \<le> k \<and> k < 0 then ''0.'' @ replicate (nat (- k - 1)) (CHR ''0'') @ ds
      else take 1 ds @ (if n = 1 then [] else ''.'' @ drop 1 ds) @ ''e'' @
           (if k < 0 then ''-'' else ''+'') @
           (if \<bar>k\<bar> < 10 then ''0'' else []) @ show_nat (nat \<bar>k\<bar>))"

fun general6 :: "pyfloat \<Rightarrow> string" where
  "general6 (Fin q) = (if q = 0 then ''0'' else if q < 0 then ''-'' @ general_pos (- q) else general_pos q)"
| "general6 PInf = ''inf''"
| "general6 NInf = ''-inf''"
| "general6 NaN = ''nan''"

lemma ten_powi_less_iff: "(10::rat) powi a < 10 powi b \<longleftrightarrow> a < b"
  using power_int_strict_increasing [of a b "10::rat"] power_int_strict_increasing [of b a "10::rat"]
  by (cases a b rule: linorder_cases) auto

lemma two_ten_powi: "(2::rat) ^ n \<le> 10 ^ n"
  by (rule power_mono) simp_all

lemma float_exponent:
  assumes "f64 q" "0 < q"
  shows "\<bar>flog10 q\<bar> \<le> 1075"
proof -
  have "q < 2 ^ 1024" using assms by (simp add: f64_iff)
  also have "\<dots> \<le> 10 powi int 1024" unfolding power_int_of_nat by (rule two_ten_powi)
  finally have "(10::rat) powi flog10 q < 10 powi int 1024" using flog10_bounds(1) [OF assms(2)] by (rule le_less_trans [rotated])
  then have hi: "flog10 q < int 1024" unfolding ten_powi_less_iff .
  obtain z where z: "q = of_int z * 2 powi (- int 1074)"
    using float_mantissa [OF assms, of "- int 1074"] by (auto simp: bexp_def)
  have "0 < z" using assms(2) z by (simp add: zero_less_mult_iff)
  then have "1 \<le> (of_int z :: rat)" by simp
  then have "2 powi (- int 1074) \<le> q" unfolding z using powi_pos [of "- int 1074"] by (simp add: mult_le_cancel_right1)
  moreover have "(10::rat) powi (- int 1074) \<le> 2 powi (- int 1074)"
    unfolding power_int_minus power_int_of_nat by (intro le_imp_inverse_le two_ten_powi) simp
  ultimately have "(10::rat) powi (- int 1074) < 10 powi (flog10 q + 1)"
    using flog10_bounds(2) [OF assms(2)] by linarith
  then have "- int 1074 < flog10 q + 1" unfolding ten_powi_less_iff .
  then show ?thesis using hi by simp
qed

lemma general_pos_length:
  assumes "f64 q" "0 < q"
  shows "length (general_pos q) \<le> 15"
proof -
  obtain m k where mk: "dec_digits q 6 = (m, k)" by (cases "dec_digits q 6")
  have "length (drop_zeros (show_nat m)) \<le> length (show_nat m)"
    unfolding drop_zeros_def using length_dropWhile_le [of _ "rev (show_nat m)"] by simp
  then have ds: "length (drop_zeros (show_nat m)) \<le> 6"
    using dec_digits_length [OF assms(2), of 5] mk by simp
  have "k = flog10 q \<or> k = flog10 q + 1"
    using dec_digits_eq [of q 5] mk by (auto simp: Let_def split: if_splits)
  then have k: "\<bar>k\<bar> \<le> 1076" using float_exponent [OF assms] by auto
  have "length (show_nat (nat \<bar>k\<bar>)) \<le> 4"
  proof (rule ccontr)
    assume long: "\<not> length (show_nat (nat \<bar>k\<bar>)) \<le> 4"
    have "0 < nat \<bar>k\<bar>" using long by (cases "nat \<bar>k\<bar>") (simp_all add: show_nat.simps)
    then have "10 ^ (length (show_nat (nat \<bar>k\<bar>)) - 1) \<le> nat \<bar>k\<bar>" using show_nat_length by blast
    moreover have "(10::nat) ^ 4 \<le> 10 ^ (length (show_nat (nat \<bar>k\<bar>)) - 1)" using long by (intro power_increasing) simp_all
    ultimately have "(10::nat) ^ 4 \<le> nat \<bar>k\<bar>" by (rule order_trans [rotated])
    then show False using k by simp
  qed
  then show ?thesis using ds by (auto simp: general_pos_def mk Let_def)
qed

lemma general6_length: "wf_float x \<Longrightarrow> length (general6 x) \<le> 16"
proof (cases x)
  case (Fin q)
  assume "wf_float x"
  then show ?thesis
    using Fin general_pos_length [of q] general_pos_length [of "- q"] f64_minus [of q] by (cases q "0::rat" rule: linorder_cases) auto
qed simp_all

subsection \<open>Properties\<close>



end
