(* ===== verification/Analysis.thy ===== *)
theory Analysis
  imports Analysis_Anatomy Formulas Float_Text
begin

section \<open>POST /analyze (lyte/api/routes\_analysis.py)\<close>

text \<open>
  The analysis route puts the components together: the request contract, the nine formulas, the
  evidence check against the store, the anatomy of the nine stages, the receipt and memory
  drafts, and the append of the bundle.  Errors are the \<open>HTTPException\<close>s of the route, or
  whatever it does not catch.  Arguments for the environment are in \<open>analysis\_env\<close>; \<open>dv\<close> is
  the database that the evidence check reads, \<open>d0\<close>, \<open>d\<close>, \<open>dr\<close> those of the append.
\<close>

subsection \<open>The request (api/models.py)\<close>

record analysis_request =
  ar_service :: string
  ar_good :: int
  ar_total :: int
  ar_slo :: pyfloat
  ar_requests :: int
  ar_window :: pyfloat
  ar_failed :: int
  ar_changes :: int
  ar_cost :: pyfloat
  ar_successes :: int
  ar_volume :: "int option"
  ar_baseline :: "pyfloat option"
  ar_observed :: "pyfloat option"
  ar_order :: "pyfloat option"
  ar_currency :: string
  ar_refs :: "string list"
  ar_label :: truth_label

definition count_within :: "int \<Rightarrow> int \<Rightarrow> bool" where
  "count_within n limit \<longleftrightarrow> 0 \<le> n \<and> n \<le> limit"

definition float_within :: "pyfloat \<Rightarrow> rat \<Rightarrow> bool" where
  "float_within x limit \<longleftrightarrow> wf_float x \<and> fle (Fin 0) x \<and> fle x (Fin limit)"

definition opt_within :: "('a \<Rightarrow> bool) \<Rightarrow> 'a option \<Rightarrow> bool" where
  "opt_within ok x = (case x of None \<Rightarrow> True | Some v \<Rightarrow> ok v)"

definition request_ok :: "analysis_request \<Rightarrow> bool" where
  "request_ok r \<longleftrightarrow>
     ar_service r \<noteq> [] \<and> length (ar_service r) \<le> 256 \<and>
     count_within (ar_good r) 10000000000 \<and> count_within (ar_total r) 10000000000 \<and>
     wf_float (ar_slo r) \<and> flt (Fin 0) (ar_slo r) \<and> flt (ar_slo r) (Fin 1) \<and>
     count_within (ar_requests r) 10000000000 \<and>
     wf_float (ar_window r) \<and> flt (Fin 0) (ar_window r) \<and> fle (ar_window r) (Fin 2592000) \<and>
     count_within (ar_failed r) 10000000 \<and> count_within (ar_changes r) 10000000 \<and>
     float_within (ar_cost r) 1000000000 \<and> count_within (ar_successes r) 10000000000 \<and>
     opt_within (\<lambda>n. count_within n 10000000000) (ar_volume r) \<and>
     opt_within (\<lambda>x. float_within x 1) (ar_baseline r) \<and>
     opt_within (\<lambda>x. float_within x 1) (ar_observed r) \<and>
     opt_within (\<lambda>x. float_within x 100000000) (ar_order r) \<and>
     length (ar_currency r) = 3 \<and> list_all is_upper (ar_currency r) \<and>
     length (ar_refs r) \<le> 100 \<and> list_all (\<lambda>e. e \<noteq> [] \<and> length e \<le> 512) (ar_refs r) \<and>
     ar_label r \<in> {MEASURED, REPORTED, SAMPLE}"

definition opt_float :: "pyfloat option \<Rightarrow> json" where
  "opt_float x = (case x of None \<Rightarrow> JNull | Some v \<Rightarrow> JFloat v)"

text \<open>\<open>payload.model\_dump(mode="json")\<close>\<close>

definition request_json :: "analysis_request \<Rightarrow> json" where
  "request_json r = JObj
     [(''service_id'', JStr (ar_service r)), (''good_events'', JInt (ar_good r)),
      (''total_events'', JInt (ar_total r)), (''slo_target'', JFloat (ar_slo r)),
      (''requests'', JInt (ar_requests r)), (''window_seconds'', JFloat (ar_window r)),
      (''failed_changes'', JInt (ar_failed r)), (''total_changes'', JInt (ar_changes r)),
      (''cost_usd'', JFloat (ar_cost r)), (''successful_outcomes'', JInt (ar_successes r)),
      (''revenue_volume'', case ar_volume r of None \<Rightarrow> JNull | Some n \<Rightarrow> JInt n),
      (''baseline_conversion_rate'', opt_float (ar_baseline r)),
      (''observed_conversion_rate'', opt_float (ar_observed r)),
      (''average_order_value'', opt_float (ar_order r)),
      (''currency'', JStr (ar_currency r)), (''evidence_refs'', jstrs (ar_refs r)),
      (''input_truth_label'', JStr (label_value (ar_label r)))]"

subsection \<open>The source revision (api/routes\_health.py)\<close>

record source_binding =
  si_state :: string
  si_revision :: "string option"
  si_agree :: bool
  si_sources :: "string list"
  si_invalid :: "string list"
  si_distinct :: nat

definition sha40 :: "string \<Rightarrow> bool" where
  "sha40 s \<longleftrightarrow> length s = 40 \<and> list_all lower_hex s"

definition unbound_value :: "string \<Rightarrow> bool" where
  "unbound_value v \<longleftrightarrow> v \<in> {[], ''unknown'', ''unavailable'', ''unbound''}"

text \<open>\<open>lookup\<close> is the environment, \<open>marker\<close> the text of \<open>source\_revision.txt\<close> if there is one.\<close>

definition source_values :: "(string \<Rightarrow> string option) \<Rightarrow> string option \<Rightarrow> (string \<times> string) list" where
  "source_values lookup marker =
     map (\<lambda>n. (n, py_lower (strip (case lookup n of None \<Rightarrow> [] | Some v \<Rightarrow> v))))
       [''LYTE_SOURCE_REVISION'', ''SOURCE_REVISION'', ''GITHUB_SHA''] @
     (case marker of None \<Rightarrow> [] | Some t \<Rightarrow> [(''source_revision.txt'', py_lower (strip t))])"

definition source_identity :: "(string \<Rightarrow> string option) \<Rightarrow> string option \<Rightarrow> source_binding" where
  "source_identity lookup marker =
     (let vs = source_values lookup marker;
          candidates = filter (\<lambda>nv. sha40 (snd nv)) vs;
          invalid = filter (\<lambda>nv. \<not> sha40 (snd nv) \<and> \<not> unbound_value (snd nv)) vs;
          revisions = remdups (map snd candidates);
          state = (if invalid \<noteq> [] \<or> 1 < length revisions then ''MISMATCH''
                   else if length revisions = 1 then ''OBSERVED'' else ''UNBOUND'') in
      \<lparr>si_state = state, si_revision = (if state = ''OBSERVED'' then Some (hd revisions) else None),
       si_agree = (state = ''OBSERVED''), si_sources = sort (map fst candidates),
       si_invalid = sort (map fst invalid), si_distinct = length revisions\<rparr>)"

subsection \<open>Formulas\<close>

fun num_json :: "pynum \<Rightarrow> json" where
  "num_json (PInt i) = JInt i"
| "num_json (PFloat x) = JFloat x"
| "num_json (PBool b) = JBool b"

fun input_json :: "input \<Rightarrow> json" where
  "input_json (InNum v) = (case v of None \<Rightarrow> JNull | Some n \<Rightarrow> num_json n)"
| "input_json (InStr v) = jopt v"
| "input_json (InNums v) = (case v of None \<Rightarrow> JNull | Some ns \<Rightarrow> JList (map num_json ns))"
| "input_json (InFloats kvs) = JObj (map (\<lambda>kv. (fst kv, opt_float (snd kv))) kvs)"

definition serialize_formula :: "truth_label \<Rightarrow> formula_result \<Rightarrow> (string \<times> json) list" where
  "serialize_formula label r =
     (let row = jfields (fr_to_dict input_json r) in
      if fr_label r = MEASURED \<and> label \<noteq> MEASURED then
        aset (aset row ''truth_label'' (JStr (label_value label))) ''proof_status''
          (JStr (''DETERMINISTIC_FROM_'' @ label_value label @ ''_INPUT''))
      else row)"

definition int_num :: "int \<Rightarrow> pynum option" where
  "int_num n = Some (PInt n)"

definition float_num :: "pyfloat \<Rightarrow> pynum option" where
  "float_num x = Some (PFloat x)"

definition analysis_formulas :: "analysis_request \<Rightarrow> formula_result list res" where
  "analysis_formulas r =
     (let good = int_num (ar_good r); tot = int_num (ar_total r); slo = float_num (ar_slo r) in
      rmap id
        [availability_sli good tot,
         error_rate (int_num (ar_total r - ar_good r)) tot,
         allowed_bad_rate slo,
         error_budget_burn_rate good tot slo,
         error_budget_remaining good tot slo,
         requests_per_second (int_num (ar_requests r)) (float_num (ar_window r)),
         change_failure_rate (int_num (ar_failed r)) (int_num (ar_changes r)),
         cost_per_success (float_num (ar_cost r)) (int_num (ar_successes r)),
         revenue_at_risk (map_option PInt (ar_volume r)) (map_option PFloat (ar_observed r))
           (map_option PFloat (ar_baseline r)) (map_option PFloat (ar_order r))])"

definition value_of :: "formula_result list \<Rightarrow> string \<Rightarrow> pyfloat option res" where
  "value_of results name =
     (case List.find (\<lambda>r. fr_name r = name) results of
        None \<Rightarrow> Inl (KeyError name) | Some r \<Rightarrow> Inr (fr_value r))"

definition format_observation :: "pyfloat option \<Rightarrow> string \<Rightarrow> string" where
  "format_observation v unit =
     (case v of None \<Rightarrow> ''UNAVAILABLE''
      | Some x \<Rightarrow> general6 x @ (if unit = [] then [] else '' '' @ unit))"

subsection \<open>The evidence check\<close>

definition ref_resolves :: "db \<Rightarrow> scope \<Rightarrow> string \<Rightarrow> bool res" where
  "ref_resolves d s e =
     (if hex64_ok e then rbind (get_receipt d s e) (\<lambda>r. Inr (r \<noteq> None)) else Inr False)"

definition verify_boundary ::
  "(string \<Rightarrow> string) \<Rightarrow> db \<Rightarrow> scope \<Rightarrow> string list \<Rightarrow> source_binding \<Rightarrow>
   (string \<times> (string \<times> json) list) res" where
  "verify_boundary hx d s refs source =
     rbind (rmap (ref_resolves d s) refs) (\<lambda>found.
       let verified = map fst (filter snd (zip refs found));
           unresolved = map fst (filter (\<lambda>p. \<not> snd p) (zip refs found)) in
       rbind (verify_chain hx d s ''receipts'') (\<lambda>chain.
       rbind (rmap (\<lambda>e. sha256_json hx (JStr e)) unresolved) (\<lambda>digests.
         let bound = si_agree source \<and> si_revision source \<notin> {None, Some []};
             freshness = ''UNAVAILABLE'';
             full = (unresolved = [] \<and> length verified = length refs \<and> cv_valid chain \<and> bound \<and>
                     freshness = ''VERIFIED'') in
         Inr (if full then ''VERIFIED'' else ''PARTIAL'',
           [(''evidence'', JStr (if unresolved = [] then ''VERIFIED_SCOPED'' else ''PARTIAL'')),
            (''verified_scoped_receipt_count'', JInt (int (length verified))),
            (''unresolved_evidence_count'', JInt (int (length unresolved))),
            (''unresolved_evidence_sha256'', jstrs digests),
            (''invariants'', JStr ''VERIFIED''),
            (''receipt_chain'', JStr (if cv_valid chain then ''VERIFIED'' else ''FAILED'')),
            (''receipt_chain_record_count'', JInt (int (cv_count chain))),
            (''source_binding'', JStr (si_state source)),
            (''source_freshness'', JStr freshness),
            (''causality_verified'', JBool False), (''execution_verified'', JBool False)]))))"

subsection \<open>Products of the stages\<close>

text \<open>What the route computes of a request before it touches the store.\<close>

record request_facts =
  af_results :: "formula_result list"
  af_formulas :: "(string \<times> json) list list"
  af_input :: string
  af_output :: string
  af_formula_sha :: string
  af_decision :: string
  af_summary :: string

definition formulas_json :: "(string \<times> json) list list \<Rightarrow> json" where
  "formulas_json fs = JList (map JObj fs)"

definition decide :: "pyfloat option \<Rightarrow> string" where
  "decide burn =
     (case burn of None \<Rightarrow> ''ABSTAIN'' | Some v \<Rightarrow> if flt (Fin 1) v then ''REVIEW'' else ''ABSTAIN'')"

definition next_review :: "string \<Rightarrow> json" where
  "next_review decision =
     (if decision = ''REVIEW''
      then JStr ''Review the service evidence, dependencies, and most recent deployment.'' else JNull)"

definition analysis_summary :: "string \<Rightarrow> pyfloat option \<Rightarrow> pyfloat option \<Rightarrow> string \<Rightarrow> string" where
  "analysis_summary service availability burn decision =
     ''Observed analysis for service '' @ service @ '': availability '' @
     format_observation availability [] @ '', error-budget burn '' @
     format_observation burn ''x'' @ ''; Lyte returned '' @ decision @
     '' for human review and did not authorize or execute an action.''"

definition analysis_facts :: "(string \<Rightarrow> string) \<Rightarrow> analysis_request \<Rightarrow> formula_result list \<Rightarrow> request_facts res" where
  "analysis_facts hx r results =
     (let formulas = map (serialize_formula (ar_label r)) results in
      rbind (sha256_json hx (request_json r)) (\<lambda>input.
      rbind (sha256_json hx (JObj
        [(''service_id'', JStr (ar_service r)), (''formulas'', formulas_json formulas),
         (''causality_claimed'', JBool False), (''effectors_enabled'', JBool False)])) (\<lambda>output.
      rbind (value_of results ''error_budget_burn_rate'') (\<lambda>burn.
      rbind (sha256_json hx (formulas_json formulas)) (\<lambda>fsha.
      rbind (value_of results ''availability_sli'') (\<lambda>sli.
        Inr \<lparr>af_results = results, af_formulas = formulas, af_input = input, af_output = output,
             af_formula_sha = fsha, af_decision = decide burn,
             af_summary = analysis_summary (ar_service r) sli burn (decide burn)\<rparr>))))))"

definition policy_result :: "(string \<times> json) list" where
  "policy_result =
     [(''authority_mode'', JStr ''HUMAN_SOVEREIGN''), (''human_approval_required'', JBool True),
      (''can_authorize'', JBool False), (''can_execute'', JBool False),
      (''effectors_enabled'', JBool False), (''causality_claimed'', JBool False)]"

definition stage_products ::
  "analysis_request \<Rightarrow> request_facts \<Rightarrow> string \<times> (string \<times> json) list \<Rightarrow> string \<Rightarrow> string \<Rightarrow> string \<Rightarrow>
   string \<Rightarrow> string \<Rightarrow> (string \<times> (string \<times> json) list) list" where
  "stage_products r f verification part summary_sha service_sha scope_sha refs_sha =
     [(''OBSERVED'',
        [(''observation_type'', JStr ''EXPLICIT_CALLER_AGGREGATES''), (''input_sha256'', JStr (af_input f)),
         (''evidence_ref_count'', JInt (int (length (ar_refs r)))), (''raw_evidence_persisted'', JBool False)]),
      (''VALIDATED'',
        [(''normalized_input_sha256'', JStr (af_input f)), (''schema_validated'', JBool True),
         (''bounds_validated'', JBool True),
         (''units'', JObj [(''cost'', JStr (ar_currency r)), (''window'', JStr ''seconds'')])]),
      (''BOUND'',
        [(''scope_sha256'', JStr scope_sha), (''service_id_sha256'', JStr service_sha),
         (''evidence_refs_sha256'', JStr refs_sha)]),
      (if list_all fr_available (af_results f) then ''CALCULATED'' else ''PARTIAL'',
        [(''formula_output_sha256'', JStr (af_formula_sha f)),
         (''formula_count'', JInt (int (length (af_formulas f)))),
         (''available_formula_count'',
            JInt (int (length (filter fr_available (af_results f)))))]),
      (''ENFORCED'', policy_result),
      (af_decision f,
        [(''decision'', JStr (af_decision f)), (''owner'', JStr ''HUMAN''),
         (''recommended_next_review'', next_review (af_decision f))] @ policy_result),
      verification,
      (''PERSISTED'',
        [(''kind'', JStr (memory_kind_value OBSERVATION)), (''summary_sha256'', JStr summary_sha),
         (''subjects'', jstrs [ar_service r]), (''approved_knowledge'', JBool False),
         (''raw_request_persisted'', JBool False), (''raw_session_material_persisted'', JBool False),
         (''partition_sha256'', JStr part)]),
      (''APPENDED'',
        [(''kind'', JStr ''analysis.completed''), (''subject_type'', JStr ''service''),
         (''subject_id_sha256'', JStr service_sha), (''append_only'', JBool True),
         (''idempotency_enforced'', JBool True)])]"

definition stage_results ::
  "(string \<Rightarrow> string) \<Rightarrow> scope \<Rightarrow> analysis_request \<Rightarrow> request_facts \<Rightarrow> string \<times> (string \<times> json) list \<Rightarrow>
   (string \<times> (string \<times> json) list) list res" where
  "stage_results hx s r f verification =
     rbind (sha256_json hx (JStr (af_summary f))) (\<lambda>summary_sha.
     rbind (sha256_json hx (JStr (ar_service r))) (\<lambda>service_sha.
     rbind (sha256_json hx (JObj (scope_to_dict s))) (\<lambda>scope_sha.
     rbind (sha256_json hx (jstrs (ar_refs r))) (\<lambda>refs_sha.
       Inr (stage_products r f verification (enterprise_memory_partition hx s) summary_sha service_sha
              scope_sha refs_sha)))))"

subsection \<open>Drafts\<close>

definition analysis_payload ::
  "analysis_request \<Rightarrow> request_facts \<Rightarrow> source_binding \<Rightarrow> string \<Rightarrow> uuid \<Rightarrow> string \<Rightarrow> (string \<times> json) list" where
  "analysis_payload r f source verification tid anatomy_sha =
     [(''input_sha256'', JStr (af_input f)), (''output_sha256'', JStr (af_output f)),
      (''formula_output_sha256'', JStr (af_formula_sha f)),
      (''formula_ids'', jstrs (map fr_name (af_results f))),
      (''input_truth_label'', JStr (label_value (ar_label r))), (''currency'', JStr (ar_currency r)),
      (''decision'', JStr (af_decision f)), (''verification_state'', JStr verification),
      (''trace_id'', JStr (uuid_str tid)), (''anatomy_schema'', JStr ''szl.lyte.analysis-anatomy/v1''),
      (''anatomy_sha256'', JStr anatomy_sha), (''source_revision'', jopt (si_revision source)),
      (''human_approval_required'', JBool True), (''can_authorize'', JBool False),
      (''can_execute'', JBool False), (''causality_claimed'', JBool False),
      (''effectors_enabled'', JBool False)]"

definition analysis_metadata :: "request_facts \<Rightarrow> uuid \<Rightarrow> (string \<times> json) list" where
  "analysis_metadata f tid =
     [(''trace_id'', JStr (uuid_str tid)), (''analysis_input_sha256'', JStr (af_input f)),
      (''analysis_output_sha256'', JStr (af_output f)), (''decision'', JStr (af_decision f)),
      (''human_approval_required'', JBool True), (''approved_knowledge'', JBool False),
      (''can_authorize'', JBool False), (''can_execute'', JBool False),
      (''causality_claimed'', JBool False), (''effectors_enabled'', JBool False)]"

definition analysis_memory :: "analysis_request \<Rightarrow> request_facts \<Rightarrow> uuid \<Rightarrow> memory_draft" where
  "analysis_memory r f tid =
     \<lparr>md_kind = OBSERVATION, md_summary = af_summary f, md_label = ar_label r, md_refs = ar_refs r,
      md_subjects = [ar_service r],
      md_dims = (if identifier_ok (ar_service r) then [(''service'', [ar_service r])] else []),
      md_meta = analysis_metadata f tid\<rparr>"

definition request_digest :: "(string \<Rightarrow> string) \<Rightarrow> analysis_request \<Rightarrow> string res" where
  "request_digest hx r = sha256_json hx (JObj
     [(''schema'', JStr ''szl.lyte.analysis-request-idempotency/v1''), (''payload'', request_json r)])"

record analysis_env =
  ae_source :: source_binding
  ae_trace :: uuid
  ae_spans :: "nat \<Rightarrow> uuid"
  ae_clock :: "nat \<Rightarrow> datetime"
  ae_now :: datetime
  ae_rows :: "nat \<Rightarrow> uuid"

text \<open>Everything the route hands to \<open>append\_analysis\_bundle\<close>.\<close>

record bundle_drafts =
  ad_receipt :: receipt_draft
  ad_memory :: memory_draft
  ad_traces :: "trace list"
  ad_request :: string

definition analysis_drafts ::
  "(string \<Rightarrow> string) \<Rightarrow> scope \<Rightarrow> analysis_request \<Rightarrow> analysis_env \<Rightarrow> request_facts \<Rightarrow>
   string \<times> (string \<times> json) list \<Rightarrow> bundle_drafts res" where
  "analysis_drafts hx s r env f verification =
     rbind (stage_results hx s r f verification) (\<lambda>results.
     rbind (build_analysis_anatomy hx (af_input f) (ar_label r) (si_revision (ae_source env)) results
              (ae_trace env)) (\<lambda>anatomy.
     rbind (sha256_json hx (JList (map stage_entry (aa_stages anatomy)))) (\<lambda>anatomy_sha.
     rbind (mk_receipt_draft ''analysis.completed'' ''service'' (ar_service r)
              (analysis_payload r f (ae_source env) (fst verification) (aa_trace_id anatomy) anatomy_sha)
              (ar_label r) (ar_refs r)) (\<lambda>rd.
     rbind (mk_memory_draft (analysis_memory r f (aa_trace_id anatomy))) (\<lambda>md.
     rbind (request_digest hx r) (\<lambda>digest.
     rbind (to_traces anatomy s (ae_spans env) (ae_clock env)) (\<lambda>traces.
       Inr \<lparr>ad_receipt = rd, ad_memory = md, ad_traces = traces, ad_request = digest\<rparr>)))))))"

subsection \<open>The route\<close>

fun is_persistence_error :: "exc \<Rightarrow> bool" where
  "is_persistence_error (PersistenceError _) = True"
| "is_persistence_error (ScopeNotFound _) = True"
| "is_persistence_error (IdempotencyConflict _) = True"
| "is_persistence_error (OperationalConflict _) = True"
| "is_persistence_error (ProvisioningConflict _) = True"
| "is_persistence_error _ = False"

definition formula_handler :: "exc \<Rightarrow> exc" where
  "formula_handler e = (case e of ValueError m \<Rightarrow> HTTPException 422 m | _ \<Rightarrow> e)"

definition verification_handler :: "exc \<Rightarrow> exc" where
  "verification_handler e =
     (if is_persistence_error e then HTTPException 503 ''analysis evidence verification is unavailable'' else e)"

definition append_handler :: "exc \<Rightarrow> exc" where
  "append_handler e =
     (case e of
        IdempotencyConflict m \<Rightarrow> HTTPException 409 ''Idempotency-Key was already used for a different request''
      | _ \<Rightarrow> if is_persistence_error e
             then HTTPException 503 ''analysis durable bundle could not be committed'' else e)"

definition check_request :: "analysis_request \<Rightarrow> string option \<Rightarrow> string res" where
  "check_request r key =
     (case key of
        None \<Rightarrow> Inl (HTTPException 400 ''Idempotency-Key must contain 16-256 characters'')
      | Some k \<Rightarrow>
        guard_else (16 \<le> length k \<and> length k \<le> 256)
          (HTTPException 400 ''Idempotency-Key must contain 16-256 characters'')
       (guard_else (ar_good r \<le> ar_total r) (HTTPException 422 ''good_events cannot exceed total_events'')
       (guard_else (ar_failed r \<le> ar_changes r) (HTTPException 422 ''failed_changes cannot exceed total_changes'')
       (guard_else (ar_refs r \<noteq> []) (HTTPException 422 ''analysis requires at least one evidence reference'')
         (Inr k)))))"

definition analysis_response ::
  "analysis_request \<Rightarrow> request_facts \<Rightarrow> analysis_bundle \<Rightarrow> (string \<times> json) list res" where
  "analysis_response r f b =
     (let p = rc_payload (ab_receipt b) in
      guard_else (json_eq (jget_null p ''formula_output_sha256'') (JStr (af_formula_sha f)) \<and>
                  json_eq (jget_null p ''output_sha256'') (JStr (af_output f)))
        (HTTPException 503 ''analysis output differs from its original durable receipt'')
     (rbind (rmap stored_trace_to_api (ab_traces b)) (\<lambda>traces.
      rbind (attribute p ''trace_id'') (\<lambda>tid.
      rbind (attribute p ''decision'') (\<lambda>decision.
      rbind (attribute p ''verification_state'') (\<lambda>verification.
        Inr [(''schema'', JStr ''szl.lyte.analysis/v2''), (''service_id'', JStr (ar_service r)),
             (''formulas'', formulas_json (af_formulas f)), (''anatomy_trace'', JList (map JObj traces)),
             (''trace_id'', tid), (''anatomy_schema'', JStr ''szl.lyte.analysis-anatomy/v1''),
             (''anatomy_persisted'', JBool True), (''memory_record_hash'', JStr (r_hash (ab_memory b))),
             (''memory_persisted'', JBool True), (''receipt_id'', JStr (r_hash (ab_receipt b))),
             (''receipt_sequence'', JInt (r_seq (ab_receipt b))),
             (''idempotent_replay'', JBool (ab_replay b)),
             (''truth_label'', JStr (label_value (ar_label r))), (''currency'', JStr (ar_currency r)),
             (''decision'', decision), (''verification_state'', verification),
             (''causality_claimed'', JBool False),
             (''recommended_next_review'',
                if json_eq decision (JStr ''REVIEW'') then next_review ''REVIEW'' else JNull),
             (''human_approval_required'', JBool True), (''can_authorize'', JBool False),
             (''can_execute'', JBool False), (''effectors_enabled'', JBool False)]))))))"

definition analyze ::
  "(string \<Rightarrow> string) \<Rightarrow> db \<Rightarrow> db \<Rightarrow> db \<Rightarrow> db \<Rightarrow> analysis_env \<Rightarrow> scope \<Rightarrow> analysis_request \<Rightarrow>
   string option \<Rightarrow> ((string \<times> json) list \<times> db) res" where
  "analyze hx dv d0 d dr env s r key =
     rbind (check_request r key) (\<lambda>k.
     rbind (map_exc formula_handler (analysis_formulas r)) (\<lambda>results.
     rbind (analysis_facts hx r results) (\<lambda>f.
     rbind (map_exc verification_handler (verify_boundary hx dv s (ar_refs r) (ae_source env))) (\<lambda>verification.
     rbind (analysis_drafts hx s r env f verification) (\<lambda>a.
     rbind (map_exc append_handler
              (append_analysis_bundle hx d0 d dr s (ad_receipt a) (ad_memory a) (ad_traces a) k
                 (ad_request a) (ae_now env) (ae_rows env))) (\<lambda>(b, d').
     rbind (analysis_response r f b) (\<lambda>response. Inr (response, d'))))))))"

subsection \<open>Formulas raise only what the route catches\<close>

definition clean :: "pyfloat \<Rightarrow> bool" where
  "clean x \<longleftrightarrow> wf_float x \<and> isfinite x"

definition inputs_json :: "(string \<times> input) list \<Rightarrow> json" where
  "inputs_json inputs = JObj (map (\<lambda>kv. (fst kv, input_json (snd kv))) inputs)"

text \<open>A formula that raises a \<open>ValueError\<close> or gives a result of that name whose floats are finite.\<close>

definition formula_fine :: "string \<Rightarrow> formula_result res \<Rightarrow> bool" where
  "formula_fine name x =
     (case x of Inl e \<Rightarrow> \<exists>m. e = ValueError m
      | Inr f \<Rightarrow> fr_name f = name \<and> (\<forall>v. fr_value f = Some v \<longrightarrow> clean v) \<and>
                 (\<forall>y \<in> json_floats (inputs_json (fr_inputs f)). clean y))"

definition value_error :: "'a res \<Rightarrow> bool" where
  "value_error x = (case x of Inl e \<Rightarrow> \<exists>m. e = ValueError m | Inr v \<Rightarrow> True)"

lemma fine_make:
  assumes "\<And>w. v = Some w \<Longrightarrow> wf_float w" "\<forall>y \<in> json_floats (inputs_json i). clean y"
  shows "formula_fine n (fr_make n v l e u i r p c)"
  using assms by (auto simp: fr_make_def formula_fine_def guard_else_def clean_def rbind_def split: option.splits)

lemma fine_unavailable:
  "\<forall>y \<in> json_floats (inputs_json i). clean y \<Longrightarrow> formula_fine n (fr_unavailable n e i m u p)"
  unfolding fr_unavailable_def by (rule fine_make) simp_all

lemma fine_bind:
  assumes "value_error m" "\<And>x. m = Inr x \<Longrightarrow> formula_fine n (f x)"
  shows "formula_fine n (rbind m f)"
  using assms by (cases m) (auto simp: value_error_def formula_fine_def)

lemma fine_error [simp]: "formula_fine n (Inl (ValueError m))"
  by (simp add: formula_fine_def)

lemma value_error_simps [simp]:
  "value_error (Inr x)" "value_error (Inl (ValueError m))" "value_error (count_arg v n)"
  by (auto simp: value_error_def count_arg_def split: pynum.splits)

lemma fsub_wf [simp]: "wf_float (fsub a b)"
  unfolding fsub_def by (cases a; cases b) simp_all

lemma fmul_wf [simp]: "wf_float (fmul a b)"
  by (cases a; cases b) (simp_all add: fsigned_inf_def)

lemma fdiv_wf: "fdiv a b = Inr v \<Longrightarrow> wf_float v"
  by (cases a; cases b) (auto simp: fsigned_inf_def split: if_splits)

lemma fmax_wf: "wf_float a \<Longrightarrow> wf_float b \<Longrightarrow> wf_float (fmax a b)"
  by (simp add: fmax_def)

lemma float_of_small:
  assumes "0 \<le> n" "n \<le> 10000000000"
  shows "float_of_int n = Inr (Fin (of_int n))"
  using f64_of_int [of n] assms by (simp add: float_of_int_def)

lemma finite_float_arg [simp]:
  "value_error (finite_arg (PFloat x) n m)"
  "finite_arg (PFloat x) n (Some 0) = Inr y \<longleftrightarrow> y = x \<and> isfinite x \<and> fle (Fin 0) x"
  by (cases x; auto simp: finite_arg_def value_error_def split: option.splits)+

lemma clean_within: "float_within x l \<Longrightarrow> clean x \<and> fle (Fin 0) x"
  by (cases x) (auto simp: float_within_def clean_def)

lemma count_ratio_fine:
  assumes "0 \<le> g" "g \<le> t" "n \<noteq> []"
  shows "formula_fine n (count_ratio n pk tk (Some (PInt g)) (Some (PInt t)))"
proof -
  have floats: "\<forall>y \<in> json_floats (inputs_json [(pk, InNum (Some (PInt g))), (tk, InNum (Some (PInt t)))]). clean y"
    by (simp add: inputs_json_def)
  have c: "count_arg (PInt g) pk = Inr g" "count_arg (PInt t) tk = Inr t"
    using assms by (simp_all add: count_arg_def)
  show ?thesis
  proof (cases "t = 0")
    case True
    then show ?thesis 
      by (simp add: count_ratio_def Let_def c [unfolded True] fine_unavailable [OF floats [unfolded True]])
  next
    case False
    then obtain v where v: "int_div g t = Inr v" "wf_float v"
      using int_div_unit [OF assms(1,2)] by auto
    have "\<not> t < g" using assms(2) by simp
    then show ?thesis
      by (simp add: count_ratio_def Let_def c v(1) False) (rule fine_make [OF _ floats], use v(2) in auto)
  qed
qed

lemma request_floats:
  assumes "request_ok r"
  shows "\<exists>q. ar_slo r = Fin q \<and> f64 q \<and> 0 < q \<and> q < 1" "\<exists>w. ar_window r = Fin w \<and> f64 w \<and> 0 < w"
    "\<exists>c. ar_cost r = Fin c \<and> f64 c \<and> 0 \<le> c" "clean (ar_slo r)" "clean (ar_window r)" "clean (ar_cost r)"
    "\<And>x. ar_baseline r = Some x \<Longrightarrow> clean x" "\<And>x. ar_observed r = Some x \<Longrightarrow> clean x"
    "\<And>x. ar_order r = Some x \<Longrightarrow> clean x"
proof -
  show slo: "\<exists>q. ar_slo r = Fin q \<and> f64 q \<and> 0 < q \<and> q < 1"
    using assms by (cases "ar_slo r") (auto simp: request_ok_def)
  show window: "\<exists>w. ar_window r = Fin w \<and> f64 w \<and> 0 < w"
    using assms by (cases "ar_window r") (auto simp: request_ok_def)
  show cost: "\<exists>c. ar_cost r = Fin c \<and> f64 c \<and> 0 \<le> c"
    using assms by (cases "ar_cost r") (auto simp: request_ok_def float_within_def)
  show "clean (ar_slo r)" "clean (ar_window r)" "clean (ar_cost r)"
    using slo window cost by (auto simp: clean_def)
  show "\<And>x. ar_baseline r = Some x \<Longrightarrow> clean x" "\<And>x. ar_observed r = Some x \<Longrightarrow> clean x"
    "\<And>x. ar_order r = Some x \<Longrightarrow> clean x"
    using assms clean_within by (auto simp: request_ok_def opt_within_def)
qed

lemma request_counts:
  assumes "request_ok r"
  shows "0 \<le> ar_good r" "0 \<le> ar_failed r" "0 \<le> ar_requests r" "ar_requests r \<le> 10000000000"
    "0 \<le> ar_successes r" "ar_successes r \<le> 10000000000"
    "\<And>n. ar_volume r = Some n \<Longrightarrow> 0 \<le> n \<and> n \<le> 10000000000"
  using assms by (auto simp: request_ok_def count_within_def opt_within_def)

lemma allowed_bad_rate_fine:
  assumes "clean x" "fle (Fin 0) x"
  shows "formula_fine ''allowed_bad_rate'' (allowed_bad_rate (float_num x))"
  unfolding allowed_bad_rate_def Let_def float_num_def option.case
  by (rule fine_bind, use assms in \<open>auto intro!: fine_make simp: inputs_json_def\<close>)

lemma fine_value_error: "formula_fine n x \<Longrightarrow> value_error x"
  by (cases x) (auto simp: formula_fine_def value_error_def)

lemma fine_from:
  assumes "formula_fine m x" "\<And>v. value_error (F v)" "\<And>v w. F v = Inr w \<Longrightarrow> wf_float w"
    and "\<forall>y \<in> json_floats (inputs_json i). clean y"
  shows "formula_fine n (rbind x (\<lambda>s. case fr_value s of
      None \<Rightarrow> fr_make n None UNAVAILABLE e u i (fr_reason s) p False
    | Some v \<Rightarrow> rbind (F v) (\<lambda>b. fr_make n (Some b) MEASURED e u i None p False)))"
proof (rule fine_bind)
  show "value_error x" by (rule fine_value_error [OF assms(1)])
  fix s
  have "formula_fine n (rbind (F v) (\<lambda>b. fr_make n (Some b) MEASURED e u i None p False))" for v
    by (rule fine_bind [OF assms(2)], rule fine_make [OF _ assms(4)]) (use assms(3) in blast)
  moreover have "formula_fine n (fr_make n None UNAVAILABLE e u i (fr_reason s) p False)"
    by (rule fine_make [OF _ assms(4)]) simp
  ultimately show "formula_fine n (case fr_value s of
      None \<Rightarrow> fr_make n None UNAVAILABLE e u i (fr_reason s) p False
    | Some v \<Rightarrow> rbind (F v) (\<lambda>b. fr_make n (Some b) MEASURED e u i None p False))"
    by (simp split: option.split)
qed

lemma burn_rate_fine:
  assumes "0 \<le> g" "g \<le> t" "f64 q" "0 < q" "q < 1"
  shows "formula_fine ''error_budget_burn_rate'' (error_budget_burn_rate (int_num g) (int_num t) (float_num (Fin q)))"
    "formula_fine ''error_budget_remaining'' (error_budget_remaining (int_num g) (int_num t) (float_num (Fin q)))"
proof -
  let ?i = "[(''good_events'', InNum (int_num g)), (''total_events'', InNum (int_num t)), (''target'', InNum (float_num (Fin q)))]"
  have floats: "\<forall>y \<in> json_floats (inputs_json ?i). clean y"
    using assms by (simp add: inputs_json_def int_num_def float_num_def clean_def)
  obtain a where a: "fsub (Fin 1) (Fin q) = Fin a" "2 powi (- 53) \<le> a"
    using one_minus_pos [OF assms(3) _ assms(5)] assms(4) by auto
  then have nz: "a \<noteq> 0" using powi_pos [of "- 53"] by linarith
  then have div: "value_error (fdiv y (Fin a))" for y by (cases y) simp_all
  have sli: "formula_fine ''availability_sli'' (availability_sli (int_num g) (int_num t))"
    unfolding availability_sli_def int_num_def by (rule count_ratio_fine) (use assms in simp_all)
  have ok: "\<not> fle (Fin 1) (Fin q)" "finite_arg (PFloat (Fin q)) ''target'' (Some 0) = Inr (Fin q)"
    using assms by simp_all
  show burn: "formula_fine ''error_budget_burn_rate'' (error_budget_burn_rate (int_num g) (int_num t) (float_num (Fin q)))"
    unfolding error_budget_burn_rate_def Let_def int_num_def float_num_def option.case prod.case ok(2) rbind_simps
      if_not_P [OF ok(1)] a(1)
    by (rule fine_from [OF sli [unfolded int_num_def] div fdiv_wf floats [unfolded int_num_def float_num_def]])
  have "value_error (Inr (fmax (Fin 0) (fsub (Fin 1) b)))" "wf_float (fmax (Fin 0) (fsub (Fin 1) b))" for b
    by (simp_all add: fmax_wf del: fsub_Fin)
  then show "formula_fine ''error_budget_remaining'' (error_budget_remaining (int_num g) (int_num t) (float_num (Fin q)))"
    using fine_from [OF burn, of "\<lambda>b. Inr (fmax (Fin 0) (fsub (Fin 1) b))" ?i "''error_budget_remaining''"
        "''max(0, 1 - error_budget_burn_rate)''" "''fraction''" executable_definition] floats
    unfolding error_budget_remaining_def Let_def rbind_simps by blast
qed

lemma requests_fine:
  assumes "0 \<le> n" "n \<le> 10000000000" "clean w" "fle (Fin 0) w"
  shows "formula_fine ''requests_per_second'' (requests_per_second (int_num n) (float_num w))"
proof -
  let ?i = "[(''requests'', InNum (int_num n)), (''window_seconds'', InNum (float_num w))]"
  have floats: "\<forall>y \<in> json_floats (inputs_json ?i). clean y"
    using assms by (simp add: inputs_json_def int_num_def float_num_def)
  obtain q where w: "w = Fin q" using assms(3) by (auto simp: clean_def isfinite_iff)
  have c: "count_arg (PInt n) ''requests'' = Inr n" using assms(1) by (simp add: count_arg_def)
  have f: "finite_arg (PFloat w) ''window_seconds'' (Some 0) = Inr w" using assms(3,4) by (simp add: clean_def)
  show ?thesis
  proof (cases "q = 0")
    case True
    then have z: "feq w (Fin 0)" by (simp add: w)
    show ?thesis
      unfolding requests_per_second_def Let_def int_num_def float_num_def option.case prod.case c f rbind_simps if_P [OF z]
      by (rule fine_unavailable [OF floats [unfolded int_num_def float_num_def]])
  next
    case False
    then have z: "\<not> feq w (Fin 0)" by (simp add: w)
    have d: "fdiv (Fin (of_int n)) w = Inr (rnd (of_int n / q))" using False by (simp add: w)
    show ?thesis
      unfolding requests_per_second_def Let_def int_num_def float_num_def option.case prod.case c f rbind_simps if_not_P [OF z]
        float_of_small [OF assms(1,2)] d
      by (rule fine_make [OF _ floats [unfolded int_num_def float_num_def]]) auto
  qed
qed

lemma cost_fine:
  assumes "0 \<le> n" "n \<le> 10000000000" "clean c" "fle (Fin 0) c"
  shows "formula_fine ''cost_per_success'' (cost_per_success (float_num c) (int_num n))"
proof -
  let ?i = "[(''cost_usd'', InNum (float_num c)), (''successful_outcomes'', InNum (int_num n))]"
  have floats: "\<forall>y \<in> json_floats (inputs_json ?i). clean y"
    using assms by (simp add: inputs_json_def int_num_def float_num_def)
  obtain q where q: "c = Fin q" using assms(3) by (auto simp: clean_def isfinite_iff)
  have k: "count_arg (PInt n) ''successful_outcomes'' = Inr n" using assms(1) by (simp add: count_arg_def)
  have f: "finite_arg (PFloat c) ''cost_usd'' (Some 0) = Inr c" using assms(3,4) by (simp add: clean_def)
  show ?thesis
  proof (cases "n = 0")
    case True
    show ?thesis
      unfolding cost_per_success_def Let_def int_num_def float_num_def option.case prod.case k f rbind_simps if_P [OF True]
      by (rule fine_unavailable [OF floats [unfolded int_num_def float_num_def]])
  next
    case False
    have d: "fdiv c (Fin (of_int n)) = Inr (rnd (q / of_int n))" using False by (simp add: q)
    show ?thesis
      unfolding cost_per_success_def Let_def int_num_def float_num_def option.case prod.case k f rbind_simps if_not_P [OF False]
        float_of_small [OF assms(1,2)] d
      by (rule fine_make [OF _ floats [unfolded int_num_def float_num_def]]) auto
  qed
qed

lemma revenue_fine:
  assumes "\<And>n. v = Some n \<Longrightarrow> 0 \<le> n \<and> n \<le> 10000000000"
    and "\<And>x. ob = Some x \<Longrightarrow> clean x \<and> fle (Fin 0) x" "\<And>x. ba = Some x \<Longrightarrow> clean x \<and> fle (Fin 0) x"
    and "\<And>x. ao = Some x \<Longrightarrow> clean x \<and> fle (Fin 0) x"
  shows "formula_fine ''revenue_at_risk'' (revenue_at_risk (map_option PInt v) (map_option PFloat ob)
           (map_option PFloat ba) (map_option PFloat ao))"
proof -
  let ?i = "[(''volume'', InNum (map_option PInt v)), (''observed_conversion_rate'', InNum (map_option PFloat ob)),
    (''baseline_conversion_rate'', InNum (map_option PFloat ba)), (''average_order_value_usd'', InNum (map_option PFloat ao))]"
  have floats: "\<forall>y \<in> json_floats (inputs_json ?i). clean y"
    using assms(2-4) by (cases v; cases ob; cases ba; cases ao) (simp_all add: inputs_json_def)
  show ?thesis
  proof (cases "v = None \<or> ob = None \<or> ba = None \<or> ao = None")
    case True
    then show ?thesis
      using fine_unavailable [OF floats] unfolding revenue_at_risk_def Let_def by (auto split: option.split)
  next
    case False
    then obtain n o' b a where s: "v = Some n" "ob = Some o'" "ba = Some b" "ao = Some a" by auto
    have c: "count_arg (PInt n) ''volume'' = Inr n" "float_of_int n = Inr (Fin (of_int n))"
      using assms(1) [OF s(1)] float_of_small by (simp_all add: count_arg_def)
    have f: "finite_arg (PFloat o') k (Some 0) = Inr o'" "finite_arg (PFloat b) k (Some 0) = Inr b"
      "finite_arg (PFloat a) k (Some 0) = Inr a" for k
      using assms(2) [OF s(2)] assms(3) [OF s(3)] assms(4) [OF s(4)] by (simp_all add: clean_def)
    show ?thesis
      unfolding revenue_at_risk_def Let_def s option.map option.case prod.case c f rbind_simps
      by (simp only: if_split, intro conjI impI fine_error fine_make [OF _ floats [unfolded s option.map]])
         (auto simp: wf_float.simps)
  qed
qed

definition formula_names :: "string list" where
  "formula_names =
     [''availability_sli'', ''error_rate'', ''allowed_bad_rate'', ''error_budget_burn_rate'',
      ''error_budget_remaining'', ''requests_per_second'', ''change_failure_rate'', ''cost_per_success'',
      ''revenue_at_risk'']"

definition result_clean :: "formula_result \<Rightarrow> bool" where
  "result_clean f \<longleftrightarrow> (\<forall>v. fr_value f = Some v \<longrightarrow> clean v) \<and>
     (\<forall>y \<in> json_floats (inputs_json (fr_inputs f)). clean y)"

lemma fine_list:
  "list_all2 formula_fine names xs \<Longrightarrow>
   value_error (rmap id xs) \<and>
   (\<forall>fs. rmap id xs = Inr fs \<longrightarrow> map fr_name fs = names \<and> (\<forall>f \<in> set fs. result_clean f))"
proof (induction rule: list_all2_induct)
  case (Cons name names x xs)
  then show ?case
    unfolding id_def by (cases x; cases "rmap (\<lambda>a. a) xs") (auto simp: formula_fine_def value_error_def result_clean_def)
qed simp

lemma analysis_formulas_fine:
  assumes "request_ok r" "ar_good r \<le> ar_total r" "ar_failed r \<le> ar_changes r"
  shows "value_error (analysis_formulas r) \<and>
    (\<forall>fs. analysis_formulas r = Inr fs \<longrightarrow> map fr_name fs = formula_names \<and> (\<forall>f \<in> set fs. result_clean f))"
proof -
  note fl = request_floats [OF assms(1)] and ct = request_counts [OF assms(1)]
  obtain q where q: "ar_slo r = Fin q" "f64 q" "0 < q" "q < 1" using fl(1) by blast
  have nonneg: "fle (Fin 0) (ar_slo r)" "fle (Fin 0) (ar_window r)" "fle (Fin 0) (ar_cost r)" using q fl(2,3) by auto
  have opts: "\<And>x. ar_observed r = Some x \<Longrightarrow> clean x \<and> fle (Fin 0) x" "\<And>x. ar_baseline r = Some x \<Longrightarrow> clean x \<and> fle (Fin 0) x"
    "\<And>x. ar_order r = Some x \<Longrightarrow> clean x \<and> fle (Fin 0) x"
    using assms(1) clean_within by (auto simp: request_ok_def opt_within_def)
  have "list_all2 formula_fine formula_names
        [availability_sli (int_num (ar_good r)) (int_num (ar_total r)),
         error_rate (int_num (ar_total r - ar_good r)) (int_num (ar_total r)),
         allowed_bad_rate (float_num (ar_slo r)),
         error_budget_burn_rate (int_num (ar_good r)) (int_num (ar_total r)) (float_num (ar_slo r)),
         error_budget_remaining (int_num (ar_good r)) (int_num (ar_total r)) (float_num (ar_slo r)),
         requests_per_second (int_num (ar_requests r)) (float_num (ar_window r)),
         change_failure_rate (int_num (ar_failed r)) (int_num (ar_changes r)),
         cost_per_success (float_num (ar_cost r)) (int_num (ar_successes r)),
         revenue_at_risk (map_option PInt (ar_volume r)) (map_option PFloat (ar_observed r))
           (map_option PFloat (ar_baseline r)) (map_option PFloat (ar_order r))]"
    unfolding formula_names_def list_all2_Cons list_all2_Nil
  proof (intro conjI)
    show "formula_fine ''availability_sli'' (availability_sli (int_num (ar_good r)) (int_num (ar_total r)))"
      unfolding availability_sli_def int_num_def by (rule count_ratio_fine) (use ct assms in simp_all)
    show "formula_fine ''error_rate'' (error_rate (int_num (ar_total r - ar_good r)) (int_num (ar_total r)))"
      unfolding error_rate_def int_num_def by (rule count_ratio_fine) (use ct assms in simp_all)
    show "formula_fine ''allowed_bad_rate'' (allowed_bad_rate (float_num (ar_slo r)))"
      by (rule allowed_bad_rate_fine [OF fl(4) nonneg(1)])
    show "formula_fine ''error_budget_burn_rate''
        (error_budget_burn_rate (int_num (ar_good r)) (int_num (ar_total r)) (float_num (ar_slo r)))"
      "formula_fine ''error_budget_remaining''
        (error_budget_remaining (int_num (ar_good r)) (int_num (ar_total r)) (float_num (ar_slo r)))"
      unfolding q(1) by (rule burn_rate_fine [OF ct(1) assms(2) q(2-4)])+
    show "formula_fine ''requests_per_second'' (requests_per_second (int_num (ar_requests r)) (float_num (ar_window r)))"
      by (rule requests_fine [OF ct(3,4) fl(5) nonneg(2)])
    show "formula_fine ''change_failure_rate'' (change_failure_rate (int_num (ar_failed r)) (int_num (ar_changes r)))"
      unfolding change_failure_rate_def int_num_def by (rule count_ratio_fine) (use ct assms in simp_all)
    show "formula_fine ''cost_per_success'' (cost_per_success (float_num (ar_cost r)) (int_num (ar_successes r)))"
      by (rule cost_fine [OF ct(5,6) fl(6) nonneg(3)])
    show "formula_fine ''revenue_at_risk'' (revenue_at_risk (map_option PInt (ar_volume r)) (map_option PFloat (ar_observed r))
           (map_option PFloat (ar_baseline r)) (map_option PFloat (ar_order r)))"
      by (rule revenue_fine [OF ct(7) opts])
  qed simp_all
  from fine_list [OF this] show ?thesis by (simp add: analysis_formulas_def Let_def)
qed

subsection \<open>The facts of a request\<close>

lemma clean_digest:
  assumes "\<forall>x \<in> json_floats j. clean x"
  obtains d where "sha256_json hx j = Inr d"
  using assms strict_float_finite unfolding clean_def sha256_json_Inr canonical_json_ok_iff [symmetric]
  by (metis canonical_json_ok_iff sha256_json_Inr)

lemma opt_float_floats: "(\<And>x. v = Some x \<Longrightarrow> clean x) \<Longrightarrow> \<forall>y \<in> json_floats (opt_float v). clean y"
  by (cases v) (simp_all add: opt_float_def)

lemma request_json_floats:
  assumes "request_ok r"
  shows "\<forall>x \<in> json_floats (request_json r). clean x"
proof -
  have "json_floats (case ar_volume r of None \<Rightarrow> JNull | Some n \<Rightarrow> JInt n) = {}" by (simp split: option.split)
  moreover have "json_floats (jstrs xs) = {}" for xs by (auto simp: jstrs_def)
  moreover have "\<forall>y \<in> json_floats (opt_float (ar_baseline r)). clean y" "\<forall>y \<in> json_floats (opt_float (ar_observed r)). clean y"
    "\<forall>y \<in> json_floats (opt_float (ar_order r)). clean y"
    by (rule opt_float_floats, erule request_floats [OF assms])+
  ultimately show ?thesis
    using request_floats(4-6) [OF assms] by (simp add: request_json_def ball_Un)
qed

lemma serialize_floats:
  assumes "result_clean f"
  shows "\<forall>x \<in> json_floats (JObj (serialize_formula l f)). clean x"
proof -
  obtain row where row: "fr_to_dict input_json f = JObj row" by (simp add: fr_to_dict_def)
  have "json_floats (fr_to_dict input_json f) \<subseteq> set_option (fr_value f) \<union> json_floats (inputs_json (fr_inputs f))"
    by (cases "fr_value f"; cases "fr_reason f") (simp_all add: fr_to_dict_def inputs_json_def jopt_def)
  then have row_floats: "\<forall>x \<in> json_floats (JObj row). clean x" using assms unfolding result_clean_def row by auto
  have changed: "json_floats (JObj (aset row k (JStr t))) \<subseteq> json_floats (JObj row)" for row k t
    using floats_aset [of row k "JStr t"] by simp
  have "json_floats (JObj (serialize_formula l f)) \<subseteq> json_floats (JObj row)"
    unfolding serialize_formula_def row jfields.simps Let_def
    by (cases "fr_label f = MEASURED \<and> l \<noteq> MEASURED")
       (simp_all only: if_True if_False simp_thms order_refl order_trans [OF changed changed])
  then show ?thesis using row_floats by blast
qed

lemma formulas_json_floats:
  "\<forall>f \<in> set results. result_clean f \<Longrightarrow>
   \<forall>x \<in> json_floats (formulas_json (map (serialize_formula l) results)). clean x"
  using serialize_floats by (fastforce simp: formulas_json_def)

lemma value_of_named:
  assumes "map fr_name results = formula_names" "n \<in> set formula_names" "\<forall>f \<in> set results. result_clean f"
  obtains v where "value_of results n = Inr v" "\<And>x. v = Some x \<Longrightarrow> clean x"
proof -
  have "n \<in> fr_name ` set results" using assms(1,2) by (metis list.set_map)
  then have "List.find (\<lambda>r. fr_name r = n) results \<noteq> None" by (auto simp: find_None_iff)
  then obtain f where f: "List.find (\<lambda>r. fr_name r = n) results = Some f" by blast
  then have "result_clean f" using assms(3) by (auto simp: find_Some_iff)
  then show thesis using that [of "fr_value f"] f by (simp add: value_of_def result_clean_def)
qed

lemma format_observation_length:
  "(\<And>x. v = Some x \<Longrightarrow> clean x) \<Longrightarrow> length u \<le> 1 \<Longrightarrow> length (format_observation v u) \<le> 18"
  using general6_length by (cases v) (fastforce simp: format_observation_def clean_def)+

lemma decide_cases: "decide b = ''REVIEW'' \<or> decide b = ''ABSTAIN''"
  by (simp add: decide_def split: option.split)

lemma analysis_facts_ok:
  assumes "request_ok r" "map fr_name results = formula_names" "\<forall>f \<in> set results. result_clean f"
  obtains f burn where "analysis_facts hx r results = Inr f" "af_results f = results"
    "sha256_json hx (request_json r) = Inr (af_input f)"
    "value_of results ''error_budget_burn_rate'' = Inr burn" "af_decision f = decide burn"
    "length (af_summary f) \<le> 600" "strip (af_summary f) \<noteq> []"
proof -
  obtain burn where burn: "value_of results ''error_budget_burn_rate'' = Inr burn" "\<And>x. burn = Some x \<Longrightarrow> clean x"
    by (rule value_of_named [OF assms(2) _ assms(3), of "''error_budget_burn_rate''"]) (simp add: formula_names_def, blast)
  obtain sli where sli: "value_of results ''availability_sli'' = Inr sli" "\<And>x. sli = Some x \<Longrightarrow> clean x"
    by (rule value_of_named [OF assms(2) _ assms(3), of "''availability_sli''"]) (simp add: formula_names_def, blast)
  let ?fs = "map (serialize_formula (ar_label r)) results"
  note ff = formulas_json_floats [OF assms(3), of "ar_label r"]
  obtain input where input: "sha256_json hx (request_json r) = Inr input"
    by (rule clean_digest [OF request_json_floats [OF assms(1)]])
  obtain out where out: "sha256_json hx (JObj
        [(''service_id'', JStr (ar_service r)), (''formulas'', formulas_json ?fs),
         (''causality_claimed'', JBool False), (''effectors_enabled'', JBool False)]) = Inr out"
  proof (rule clean_digest)
    show "\<forall>x \<in> json_floats (JObj
        [(''service_id'', JStr (ar_service r)), (''formulas'', formulas_json ?fs),
         (''causality_claimed'', JBool False), (''effectors_enabled'', JBool False)]). clean x"
      using ff by simp
  qed
  obtain fsha where fsha: "sha256_json hx (formulas_json ?fs) = Inr fsha" by (rule clean_digest [OF ff])
  let ?s = "analysis_summary (ar_service r) sli burn (decide burn)"
  have "length (ar_service r) \<le> 256" using assms(1) by (simp add: request_ok_def)
  moreover have "length (format_observation sli []) \<le> 18" "length (format_observation burn ''x'') \<le> 18"
    using format_observation_length [of sli "[]"] format_observation_length [of burn "''x''"] sli(2) burn(2) by simp_all
  moreover have "length (decide burn) \<le> 7" using decide_cases [of burn] by auto
  ultimately have len: "length ?s \<le> 600" by (simp add: analysis_summary_def)
  have blank: "strip ?s \<noteq> []"
    by (rule strip_nonblank [of "CHR ''O''"]) (simp_all add: analysis_summary_def py_isspace_def code_def)
  show thesis
  proof (rule that)
    show "analysis_facts hx r results = Inr \<lparr>af_results = results, af_formulas = ?fs, af_input = input,
        af_output = out, af_formula_sha = fsha, af_decision = decide burn, af_summary = ?s\<rparr>"
      by (simp add: analysis_facts_def Let_def input out burn(1) fsha sli(1))
  qed (simp_all add: input burn(1) len blank)
qed

subsection \<open>The evidence check returns\<close>

lemma verify_boundary_shape:
  assumes "verify_boundary hx d s refs source = Inr (st, vd)"
  shows "st \<in> {''VERIFIED'', ''PARTIAL''}" "json_floats (JObj vd) = {}"
  using assms by (auto simp: verify_boundary_def rbind_Inr_iff Let_def jstrs_def split: if_splits)

subsection \<open>Drafts of an accepted request\<close>

lemma join_words_length: "length (join '' '' (words_of p s)) \<le> length (dropWhile (\<lambda>c. \<not> p c) s)"
proof (induction p s rule: words_of.induct)
  case (1 p s)
  let ?t = "dropWhile (\<lambda>c. \<not> p c) s"
  let ?u = "dropWhile p ?t"
  show ?case
  proof (cases "?t = []")
    case True
    then show ?thesis by (subst words_of.simps) simp
  next
    case False
    have ih: "length (join '' '' (words_of p ?u)) \<le> length (dropWhile (\<lambda>c. \<not> p c) ?u)"
      using 1 [OF refl] False by simp
    have words: "words_of p s = takeWhile p ?t # words_of p ?u"
      using False by (subst words_of.simps) (simp add: Let_def)
    have split: "length ?t = length (takeWhile p ?t) + length ?u"
      by (metis length_append takeWhile_dropWhile_id)
    show ?thesis
    proof (cases "words_of p ?u")
      case Nil
      then show ?thesis using split by (simp add: words)
    next
      case (Cons w ws)
      moreover have "words_of p [] = []" by (subst words_of.simps) simp
      ultimately have "?u \<noteq> []" by (metis list.distinct(1))
      then obtain c v where u: "?u = c # v" by (cases ?u) auto
      then have "\<not> p c" using hd_dropWhile [of p ?t] by simp
      then have "length (dropWhile (\<lambda>c. \<not> p c) ?u) \<le> length v" by (simp add: u length_dropWhile_le)
      then show ?thesis using ih split u Cons by (simp add: words)
    qed
  qed
qed

lemma squeeze_length: "length (squeeze s) \<le> length s"
  unfolding squeeze_def split_ws_def using join_words_length length_dropWhile_le by (rule order_trans)

lemma squeeze_nonempty:
  assumes "strip s \<noteq> []"
  shows "squeeze s \<noteq> []"
proof -
  let ?t = "dropWhile py_isspace s"
  have "?t \<noteq> []"
  proof
    assume "?t = []"
    then have "lstrip s = []" unfolding lstrip_def .
    with assms show False by (simp add: strip_def rstrip_def)
  qed
  then have "takeWhile (\<lambda>c. \<not> py_isspace c) ?t \<noteq> []" using hd_dropWhile [of py_isspace s] by (cases ?t) simp_all
  moreover have "split_ws s = takeWhile (\<lambda>c. \<not> py_isspace c) ?t # split_ws (dropWhile (\<lambda>c. \<not> py_isspace c) ?t)"
    unfolding split_ws_def using \<open>?t \<noteq> []\<close> by (subst words_of.simps) (simp add: Let_def)
  ultimately show ?thesis unfolding squeeze_def by (cases "split_ws (dropWhile (\<lambda>c. \<not> py_isspace c) ?t)") simp_all
qed

lemma identifier_strip:
  assumes "identifier_ok s"
  shows "strip s = s"
proof -
  have c: "\<not> py_isspace c" if "c \<in> set s" for c
    using assms that by (auto simp: identifier_ok_def list_all_iff is_alnum_def is_lower_def is_upper_def is_digit_def py_isspace_def code_def)
  have "lstrip s = s" using c by (cases s) (simp_all add: lstrip_def)
  moreover have "rstrip s = s" by (rule rstrip_id) (use c last_in_set in blast)
  ultimately show ?thesis by (simp add: strip_def)
qed

lemma service_dimension:
  "\<exists>dims. mk_dimensions [] (if identifier_ok s then [(''service'', [s])] else []) = Inr dims"
proof (cases "identifier_ok s")
  case True
  then have "s \<noteq> []" by (simp add: identifier_ok_def)
  then have refs: "clean_refs [s] = [s]" using identifier_strip [OF True] by (simp add: clean_refs_def)
  have dim: "py_lower (strip ''service'') = ''service''" by code_simp
  show ?thesis using True by (simp add: refs dim subject_dims_def)
qed simp

lemma payload_keys:
  shows "\<not> is_sensitive_key ''input_sha256''" "\<not> is_sensitive_key ''output_sha256''"
    "\<not> is_sensitive_key ''formula_output_sha256''" "\<not> is_sensitive_key ''formula_ids''"
    "\<not> is_sensitive_key ''input_truth_label''" "\<not> is_sensitive_key ''currency''" "\<not> is_sensitive_key ''decision''"
    "\<not> is_sensitive_key ''verification_state''" "\<not> is_sensitive_key ''trace_id''" "\<not> is_sensitive_key ''anatomy_schema''"
    "\<not> is_sensitive_key ''anatomy_sha256''" "\<not> is_sensitive_key ''causality_claimed''"
    "\<not> is_sensitive_key ''analysis_input_sha256''" "\<not> is_sensitive_key ''analysis_output_sha256''"
    "\<not> is_sensitive_key ''approved_knowledge''"
proof -
  show "\<not> is_sensitive_key ''input_sha256''" using snake_key [of "[''input'', ''sha256'']"] by (simp add: snake_simps)
  show "\<not> is_sensitive_key ''output_sha256''" using snake_key [of "[''output'', ''sha256'']"] by (simp add: snake_simps)
  show "\<not> is_sensitive_key ''formula_output_sha256''" using snake_key [of "[''formula'', ''output'', ''sha256'']"] by (simp add: snake_simps)
  show "\<not> is_sensitive_key ''formula_ids''" using snake_key [of "[''formula'', ''ids'']"] by (simp add: snake_simps)
  show "\<not> is_sensitive_key ''input_truth_label''" using snake_key [of "[''input'', ''truth'', ''label'']"] by (simp add: snake_simps)
  show "\<not> is_sensitive_key ''currency''" using snake_key [of "[''currency'']"] by (simp add: snake_simps)
  show "\<not> is_sensitive_key ''decision''" using snake_key [of "[''decision'']"] by (simp add: snake_simps)
  show "\<not> is_sensitive_key ''verification_state''" using snake_key [of "[''verification'', ''state'']"] by (simp add: snake_simps)
  show "\<not> is_sensitive_key ''trace_id''" using snake_key [of "[''trace'', ''id'']"] by (simp add: snake_simps)
  show "\<not> is_sensitive_key ''anatomy_schema''" using snake_key [of "[''anatomy'', ''schema'']"] by (simp add: snake_simps)
  show "\<not> is_sensitive_key ''anatomy_sha256''" using snake_key [of "[''anatomy'', ''sha256'']"] by (simp add: snake_simps)
  show "\<not> is_sensitive_key ''causality_claimed''" using snake_key [of "[''causality'', ''claimed'']"] by (simp add: snake_simps)
  show "\<not> is_sensitive_key ''analysis_input_sha256''" using snake_key [of "[''analysis'', ''input'', ''sha256'']"] by (simp add: snake_simps)
  show "\<not> is_sensitive_key ''analysis_output_sha256''" using snake_key [of "[''analysis'', ''output'', ''sha256'']"] by (simp add: snake_simps)
  show "\<not> is_sensitive_key ''approved_knowledge''" using snake_key [of "[''approved'', ''knowledge'']"] by (simp add: snake_simps)
qed

lemma snake_session_key:
  assumes "list_all plain_word ws"
  shows "is_session_key (join ''_'' ws) \<longleftrightarrow> concat ws \<in> set non_memory_fields"
proof -
  have "filter slug_char (join ''_'' ws) = concat ws"
    using assms underscore(1) word_char(1)
    by (induction "''_''" ws rule: join.induct) (auto simp: plain_word_def subset_iff filter_id_conv)
  moreover have "py_lower (join ''_'' ws) = join ''_'' ws"
    unfolding py_lower_def using snake_chars(3) [OF assms] by (intro map_idI)
  ultimately show ?thesis by (simp add: is_session_key_def)
qed

lemma session_keys:
  shows "\<not> is_session_key ''trace_id''"
    "\<not> is_session_key ''analysis_input_sha256''"
    "\<not> is_session_key ''analysis_output_sha256''"
    "\<not> is_session_key ''decision''"
    "\<not> is_session_key ''human_approval_required''"
    "\<not> is_session_key ''approved_knowledge''"
    "\<not> is_session_key ''can_authorize''"
    "\<not> is_session_key ''can_execute''"
    "\<not> is_session_key ''causality_claimed''"
    "\<not> is_session_key ''effectors_enabled''"
proof -
  show "\<not> is_session_key ''trace_id''" using snake_session_key [of "[''trace'', ''id'']"] by (simp add: plain_word_def non_memory_fields_def)
  show "\<not> is_session_key ''analysis_input_sha256''" using snake_session_key [of "[''analysis'', ''input'', ''sha256'']"] by (simp add: plain_word_def non_memory_fields_def)
  show "\<not> is_session_key ''analysis_output_sha256''" using snake_session_key [of "[''analysis'', ''output'', ''sha256'']"] by (simp add: plain_word_def non_memory_fields_def)
  show "\<not> is_session_key ''decision''" using snake_session_key [of "[''decision'']"] by (simp add: plain_word_def non_memory_fields_def)
  show "\<not> is_session_key ''human_approval_required''" using snake_session_key [of "[''human'', ''approval'', ''required'']"] by (simp add: plain_word_def non_memory_fields_def)
  show "\<not> is_session_key ''approved_knowledge''" using snake_session_key [of "[''approved'', ''knowledge'']"] by (simp add: plain_word_def non_memory_fields_def)
  show "\<not> is_session_key ''can_authorize''" using snake_session_key [of "[''can'', ''authorize'']"] by (simp add: plain_word_def non_memory_fields_def)
  show "\<not> is_session_key ''can_execute''" using snake_session_key [of "[''can'', ''execute'']"] by (simp add: plain_word_def non_memory_fields_def)
  show "\<not> is_session_key ''causality_claimed''" using snake_session_key [of "[''causality'', ''claimed'']"] by (simp add: plain_word_def non_memory_fields_def)
  show "\<not> is_session_key ''effectors_enabled''" using snake_session_key [of "[''effectors'', ''enabled'']"] by (simp add: plain_word_def non_memory_fields_def)
qed

lemma jstrs_keys [simp]: "json_keys (jstrs xs) = {}" "json_floats (jstrs xs) = {}"
  by (auto simp: jstrs_def)

lemma jopt_keys [simp]: "json_keys (jopt x) = {}" "json_floats (jopt x) = {}"
  by (cases x; simp add: jopt_def)+

lemma payload_accepted:
  "\<forall>k \<in> json_keys (JObj (analysis_payload r f source st tid sha)). \<not> is_sensitive_key k"
  "json_floats (JObj (analysis_payload r f source st tid sha)) = {}"
  by (simp_all add: analysis_payload_def payload_keys attribute_names)

lemma metadata_accepted:
  "\<forall>k \<in> json_keys (JObj (analysis_metadata f tid)). \<not> is_sensitive_key k \<and> \<not> is_session_key k"
  "json_floats (JObj (analysis_metadata f tid)) = {}"
  by (simp_all add: analysis_metadata_def payload_keys attribute_names session_keys)

lemma receipt_accepted:
  assumes "strip (ar_service r) \<noteq> []" "length (ar_service r) \<le> 256"
  shows "mk_receipt_draft ''analysis.completed'' ''service'' (ar_service r)
      (analysis_payload r f source st tid sha) (ar_label r) (ar_refs r) =
    Inr \<lparr>rd_kind = ''analysis.completed'', rd_subject_type = ''service'', rd_subject_id = strip (ar_service r),
         rd_payload = analysis_payload r f source st tid sha, rd_label = ar_label r, rd_refs = clean_refs (ar_refs r)\<rparr>"
proof -
  have names: "name_ok ''analysis.completed''" "name_ok ''service''" by code_simp+
  have "length (strip (ar_service r)) \<le> 256" using assms(2) length_strip_le le_trans by blast
  moreover have "assert_no_sensitive_keys ''payload'' (JObj (analysis_payload r f source st tid sha)) = Inr ()"
    using payload_accepted(1) by (simp only: assert_no_sensitive_iff)
  moreover obtain x where "canonical_json (JObj (analysis_payload r f source st tid sha)) = Inr x"
    using canonical_json_total [OF payload_accepted(2)] by blast
  ultimately show ?thesis using assms(1) names by (simp add: mk_receipt_draft_def del: assert_no_sensitive_keys.simps)
qed

definition refs_fit :: "analysis_request \<Rightarrow> bool" where
  "refs_fit r \<longleftrightarrow> clean_refs (ar_refs r) \<noteq> [] \<and> length (clean_refs (ar_refs r)) \<le> 64"

lemma clean_refs_short:
  assumes "request_ok r"
  shows "list_all (\<lambda>e. length e \<le> 512) (clean_refs (ar_refs r))"
proof -
  have "length (strip e) \<le> 512" if "e \<in> set (ar_refs r)" for e
    using assms that length_strip_le [of e] by (fastforce simp: request_ok_def list_all_iff)
  then show ?thesis by (auto simp: list_all_iff clean_refs_def)
qed

lemma memory_accepted:
  assumes "request_ok r" "refs_fit r" "length (af_summary f) \<le> 600" "strip (af_summary f) \<noteq> []"
  obtains md where "mk_memory_draft (analysis_memory r f tid) = Inr md" "md_label md = ar_label r"
    "md_meta md = analysis_metadata f tid" "md_refs md = clean_refs (ar_refs r)"
proof -
  obtain dims where dims: "mk_dimensions [] (if identifier_ok (ar_service r) then [(''service'', [ar_service r])] else []) = Inr dims"
    using service_dimension by blast
  let ?md = "(analysis_memory r f tid)\<lparr>md_summary := squeeze (af_summary f), md_refs := clean_refs (ar_refs r),
    md_subjects := dedup (map squeeze (filter (\<lambda>s. strip s \<noteq> []) [ar_service r])), md_dims := dims\<rparr>"
  have summary: "squeeze (af_summary f) \<noteq> []" "length (squeeze (af_summary f)) \<le> 2000"
    using squeeze_nonempty assms(4) squeeze_length [of "af_summary f"] assms(3) by auto
  have subjects: "length (dedup (map squeeze (filter (\<lambda>s. strip s \<noteq> []) [ar_service r]))) \<le> 100" by simp
  have free: "alookup (analysis_metadata f tid) ''subject_dimensions'' = None" by (simp add: analysis_metadata_def)
  have keys: "assert_no_sensitive_keys ''memory.metadata'' (JObj (analysis_metadata f tid)) = Inr ()"
    "assert_summary_metadata (JObj (analysis_metadata f tid)) = Inr ()"
    unfolding assert_no_sensitive_iff assert_summary_iff using metadata_accepted(1) by blast+
  have "mk_memory_draft (analysis_memory r f tid) = Inr ?md"
    using assms(2) summary subjects free keys dims clean_refs_short [OF assms(1)]
    unfolding mk_memory_draft_def Let_def
    by (simp add: analysis_memory_def refs_fit_def del: assert_no_sensitive_keys.simps assert_summary_metadata.simps)
  then show thesis by (rule that) (simp_all add: analysis_memory_def)
qed

lemma state_words:
  "py_upper (strip ''OBSERVED'') = ''OBSERVED''" "py_upper (strip ''VALIDATED'') = ''VALIDATED''"
  "py_upper (strip ''BOUND'') = ''BOUND''" "py_upper (strip ''CALCULATED'') = ''CALCULATED''"
  "py_upper (strip ''PARTIAL'') = ''PARTIAL''" "py_upper (strip ''ENFORCED'') = ''ENFORCED''"
  "py_upper (strip ''REVIEW'') = ''REVIEW''" "py_upper (strip ''ABSTAIN'') = ''ABSTAIN''"
  "py_upper (strip ''VERIFIED'') = ''VERIFIED''" "py_upper (strip ''PERSISTED'') = ''PERSISTED''"
  "py_upper (strip ''APPENDED'') = ''APPENDED''"
  by code_simp+

lemma stage_products_ok:
  assumes "fst v \<in> {''VERIFIED'', ''PARTIAL''}" "json_floats (JObj (snd v)) = {}" "af_decision f \<in> {''REVIEW'', ''ABSTAIN''}"
  shows "list_all2 (\<lambda>states res. py_upper (strip (fst res)) \<in> set states) stage_states (stage_products r f v p a b c d)"
    "\<forall>res \<in> set (stage_products r f v p a b c d). json_floats (JObj (snd res)) = {}"
proof -
  show "list_all2 (\<lambda>states res. py_upper (strip (fst res)) \<in> set states) stage_states (stage_products r f v p a b c d)"
    using assms(1,3) unfolding stage_states_def stage_products_def by (auto simp: state_words)
  have review: "json_floats (next_review x) = {}" for x by (simp add: next_review_def)
  show "\<forall>res \<in> set (stage_products r f v p a b c d). json_floats (JObj (snd res)) = {}"
    using assms(2) unfolding stage_products_def by (simp add: review policy_result_def)
qed

lemma floatless_digest: "json_floats j = {} \<Longrightarrow> \<exists>x. sha256_json hx j = Inr x"
  using clean_digest [of j hx] by blast

lemma stage_results_ok:
  "\<exists>p a b c d. stage_results hx s r f v = Inr (stage_products r f v p a b c d)"
proof -
  obtain a b c d where "sha256_json hx (JStr (af_summary f)) = Inr a" "sha256_json hx (JStr (ar_service r)) = Inr b"
    "sha256_json hx (JObj (scope_to_dict s)) = Inr c" "sha256_json hx (jstrs (ar_refs r)) = Inr d"
    using floatless_digest [of "JStr (af_summary f)" hx] floatless_digest [of "JStr (ar_service r)" hx]
      floatless_digest [of "JObj (scope_to_dict s)" hx] floatless_digest [of "jstrs (ar_refs r)" hx]
    by (auto simp: scope_to_dict_def)
  then have "stage_results hx s r f v = Inr (stage_products r f v (enterprise_memory_partition hx s) a b c d)"
    by (simp add: stage_results_def)
  then show ?thesis by blast
qed

lemma anatomy_builds:
  assumes "fst v \<in> {''VERIFIED'', ''PARTIAL''}" "json_floats (JObj (snd v)) = {}" "af_decision f \<in> {''REVIEW'', ''ABSTAIN''}"
  obtains results a where "stage_results hx s r f v = Inr results"
    "build_analysis_anatomy hx inp label revision results tid = Inr a"
proof -
  obtain p x y z w where rs: "stage_results hx s r f v = Inr (stage_products r f v p x y z w)"
    using stage_results_ok by blast
  have "\<forall>res \<in> set (stage_products r f v p x y z w). \<exists>t. canonical_json (JObj (snd res)) = Inr t"
    using stage_products_ok(2) [OF assms] canonical_json_total by blast
  from build_ok [OF stage_products_ok(1) [OF assms] this, of hx inp label revision]
  show thesis using that [OF rs] by auto
qed

subsection \<open>The drafts fit the store\<close>

lemma hex64_of_digest:
  assumes "is_hex64 x"
  shows "hex64_ok x"
proof -
  have digits: "list_all (\<lambda>n. char_of n \<in> set ''0123456789abcdef'') [48..<58 :: nat]" by code_simp
  have "c \<in> set ''0123456789abcdef''" if "is_digit c" for c
  proof -
    have "(of_char c :: nat) \<in> set [48..<58]"
      using that unfolding set_upt by (simp add: is_digit_def code_def)
    with digits have "char_of (of_char c :: nat) \<in> set ''0123456789abcdef''" unfolding list_all_iff by blast
    then show ?thesis by (simp only: char_of_char)
  qed
  moreover have "set ''abcdef'' \<subseteq> set ''0123456789abcdef''" by simp
  ultimately show ?thesis using assms unfolding is_hex64_def hex64_ok_def list_all_iff by blast
qed

lemma built_input:
  assumes "build_analysis_anatomy hx inp label revision results tid = Inr a"
  shows "as_input (hd (aa_stages a)) = inp" "aa_stages a \<noteq> []"
proof -
  show "aa_stages a \<noteq> []" using length_built_stages [OF assms] by auto
  then show "as_input (hd (aa_stages a)) = inp" using built_anatomy(3) [OF assms] by (cases "aa_stages a") simp_all
qed

text \<open>What the checks of the store ask of an analysis.\<close>

lemma anatomy_fits:
  assumes b: "build_analysis_anatomy hx inp label revision results tid = Inr a"
    and hx: "hex_digest hx" "is_hex64 inp" "clock_ok clk"
    and request: "hex64_ok request"
    and receipt: "jget_null (JObj (rd_payload rd)) ''trace_id'' = JStr (uuid_str tid)"
    and memory: "jget_null (JObj (md_meta md)) ''trace_id'' = JStr (uuid_str tid)"
  shows "check_bundle s rd md (stage_traces s tid sp clk 0 None (aa_stages a)) request = Inr ()"
proof -
  let ?ts = "stage_traces s tid sp clk 0 None (aa_stages a)"
  note facts = stage_traces_facts [where s = s and tid = tid and sp = sp and clk = clk and k = 0 and parent = None and stages = "aa_stages a"]
  note st = built_anatomy [OF b]
  have len: "length ?ts = 9" using facts(1) length_built_stages [OF b] by simp
  then have ne: "?ts \<noteq> []" by auto
  have ids: "\<forall>t \<in> set ?ts. tr_trace_id t = tid \<and> tr_scope t = s" by (rule facts(2))
  then have hd: "tr_trace_id (hd ?ts) = tid" using hd_in_set [OF ne] by blast
  have "list_all (\<lambda>t. tr_trace_id t = tr_trace_id (hd ?ts) \<and> tr_scope t = s) ?ts"
    unfolding list_all_iff hd by (rule ids)
  then show ?thesis
    unfolding check_bundle_def Let_def
    using request len stage_traces_numbers [OF st(2)] receipt memory facts(6) [OF built_input(2) [OF b]]
      stage_traces_link [OF st(3)] stage_traces_sovereign
    by (simp add: hd)
qed

lemma anatomy_agrees:
  assumes b: "build_analysis_anatomy hx inp label revision results tid = Inr a"
    and digest: "sha256_json hx (JList (map stage_entry (aa_stages a))) = Inr digest"
    and payload: "rd_payload rd = analysis_payload r f source st tid digest" "rd_label rd = label" "ar_label r = label"
      "af_input f = inp" "si_revision source = revision"
    and meta: "md_meta md = analysis_metadata f tid" "md_label md = label"
  shows "drafts_agree hx rd md (stage_traces s tid sp clk 0 None (aa_stages a)) digest"
proof -
  let ?ts = "stage_traces s tid sp clk 0 None (aa_stages a)"
  note facts = stage_traces_facts [where s = s and tid = tid and sp = sp and clk = clk and k = 0 and parent = None and stages = "aa_stages a"]
  note st = built_anatomy [OF b] and inp = built_input [OF b]
  obtain x xs where stages: "aa_stages a = x # xs" using inp(2) by (cases "aa_stages a") simp_all
  have hd: "tr_input (hd ?ts) = Some inp" using inp(1) by (simp add: stages stage_trace_def)
  have seq: "list_all2 (\<lambda>t n. jget_null (JObj (tr_attrs t)) ''sequence'' = JInt n) ?ts (map (\<lambda>g. sg_sequence (as_spec g)) (aa_stages a))"
    for k parent
    by (simp add: list_all2_conv_all_nth facts(1) stage_traces_nth stage_trace_def stage_attributes_def jget_null_def)
  have numbers: "map (\<lambda>g. sg_sequence (as_spec g)) (aa_stages a) = stage_numbers"
    using arg_cong [OF st(2), of "map sg_sequence"] by (simp add: comp_def analysis_stages_def stage_numbers_def)
  have each: "tr_label t = label \<and> jget_null (JObj (tr_attrs t)) ''source_revision'' = jopt revision" if tin: "t \<in> set ?ts" for t
  proof -
    obtain j where j: "j < length (aa_stages a)" "t = ?ts ! j"
      using tin unfolding in_set_conv_nth facts(1) by blast
    then have "aa_stages a ! j \<in> set (aa_stages a)" by simp
    then have "as_label (aa_stages a ! j) = label" "as_revision (aa_stages a ! j) = revision" using st(4) by blast+
    then show ?thesis using j by (simp add: stage_traces_nth stage_trace_def stage_attributes_def jget_null_def)
  qed
  have "jget_null (JObj (rd_payload rd)) ''source_revision'' = jopt revision"
    by (simp add: payload analysis_payload_def jget_null_def)
  then have labels: "\<forall>t \<in> set ?ts. tr_label t = rd_label rd \<and>
      jget_null (JObj (tr_attrs t)) ''source_revision'' = jget_null (JObj (rd_payload rd)) ''source_revision''"
    using each by (simp add: payload(2))
  show ?thesis
    unfolding drafts_agree_def Let_def
    using digest hd labels seq [unfolded numbers]
    by (simp add: stage_traces_entries meta payload analysis_payload_def analysis_metadata_def jget_null_def jopt_def)
qed

definition facts_ok :: "(string \<Rightarrow> string) \<Rightarrow> analysis_request \<Rightarrow> request_facts \<Rightarrow> bool" where
  "facts_ok hx r f \<longleftrightarrow> sha256_json hx (request_json r) = Inr (af_input f) \<and>
     af_decision f \<in> {''REVIEW'', ''ABSTAIN''} \<and> length (af_summary f) \<le> 600 \<and> strip (af_summary f) \<noteq> []"

definition boundary_ok :: "string \<times> (string \<times> json) list \<Rightarrow> bool" where
  "boundary_ok v \<longleftrightarrow> fst v \<in> {''VERIFIED'', ''PARTIAL''} \<and> json_floats (JObj (snd v)) = {}"

text \<open>The route up to the drafts: the anatomy, its digest and the request's digest are there.\<close>

lemma analysis_parts:
  assumes "request_ok r" "facts_ok hx r f" "boundary_ok v"
  obtains results a digest req where "stage_results hx s r f v = Inr results"
    "build_analysis_anatomy hx (af_input f) (ar_label r) (si_revision (ae_source env)) results (ae_trace env) = Inr a"
    "sha256_json hx (JList (map stage_entry (aa_stages a))) = Inr digest" "request_digest hx r = Inr req"
proof -
  obtain results a where b: "stage_results hx s r f v = Inr results"
    "build_analysis_anatomy hx (af_input f) (ar_label r) (si_revision (ae_source env)) results (ae_trace env) = Inr a"
  proof -
    have pre: "fst v \<in> {''VERIFIED'', ''PARTIAL''}" "json_floats (JObj (snd v)) = {}" "af_decision f \<in> {''REVIEW'', ''ABSTAIN''}"
      using assms(2,3) unfolding boundary_ok_def facts_ok_def by blast+
    show thesis by (rule anatomy_builds [OF pre]) (rule that)
  qed
  have "json_floats (JList (map stage_entry (aa_stages a))) = {}" by (simp add: stage_entry_def)
  then obtain digest where "sha256_json hx (JList (map stage_entry (aa_stages a))) = Inr digest"
    using floatless_digest by blast
  moreover obtain req where "request_digest hx r = Inr req"
  proof -
    have "\<forall>x \<in> json_floats (JObj [(''schema'', JStr ''szl.lyte.analysis-request-idempotency/v1''), (''payload'', request_json r)]). clean x"
      using request_json_floats [OF assms(1)] by simp
    then show thesis using that unfolding request_digest_def by (rule clean_digest)
  qed
  ultimately show thesis using that b by blast
qed

lemma analysis_drafts_ok:
  assumes hx: "hex_digest hx" and r: "request_ok r" "refs_fit r" "strip (ar_service r) \<noteq> []"
    and clk: "clock_ok (ae_clock env)" and f: "facts_ok hx r f" and v: "boundary_ok v"
  obtains a digest and an :: analysis_anatomy where "analysis_drafts hx s r env f v = Inr a"
    "check_bundle s (ad_receipt a) (ad_memory a) (ad_traces a) (ad_request a) = Inr ()"
    "drafts_agree hx (ad_receipt a) (ad_memory a) (ad_traces a) digest"
    "drafts_writable (ad_receipt a) (ad_memory a) (ad_traces a)"
    "request_digest hx r = Inr (ad_request a)"
    "length (aa_stages an) = 9"
    "ad_traces a = stage_traces s (ae_trace env) (ae_spans env) (ae_clock env) 0 None (aa_stages an)"
    "rd_payload (ad_receipt a) = analysis_payload r f (ae_source env) (fst v) (ae_trace env) digest"
proof -
  obtain results an digest req where p: "stage_results hx s r f v = Inr results"
    "build_analysis_anatomy hx (af_input f) (ar_label r) (si_revision (ae_source env)) results (ae_trace env) = Inr an"
    "sha256_json hx (JList (map stage_entry (aa_stages an))) = Inr digest" "request_digest hx r = Inr req"
    by (rule analysis_parts [OF r(1) f v])
  have tid: "aa_trace_id an = ae_trace env" by (rule built_anatomy(1) [OF p(2)])
  have len: "length (ar_service r) \<le> 256" using r(1) by (simp add: request_ok_def)
  let ?payload = "analysis_payload r f (ae_source env) (fst v) (ae_trace env) digest"
  let ?rd = "\<lparr>rd_kind = ''analysis.completed'', rd_subject_type = ''service'', rd_subject_id = strip (ar_service r),
         rd_payload = ?payload, rd_label = ar_label r, rd_refs = clean_refs (ar_refs r)\<rparr>"
  note rd = receipt_accepted [OF r(3) len, of f "ae_source env" "fst v" "ae_trace env" digest]
  obtain md where md: "mk_memory_draft (analysis_memory r f (ae_trace env)) = Inr md" "md_label md = ar_label r"
    "md_meta md = analysis_metadata f (ae_trace env)"
    using f by (auto simp: facts_ok_def intro: memory_accepted [OF r(1,2)])
  obtain x y where xy: "af_input f = hx x" "req = hx y"
    using f p(4) by (auto simp: facts_ok_def request_digest_def sha256_json_Inr)
  have hex: "is_hex64 (hx z)" for z using hx by (simp add: hex_digest_def)
  let ?ts = "stage_traces s (ae_trace env) (ae_spans env) (ae_clock env) 0 None (aa_stages an)"
  have ts: "to_traces an s (ae_spans env) (ae_clock env) = Inr ?ts"
    using to_traces_eq [OF p(2) hx _ clk] hex by (simp add: xy)
  let ?a = "\<lparr>ad_receipt = ?rd, ad_memory = md, ad_traces = ?ts, ad_request = req\<rparr>"
  show thesis
  proof (rule that [of ?a digest an])
    show "analysis_drafts hx s r env f v = Inr ?a"
      unfolding analysis_drafts_def p rbind_simps tid rd md(1) ts ..
    show "check_bundle s (ad_receipt ?a) (ad_memory ?a) (ad_traces ?a) (ad_request ?a) = Inr ()"
      using anatomy_fits [OF p(2) hx, where clk = "ae_clock env" and request = req and rd = ?rd and md = md] clk hex hex64_of_digest
      by (simp add: xy md(3) analysis_payload_def analysis_metadata_def jget_null_def)
    show "drafts_agree hx (ad_receipt ?a) (ad_memory ?a) (ad_traces ?a) digest"
      using anatomy_agrees [OF p(2,3), where rd = ?rd and md = md] md by simp
    show "drafts_writable (ad_receipt ?a) (ad_memory ?a) (ad_traces ?a)"
      using canonical_json_total payload_accepted(2) metadata_accepted(2) stage_traces_writable [OF clk]
      by (simp add: drafts_writable_def md(3))
  qed (use p(4) length_built_stages [OF p(2)] in simp_all)
qed

text \<open>Too many evidence references: the memory draft refuses them.\<close>

lemma analysis_drafts_crash:
  assumes r: "request_ok r" "strip (ar_service r) \<noteq> []" and f: "facts_ok hx r f" and v: "boundary_ok v"
    and many: "64 < length (clean_refs (ar_refs r))"
  shows "analysis_drafts hx s r env f v =
    Inl (ValueError ''memory evidence references must be bounded to 64 x 512 characters'')"
proof -
  obtain results an digest req where p: "stage_results hx s r f v = Inr results"
    "build_analysis_anatomy hx (af_input f) (ar_label r) (si_revision (ae_source env)) results (ae_trace env) = Inr an"
    "sha256_json hx (JList (map stage_entry (aa_stages an))) = Inr digest" "request_digest hx r = Inr req"
    by (rule analysis_parts [OF r(1) f v])
  have len: "length (ar_service r) \<le> 256" using r(1) by (simp add: request_ok_def)
  note rd = receipt_accepted [OF r(2) len, of f "ae_source env" "fst v" "aa_trace_id an" digest]
  have summary: "squeeze (af_summary f) \<noteq> []" "length (squeeze (af_summary f)) \<le> 2000"
    using f squeeze_nonempty [of "af_summary f"] squeeze_length [of "af_summary f"] by (auto simp: facts_ok_def)
  have "clean_refs (ar_refs r) \<noteq> []" using many by auto
  then have "mk_memory_draft (analysis_memory r f (aa_trace_id an)) =
      Inl (ValueError ''memory evidence references must be bounded to 64 x 512 characters'')"
    using summary many by (simp add: mk_memory_draft_def analysis_memory_def Let_def)
  then show ?thesis unfolding analysis_drafts_def p rbind_simps rd by simp
qed

subsection \<open>The route as a whole\<close>

text \<open>A request whose drafts the store takes, sent with the key \<open>k\<close>.\<close>

definition admissible :: "analysis_request \<Rightarrow> string \<Rightarrow> bool" where
  "admissible r k \<longleftrightarrow> request_ok r \<and> check_request r (Some k) = Inr k \<and> refs_fit r \<and> strip (ar_service r) \<noteq> []"

lemma check_request_Inr:
  "check_request r (Some k) = Inr k' \<longleftrightarrow>
     k' = k \<and> 16 \<le> length k \<and> length k \<le> 256 \<and> ar_good r \<le> ar_total r \<and> ar_failed r \<le> ar_changes r \<and> ar_refs r \<noteq> []"
  by (auto simp: check_request_def guard_else_Inr_iff)

lemma facts_of_request:
  assumes "request_ok r" "check_request r (Some k) = Inr k" "analysis_formulas r = Inr results"
  obtains f burn where "analysis_facts hx r results = Inr f" "facts_ok hx r f"
    "value_of results ''error_budget_burn_rate'' = Inr burn" "af_decision f = decide burn"
proof -
  have "ar_good r \<le> ar_total r" "ar_failed r \<le> ar_changes r" using assms(2) by (simp_all add: check_request_Inr)
  then have "map fr_name results = formula_names" "\<forall>f \<in> set results. result_clean f"
    using analysis_formulas_fine [OF assms(1)] assms(3) by blast+
  then show thesis
  proof (rule analysis_facts_ok [OF assms(1), of results hx])
    fix f burn
    assume f: "analysis_facts hx r results = Inr f" "sha256_json hx (request_json r) = Inr (af_input f)"
      "value_of results ''error_budget_burn_rate'' = Inr burn" "af_decision f = decide burn"
      "length (af_summary f) \<le> 600" "strip (af_summary f) \<noteq> []"
    then show thesis using that [of f burn] decide_cases [of burn] by (simp add: facts_ok_def)
  qed
qed

lemma verify_boundary_total:
  assumes "db_inv hx d" "assert_scope d s = Inr ()"
  obtains v where "verify_boundary hx d s refs source = Inr v" "boundary_ok v"
proof -
  have "\<exists>y. ref_resolves d s e = Inr y" for e
    using assms(2) by (cases "hex64_ok e") (auto simp: ref_resolves_def get_receipt_def)
  then obtain found where found: "rmap (ref_resolves d s) refs = Inr found"
    using rmap_total [of refs "ref_resolves d s"] by blast
  obtain chain where chain: "verify_chain hx d s ''receipts'' = Inr chain"
    using stream_inv_valid [OF db_invD(2) [OF assms, of Receipts] assms(2)] by auto
  have "\<exists>digests. rmap (\<lambda>e. sha256_json hx (JStr e)) es = Inr digests" for es
    by (rule rmap_total) (rule floatless_digest, simp)
  then obtain v where v: "verify_boundary hx d s refs source = Inr v"
    unfolding verify_boundary_def found rbind_simps Let_def chain by (metis (no_types, lifting) rbind_simps(2))
  have "boundary_ok v" using verify_boundary_shape [of hx d s refs source "fst v" "snd v"] v
    by (simp add: boundary_ok_def)
  with v show thesis by (rule that)
qed

lemma analyze_appends:
  assumes "check_request r (Some k) = Inr k" "analysis_formulas r = Inr results" "analysis_facts hx r results = Inr f"
    and "verify_boundary hx dv s (ar_refs r) (ae_source env) = Inr v" "analysis_drafts hx s r env f v = Inr a"
  shows "analyze hx dv d0 d dr env s r (Some k) =
    rbind (map_exc append_handler
              (append_analysis_bundle hx d0 d dr s (ad_receipt a) (ad_memory a) (ad_traces a) k
                 (ad_request a) (ae_now env) (ae_rows env))) (\<lambda>(b, d').
     rbind (analysis_response r f b) (\<lambda>response. Inr (response, d')))"
  by (simp add: analyze_def assms)

lemma response_replay:
  assumes "analysis_response r f b = Inr resp"
  shows "analysis_response r f (b\<lparr>ab_replay := True\<rparr>) = Inr (aset resp ''idempotent_replay'' (JBool True))"
  using assms unfolding analysis_response_def Let_def
  by (auto simp: guard_else_Inr_iff rbind_Inr_iff)

lemma analyze_Inr:
  assumes "analyze hx dv d0 d dr env s r (Some k) = Inr (resp, d')"
  obtains results f v a b where "check_request r (Some k) = Inr k" "analysis_formulas r = Inr results"
    "analysis_facts hx r results = Inr f" "verify_boundary hx dv s (ar_refs r) (ae_source env) = Inr v"
    "analysis_drafts hx s r env f v = Inr a" "request_digest hx r = Inr (ad_request a)"
    "append_analysis_bundle hx d0 d dr s (ad_receipt a) (ad_memory a) (ad_traces a) k (ad_request a)
       (ae_now env) (ae_rows env) = Inr (b, d')"
    "analysis_response r f b = Inr resp"
proof -
  have split: "map_exc h x = Inr y \<longleftrightarrow> x = Inr y" for h and x :: "'b res" and y by (cases x) simp_all
  obtain k' results f v a b where p: "check_request r (Some k) = Inr k'" "analysis_formulas r = Inr results"
    "analysis_facts hx r results = Inr f" "verify_boundary hx dv s (ar_refs r) (ae_source env) = Inr v"
    "analysis_drafts hx s r env f v = Inr a"
    "append_analysis_bundle hx d0 d dr s (ad_receipt a) (ad_memory a) (ad_traces a) k' (ad_request a)
       (ae_now env) (ae_rows env) = Inr (b, d')"
    "analysis_response r f b = Inr resp"
    using assms unfolding analyze_def rbind_Inr_iff split by (auto simp: rbind_Inr_iff)
  have "k' = k" using p(1) by (simp add: check_request_Inr)
  moreover have "request_digest hx r = Inr (ad_request a)"
    using p(5) unfolding analysis_drafts_def rbind_Inr_iff by auto
  ultimately show thesis using that p by blast
qed

lemma bundle_scope:
  assumes "append_analysis_bundle hx d0 d dr s rd md traces idem_key request t us = Inr (b, d')"
    and "db_inv hx d0" "db_inv hx d" "db_inv hx dr"
  shows "assert_scope d' s = Inr ()"
proof -
  obtain key i where "find_idem d' s key = Some i"
    using assms(1)
  proof (cases rule: append_bundle_cases)
    case (appended key i h)
    then show thesis using bundle_claimed that by blast
  qed (use that in blast)
  with append_bundle_inv [OF assms] show ?thesis by (rule idem_scope)
qed

text \<open>Where the route hands to the store what it accepts.\<close>

lemma analyze_reaches_store:
  assumes "hex_digest hx" "db_inv hx dv" "assert_scope dv s = Inr ()"
    and "admissible r k" "analysis_formulas r = Inr results" "clock_ok (ae_clock env)"
  obtains f v a digest burn and an :: analysis_anatomy where "analysis_facts hx r results = Inr f" "boundary_ok v"
    "value_of results ''error_budget_burn_rate'' = Inr burn" "af_decision f = decide burn"
    "verify_boundary hx dv s (ar_refs r) (ae_source env) = Inr v"
    "analysis_drafts hx s r env f v = Inr a" "request_digest hx r = Inr (ad_request a)"
    "check_bundle s (ad_receipt a) (ad_memory a) (ad_traces a) (ad_request a) = Inr ()"
    "drafts_agree hx (ad_receipt a) (ad_memory a) (ad_traces a) digest"
    "drafts_writable (ad_receipt a) (ad_memory a) (ad_traces a)" "length (aa_stages an) = 9"
    "ad_traces a = stage_traces s (ae_trace env) (ae_spans env) (ae_clock env) 0 None (aa_stages an)"
    "rd_payload (ad_receipt a) = analysis_payload r f (ae_source env) (fst v) (ae_trace env) digest"
proof -
  have r: "request_ok r" "check_request r (Some k) = Inr k" "refs_fit r" "strip (ar_service r) \<noteq> []"
    using assms(4) by (simp_all add: admissible_def)
  obtain f burn where f: "analysis_facts hx r results = Inr f" "facts_ok hx r f"
    "value_of results ''error_budget_burn_rate'' = Inr burn" "af_decision f = decide burn"
    by (rule facts_of_request [OF r(1,2) assms(5)])
  obtain v where v: "verify_boundary hx dv s (ar_refs r) (ae_source env) = Inr v" "boundary_ok v"
    by (rule verify_boundary_total [OF assms(2,3)])
  show thesis
    by (rule analysis_drafts_ok [OF assms(1) r(1,3,4) assms(6) f(2) v(2)]) (rule that [OF f(1) v(2) f(3,4) v(1)])
qed

subsection \<open>The answer to an appended bundle\<close>

lemma stored_traces_api:
  assumes "list_all2 (written_as hx s t) (stage_traces s tid sp clk 0 None stages) rows"
  obtains apis where "rmap stored_trace_to_api rows = Inr apis"
proof -
  have "\<exists>api. stored_trace_to_api y = Inr api" if yin: "y \<in> set rows" for y
  proof -
    obtain j where j: "j < length rows" "y = rows ! j" using yin by (auto simp: in_set_conv_nth)
    have "written_as hx s t (stage_traces s tid sp clk 0 None stages ! j) y"
      using list_all2_nthD2 [OF assms j(1)] j(2) by simp
    moreover have "j < length stages"
      using j(1) list_all2_lengthD [OF assms] by (simp add: stage_traces_facts(1))
    ultimately obtain n prev u parent where
      "trace_record hx s n prev t (stage_trace s tid sp clk j parent (stages ! j)) u = Inr y"
      by (auto simp: stage_traces_nth written_as_def)
    from row_to_api [OF this] show ?thesis by blast
  qed
  then show thesis using rmap_total [of rows stored_trace_to_api] that by blast
qed

lemma response_of_bundle:
  assumes "rc_payload (ab_receipt b) = JObj (analysis_payload r f src st tid sha)"
    and "list_all2 (written_as hx s t) (stage_traces s tid sp clk 0 None stages) (ab_traces b)"
  obtains resp where "analysis_response r f b = Inr resp"
    "jget_null (JObj resp) ''receipt_id'' = JStr (r_hash (ab_receipt b))"
    "jget_null (JObj resp) ''idempotent_replay'' = JBool (ab_replay b)"
    "jget_null (JObj resp) ''decision'' = JStr (af_decision f)"
    "jget_null (JObj resp) ''can_execute'' = JBool False"
proof -
  obtain apis where apis: "rmap stored_trace_to_api (ab_traces b) = Inr apis"
    by (rule stored_traces_api [OF assms(2)])
  have got: "jget_null (rc_payload (ab_receipt b)) ''formula_output_sha256'' = JStr (af_formula_sha f)"
    "jget_null (rc_payload (ab_receipt b)) ''output_sha256'' = JStr (af_output f)"
    "attribute (rc_payload (ab_receipt b)) ''trace_id'' = Inr (JStr (uuid_str tid))"
    "attribute (rc_payload (ab_receipt b)) ''decision'' = Inr (JStr (af_decision f))"
    "attribute (rc_payload (ab_receipt b)) ''verification_state'' = Inr (JStr st)"
    by (simp_all add: assms(1) analysis_payload_def jget_null_def attribute_def)
  show thesis
    by (rule that, simp add: analysis_response_def Let_def got apis) (simp_all add: jget_null_def)
qed

lemma analyze_ok:
  assumes "hex_digest hx" "separates_next hx d s 9" "db_inv hx d" "assert_scope d s = Inr ()" "memory_cites d s"
    and "admissible r k" "analysis_formulas r = Inr results" "value_of results ''error_budget_burn_rate'' = Inr burn"
    and "clock_ok (ae_clock env)" "is_aware (ae_now env)" "fresh_ids d (ae_rows env) 9"
    and "idempotency_digest hx s k = Inr key" "find_idem d s key = None"
    and "scoped_traces d s (uuid_str (ae_trace env)) = []"
  shows "\<exists>resp b d'. analyze hx d d d dr env s r (Some k) = Inr (resp, d') \<and> bundle_ok hx d' s b \<and>
    jget_null (JObj resp) ''receipt_id'' = JStr (r_hash (ab_receipt b)) \<and>
    jget_null (JObj resp) ''idempotent_replay'' = JBool False \<and>
    jget_null (JObj resp) ''decision'' = JStr (decide burn) \<and>
    jget_null (JObj resp) ''can_execute'' = JBool False"
proof -
  obtain f v a digest burn' and an :: analysis_anatomy where p: "analysis_facts hx r results = Inr f"
    "value_of results ''error_budget_burn_rate'' = Inr burn'" "af_decision f = decide burn'"
    "verify_boundary hx d s (ar_refs r) (ae_source env) = Inr v" "analysis_drafts hx s r env f v = Inr a"
    "check_bundle s (ad_receipt a) (ad_memory a) (ad_traces a) (ad_request a) = Inr ()"
    "drafts_agree hx (ad_receipt a) (ad_memory a) (ad_traces a) digest"
    "drafts_writable (ad_receipt a) (ad_memory a) (ad_traces a)" "length (aa_stages an) = 9"
    "ad_traces a = stage_traces s (ae_trace env) (ae_spans env) (ae_clock env) 0 None (aa_stages an)"
    "rd_payload (ad_receipt a) = analysis_payload r f (ae_source env) (fst v) (ae_trace env) digest"
    by (rule analyze_reaches_store [OF assms(1,3,4,6,7,9)]) blast
  have len: "length (ad_traces a) = 9" by (rule check_bundleD(1) [OF p(6)])
  have "tr_trace_id (ad_traces a ! 0) = ae_trace env" by (simp add: p(9,10) stage_traces_nth stage_trace_def)
  moreover have "ad_traces a \<noteq> []" using len by auto
  ultimately have free: "scoped_traces d s (uuid_str (tr_trace_id (hd (ad_traces a)))) = []"
    using assms(14) by (simp add: hd_conv_nth)
  obtain b d' where b: "append_analysis_bundle hx d d dr s (ad_receipt a) (ad_memory a) (ad_traces a) k
      (ad_request a) (ae_now env) (ae_rows env) = Inr (b, d')" "\<not> ab_replay b" "bundle_ok hx d' s b"
    "rc_payload (ab_receipt b) = JObj (rd_payload (ad_receipt a))"
    "list_all2 (written_as hx s (ae_now env)) (ad_traces a) (ab_traces b)"
    using append_bundle_ok [OF assms(2-5) p(6-8) assms(10) _ assms(12,13) free] assms(11) len by metis
  obtain resp where resp: "analysis_response r f b = Inr resp"
    "jget_null (JObj resp) ''receipt_id'' = JStr (r_hash (ab_receipt b))"
    "jget_null (JObj resp) ''idempotent_replay'' = JBool (ab_replay b)"
    "jget_null (JObj resp) ''decision'' = JStr (af_decision f)"
    "jget_null (JObj resp) ''can_execute'' = JBool False"
    by (rule response_of_bundle [OF b(4) [unfolded p(11)] b(5) [unfolded p(10)]])
  have "check_request r (Some k) = Inr k" using assms(6) by (simp add: admissible_def)
  from analyze_appends [OF this assms(7) p(1,4,5)] b resp(1)
  have "analyze hx d d d dr env s r (Some k) = Inr (resp, d')" by simp
  moreover have "af_decision f = decide burn" using p(2,3) assms(8) by simp
  ultimately show ?thesis using b(2,3) resp by auto
qed

subsection \<open>Properties\<close>

text \<open>C38: Too many evidence references break the route.  A request that passes the contract of
  \<open>AnalysisRequest\<close>, with a well-formed key and computable formulas, but with more than 64
  different evidence references (up to 100 are allowed) ends in the \<open>ValueError\<close> of
  \<open>MemoryDraft\<close>, which the route does not catch, whatever the database holds.\<close>

theorem analyze_many_refs_crash:
  assumes "request_ok r" "check_request r (Some k) = Inr k" "strip (ar_service r) \<noteq> []"
    and "analysis_formulas r = Inr results" "db_inv hx dv" "assert_scope dv s = Inr ()"
    and "64 < length (clean_refs (ar_refs r))"
  shows "analyze hx dv d0 d dr env s r (Some k) =
    Inl (ValueError ''memory evidence references must be bounded to 64 x 512 characters'')"
proof -
  obtain f burn where f: "analysis_facts hx r results = Inr f" "facts_ok hx r f"
    by (rule facts_of_request [OF assms(1,2,4)])
  obtain v where v: "verify_boundary hx dv s (ar_refs r) (ae_source env) = Inr v" "boundary_ok v"
    by (rule verify_boundary_total [OF assms(5,6)])
  show ?thesis
    by (simp add: analyze_def assms(2,4) f(1) v(1) analysis_drafts_crash [OF assms(1,3) f(2) v(2) assms(7)])
qed

text \<open>C6: An analysis is idempotent.  Once a request was answered under a key, the same request
  under that key, at any later time and whatever the deployment then is, gives the first answer
  again, marked as a replay, and leaves the database as it is; an acceptable request whose digest
  is another gets status 409.\<close>

theorem analyze_idempotent:
  assumes "analyze hx dv d0 d dr env s r (Some k) = Inr (resp, d')"
    and "hex_digest hx" "db_inv hx d0" "db_inv hx d" "db_inv hx dr"
    and "admissible r2 k" "analysis_formulas r2 = Inr results2" "clock_ok (ae_clock env2)"
  shows "(r2 = r \<longrightarrow> analyze hx d' d' dl dx env2 s r2 (Some k) =
            Inr (aset resp ''idempotent_replay'' (JBool True), d')) \<and>
    (request_digest hx r2 \<noteq> request_digest hx r \<longrightarrow> analyze hx d' d' dl dx env2 s r2 (Some k) =
            Inl (HTTPException 409 ''Idempotency-Key was already used for a different request''))"
proof -
  obtain results f b and a :: bundle_drafts where p: "analysis_formulas r = Inr results" "analysis_facts hx r results = Inr f"
    "request_digest hx r = Inr (ad_request a)" "analysis_response r f b = Inr resp"
    and app: "append_analysis_bundle hx d0 d dr s (ad_receipt a) (ad_memory a) (ad_traces a) k (ad_request a)
       (ae_now env) (ae_rows env) = Inr (b, d')"
    by (rule analyze_Inr [OF assms(1)]) blast
  note inv = append_bundle_inv [OF app assms(3-5)] and scope = bundle_scope [OF app assms(3-5)]
  obtain f2 v2 a2 where q: "analysis_facts hx r2 results2 = Inr f2"
    "verify_boundary hx d' s (ar_refs r2) (ae_source env2) = Inr v2" "analysis_drafts hx s r2 env2 f2 v2 = Inr a2"
    "request_digest hx r2 = Inr (ad_request a2)"
    "check_bundle s (ad_receipt a2) (ad_memory a2) (ad_traces a2) (ad_request a2) = Inr ()"
    by (rule analyze_reaches_store [OF assms(2) inv scope assms(6-8)]) blast
  have "check_request r2 (Some k) = Inr k" using assms(6) by (simp add: admissible_def)
  note run = analyze_appends [where ?d0.0 = d' and d = dl and dr = dx, OF this assms(7) q(1-3)]
  note again = bundle_repeated [where dl = dl and ?dr2.0 = dx and ?t2.0 = "ae_now env2" and ?us2.0 = "ae_rows env2", OF app assms(3-5) q(5)]
  show ?thesis
  proof (intro conjI impI)
    assume "r2 = r"
    then have "f2 = f" "ad_request a2 = ad_request a" using p q assms(7) by simp_all
    then show "analyze hx d' d' dl dx env2 s r2 (Some k) = Inr (aset resp ''idempotent_replay'' (JBool True), d')"
      unfolding run again using response_replay [OF p(4)] \<open>r2 = r\<close> by simp
  next
    assume "request_digest hx r2 \<noteq> request_digest hx r"
    then have "ad_request a2 \<noteq> ad_request a" using p(3) q(4) by simp
    then show "analyze hx d' d' dl dx env2 s r2 (Some k) =
            Inl (HTTPException 409 ''Idempotency-Key was already used for a different request'')"
      unfolding run again by (simp add: append_handler_def)
  qed
qed

text \<open>C4: An acceptable analysis is committed.  In a database that satisfies the invariant, with a
  hash that separates the next records, a key not used before, fresh identifiers and timezone-aware
  clock readings, a request that the drafts accept and whose formulas are computable is answered:
  its bundle is stored and linked, the response names the stored receipt, is no replay, never
  permits execution, and asks for a review exactly when the burn rate exceeds one.\<close>

theorem analyze_commits:
  assumes "hex_digest hx" "separates_next hx d s 9" "db_inv hx d" "assert_scope d s = Inr ()" "memory_cites d s"
    and "admissible r k" "analysis_formulas r = Inr results" "value_of results ''error_budget_burn_rate'' = Inr burn"
    and "clock_ok (ae_clock env)" "is_aware (ae_now env)" "fresh_ids d (ae_rows env) 9"
    and "idempotency_digest hx s k = Inr key" "find_idem d s key = None"
    and "scoped_traces d s (uuid_str (ae_trace env)) = []"
  shows "\<exists>resp b d'. analyze hx d d d dr env s r (Some k) = Inr (resp, d') \<and> bundle_ok hx d' s b \<and>
    jget_null (JObj resp) ''receipt_id'' = JStr (r_hash (ab_receipt b)) \<and>
    jget_null (JObj resp) ''idempotent_replay'' = JBool False \<and>
    jget_null (JObj resp) ''decision'' =
      JStr (if \<exists>v. burn = Some v \<and> flt (Fin 1) v then ''REVIEW'' else ''ABSTAIN'') \<and>
    jget_null (JObj resp) ''can_execute'' = JBool False"
proof -
  have "decide burn = (if \<exists>v. burn = Some v \<and> flt (Fin 1) v then ''REVIEW'' else ''ABSTAIN'')"
    by (cases burn) (simp_all add: decide_def)
  then show ?thesis using analyze_ok [OF assms] by (simp only:)
qed

subsection \<open>An example\<close>

text \<open>A hash for the examples: its last digit is the number of the stream record it is of, if that
  is at most nine.\<close>

definition numbered :: "string \<Rightarrow> int \<Rightarrow> bool" where
  "numbered x n \<longleftrightarrow> (\<exists>s st p b. basis_matches s st n p b \<and> canonical_json (JObj b) = Inr x)"

definition numbered_hash :: "string \<Rightarrow> string" where
  "numbered_hash x = replicate 63 (CHR ''0'') @
     [digit_char (case List.find (numbered x) [1, 2, 3, 4, 5, 6, 7, 8, 9] of None \<Rightarrow> 0 | Some n \<Rightarrow> nat n)]"

definition example_request :: analysis_request where
  "example_request = \<lparr>ar_service = ''api'', ar_good = 0, ar_total = 1, ar_slo = Fin (1 / 2), ar_requests = 2,
     ar_window = Fin 2, ar_failed = 0, ar_changes = 1, ar_cost = Fin 2, ar_successes = 2, ar_volume = None,
     ar_baseline = None, ar_observed = None, ar_order = None, ar_currency = ''USD'', ar_refs = [''trace-1''],
     ar_label = MEASURED\<rparr>"

definition example_source :: source_binding where
  "example_source = source_identity (\<lambda>n. None) None"

definition example_env :: analysis_env where
  "example_env = \<lparr>ae_source = example_source, ae_trace = 7, ae_spans = example_ids, ae_clock = example_clock,
     ae_now = Aware 50, ae_rows = example_ids\<rparr>"

lemma numbered_unique: "numbered x m \<Longrightarrow> numbered x n \<Longrightarrow> m = n"
proof -
  assume "numbered x m" "numbered x n"
  then obtain s st p b t st' q c where b: "basis_matches s st m p b" "canonical_json (JObj b) = Inr x"
    and c: "basis_matches t st' n q c" "canonical_json (JObj c) = Inr x" unfolding numbered_def by blast
  have "JInt m = JInt n"
    by (rule basis_is_determined [OF basis_matchesD(1) [OF b(1)] basis_matchesD(1) [OF c(1)] canonical_json_inj [OF b(2) c(2)]])
       simp_all
  then show "m = n" by simp
qed

lemma numbered_hash_value:
  assumes "numbered x n" "1 \<le> n" "n \<le> 9"
  shows "numbered_hash x = replicate 63 (CHR ''0'') @ [digit_char (nat n)]"
proof -
  have "n \<in> set [1, 2, 3, 4, 5, 6, 7, 8, 9]" using assms(2,3) by auto
  then obtain m where "List.find (numbered x) [1, 2, 3, 4, 5, 6, 7, 8, 9] = Some m"
    using assms(1) by (metis find_None_iff option.exhaust)
  moreover from this have "numbered x m" unfolding find_Some_iff by blast
  ultimately show ?thesis using numbered_unique [OF assms(1)] by (simp add: numbered_hash_def)
qed

lemma numbered_hash_hex: "hex_digest numbered_hash"
proof -
  have "nat n \<le> 9" if "List.find (numbered x) [1, 2, 3, 4, 5, 6, 7, 8, 9] = Some n" for x n
  proof -
    have "n \<in> set [1, 2, 3, 4, 5, 6, 7, 8, 9]" using that unfolding find_Some_iff by (metis nth_mem)
    then show ?thesis by auto
  qed
  then have "(case List.find (numbered x) [1, 2, 3, 4, 5, 6, 7, 8, 9] of None \<Rightarrow> 0 | Some n \<Rightarrow> nat n) < 10" for x
    by (fastforce split: option.split)
  moreover have "lower_hex (digit_char n)" if "n < 10" for n
  proof -
    have "n = 0 \<or> n = 1 \<or> n = 2 \<or> n = 3 \<or> n = 4 \<or> n = 5 \<or> n = 6 \<or> n = 7 \<or> n = 8 \<or> n = 9" using that by arith
    then show ?thesis by (elim disjE) (simp_all only:, code_simp+)
  qed
  moreover have "is_digit (CHR ''0'')" by code_simp
  ultimately have "is_hex64 (numbered_hash x)" for x
    by (simp add: is_hex64_def numbered_hash_def list_all_iff)
  then show ?thesis by (simp add: hex_digest_def)
qed

lemma numbered_separates: "separates_next numbered_hash fresh_db example_scope 9"
  unfolding separates_next_def separates_def
proof (intro allI impI, elim conjE)
  fix st h m n p q x y c
  assume "locked_head fresh_db example_scope st = Inr h"
  then have b: "h_seq h + int 9 = 9" by (auto simp: fresh_db_head)
  assume le: "1 \<le> m" "m \<le> h_seq h + int 9" "1 \<le> n" "n \<le> h_seq h + int 9"
    and bases: "basis_matches example_scope st m p x" "basis_matches example_scope st n q y"
    and sha: "sha256_json numbered_hash (JObj x) = Inr c" "sha256_json numbered_hash (JObj y) = Inr c"
  obtain u v where uv: "canonical_json (JObj x) = Inr u" "canonical_json (JObj y) = Inr v" "numbered_hash u = numbered_hash v"
    using sha unfolding sha256_json_Inr by metis
  have "numbered u m" "numbered v n" unfolding numbered_def using bases uv by blast+
  then have "digit_char (nat m) = digit_char (nat n)"
    using numbered_hash_value le uv(3) unfolding b by simp
  then have "of_char (digit_char (nat m)) = (of_char (digit_char (nat n)) :: nat)" by simp
  then show "m = n" using le unfolding b by (simp add: digit_char_def)
qed

lemma example_formulas:
  "\<exists>results. analysis_formulas example_request = Inr results \<and>
     value_of results ''error_budget_burn_rate'' = Inr (Some (Fin 2))"
proof -
  have units: "strip ''fraction'' \<noteq> []" "strip ''x'' \<noteq> []" "strip ''requests/second'' \<noteq> []"
    "strip ''USD/success'' \<noteq> []" "strip ''USD'' \<noteq> []" by code_simp+
  have f64: "f64 2" "f64 (- 1)" using f64_numeral [of "num.Bit0 num.One"] by (simp_all add: f64_minus)
  have "\<exists>last. revenue_at_risk None None None None = Inr last"
    using fr_unavailable_result [OF units(5)] unfolding revenue_at_risk_def Let_def option.case prod.case by blast
  then obtain last where last: "revenue_at_risk None None None None = Inr last" ..
  show ?thesis
    by (simp add: analysis_formulas_def example_request_def int_num_def float_num_def Let_def availability_sli_def
        error_rate_def change_failure_rate_def count_ratio_def count_arg_def int_div_def units f64 last
        allowed_bad_rate_def error_budget_burn_rate_def error_budget_remaining_def requests_per_second_def
        cost_per_success_def finite_arg_def float_of_int_def fmax_def value_of_def)
qed

lemma example_admissible: "admissible example_request example_key"
proof -
  have "f64 2" using f64_numeral [of "num.Bit0 num.One"] by simp
  then have "request_ok example_request"
    by (simp add: request_ok_def example_request_def count_within_def float_within_def opt_within_def is_upper_def code_def)
  moreover have "check_request example_request (Some example_key) = Inr example_key"
    by (simp add: check_request_Inr example_request_def example_key_def)
  moreover have "clean_refs [''trace-1''] = [''trace-1'']" "strip ''api'' \<noteq> []" by code_simp+
  ultimately show ?thesis by (simp add: admissible_def refs_fit_def example_request_def)
qed

lemma clean_refs_id:
  assumes "distinct xs" "\<forall>x \<in> set xs. strip x = x \<and> x \<noteq> []"
  shows "clean_refs xs = xs"
proof -
  have "map strip xs = xs" using assms(2) by (simp add: map_idI)
  moreover have "filter (\<lambda>x. strip x \<noteq> []) xs = xs" using assms(2) by (simp add: filter_id_conv)
  ultimately show ?thesis using dedup_distinct [OF assms(1)] by (simp add: clean_refs_def)
qed

text \<open>Sixty-five references.\<close>

definition many_refs :: "string list" where
  "many_refs = map (\<lambda>n. replicate (Suc n) (CHR ''a'')) [0..<65]"

lemma many_refs: "clean_refs many_refs = many_refs" "length many_refs = 65"
    "list_all (\<lambda>e. e \<noteq> [] \<and> length e \<le> 512) many_refs"
proof -
  have "\<not> py_isspace (CHR ''a'')" by code_simp
  then have "dropWhile py_isspace (replicate n (CHR ''a'')) = replicate n (CHR ''a'')" for n by (cases n) simp_all
  then have "strip (replicate (Suc n) (CHR ''a'')) = replicate (Suc n) (CHR ''a'')" for n
    by (simp add: strip_def lstrip_def rstrip_def del: replicate_Suc)
  moreover have "distinct many_refs" by (simp add: many_refs_def distinct_map inj_on_def)
  ultimately show "clean_refs many_refs = many_refs" by (intro clean_refs_id) (auto simp: many_refs_def simp del: replicate_Suc)
  show "length many_refs = 65" "list_all (\<lambda>e. e \<noteq> [] \<and> length e \<le> 512) many_refs"
    by (simp_all add: many_refs_def list_all_iff)
qed

theorem analyze_many_refs_crash_witness:
  "analyze id fresh_db fresh_db fresh_db fresh_db example_env example_scope
     (example_request\<lparr>ar_refs := many_refs\<rparr>) (Some example_key) =
   Inl (ValueError ''memory evidence references must be bounded to 64 x 512 characters'')"
proof -
  let ?r = "example_request\<lparr>ar_refs := many_refs\<rparr>"
  obtain results where "analysis_formulas example_request = Inr results" using example_formulas by blast
  then have f: "analysis_formulas ?r = Inr results" by (simp add: analysis_formulas_def)
  have a: "request_ok example_request" "check_request example_request (Some example_key) = Inr example_key"
    "strip (ar_service example_request) \<noteq> []" using example_admissible by (simp_all add: admissible_def)
  have "many_refs \<noteq> []" using many_refs(2) by auto
  then have "request_ok ?r" "check_request ?r (Some example_key) = Inr example_key" "strip (ar_service ?r) \<noteq> []"
    using a many_refs by (simp_all add: request_ok_def check_request_Inr)
  moreover have "64 < length (clean_refs (ar_refs ?r))" using many_refs by simp
  ultimately show ?thesis using analyze_many_refs_crash [OF _ _ _ f fresh_db_inv fresh_db_scope] by blast
qed

lemma example_ids_fresh9: "fresh_ids fresh_db example_ids 9"
proof -
  have "length example_traces = 9" by (simp add: example_traces_def)
  with example_ids_fresh show ?thesis by simp
qed

lemma example_analysis_ok:
  "\<exists>resp b d'. analyze numbered_hash fresh_db fresh_db fresh_db fresh_db example_env example_scope example_request
       (Some example_key) = Inr (resp, d') \<and> bundle_ok numbered_hash d' example_scope b \<and>
     jget_null (JObj resp) ''decision'' = JStr ''REVIEW''"
proof -
  obtain results where f: "analysis_formulas example_request = Inr results"
    "value_of results ''error_budget_burn_rate'' = Inr (Some (Fin 2))" using example_formulas by blast
  have env: "clock_ok (ae_clock example_env)" "is_aware (ae_now example_env)" "fresh_ids fresh_db (ae_rows example_env) 9"
    using example_clock_ok example_ids_fresh9 by (simp_all add: example_env_def)
  have "decide (Some (Fin 2)) = ''REVIEW''" by (simp add: decide_def)
  then show ?thesis
    using analyze_ok [OF numbered_hash_hex numbered_separates fresh_db_inv fresh_db_scope example_state(3)
      example_admissible f env example_key_digest example_state(1,2), of fresh_db] by auto
qed

theorem analyze_commits_witness:
  "\<exists>resp b d'. analyze numbered_hash fresh_db fresh_db fresh_db fresh_db example_env example_scope example_request
       (Some example_key) = Inr (resp, d') \<and> bundle_ok numbered_hash d' example_scope b \<and>
     jget_null (JObj resp) ''decision'' = JStr ''REVIEW''"
proof -
  obtain results where f: "analysis_formulas example_request = Inr results"
    "value_of results ''error_budget_burn_rate'' = Inr (Some (Fin 2))" using example_formulas by blast
  have env: "clock_ok (ae_clock example_env)" "is_aware (ae_now example_env)" "fresh_ids fresh_db (ae_rows example_env) 9"
    using example_clock_ok example_ids_fresh9 by (simp_all add: example_env_def)
  show ?thesis
    using analyze_commits [OF numbered_hash_hex numbered_separates fresh_db_inv fresh_db_scope example_state(3)
      example_admissible f env example_key_digest example_state(1,2), of fresh_db] by auto
qed

theorem analyze_idempotent_witness:
  "\<exists>resp d'. analyze numbered_hash fresh_db fresh_db fresh_db fresh_db example_env example_scope example_request
       (Some example_key) = Inr (resp, d') \<and>
     analyze numbered_hash d' d' d' d' (example_env\<lparr>ae_trace := 8, ae_now := Aware 99\<rparr>) example_scope example_request
       (Some example_key) = Inr (aset resp ''idempotent_replay'' (JBool True), d')"
proof -
  obtain resp d' where a: "analyze numbered_hash fresh_db fresh_db fresh_db fresh_db example_env example_scope example_request
       (Some example_key) = Inr (resp, d')" using example_analysis_ok by blast
  obtain results where f: "analysis_formulas example_request = Inr results" using example_formulas by blast
  have "clock_ok (ae_clock (example_env\<lparr>ae_trace := 8, ae_now := Aware 99\<rparr>))"
    using example_clock_ok by (simp add: example_env_def)
  from analyze_idempotent [OF a numbered_hash_hex fresh_db_inv fresh_db_inv fresh_db_inv example_admissible f this] a
  show ?thesis by blast
qed

end
