(* ===== verification/Sha256.thy ===== *)
theory Sha256
  imports Json "HOL-Library.Word"
begin

unbundle bit_operations_syntax

text \<open>
  \<open>hashlib.sha256(text.encode("utf-8")).hexdigest()\<close>: the digest that the program passes
  to every component whose model has a hash function as a parameter.  The interpretation at the
  end gives those components the shape of its results.
\<close>

text \<open>The constants are the first 32 bits of the fractions of roots of the first primes.\<close>

definition floor_root :: "nat \<Rightarrow> nat \<Rightarrow> nat" where
  "floor_root k n = foldl (\<lambda>r b. if (r + 2 ^ b) ^ k \<le> n then r + 2 ^ b else r) 0 (rev [0..<40])"

definition root_bits :: "nat \<Rightarrow> nat \<Rightarrow> 32 word" where
  "root_bits k p = of_nat (floor_root k (p * 2 ^ (32 * k)))"

definition small_primes :: "nat list" where
  "small_primes = filter (\<lambda>n. list_all (\<lambda>m. n mod m \<noteq> 0) [2..<n]) [2..<312]"

definition sha_k :: "32 word list" where
  "sha_k = map (root_bits 3) small_primes"

definition sha_init :: "32 word list" where
  "sha_init = map (root_bits 2) [2, 3, 5, 7, 11, 13, 17, 19]"

text \<open>UTF-8, for code points below 256.\<close>

definition utf8 :: "string \<Rightarrow> nat list" where
  "utf8 s = concat (map (\<lambda>c. let n = code c in
     if n < 128 then [n] else [192 + n div 64, 128 + n mod 64]) s)"

definition sha_pad :: "nat list \<Rightarrow> nat list" where
  "sha_pad bs = bs @ [128] @ replicate ((119 - length bs mod 64) mod 64) 0 @
     map (\<lambda>i. (8 * length bs) div 256 ^ (7 - i) mod 256) [0..<8]"

fun words_of :: "nat list \<Rightarrow> 32 word list" where
  "words_of (a # b # c # d # rest) = of_nat (((a * 256 + b) * 256 + c) * 256 + d) # words_of rest"
| "words_of _ = []"

definition rotr :: "nat \<Rightarrow> 32 word \<Rightarrow> 32 word" where
  "rotr n x = drop_bit n x OR push_bit (32 - n) x"

fun schedule :: "nat \<Rightarrow> 32 word list \<Rightarrow> 32 word list" where
  "schedule 0 w = w"
| "schedule (Suc k) w =
     (let n = length w; x = w ! (n - 15); y = w ! (n - 2);
          s0 = rotr 7 x XOR rotr 18 x XOR drop_bit 3 x;
          s1 = rotr 17 y XOR rotr 19 y XOR drop_bit 10 y in
      schedule k (w @ [w ! (n - 16) + s0 + w ! (n - 7) + s1]))"

definition sha_round :: "32 word list \<Rightarrow> 32 word \<times> 32 word \<Rightarrow> 32 word list" where
  "sha_round v kw =
     (case v of [a, b, c, d, e, f, g, h] \<Rightarrow>
        let s1 = rotr 6 e XOR rotr 11 e XOR rotr 25 e;
            ch = (e AND f) XOR (NOT e AND g);
            t1 = h + s1 + ch + fst kw + snd kw;
            s0 = rotr 2 a XOR rotr 13 a XOR rotr 22 a;
            maj = (a AND b) XOR (a AND c) XOR (b AND c) in
        [t1 + s0 + maj, a, b, c, d + t1, e, f, g]
      | _ \<Rightarrow> v)"

definition compress :: "32 word list \<Rightarrow> 32 word list \<Rightarrow> 32 word list" where
  "compress v block = map2 (+) v (foldl sha_round v (zip sha_k (schedule 48 block)))"

fun blocks :: "nat \<Rightarrow> 32 word list \<Rightarrow> 32 word list \<Rightarrow> 32 word list" where
  "blocks 0 v w = v"
| "blocks (Suc k) v w = blocks k (compress v (take 16 w)) (drop 16 w)"

definition hex_char :: "nat \<Rightarrow> char" where
  "hex_char n = ''0123456789abcdef'' ! (n mod 16)"

definition hex_word :: "32 word \<Rightarrow> string" where
  "hex_word x = map (\<lambda>i. hex_char (unat x div 16 ^ (7 - i))) [0..<8]"

definition sha256 :: "string \<Rightarrow> string" where
  "sha256 s =
     (let w = words_of (sha_pad (utf8 s))
      in concat (map hex_word (blocks (length w div 16) sha_init w)))"

lemma length_sha_round: "length (sha_round v kw) = length v"
  by (auto simp: sha_round_def Let_def split: list.splits)

lemma length_rounds: "length (foldl sha_round v kws) = length v"
  by (induction kws arbitrary: v) (simp_all add: length_sha_round)

lemma length_blocks: "length (blocks k v w) = length v"
  by (induction k v w rule: blocks.induct) (simp_all add: compress_def length_rounds)

lemma hex_char_ok: "is_digit (hex_char n) \<or> hex_char n \<in> set ''abcdef''"
proof -
  have "hex_char n \<in> set ''0123456789abcdef''" unfolding hex_char_def by (rule nth_mem) simp
  then show ?thesis by (auto simp: is_digit_def code_def)
qed

lemma hex_words_ok: "list_all (\<lambda>c. is_digit c \<or> c \<in> set ''abcdef'') (concat (map hex_word ws))"
  using hex_char_ok by (auto simp: list_all_iff hex_word_def)

lemma length_hex_words: "length (concat (map hex_word ws)) = 8 * length ws"
  by (induction ws) (simp_all add: hex_word_def)

lemma sha256_hex: "is_hex64 (sha256 s)"
  using hex_words_ok by (simp add: sha256_def is_hex64_def Let_def length_hex_words length_blocks sha_init_def)

interpretation sha: hex_digest sha256
  by unfold_locales (rule sha256_hex)

end
