(* ===== verification/Session_Ledger.thy ===== *)
theory Session_Ledger
  imports Float_Text Ledger Sha256
begin

section \<open>Session memory (lyte\_engine/memory.py, sources.py)\<close>

text \<open>
  Observation receipts of a hashed session and the SQLite table that keeps them.  The table is the
  list of its rows in the order they were inserted; an append that raises leaves it as it is.
  Clock readings are arguments.  SQL leaves open in which order rows of the same time are
  returned: \<open>scan\<close> is the order in which they are met, any permutation.  A mapping is the record
  that \<open>observation_receipt\<close> builds, and \<open>json.loads\<close> of a canonical text is the value with its
  keys sorted.
\<close>

subsection \<open>Receipts\<close>

record observation =
  ob_kind :: string
  ob_scope :: string
  ob_payload :: string
  ob_source :: string
  ob_at :: pyfloat
  ob_label :: string
  ob_receipt :: string

definition token_char :: "char \<Rightarrow> bool" where
  "token_char c \<longleftrightarrow> is_alnum c \<or> c \<in> set ''._~-''"

definition session_scope :: "(string \<Rightarrow> string) \<Rightarrow> string \<Rightarrow> string res" where
  "session_scope hx token =
     (let v = strip token in
      guard_else (32 \<le> length v \<and> length v \<le> 128 \<and> list_all token_char v)
        (ValueError (''X-SZL-Session must contain 32-128 high-entropy characters '' @
           ''using A-Z, a-z, 0-9, period, underscore, tilde, or hyphen''))
        (Inr (hx v)))"

definition max_payload_bytes :: nat where
  "max_payload_bytes = 256000"

definition allowed_truth :: "string list" where
  "allowed_truth = [''MEASURED'', ''REPORTED'', ''MODELED'', ''SAMPLE'', ''ROADMAP'', ''UNAVAILABLE'']"

text \<open>The body of a receipt; a receipt bound again to another session leaves one entry out.\<close>

definition observation_basis :: "bool \<Rightarrow> string \<Rightarrow> string \<Rightarrow> string \<Rightarrow> string \<Rightarrow> pyfloat \<Rightarrow> string \<Rightarrow> json" where
  "observation_basis tokens kind scope payload source at' label = JObj
     ([(''schema'', JStr ''szl.lyte-observation-receipt/v3''), (''kind'', JStr kind),
       (''session_scope_sha256'', JStr scope), (''payload_sha256'', JStr payload),
       (''source_url'', JStr source), (''observed_at'', JFloat at'), (''truth_label'', JStr label),
       (''signature_claimed'', JBool False)] @
      (if tokens then [(''raw_session_token_recorded'', JBool False)] else []) @
      [(''can_authorize'', JBool False), (''effectors_enabled'', JBool False)])"

definition observation_receipt ::
  "(string \<Rightarrow> string) \<Rightarrow> pyfloat \<Rightarrow> string \<Rightarrow> string \<Rightarrow> json \<Rightarrow> string \<Rightarrow> string option \<Rightarrow> pyfloat option \<Rightarrow>
   observation res" where
  "observation_receipt hx now scope kind payload truth source observed =
     guard_else (is_hex64 scope) (ValueError ''session scope must be a SHA-256 digest'')
       (let label = py_upper truth in
        guard_else (label \<in> set allowed_truth) (ValueError ''unsupported truth label'')
       (rbind (canonical_json payload) (\<lambda>text.
        guard_else (length (utf8 text) \<le> max_payload_bytes)
          (ValueError ''memory payload exceeds the configured byte budget'')
       (let at' = (case observed of Some x \<Rightarrow> x | None \<Rightarrow> if source = None then Fin 0 else now);
            url = take 500 (case source of None \<Rightarrow> [] | Some u \<Rightarrow> u);
            k = take 80 kind in
        guard_else (\<not> flt at' (Fin 0)) (ValueError ''observed_at must be non-negative'')
       (rbind (sha256_json hx (observation_basis True k scope (hx text) url at' label)) (\<lambda>receipt.
          Inr \<lparr>ob_kind = k, ob_scope = scope, ob_payload = hx text, ob_source = url, ob_at = at',
               ob_label = label, ob_receipt = receipt\<rparr>))))))"

definition rebind_receipt_scope :: "(string \<Rightarrow> string) \<Rightarrow> observation \<Rightarrow> string \<Rightarrow> observation res" where
  "rebind_receipt_scope hx r scope =
     rbind (sha256_json hx (observation_basis False (ob_kind r) scope (ob_payload r) (ob_source r)
              (ob_at r) (ob_label r)))
       (\<lambda>receipt. Inr (r\<lparr>ob_scope := scope, ob_receipt := receipt\<rparr>))"

subsection \<open>The ledger\<close>

record ledger_row =
  lr_receipt :: string
  lr_scope :: string
  lr_kind :: string
  lr_at :: pyfloat
  lr_label :: string
  lr_source :: string
  lr_payload :: string
  lr_summary :: json
  lr_created :: pyfloat

text \<open>\<open>INSERT OR IGNORE\<close>: a receipt that is there, or a time that is no number, inserts nothing.\<close>

definition insert_or_ignore :: "ledger_row \<Rightarrow> ledger_row list \<Rightarrow> ledger_row list" where
  "insert_or_ignore r rows =
     (if lr_at r = NaN \<or> list_ex (\<lambda>x. lr_receipt x = lr_receipt r) rows then rows else rows @ [r])"

definition ledger_row_of :: "pyfloat \<Rightarrow> pyfloat \<Rightarrow> string \<Rightarrow> string \<Rightarrow> observation \<Rightarrow> json \<Rightarrow> ledger_row" where
  "ledger_row_of now created scope kind ob summary =
     \<lparr>lr_receipt = ob_receipt ob, lr_scope = scope, lr_kind = take 80 kind,
      lr_at = (if feq (ob_at ob) (Fin 0) then now else ob_at ob),
      lr_label = (if ob_label ob = [] then ''UNAVAILABLE'' else ob_label ob),
      lr_source = take 500 (ob_source ob), lr_payload = ob_payload ob, lr_summary = summary,
      lr_created = created\<rparr>"

definition ledger_append ::
  "ledger_row list \<Rightarrow> pyfloat \<Rightarrow> pyfloat \<Rightarrow> string \<Rightarrow> string \<Rightarrow> observation \<Rightarrow> json \<Rightarrow> ledger_row list res" where
  "ledger_append rows now created scope kind ob summary =
     guard_else (is_hex64 scope) (ValueError ''session scope must be a SHA-256 digest'')
    (guard_else (is_hex64 (ob_receipt ob)) (ValueError ''receipt_id must be a SHA-256 digest'')
    (guard_else (ob_scope ob = scope) (ValueError ''receipt scope does not match the caller scope'')
    (rbind (canonical_json summary) (\<lambda>_.
       let safe = sort_keys summary in
       rbind (canonical_json safe) (\<lambda>encoded.
       guard_else (length (utf8 encoded) \<le> max_payload_bytes)
         (ValueError ''memory summary exceeds the configured byte budget'')
         (Inr (insert_or_ignore (ledger_row_of now created scope kind ob safe) rows)))))))"

definition ledger_match :: "string \<Rightarrow> string option \<Rightarrow> ledger_row \<Rightarrow> bool" where
  "ledger_match scope kind r \<longleftrightarrow> lr_scope r = scope \<and>
     (case kind of None \<Rightarrow> True | Some k \<Rightarrow> k = [] \<or> lr_kind r = take 80 k)"

definition ledger_recent ::
  "(ledger_row list \<Rightarrow> ledger_row list) \<Rightarrow> ledger_row list \<Rightarrow> string \<Rightarrow> int \<Rightarrow> string option \<Rightarrow> ledger_row list res" where
  "ledger_recent scan rows scope limit kind =
     guard_else (is_hex64 scope) (ValueError ''session scope must be a SHA-256 digest'')
       (Inr (take (nat (max 1 (min limit 100)))
          (sort_key (\<lambda>r. - float_key (lr_at r)) (scan (filter (ledger_match scope kind) rows)))))"

definition ledger_receipt_ids ::
  "(ledger_row list \<Rightarrow> ledger_row list) \<Rightarrow> ledger_row list \<Rightarrow> string \<Rightarrow> string set res" where
  "ledger_receipt_ids scan rows scope =
     rbind (ledger_recent scan rows scope 100 None) (\<lambda>rs. Inr (set (map lr_receipt rs)))"

definition ledger_get :: "ledger_row list \<Rightarrow> string \<Rightarrow> string \<Rightarrow> ledger_row option res" where
  "ledger_get rows scope receipt =
     guard_else (is_hex64 scope) (ValueError ''session scope must be a SHA-256 digest'')
       (Inr (if is_hex64 receipt
             then List.find (\<lambda>r. lr_scope r = scope \<and> lr_receipt r = receipt) rows else None))"

text \<open>The counts of \<open>status\<close>: sessions and observations.\<close>

definition ledger_status :: "ledger_row list \<Rightarrow> nat \<times> nat" where
  "ledger_status rows = (length (remdups (map lr_scope rows)), length rows)"

subsection \<open>What a receipt states\<close>

lemma observation_basis_get:
  "jget (observation_basis tokens k s p u a l) ''kind'' = Some (JStr k)"
  "jget (observation_basis tokens k s p u a l) ''session_scope_sha256'' = Some (JStr s)"
  "jget (observation_basis tokens k s p u a l) ''payload_sha256'' = Some (JStr p)"
  "jget (observation_basis tokens k s p u a l) ''source_url'' = Some (JStr u)"
  "jget (observation_basis tokens k s p u a l) ''observed_at'' = Some (JFloat a)"
  "jget (observation_basis tokens k s p u a l) ''truth_label'' = Some (JStr l)"
  by (simp_all add: observation_basis_def)

lemma observation_basis_inj:
  assumes "sort_keys (observation_basis tokens k s p u a l) = sort_keys (observation_basis tokens' k' s' p' u' a' l')"
  shows "k = k' \<and> s = s' \<and> p = p' \<and> u = u' \<and> a = a' \<and> l = l'"
proof -
  have "map_option sort_keys (jget (observation_basis tokens k s p u a l) x) =
      map_option sort_keys (jget (observation_basis tokens' k' s' p' u' a' l') x)" for x
    using arg_cong [OF assms, of "\<lambda>j. jget j x"] by (simp only: observation_basis_def jget_sort_keys)
  from this [of "''kind''"] this [of "''session_scope_sha256''"] this [of "''payload_sha256''"]
    this [of "''source_url''"] this [of "''observed_at''"] this [of "''truth_label''"]
  show ?thesis by (simp add: observation_basis_get)
qed

text \<open>The text hashed for an observation, with either body; two observations whose texts collide.\<close>

definition body :: "bool \<Rightarrow> observation \<Rightarrow> json" where
  "body tokens ob = observation_basis tokens (ob_kind ob) (ob_scope ob) (ob_payload ob) (ob_source ob) (ob_at ob)
     (ob_label ob)"

definition bodies_collide :: "(string \<Rightarrow> string) \<Rightarrow> observation \<Rightarrow> observation \<Rightarrow> bool" where
  "bodies_collide hx ob ob' \<longleftrightarrow> (\<exists>tokens tokens' x y. canonical_json (body tokens ob) = Inr x \<and>
     canonical_json (body tokens' ob') = Inr y \<and> collision hx x y)"

lemma same_receipt:
  assumes "sha256_json hx (body tokens ob) = Inr d" "sha256_json hx (body tokens' ob') = Inr d"
    and "\<not> bodies_collide hx ob ob'"
  shows "ob_kind ob = ob_kind ob' \<and> ob_scope ob = ob_scope ob' \<and> ob_payload ob = ob_payload ob' \<and>
    ob_source ob = ob_source ob' \<and> ob_at ob = ob_at ob' \<and> ob_label ob = ob_label ob'"
proof -
  obtain x y where xy: "canonical_json (body tokens ob) = Inr x" "canonical_json (body tokens' ob') = Inr y" "hx x = hx y"
    using assms(1,2) unfolding sha256_json_Inr by metis
  then have "x = y" using assms(3) unfolding bodies_collide_def collision_def by blast
  with xy have "sort_keys (body tokens ob) = sort_keys (body tokens' ob')" by (metis canonical_json_inj)
  then show ?thesis unfolding body_def by (rule observation_basis_inj)
qed

text \<open>The receipts the program makes, and the tables that their appends give.\<close>

inductive minted :: "(string \<Rightarrow> string) \<Rightarrow> observation \<Rightarrow> bool" for hx where
  mint: "observation_receipt hx now scope kind payload truth source observed = Inr ob \<Longrightarrow> minted hx ob"
| bound: "minted hx ob \<Longrightarrow> rebind_receipt_scope hx ob scope = Inr ob' \<Longrightarrow> minted hx ob'"

text \<open>\<open>obs\<close> is the history of appended observations.\<close>

inductive ledgers :: "(string \<Rightarrow> string) \<Rightarrow> observation list \<Rightarrow> ledger_row list \<Rightarrow> bool" for hx where
  new: "ledgers hx [] []"
| step: "ledgers hx obs rows \<Longrightarrow> minted hx ob \<Longrightarrow> now \<noteq> NaN \<Longrightarrow>
    ledger_append rows now created scope kind ob summary = Inr rows' \<Longrightarrow> ledgers hx (obs @ [ob]) rows'"

lemma minted_states:
  assumes "minted hx ob"
  shows "\<exists>tokens. sha256_json hx (body tokens ob) = Inr (ob_receipt ob)"
    "ob_label ob \<noteq> []" "length (ob_source ob) \<le> 500"
  using assms
proof (induction rule: minted.induct)
  case (mint now scope kind payload truth source observed ob)
  { case 1 from mint show ?case
      by (auto simp: body_def observation_receipt_def guard_else_Inr_iff rbind_Inr_iff Let_def) }
  { case 2 from mint show ?case
      by (auto simp: observation_receipt_def guard_else_Inr_iff rbind_Inr_iff Let_def allowed_truth_def) }
  { case 3 from mint show ?case
      by (auto simp: observation_receipt_def guard_else_Inr_iff rbind_Inr_iff Let_def) }
next
  case (bound ob scope ob')
  { case 1 from bound show ?case by (auto simp: body_def rebind_receipt_scope_def rbind_Inr_iff) }
  { case 2 from bound show ?case by (auto simp: rebind_receipt_scope_def rbind_Inr_iff) }
  { case 3 from bound show ?case by (auto simp: rebind_receipt_scope_def rbind_Inr_iff) }
qed

lemma minted_number: "minted hx ob \<Longrightarrow> ob_at ob \<noteq> NaN"
proof
  assume "minted hx ob" "ob_at ob = NaN"
  then obtain tokens x where "canonical_json (body tokens ob) = Inr x"
    using minted_states(1) [of hx ob] by (auto simp: sha256_json_Inr)
  then have "\<forall>y \<in> json_floats (body tokens ob). \<exists>t. strict_float y = Inr t"
    using canonical_json_ok_iff by blast
  then show False using \<open>ob_at ob = NaN\<close> by (auto simp: body_def observation_basis_def strict_float_def)
qed

subsection \<open>Tables that are written once\<close>

text \<open>A table in which the first record of a key stays and records that are not \<open>ok\<close> are refused.\<close>

locale write_once =
  fixes put :: "'r \<Rightarrow> 's \<Rightarrow> 's" and key :: "'r \<Rightarrow> 'k" and look :: "'s \<Rightarrow> 'k \<Rightarrow> 'r option" and ok :: "'r \<Rightarrow> bool"
  assumes look_put: "ok r \<Longrightarrow> look (put r s) k =
      (case look s k of Some x \<Rightarrow> Some x | None \<Rightarrow> if k = key r then Some r else None)"
    and put_known: "look s (key r) \<noteq> None \<Longrightarrow> put r s = s"
    and put_refused: "\<not> ok r \<Longrightarrow> put r s = s"
begin

lemma kept: "look s k = Some x \<Longrightarrow> look (put r s) k = Some x"
  by (cases "ok r") (simp_all add: look_put put_refused)

lemma found: "ok r \<Longrightarrow> \<exists>x. look (put r s) (key r) = Some x \<and> (look s (key r) = None \<longrightarrow> x = r)"
  by (simp add: look_put split: option.split)

lemma put_again: "ok r \<Longrightarrow> key r' = key r \<Longrightarrow> put r' (put r s) = put r s"
  using found [of r s] by (intro put_known) auto

lemma kept_all: "look s k = Some x \<Longrightarrow> look (fold put rs s) k = Some x"
  by (induction rs arbitrary: s) (simp_all add: kept)

end

definition row_of_receipt :: "ledger_row list \<Rightarrow> string \<Rightarrow> ledger_row option" where
  "row_of_receipt rows receipt = List.find (\<lambda>r. lr_receipt r = receipt) rows"

interpretation ledger: write_once insert_or_ignore lr_receipt row_of_receipt "\<lambda>r. lr_at r \<noteq> NaN"
proof
  fix r s k
  have find: "row_of_receipt (s @ [r]) k = (case row_of_receipt s k of Some x \<Rightarrow> Some x | None \<Rightarrow> if k = lr_receipt r then Some r else None)"
    unfolding row_of_receipt_def by (induction s) auto
  have none: "row_of_receipt s (lr_receipt r) = None \<longleftrightarrow> \<not> list_ex (\<lambda>x. lr_receipt x = lr_receipt r) s"
    by (auto simp: row_of_receipt_def find_None_iff list_ex_iff)
  show "row_of_receipt (insert_or_ignore r s) k =
      (case row_of_receipt s k of Some x \<Rightarrow> Some x | None \<Rightarrow> if k = lr_receipt r then Some r else None)" if "lr_at r \<noteq> NaN"
    using that none find by (auto simp: insert_or_ignore_def split: option.split)
  show "insert_or_ignore r s = s" if "row_of_receipt s (lr_receipt r) \<noteq> None"
    using that none by (simp add: insert_or_ignore_def)
  show "insert_or_ignore r s = s" if "\<not> lr_at r \<noteq> NaN" using that by (simp add: insert_or_ignore_def)
qed

subsection \<open>Appending and reading\<close>

definition row_states :: "ledger_row \<Rightarrow> observation \<Rightarrow> bool" where
  "row_states r ob \<longleftrightarrow> lr_receipt r = ob_receipt ob \<and> lr_scope r = ob_scope ob \<and> lr_payload r = ob_payload ob \<and>
     lr_source r = ob_source ob \<and> lr_label r = ob_label ob \<and> (lr_at r = ob_at ob \<or> feq (ob_at ob) (Fin 0))"

lemma append_Inr:
  assumes "ledger_append rows now created scope kind ob summary = Inr rows'"
  shows "is_hex64 scope" "is_hex64 (ob_receipt ob)" "ob_scope ob = scope"
    "rows' = insert_or_ignore (ledger_row_of now created scope kind ob (sort_keys summary)) rows"
  using assms by (auto simp: ledger_append_def guard_else_Inr_iff rbind_Inr_iff Let_def)

lemma row_of_minted:
  assumes "minted hx ob" "now \<noteq> NaN" "ob_scope ob = scope"
  shows "row_states (ledger_row_of now created scope kind ob summary) ob"
    "lr_at (ledger_row_of now created scope kind ob summary) \<noteq> NaN"
  using assms minted_states(2,3) [OF assms(1)] minted_number [OF assms(1)]
  by (simp_all add: row_states_def ledger_row_of_def)

lemma insert_rows:
  "set (insert_or_ignore r rows) \<subseteq> insert r (set rows)"
  "distinct (map lr_receipt rows) \<Longrightarrow> distinct (map lr_receipt (insert_or_ignore r rows))"
  by (auto simp: insert_or_ignore_def list_ex_iff)

lemma ledgers_rows:
  assumes "ledgers hx obs rows"
  shows "distinct (map lr_receipt rows)" "\<forall>ob \<in> set obs. minted hx ob"
    "\<forall>r \<in> set rows. is_hex64 (lr_scope r) \<and> (\<exists>ob \<in> set obs. row_states r ob)"
  using assms
proof (induction rule: ledgers.induct)
  case (step obs rows ob now created scope kind summary rows')
  let ?r = "ledger_row_of now created scope kind ob (sort_keys summary)"
  note a = append_Inr [OF step.hyps(4)]
  { case 1 show ?case using insert_rows(2) [OF step.IH(1)] a(4) by simp }
  { case 2 show ?case using step.IH(2) step.hyps(2) by auto }
  { case 3
    have "row_states ?r ob" by (rule row_of_minted [OF step.hyps(2,3) a(3)])
    moreover have "is_hex64 (lr_scope ?r)" using a(1) by (simp add: ledger_row_of_def)
    ultimately show ?case using step.IH(3) insert_rows(1) [of ?r rows] unfolding a(4) by fastforce }
qed simp_all

lemma get_of_row:
  assumes "distinct (map lr_receipt rows)" "row_of_receipt rows receipt = Some r" "is_hex64 receipt" "is_hex64 scope"
  shows "ledger_get rows scope receipt = Inr (if lr_scope r = scope then Some r else None)"
proof -
  have r: "r \<in> set rows" "lr_receipt r = receipt"
    using assms(2) by (auto simp: row_of_receipt_def find_Some_iff)
  have only: "x = r" if "x \<in> set rows" "lr_receipt x = receipt" for x
    using assms(1) that r by (metis distinct_map inj_onD)
  have "List.find (\<lambda>x. lr_scope x = scope \<and> lr_receipt x = receipt) rows = (if lr_scope r = scope then Some r else None)"
  proof (cases "List.find (\<lambda>x. lr_scope x = scope \<and> lr_receipt x = receipt) rows")
    case None
    then show ?thesis using r by (auto simp: find_None_iff)
  next
    case (Some x)
    then have "x \<in> set rows" "lr_scope x = scope" "lr_receipt x = receipt" by (auto simp: find_Some_iff)
    then show ?thesis using Some only by auto
  qed
  then show ?thesis using assms(3,4) by (simp add: ledger_get_def)
qed

subsection \<open>Properties\<close>

text \<open>Every row is true.  In each table that appends of minted observations give, receipts are
  distinct, and every row repeats the session, payload digest, source and label of an observation
  that was appended and whose receipt it holds, and its time too unless that is zero.\<close>

theorem ledger_rows_true:
  assumes "ledgers hx obs rows"
  shows "distinct (map lr_receipt rows) \<and> (\<forall>r \<in> set rows. \<exists>ob \<in> set obs. minted hx ob \<and> row_states r ob)"
  using ledgers_rows [OF assms] by blast

text \<open>C19: An appended observation is found.  After an append of a minted observation has returned,
  its session reads by its receipt a row that states it, even if the receipt was in the table
  before, unless the text hashed for it collides with that of an earlier observation.\<close>

theorem minted_observation_found:
  assumes "ledgers hx obs rows" "minted hx ob" "now \<noteq> NaN"
    and "ledger_append rows now created scope kind ob summary = Inr rows'"
    and "\<forall>ob' \<in> set obs. \<not> bodies_collide hx ob ob'"
  shows "\<exists>r. ledger_get rows' scope (ob_receipt ob) = Inr (Some r) \<and> row_states r ob"
proof -
  note a = append_Inr [OF assms(4)]
  let ?r = "ledger_row_of now created scope kind ob (sort_keys summary)"
  note new = row_of_minted [OF assms(2,3) a(3), of created kind "sort_keys summary"]
  have id: "lr_receipt ?r = ob_receipt ob" by (simp add: ledger_row_of_def)
  obtain x where x: "row_of_receipt rows' (ob_receipt ob) = Some x" "row_of_receipt rows (ob_receipt ob) = None \<longrightarrow> x = ?r"
    using ledger.found [OF new(2), of rows, unfolded id, folded a(4)] by (elim exE conjE)
  have "row_states x ob"
  proof (cases "row_of_receipt rows (ob_receipt ob)")
    case None
    then show ?thesis using x(2) new(1) by simp
  next
    case (Some y)
    then have "x = y" using ledger.kept [OF Some, of ?r] x(1) unfolding a(4) by simp
    with Some have y: "x \<in> set rows" "lr_receipt x = ob_receipt ob" by (auto simp: row_of_receipt_def find_Some_iff)
    then obtain ob' where ob': "ob' \<in> set obs" "row_states x ob'" "minted hx ob'" using ledgers_rows [OF assms(1)] by blast
    obtain tokens tokens' where sha: "sha256_json hx (body tokens ob) = Inr (ob_receipt ob)"
      "sha256_json hx (body tokens' ob') = Inr (ob_receipt ob')"
      using minted_states(1) [OF assms(2)] minted_states(1) [OF ob'(3)] by blast
    have "ob_receipt ob' = ob_receipt ob" using y(2) ob'(2) by (simp add: row_states_def)
    then show ?thesis
      using same_receipt [OF sha(1) sha(2) [unfolded \<open>ob_receipt ob' = ob_receipt ob\<close>]] assms(5) ob'(1,2) y(2)
      by (simp add: row_states_def)
  qed
  moreover have "distinct (map lr_receipt rows')"
    by (rule ledgers_rows(1) [OF ledgers.step [OF assms(1-4)]])
  ultimately show ?thesis
    using get_of_row [OF _ x(1) a(2,1)] a(3) by (simp add: row_states_def)
qed

text \<open>Appends of one process after another; one that raises changes nothing.\<close>

record ledger_op =
  lo_now :: pyfloat
  lo_created :: pyfloat
  lo_scope :: string
  lo_kind :: string
  lo_ob :: observation
  lo_summary :: json

definition ledger_do :: "ledger_op \<Rightarrow> ledger_row list \<Rightarrow> ledger_row list" where
  "ledger_do p rows =
     (case ledger_append rows (lo_now p) (lo_created p) (lo_scope p) (lo_kind p) (lo_ob p) (lo_summary p) of
        Inl e \<Rightarrow> rows | Inr rows' \<Rightarrow> rows')"

definition ledger_run :: "ledger_op list \<Rightarrow> ledger_row list \<Rightarrow> ledger_row list" where
  "ledger_run ops rows = fold ledger_do ops rows"

lemma ledger_do_elsewhere:
  assumes "lo_scope p \<noteq> scope"
  shows "filter (\<lambda>r. lr_scope r = scope \<and> P r) (ledger_do p rows) = filter (\<lambda>r. lr_scope r = scope \<and> P r) rows"
proof (cases "ledger_append rows (lo_now p) (lo_created p) (lo_scope p) (lo_kind p) (lo_ob p) (lo_summary p)")
  case (Inr rows')
  then show ?thesis
    using append_Inr(4) [OF Inr] assms by (simp add: ledger_do_def insert_or_ignore_def ledger_row_of_def)
qed (simp add: ledger_do_def)

lemma ledger_run_elsewhere:
  "\<forall>p \<in> set ops. lo_scope p \<noteq> scope \<Longrightarrow>
   filter (\<lambda>r. lr_scope r = scope \<and> P r) (ledger_run ops rows) = filter (\<lambda>r. lr_scope r = scope \<and> P r) rows"
  by (induction ops arbitrary: rows) (simp_all add: ledger_run_def ledger_do_elsewhere)

lemma recent_own:
  assumes "\<forall>xs. mset (scan xs) = mset xs" "ledger_recent scan rows scope limit kind = Inr rs" "r \<in> set rs"
  shows "lr_scope r = scope"
proof -
  have "set (scan xs) = set xs" for xs using assms(1) by (metis set_mset_mset)
  moreover have "set (take n xs) \<subseteq> set xs" for n and xs :: "ledger_row list" by (rule set_take_subset)
  ultimately have "set rs \<subseteq> set (filter (ledger_match scope kind) rows)"
    using assms(2) unfolding ledger_recent_def guard_else_Inr_iff by (metis set_sort sum.inject(2))
  then show ?thesis using assms(3) by (auto simp: ledger_match_def)
qed

text \<open>C11: Sessions are isolated.  Whatever appends run for other sessions, with whatever receipts
  and whether they raise or not, the recent observations of a session and each single one read as
  before, and only rows of the session are returned.\<close>

theorem ledger_sessions_isolated:
  assumes "\<forall>p \<in> set ops. lo_scope p \<noteq> scope" "\<forall>xs. mset (scan xs) = mset xs"
  shows "ledger_recent scan (ledger_run ops rows) scope limit kind = ledger_recent scan rows scope limit kind \<and>
    ledger_get (ledger_run ops rows) scope receipt = ledger_get rows scope receipt \<and>
    (\<forall>rs. ledger_recent scan rows scope limit kind = Inr rs \<longrightarrow> (\<forall>r \<in> set rs. lr_scope r = scope))"
proof (intro conjI allI impI ballI)
  show "ledger_recent scan (ledger_run ops rows) scope limit kind = ledger_recent scan rows scope limit kind"
    using ledger_run_elsewhere [OF assms(1)] by (simp add: ledger_recent_def ledger_match_def [abs_def])
  show "ledger_get (ledger_run ops rows) scope receipt = ledger_get rows scope receipt"
    by (simp add: ledger_get_def find_Some_filter ledger_run_elsewhere [OF assms(1)])
  show "lr_scope r = scope" if "ledger_recent scan rows scope limit kind = Inr rs" "r \<in> set rs" for rs r
    by (rule recent_own [OF assms(2) that])
qed

text \<open>A page of recent observations is sorted by time, newest first, holds as many rows as the
  limit allows, and what it leaves out of the matching rows is no newer than what it holds.\<close>

theorem ledger_recent_latest:
  assumes "\<forall>xs. mset (scan xs) = mset xs" "ledger_recent scan rows scope limit kind = Inr rs"
  shows "sorted_wrt (\<lambda>x y. float_key (lr_at y) \<le> float_key (lr_at x)) rs \<and>
    length rs = min (nat (max 1 (min limit 100))) (length (filter (ledger_match scope kind) rows)) \<and>
    (\<exists>rest. mset (rs @ rest) = mset (filter (ledger_match scope kind) rows) \<and>
       (\<forall>x \<in> set rest. \<forall>y \<in> set rs. float_key (lr_at x) \<le> float_key (lr_at y)))"
proof -
  let ?m = "filter (ledger_match scope kind) rows" and ?n = "nat (max 1 (min limit 100))"
  let ?s = "sort_key (\<lambda>r. - float_key (lr_at r)) (scan ?m)"
  have rs: "rs = take ?n ?s" using assms(2) by (simp add: ledger_recent_def guard_else_Inr_iff)
  have all: "mset ?s = mset ?m" using assms(1) by simp
  have "sorted (map (\<lambda>r. - float_key (lr_at r)) ?s)" by simp
  then have order: "sorted_wrt (\<lambda>x y. float_key (lr_at y) \<le> float_key (lr_at x)) (take ?n ?s @ drop ?n ?s)"
    by (simp add: sorted_map sorted_wrt_map)
  have "length ?s = length ?m" by (rule mset_eq_length [OF all])
  then have "length rs = min ?n (length ?m)" by (simp add: rs min.commute)
  moreover have "mset (rs @ drop ?n ?s) = mset ?m" unfolding rs append_take_drop_id by (rule all)
  ultimately show ?thesis using order unfolding sorted_wrt_append rs [symmetric] by blast
qed

text \<open>C39: The time zero is lost.  A receipt minted without source and time states the time zero, so
  that the same payload always has the same receipt; the row that an append of it stores has the
  clock reading of the append instead.\<close>

theorem zero_time_replaced:
  assumes "observation_receipt hx t0 scope kind payload truth None None = Inr ob"
    and "ledger_append rows now created scope k ob summary = Inr rows'"
    and "\<forall>r \<in> set rows. lr_receipt r \<noteq> ob_receipt ob" "distinct (map lr_receipt rows)" "now \<noteq> NaN"
  shows "ob_at ob = Fin 0 \<and> (\<exists>r. ledger_get rows' scope (ob_receipt ob) = Inr (Some r) \<and> lr_at r = now)"
proof -
  have at0: "ob_at ob = Fin 0"
    using assms(1) by (auto simp: observation_receipt_def guard_else_Inr_iff rbind_Inr_iff Let_def)
  note a = append_Inr [OF assms(2)]
  let ?r = "ledger_row_of now created scope k ob (sort_keys summary)"
  have r: "lr_at ?r = now" "lr_scope ?r = scope" "lr_receipt ?r = ob_receipt ob"
    using at0 by (simp_all add: ledger_row_of_def)
  have "row_of_receipt rows (ob_receipt ob) = None" using assms(3) by (auto simp: row_of_receipt_def find_None_iff)
  then have row: "row_of_receipt rows' (ob_receipt ob) = Some ?r"
    using ledger.found [of ?r rows, unfolded r, OF assms(5)] unfolding a(4) by auto
  have "distinct (map lr_receipt rows')" unfolding a(4) by (rule insert_rows(2) [OF assms(4)])
  from get_of_row [OF this row a(2,1)] have "ledger_get rows' scope (ob_receipt ob) = Inr (Some ?r)" by (simp add: r)
  then show ?thesis using at0 r(1) by blast
qed

subsection \<open>Examples\<close>

definition flat_hash :: "string \<Rightarrow> string" where
  "flat_hash x = replicate 64 (CHR ''a'')"

definition one_session :: string where
  "one_session = replicate 64 (CHR ''b'')"

lemma one_session: "is_hex64 one_session" "is_hex64 (flat_hash x)"
  by (simp_all add: one_session_def flat_hash_def is_hex64_def list_all_iff)

lemma empty_payload: "canonical_json (JObj []) = Inr ''{}''"
  by code_simp

lemma example_observation:
  "\<exists>ob. observation_receipt flat_hash (Fin 9) one_session ''note'' (JObj []) ''measured'' None None = Inr ob \<and>
     ob_receipt ob = flat_hash [] \<and> ob_scope ob = one_session"
proof -
  have upper: "py_upper ''measured'' = ''MEASURED''" by code_simp
  have small: "length (utf8 ''{}'') \<le> max_payload_bytes" by (simp add: utf8_def max_payload_bytes_def code_def)
  obtain x where "sha256_json flat_hash (observation_basis True ''note'' one_session (flat_hash ''{}'') [] (Fin 0) ''MEASURED'') = Inr x"
  proof -
    have "\<forall>y \<in> json_floats (observation_basis True ''note'' one_session (flat_hash ''{}'') [] (Fin 0) ''MEASURED'').
        wf_float y \<and> isfinite y" by (simp add: observation_basis_def)
    then have "\<exists>t. canonical_json (observation_basis True ''note'' one_session (flat_hash ''{}'') [] (Fin 0) ''MEASURED'') = Inr t"
      unfolding canonical_json_ok_iff using strict_float_finite by blast
    then show thesis using that by (auto simp: sha256_json_def)
  qed
  moreover from this have "x = flat_hash []" by (auto simp: sha256_json_Inr flat_hash_def)
  ultimately show ?thesis
    by (simp add: observation_receipt_def Let_def upper small one_session allowed_truth_def empty_payload)
qed

lemma example_appended:
  assumes "ob_receipt ob = flat_hash []" "ob_scope ob = one_session"
  shows "\<exists>rows'. ledger_append [] (Fin 7) (Fin 7) one_session ''note'' ob (JObj []) = Inr rows'"
proof -
  have "length (utf8 ''{}'') \<le> max_payload_bytes" by (simp add: utf8_def max_payload_bytes_def code_def)
  then show ?thesis using one_session by (simp add: ledger_append_def assms empty_payload Let_def)
qed

theorem zero_time_replaced_witness:
  "\<exists>ob rows'. observation_receipt flat_hash (Fin 9) one_session ''note'' (JObj []) ''measured'' None None = Inr ob \<and>
     ledger_append [] (Fin 7) (Fin 7) one_session ''note'' ob (JObj []) = Inr rows' \<and> ob_at ob = Fin 0 \<and>
     (\<exists>r. ledger_get rows' one_session (ob_receipt ob) = Inr (Some r) \<and> lr_at r = Fin 7)"
proof -
  obtain ob rows' where ob: "observation_receipt flat_hash (Fin 9) one_session ''note'' (JObj []) ''measured'' None None = Inr ob"
    and a: "ledger_append [] (Fin 7) (Fin 7) one_session ''note'' ob (JObj []) = Inr rows'"
    using example_observation example_appended by blast
  from zero_time_replaced [OF ob a] ob a show ?thesis by auto
qed

theorem minted_observation_found_witness:
  "\<exists>ob rows' r. ledger_append [] (Fin 7) (Fin 7) one_session ''note'' ob (JObj []) = Inr rows' \<and>
     ledger_get rows' one_session (ob_receipt ob) = Inr (Some r) \<and> row_states r ob"
proof -
  obtain ob rows' where ob: "observation_receipt flat_hash (Fin 9) one_session ''note'' (JObj []) ''measured'' None None = Inr ob"
    and a: "ledger_append [] (Fin 7) (Fin 7) one_session ''note'' ob (JObj []) = Inr rows'"
    using example_observation example_appended by blast
  from minted_observation_found [OF ledgers.new minted.mint [OF ob] _ a] a show ?thesis by auto
qed

theorem ledger_sessions_isolated_witness:
  "\<exists>ob rows'. ledger_append [] (Fin 7) (Fin 7) one_session ''note'' ob (JObj []) = Inr rows' \<and>
     ledger_get (ledger_run [\<lparr>lo_now = Fin 7, lo_created = Fin 7, lo_scope = one_session, lo_kind = ''note'',
       lo_ob = ob, lo_summary = JObj []\<rparr>] []) (flat_hash []) (ob_receipt ob) = Inr None"
proof -
  obtain ob :: observation and rows' where
    a: "ledger_append [] (Fin 7) (Fin 7) one_session ''note'' ob (JObj []) = Inr rows'"
    using example_observation example_appended by blast
  let ?p = "\<lparr>lo_now = Fin 7, lo_created = Fin 7, lo_scope = one_session, lo_kind = ''note'',
       lo_ob = ob, lo_summary = JObj []\<rparr>"
  have "one_session \<noteq> flat_hash []" by (simp add: one_session_def flat_hash_def)
  then have "ledger_get (ledger_run [?p] []) (flat_hash []) (ob_receipt ob) = ledger_get [] (flat_hash []) (ob_receipt ob)"
    using ledger_sessions_isolated [of "[?p]" "flat_hash []" "\<lambda>xs. xs"] by simp
  moreover have "ledger_get [] (flat_hash []) (ob_receipt ob) = Inr None"
    using one_session(2) by (simp add: ledger_get_def)
  ultimately show ?thesis using a by auto
qed

end
