(* ===== verification/Forecast.thy ===== *)
theory Forecast
  imports Float_Text Formulas
begin

section \<open>Forecast Loom (lyte/intelligence/forecast\_loom.py)\<close>

text \<open>
  Governed forecasts: the checks of a request, the imputation of its context, the baseline
  provider, the normalisation of what a provider returns, and the receipt.  \<open>llog\<close>, \<open>llog2\<close>,
  \<open>lsqrt\<close> are the functions of the C library; a provider is a function from the context, the
  horizon and the quantiles to one dictionary per step.  Values and quantiles are floats, as the
  request model makes them.
\<close>

subsection \<open>Requests and results\<close>

record forecast_request =
  fq_signal :: string
  fq_values :: "pyfloat option list"
  fq_horizon :: int
  fq_quantiles :: "pyfloat list"

record forecast_point =
  fp_step :: int
  fp_quantiles :: "(string \<times> pyfloat) list"

record forecast_receipt =
  fc_contract :: string
  fc_signal :: string
  fc_provider :: string
  fc_context :: nat
  fc_imputed :: nat
  fc_horizon :: int
  fc_quantiles :: "pyfloat list"
  fc_input :: string
  fc_output :: string
  fc_confidence :: pyfloat
  fc_limitations :: "string list"
  fc_raw :: string
  fc_original :: nat
  fc_truncated :: nat

record governed_forecast =
  gf_points :: "forecast_point list"
  gf_receipt :: forecast_receipt

type_synonym provider = "pyfloat list \<Rightarrow> int \<Rightarrow> pyfloat list \<Rightarrow> (pyfloat \<times> pyfloat) list list res"

definition max_context :: nat where
  "max_context = 8192"

definition contract_version :: string where
  "contract_version = ''szl.lyte.forecast-loom/v1''"

subsection \<open>Names of quantiles\<close>

text \<open>\<open>Decimal(str(q))\<close> of a float \<open>q > 0\<close>: its coefficient and exponent.\<close>

definition decimal_pair :: "rat \<Rightarrow> nat \<times> int" where
  "decimal_pair q =
     (case List.find (repr_reads_back q) [1..<18] of
        None \<Rightarrow> (0, 0)
      | Some n \<Rightarrow> (let (m, k) = dec_digits q n in (m, k + 1 - int n)))"

text \<open>\<open>format(d, "f")\<close> and \<open>zfill\<close>\<close>

definition zfill :: "nat \<Rightarrow> string \<Rightarrow> string" where
  "zfill n s = replicate (n - length s) (CHR ''0'') @ s"

definition format_fixed :: "nat \<Rightarrow> int \<Rightarrow> string" where
  "format_fixed c e =
     (if 0 \<le> e then show_nat c @ replicate (nat e) (CHR ''0'')
      else let d = nat (- e) in show_nat (c div 10 ^ d) @ ''.'' @ zfill d (show_nat (c mod 10 ^ d)))"

definition drop_point :: "string \<Rightarrow> string" where
  "drop_point s = rev (dropWhile (\<lambda>c. c = CHR ''.'') (rev s))"

definition quantile_key :: "rat \<Rightarrow> string" where
  "quantile_key q =
     (let (m, e) = decimal_pair q;
          exact = format_fixed (m * 100) e;
          percent = (if CHR ''.'' \<in> set exact then drop_point (drop_zeros exact) else exact);
          whole = takeWhile (\<lambda>c. c \<noteq> CHR ''.'') percent;
          rest = dropWhile (\<lambda>c. c \<noteq> CHR ''.'') percent in
      ''q'' @ zfill 2 whole @ rest)"

fun key_of :: "pyfloat \<Rightarrow> string" where
  "key_of (Fin q) = quantile_key q"
| "key_of x = []"

subsection \<open>Checks of a request\<close>

definition strictly_increasing :: "pyfloat list \<Rightarrow> bool" where
  "strictly_increasing qs = sorted_wrt flt qs"

definition validate_quantiles :: "pyfloat list \<Rightarrow> pyfloat list res" where
  "validate_quantiles qs =
     guard_else (qs \<noteq> [] \<and> length qs \<le> 99) (ForecastError ''between 1 and 99 quantiles are required'')
    (guard_else (list_all (\<lambda>q. flt (Fin 0) q \<and> flt q (Fin 1) \<and> isfinite q) qs)
       (ForecastError ''quantiles must be finite values strictly between 0 and 1'')
    (guard_else (strictly_increasing qs) (ForecastError ''quantiles must be strictly increasing and unique'')
    (guard_else (Fin (1 / 2) \<in> set qs) (ForecastError ''quantiles must include the median (0.5)'')
       (Inr qs))))"

text \<open>\<open>statistics.median\<close> of floats that are not NaN\<close>

definition median :: "pyfloat list \<Rightarrow> pyfloat" where
  "median xs =
     (let s = sort_key float_key xs; n = length xs in
      if odd n then s ! (n div 2)
      else (case fdiv (fadd (s ! (n div 2 - 1)) (s ! (n div 2))) (Fin 2) of Inr m \<Rightarrow> m | Inl e \<Rightarrow> NaN))"

fun fill :: "pyfloat \<Rightarrow> pyfloat option \<Rightarrow> pyfloat option list \<Rightarrow> pyfloat list \<times> nat" where
  "fill fallback prev [] = ([], 0)"
| "fill fallback prev (None # rest) =
     (let (xs, n) = fill fallback prev rest in ((case prev of Some v \<Rightarrow> v | None \<Rightarrow> fallback) # xs, n + 1))"
| "fill fallback prev (Some v # rest) = (let (xs, n) = fill fallback (Some v) rest in (v # xs, n))"

definition keep_last :: "nat \<Rightarrow> 'a list \<Rightarrow> 'a list" where
  "keep_last n xs = drop (length xs - n) xs"

definition impute :: "pyfloat option list \<Rightarrow> (pyfloat list \<times> nat) res" where
  "impute values =
     guard_else (values \<noteq> []) (ForecastError ''forecast context cannot be empty'')
       (let vs = keep_last max_context values; valid = List.map_filter id vs in
        guard_else (valid \<noteq> []) (ForecastError ''forecast context cannot be entirely missing'')
       (guard_else (list_all isfinite valid) (ForecastError ''forecast context contains a non-finite value'')
         (Inr (fill (median valid) None vs))))"

subsection \<open>The baseline provider\<close>

definition drift_slope :: "pyfloat list \<Rightarrow> pyfloat" where
  "drift_slope values =
     (if length values < 2 then Fin 0
      else let window = keep_last 64 values in median (map2 fsub (tl window) window))"

definition drift_scale :: "pyfloat list \<Rightarrow> pyfloat" where
  "drift_scale values =
     (let center = median values; mad = median (map (\<lambda>v. fabs (fsub v center)) values) in
      fmax (rnd (1 / 10 ^ 9)) (fmul (rnd (14826 / 10000)) mad))"

definition drift_z :: "(pyfloat \<Rightarrow> pyfloat) \<Rightarrow> pyfloat \<Rightarrow> pyfloat res" where
  "drift_z llog q =
     rbind (fdiv q (fsub (Fin 1) q)) (\<lambda>odds. rbind (py_log llog odds) (\<lambda>l. fdiv l (rnd (17 / 10))))"

definition drift_row ::
  "(pyfloat \<Rightarrow> pyfloat) \<Rightarrow> (pyfloat \<Rightarrow> pyfloat) \<Rightarrow> pyfloat \<Rightarrow> pyfloat \<Rightarrow> pyfloat \<Rightarrow> pyfloat list \<Rightarrow> int \<Rightarrow>
   (pyfloat \<times> pyfloat) list res" where
  "drift_row llog lsqrt slope scale anchor quantiles step =
     (let mid = fadd anchor (fmul slope (Fin (of_int step)));
          spread = fmul scale (lsqrt (Fin (of_int step))) in
      rmap (\<lambda>q. rbind (drift_z llog q) (\<lambda>z. Inr (q, fadd mid (fmul z spread)))) quantiles)"

definition robust_drift :: "(pyfloat \<Rightarrow> pyfloat) \<Rightarrow> (pyfloat \<Rightarrow> pyfloat) \<Rightarrow> provider" where
  "robust_drift llog lsqrt values horizon quantiles =
     (let slope = drift_slope values; scale = drift_scale (keep_last 256 values); anchor = last values in
      rmap (drift_row llog lsqrt slope scale anchor quantiles) [1..horizon])"

definition drift_name :: string where
  "drift_name = ''szl.robust-drift/v1''"

subsection \<open>Running a forecast\<close>

definition confidence :: "(pyfloat \<Rightarrow> pyfloat) \<Rightarrow> nat \<Rightarrow> nat \<Rightarrow> int \<Rightarrow> pyfloat res" where
  "confidence llog2 n imputed horizon =
     rbind (int_div (int imputed) (int (max 1 n))) (\<lambda>missing.
     rbind (fdiv (Fin (of_int horizon)) (fmax (Fin 8) (Fin (of_nat n)))) (\<lambda>reach.
     rbind (fdiv (Fin 1) (fadd (Fin 1) reach)) (\<lambda>penalty.
     rbind (fdiv (llog2 (Fin (of_nat (n + 1)))) (Fin 10)) (\<lambda>depth.
       let density = fsub (Fin 1) missing; reward = fmin (Fin 1) depth in
       Inr (py_round (fmax (Fin 0) (fmin (Fin 1) (fmul (fmul density penalty) reward))) 4)))))"

definition jfloats :: "pyfloat list \<Rightarrow> json" where
  "jfloats xs = JList (map JFloat xs)"

definition input_payload :: "forecast_request \<Rightarrow> pyfloat list \<Rightarrow> json \<Rightarrow> json" where
  "input_payload q quantiles values = JObj
     [(''contract'', JStr contract_version), (''signal_id'', JStr (fq_signal q)), (''values'', values),
      (''horizon'', JInt (fq_horizon q)), (''quantiles'', jfloats quantiles)]"

text \<open>\<open>asdict(point)\<close>\<close>

definition point_json :: "forecast_point \<Rightarrow> json" where
  "point_json p = JObj [(''step'', JInt (fp_step p)),
     (''quantiles'', JObj (map (\<lambda>kv. (fst kv, JFloat (snd kv))) (fp_quantiles p)))]"

definition points_json :: "forecast_point list \<Rightarrow> json" where
  "points_json ps = JList (map point_json ps)"

text \<open>\<open>str(q)\<close>, and one step of a provider: its values in the order of the quantiles.\<close>

fun str_float :: "pyfloat \<Rightarrow> string" where
  "str_float (Fin q) = (case float_repr q of Some s \<Rightarrow> s | None \<Rightarrow> [])"
| "str_float PInf = ''inf''"
| "str_float NInf = ''-inf''"
| "str_float NaN = ''nan''"

definition read_quantile :: "(pyfloat \<times> pyfloat) list \<Rightarrow> pyfloat \<Rightarrow> pyfloat res" where
  "read_quantile row q =
     (case alookup row q of
        None \<Rightarrow> Inl (ForecastError (''provider omitted quantile '' @ str_float q))
      | Some v \<Rightarrow> guard_else (isfinite v) (ForecastError ''provider returned a non-finite forecast'') (Inr v))"

definition normalize_row :: "pyfloat list \<Rightarrow> int \<Rightarrow> (pyfloat \<times> pyfloat) list \<Rightarrow> forecast_point res" where
  "normalize_row quantiles step row =
     rbind (rmap (read_quantile row) quantiles) (\<lambda>observed.
     guard_else (sorted_wrt fle observed) (ForecastError ''provider returned crossing quantiles'')
       (Inr \<lparr>fp_step = step,
             fp_quantiles = foldl (\<lambda>d kv. aset d (fst kv) (snd kv)) [] (zip (map key_of quantiles) observed)\<rparr>))"

definition forecast_limitations :: "string list" where
  "forecast_limitations =
     [''Forecasts are advisory signals, not autonomous execution authority.'',
      ''Provider admission requires measured benchmark evidence against SZL baselines.'',
      ''Confidence is an operational evidence score, not calibrated probability.'',
      ''SHA-256 digests bind content; they are not signatures or proof of accuracy.'']"

definition run_forecast ::
  "(string \<Rightarrow> string) \<Rightarrow> (pyfloat \<Rightarrow> pyfloat) \<Rightarrow> forecast_request \<Rightarrow> string \<Rightarrow> provider \<Rightarrow> governed_forecast res" where
  "run_forecast hx llog2 q name engine =
     guard_else (strip (fq_signal q) \<noteq> []) (ForecastError ''signal_id is required'')
    (guard_else (1 \<le> fq_horizon q \<and> fq_horizon q \<le> 1024) (ForecastError ''horizon must be between 1 and 1024'')
    (rbind (validate_quantiles (fq_quantiles q)) (\<lambda>quantiles.
     guard_else (list_all (\<lambda>v. case v of None \<Rightarrow> True | Some x \<Rightarrow> isfinite x) (fq_values q))
       (ForecastError ''forecast context contains a non-finite value'')
    (rbind (impute (fq_values q)) (\<lambda>(values, imputed).
     rbind (engine values (fq_horizon q) quantiles) (\<lambda>raw.
     guard_else (int (length raw) = fq_horizon q)
       (ForecastError ''provider returned an unexpected number of forecast steps'')
    (rbind (rmap (\<lambda>(step, row). normalize_row quantiles step row) (zip [1..fq_horizon q] raw)) (\<lambda>points.
     rbind (sha256_json hx (input_payload q quantiles (jfloats values))) (\<lambda>inp.
     rbind (sha256_json hx (points_json points)) (\<lambda>out.
     rbind (confidence llog2 (length values) imputed (fq_horizon q)) (\<lambda>conf.
     rbind (sha256_json hx (input_payload q quantiles
              (JList (map (\<lambda>v. case v of None \<Rightarrow> JNull | Some x \<Rightarrow> JFloat x) (fq_values q))))) (\<lambda>raw_input.
       Inr \<lparr>gf_points = points,
         gf_receipt = \<lparr>fc_contract = contract_version, fc_signal = fq_signal q, fc_provider = name,
           fc_context = length values, fc_imputed = imputed, fc_horizon = fq_horizon q,
           fc_quantiles = quantiles, fc_input = inp, fc_output = out, fc_confidence = conf,
           fc_limitations = forecast_limitations, fc_raw = raw_input,
           fc_original = length (fq_values q),
           fc_truncated = length (fq_values q) - length values\<rparr>\<rparr>))))))))))))"

subsection \<open>A name determines its quantile\<close>

lemma decimal_pair_reads:
  assumes "f64 q" "0 < q" "decimal_pair q = (m, e)"
  shows "rnd (of_nat m * 10 powi e) = Fin q"
proof -
  obtain s where "repr_pos q = Some s" using repr_pos_total [OF assms(1,2)] by blast
  then obtain n where found: "List.find (repr_reads_back q) [1..<18] = Some n"
    unfolding repr_pos_def by (cases "List.find (repr_reads_back q) [1..<18]") simp_all
  then have n: "repr_reads_back q n" by (auto simp: find_Some_iff)
  obtain k where mk: "dec_digits q n = (m, k)" "e = k + 1 - int n"
    using assms(3) found by (cases "dec_digits q n") (simp add: decimal_pair_def)
  have "rnd (dec_value n (m, k)) = Fin q" using n mk(1) by (simp add: repr_reads_back_def Let_def)
  then show ?thesis by (simp add: dec_value_def mk(2))
qed

text \<open>The number a fixed-point text stands for.\<close>

definition read_fixed :: "string \<Rightarrow> rat" where
  "read_fixed t =
     (let whole = takeWhile (\<lambda>c. c \<noteq> CHR ''.'') t; frac = drop 1 (dropWhile (\<lambda>c. c \<noteq> CHR ''.'') t) in
      of_nat (of_digits (whole @ frac)) * 10 powi (- int (length frac)))"

lemma no_point: "list_all is_digit ds \<Longrightarrow> \<forall>c \<in> set ds. c \<noteq> CHR ''.''"
  using digits_no_e by blast

lemma read_fixed_split:
  assumes "list_all is_digit ip"
  shows "read_fixed ip = of_nat (of_digits ip)"
    "read_fixed (ip @ CHR ''.'' # fp) = of_nat (of_digits (ip @ fp)) * 10 powi (- int (length fp))"
proof -
  have all: "takeWhile (\<lambda>c. c \<noteq> CHR ''.'') ip = ip" "dropWhile (\<lambda>c. c \<noteq> CHR ''.'') ip = []"
    using no_point [OF assms] by (simp_all add: takeWhile_eq_all_conv dropWhile_eq_Nil_conv)
  show "read_fixed ip = of_nat (of_digits ip)" by (simp add: read_fixed_def all)
  have "takeWhile (\<lambda>c. c \<noteq> CHR ''.'') (ip @ CHR ''.'' # fp) = ip"
    "dropWhile (\<lambda>c. c \<noteq> CHR ''.'') (ip @ CHR ''.'' # fp) = CHR ''.'' # fp"
    using no_point [OF assms] by (simp_all add: takeWhile_append2 dropWhile_append2)
  then show "read_fixed (ip @ CHR ''.'' # fp) = of_nat (of_digits (ip @ fp)) * 10 powi (- int (length fp))"
    by (simp add: read_fixed_def)
qed

lemma of_digits_append: "of_digits (xs @ ys) = of_digits xs * 10 ^ length ys + of_digits ys"
proof (induction ys rule: rev_induct)
  case (snoc c ys)
  then show ?case using of_digits_snoc [of "xs @ ys" c] of_digits_snoc [of ys c] by (simp add: algebra_simps)
qed simp

lemma zero_digit [simp]: "is_digit (CHR ''0'')"
  by (simp add: is_digit_def code_def)

lemma zfill_digits [simp]: "list_all is_digit (zfill n ds) \<longleftrightarrow> list_all is_digit ds" "of_digits (zfill n ds) = of_digits ds"
  by (auto simp: zfill_def of_digits_zeros_left list_all_iff)

text \<open>\<open>format_fixed\<close> writes its number, and stripping zeros and the point keeps it.\<close>

lemma length_show_nat_less:
  assumes "n < 10 ^ d" "0 < d"
  shows "length (show_nat n) \<le> d"
proof (cases "n = 0")
  case True
  then show ?thesis using assms(2) by (simp add: show_nat.simps [of 0])
next
  case False
  show ?thesis
  proof (rule ccontr)
    assume "\<not> length (show_nat n) \<le> d"
    then have "d \<le> length (show_nat n) - 1" by simp
    then have "(10::nat) ^ d \<le> 10 ^ (length (show_nat n) - 1)" by (rule power_increasing) simp
    moreover have "10 ^ (length (show_nat n) - 1) \<le> n" using show_nat_length [of n] False by simp
    ultimately have "10 ^ d \<le> n" by (rule order_trans)
    then show False using assms(1) by simp
  qed
qed

lemma format_fixed_shape:
  obtains ip fp where "list_all is_digit ip" "ip \<noteq> []" "list_all is_digit fp"
    "format_fixed c e = (if 0 \<le> e then ip else ip @ CHR ''.'' # fp)"
    "of_nat c * 10 powi e = (of_nat (of_digits (if 0 \<le> e then ip else ip @ fp)) :: rat) * 10 powi (- (if 0 \<le> e then 0 else int (length fp)))"
proof (cases "0 \<le> e")
  case True
  have "(10::rat) powi e = of_nat (10 ^ nat e)" using True by (simp add: power_int_def)
  then have "of_nat c * 10 powi e = (of_nat (of_digits (show_nat c @ replicate (nat e) (CHR ''0''))) :: rat)"
    by (simp add: of_digits_zeros_right)
  moreover have "list_all is_digit (replicate j (CHR ''0''))" for j by (induction j) simp_all
  ultimately show thesis using that [of "show_nat c @ replicate (nat e) (CHR ''0'')" "[]"] True
    by (simp add: format_fixed_def)
next
  case False
  let ?d = "nat (- e)"
  let ?fp = "zfill ?d (show_nat (c mod 10 ^ ?d))"
  have "length (show_nat (c mod 10 ^ ?d)) \<le> ?d"
    by (rule length_show_nat_less) (use False in simp_all)
  then have len: "length ?fp = ?d" by (simp add: zfill_def)
  have "of_digits (show_nat (c div 10 ^ ?d) @ ?fp) = c div 10 ^ ?d * 10 ^ ?d + c mod 10 ^ ?d"
    by (simp add: of_digits_append len)
  then have "of_digits (show_nat (c div 10 ^ ?d) @ ?fp) = c" by (simp only: div_mult_mod_eq)
  then show thesis
    using that [of "show_nat (c div 10 ^ ?d)" ?fp] False len by (simp add: format_fixed_def Let_def)
qed

lemma drop_trailing:
  assumes "list_all is_digit ip" "list_all is_digit fp" "ip \<noteq> []"
  obtains fp' n where "fp = fp' @ replicate n (CHR ''0'')"
    "drop_point (drop_zeros (ip @ CHR ''.'' # fp)) = (if fp' = [] then ip else ip @ CHR ''.'' # fp')"
proof -
  let ?r = "dropWhile (\<lambda>c. c = CHR ''0'') (rev fp)" and ?z = "takeWhile (\<lambda>c. c = CHR ''0'') (rev fp)"
  have "?z = replicate (length ?z) (CHR ''0'')"
    by (rule replicate_eqI [OF refl]) (auto dest: set_takeWhileD)
  then have "rev ?z = replicate (length ?z) (CHR ''0'')" using rev_replicate [of "length ?z" "CHR ''0''"] by (simp only:)
  moreover have "rev (?z @ ?r) = fp" by (simp only: takeWhile_dropWhile_id rev_rev_ident)
  ultimately have fp: "fp = rev ?r @ replicate (length ?z) (CHR ''0'')" unfolding rev_append by (simp only:)
  have zeros: "drop_zeros (ip @ CHR ''.'' # fp) = rev (?r @ CHR ''.'' # rev ip)"
    unfolding drop_zeros_def by (simp add: dropWhile_append dropWhile_eq_Nil_conv)
  have "hd (rev ip) \<in> set ip" using assms(3) by (metis hd_in_set rev_is_Nil_conv set_rev)
  then have ip: "hd (rev ip) \<noteq> CHR ''.''" using no_point [OF assms(1)] by blast
  have "drop_point (drop_zeros (ip @ CHR ''.'' # fp)) = (if rev ?r = [] then ip else ip @ CHR ''.'' # rev ?r)"
  proof (cases "?r")
    case Nil
    obtain h t where h: "rev ip = h # t" using assms(3) by (cases "rev ip") simp_all
    then have "dropWhile (\<lambda>c. c = CHR ''.'') (CHR ''.'' # rev ip) = rev ip" using ip by simp
    then show ?thesis unfolding zeros drop_point_def Nil by simp
  next
    case (Cons c cs)
    then have "c \<in> set ?r" by simp
    then have "c \<in> set fp" using set_dropWhileD by fastforce
    then have "c \<noteq> CHR ''.''" using no_point [OF assms(2)] by blast
    then show ?thesis unfolding zeros drop_point_def Cons by simp
  qed
  with fp show thesis by (rule that)
qed

lemma key_reads:
  assumes "decimal_pair q = (m, e)"
  shows "read_fixed (drop 1 (quantile_key q)) = of_nat (m * 100) * 10 powi e"
proof -
  obtain ip fp where d: "list_all is_digit ip" "ip \<noteq> []" "list_all is_digit fp"
    and f: "format_fixed (m * 100) e = (if 0 \<le> e then ip else ip @ CHR ''.'' # fp)"
    and v: "of_nat (m * 100) * 10 powi e = (of_nat (of_digits (if 0 \<le> e then ip else ip @ fp)) :: rat) *
        10 powi (- (if 0 \<le> e then 0 else int (length fp)))"
    by (rule format_fixed_shape)
  have whole: "takeWhile (\<lambda>c. c \<noteq> CHR ''.'') ip = ip" "dropWhile (\<lambda>c. c \<noteq> CHR ''.'') ip = []"
    using no_point [OF d(1)] by (simp_all add: takeWhile_eq_all_conv dropWhile_eq_Nil_conv)
  have split: "takeWhile (\<lambda>c. c \<noteq> CHR ''.'') (ip @ CHR ''.'' # xs) = ip"
    "dropWhile (\<lambda>c. c \<noteq> CHR ''.'') (ip @ CHR ''.'' # xs) = CHR ''.'' # xs" for xs
    using no_point [OF d(1)] by (simp_all add: takeWhile_append2 dropWhile_append2)
  have z: "list_all is_digit (zfill 2 ip)" using d(1) by simp
  show ?thesis
  proof (cases "0 \<le> e")
    case True
    then have "CHR ''.'' \<notin> set (format_fixed (m * 100) e)" using f no_point [OF d(1)] by auto
    then have "drop 1 (quantile_key q) = zfill 2 ip" using True by (simp add: quantile_key_def assms f whole)
    then show ?thesis using v True read_fixed_split(1) [OF z] by simp
  next
    case False
    then have pt: "CHR ''.'' \<in> set (format_fixed (m * 100) e)" using f by simp
    obtain fp' n where fp: "fp = fp' @ replicate n (CHR ''0'')"
      "drop_point (drop_zeros (ip @ CHR ''.'' # fp)) = (if fp' = [] then ip else ip @ CHR ''.'' # fp')"
      by (rule drop_trailing [OF d(1,3,2)])
    have inv: "(10::rat) powi (- int k) = inverse (10 ^ k)" for k by (simp add: power_int_minus)
    have key: "drop 1 (quantile_key q) = zfill 2 ip @ (if fp' = [] then [] else CHR ''.'' # fp')"
      using False pt fp(2) by (simp add: quantile_key_def assms f whole split)
    have "read_fixed (drop 1 (quantile_key q)) = of_nat (of_digits (zfill 2 ip @ fp')) * 10 powi (- int (length fp'))"
      unfolding key using read_fixed_split [OF z] by (cases "fp' = []") simp_all
    also have "of_digits (zfill 2 ip @ fp') = of_digits (ip @ fp')" by (simp add: of_digits_append)
    also have "(of_nat (of_digits (ip @ fp')) * 10 powi (- int (length fp')) :: rat) =
        of_nat (of_digits ((ip @ fp') @ replicate n (CHR ''0''))) * 10 powi (- int (length fp' + n))"
      unfolding of_digits_zeros_right inv by (simp add: power_add field_simps)
    finally show ?thesis using v False by (simp add: fp(1))
  qed
qed

lemma quantile_key_inj:
  assumes "f64 p" "0 < p" "f64 q" "0 < q" "quantile_key p = quantile_key q"
  shows "p = q"
proof -
  obtain m e where m: "decimal_pair p = (m, e)" by (cases "decimal_pair p")
  obtain n k where n: "decimal_pair q = (n, k)" by (cases "decimal_pair q")
  have "of_nat (m * 100) * 10 powi e = (of_nat (n * 100) * 10 powi k :: rat)"
    using key_reads [OF m] key_reads [OF n] assms(5) by simp
  then have "of_nat m * 10 powi e = (of_nat n * 10 powi k :: rat)" by simp
  then show ?thesis
    using decimal_pair_reads [OF assms(1,2) m] decimal_pair_reads [OF assms(3,4) n] by simp
qed

subsection \<open>What a returned forecast is\<close>

lemma aset_fresh: "k \<notin> fst ` set d \<Longrightarrow> aset d k v = d @ [(k, v)]"
  by (induction d k v rule: aset.induct) auto

lemma aset_all:
  "distinct (map fst d @ map fst kvs) \<Longrightarrow> foldl (\<lambda>d kv. aset d (fst kv) (snd kv)) d kvs = d @ kvs"
proof (induction kvs arbitrary: d)
  case (Cons kv kvs)
  then have "aset d (fst kv) (snd kv) = d @ [kv]" by (simp add: aset_fresh)
  with Cons show ?case by simp
qed simp

lemma validate_quantiles_Inr:
  "validate_quantiles qs = Inr rs \<longleftrightarrow> rs = qs \<and> qs \<noteq> [] \<and> length qs \<le> 99 \<and>
     list_all (\<lambda>q. flt (Fin 0) q \<and> flt q (Fin 1) \<and> isfinite q) qs \<and> strictly_increasing qs \<and> Fin (1 / 2) \<in> set qs"
  by (auto simp: validate_quantiles_def guard_else_Inr_iff)

lemma quantile_float:
  assumes "flt (Fin 0) q" "flt q (Fin 1)" "wf_float q"
  obtains x where "q = Fin x" "f64 x" "0 < x" "x < 1"
  using assms by (cases q) auto

lemma distinct_keys:
  assumes "validate_quantiles qs = Inr rs" "list_all wf_float qs"
  shows "distinct (map key_of qs)"
proof -
  have ok: "list_all (\<lambda>q. flt (Fin 0) q \<and> flt q (Fin 1) \<and> isfinite q) qs" "sorted_wrt flt qs"
    using assms(1) by (simp_all add: validate_quantiles_Inr strictly_increasing_def)
  have "\<not> flt q q" for q by (cases q) simp_all
  then have "distinct qs" using ok(2) by (induction qs) auto
  moreover have "inj_on key_of (set qs)"
  proof (rule inj_onI)
    fix p q assume "p \<in> set qs" "q \<in> set qs" and eq: "key_of p = key_of q"
    then have p: "flt (Fin 0) p" "flt p (Fin 1)" "wf_float p" and q: "flt (Fin 0) q" "flt q (Fin 1)" "wf_float q"
      using ok(1) assms(2) by (auto simp: list_all_iff)
    obtain x where x: "p = Fin x" "f64 x" "0 < x" by (rule quantile_float [OF p])
    obtain y where y: "q = Fin y" "f64 y" "0 < y" by (rule quantile_float [OF q])
    show "p = q" using quantile_key_inj [OF x(2,3) y(2,3)] eq x(1) y(1) by simp
  qed
  ultimately show ?thesis by (simp add: distinct_map)
qed

lemma fill_facts:
  "fill fallback prev vs = (xs, n) \<Longrightarrow>
   length xs = length vs \<and> n = length (filter (\<lambda>v. v = None) vs) \<and>
   set xs \<subseteq> insert fallback (set_option prev \<union> {v. Some v \<in> set vs})"
proof (induction fallback prev vs arbitrary: xs n rule: fill.induct)
  case (2 fallback prev rest)
  obtain ys k where r: "fill fallback prev rest = (ys, k)" by (cases "fill fallback prev rest")
  show ?case using "2.IH" [OF r] "2.prems" r by (auto split: option.splits)
next
  case (3 fallback prev v rest)
  obtain ys k where r: "fill fallback (Some v) rest = (ys, k)" by (cases "fill fallback (Some v) rest")
  show ?case using "3.IH" [OF r] "3.prems" r by auto
qed simp

lemma keep_last_facts: "length (keep_last n xs) = min n (length xs)" "set (keep_last n xs) \<subseteq> set xs"
  by (simp_all add: keep_last_def set_drop_subset)

lemma impute_facts:
  assumes "impute values = Inr (xs, n)"
  shows "length xs = min max_context (length values)"
    "n = length (filter (\<lambda>v. v = None) (keep_last max_context values))" "xs \<noteq> []"
    "set xs \<subseteq> insert (median (List.map_filter id (keep_last max_context values))) {v. Some v \<in> set values}"
proof -
  let ?vs = "keep_last max_context values"
  have f: "fill (median (List.map_filter id ?vs)) None ?vs = (xs, n)" and ne: "values \<noteq> []"
    using assms by (auto simp: impute_def guard_else_Inr_iff Let_def)
  note facts = fill_facts [OF f]
  show len: "length xs = min max_context (length values)" using facts by (simp add: keep_last_facts)
  show "n = length (filter (\<lambda>v. v = None) ?vs)" using facts by simp
  show "xs \<noteq> []"
  proof
    assume "xs = []"
    then have "length values = 0" using len by (simp add: max_context_def min_def split: if_splits)
    then show False using ne by simp
  qed
  show "set xs \<subseteq> insert (median (List.map_filter id ?vs)) {v. Some v \<in> set values}"
    using facts keep_last_facts(2) [of max_context "values"] by auto
qed

definition point_ok :: "pyfloat list \<Rightarrow> int \<Rightarrow> forecast_point \<Rightarrow> bool" where
  "point_ok qs step p \<longleftrightarrow> fp_step p = step \<and> map fst (fp_quantiles p) = map key_of qs \<and>
     sorted_wrt fle (map snd (fp_quantiles p)) \<and> list_all isfinite (map snd (fp_quantiles p))"

lemma normalize_row_ok:
  assumes "distinct (map key_of qs)" "normalize_row qs step row = Inr p"
  shows "point_ok qs step p"
proof -
  obtain vs where vs: "rmap (read_quantile row) qs = Inr vs" "sorted_wrt fle vs"
    and p: "p = \<lparr>fp_step = step, fp_quantiles = foldl (\<lambda>d kv. aset d (fst kv) (snd kv)) [] (zip (map key_of qs) vs)\<rparr>"
    using assms(2) by (auto simp: normalize_row_def rbind_Inr_iff guard_else_Inr_iff)
  have all: "list_all2 (\<lambda>q v. read_quantile row q = Inr v) qs vs" using vs(1) unfolding rmap_Inr_all2 .
  then have len: "length qs = length vs" by (rule list_all2_lengthD)
  have fin: "list_all isfinite vs"
    unfolding list_all_length
  proof (intro allI impI)
    fix i assume "i < length vs"
    then have "read_quantile row (qs ! i) = Inr (vs ! i)" using list_all2_nthD2 [OF all] by blast
    then show "isfinite (vs ! i)" by (auto simp: read_quantile_def guard_else_Inr_iff split: option.splits)
  qed
  have "fp_quantiles p = zip (map key_of qs) vs"
    using aset_all [of "[]" "zip (map key_of qs) vs"] assms(1) len by (simp add: p)
  then show ?thesis using len vs(2) fin by (simp add: point_ok_def p)
qed

definition forecast_ok :: "(string \<Rightarrow> string) \<Rightarrow> forecast_request \<Rightarrow> governed_forecast \<Rightarrow> bool" where
  "forecast_ok hx q g \<longleftrightarrow>
     (let r = gf_receipt g; ps = gf_points g in
      int (length ps) = fq_horizon q \<and> (\<forall>i < length ps. point_ok (fq_quantiles q) (int i + 1) (ps ! i)) \<and>
      distinct (map key_of (fq_quantiles q)) \<and> fc_contract r = contract_version \<and>
      fc_quantiles r = fq_quantiles q \<and> fc_horizon r = fq_horizon q \<and> 1 \<le> fq_horizon q \<and> fq_horizon q \<le> 1024 \<and>
      fc_original r = length (fq_values q) \<and> fc_context r = min 8192 (length (fq_values q)) \<and>
      fc_truncated r = fc_original r - fc_context r \<and>
      fc_imputed r = length (filter (\<lambda>v. v = None) (keep_last 8192 (fq_values q))) \<and>
      sha256_json hx (points_json ps) = Inr (fc_output r) \<and>
      validate_quantiles (fq_quantiles q) = Inr (fq_quantiles q))"

lemma run_forecast_Inr:
  assumes "run_forecast hx llog2 q name engine = Inr g" "list_all wf_float (fq_quantiles q)"
  shows "forecast_ok hx q g"
proof -
  obtain qs xs imputed raw points inp out conf raw_input where
    h: "1 \<le> fq_horizon q" "fq_horizon q \<le> 1024" and v: "validate_quantiles (fq_quantiles q) = Inr qs"
    and im: "impute (fq_values q) = Inr (xs, imputed)"
    and len: "int (length raw) = fq_horizon q"
    and ps: "rmap (\<lambda>(step, row). normalize_row qs step row) (zip [1..fq_horizon q] raw) = Inr points"
    and out: "sha256_json hx (points_json points) = Inr out"
    and g: "g = \<lparr>gf_points = points,
         gf_receipt = \<lparr>fc_contract = contract_version, fc_signal = fq_signal q, fc_provider = name,
           fc_context = length xs, fc_imputed = imputed, fc_horizon = fq_horizon q,
           fc_quantiles = qs, fc_input = inp, fc_output = out, fc_confidence = conf,
           fc_limitations = forecast_limitations, fc_raw = raw_input,
           fc_original = length (fq_values q),
           fc_truncated = length (fq_values q) - length xs\<rparr>\<rparr>"
    using assms(1) unfolding run_forecast_def guard_else_Inr_iff rbind_Inr_iff by (auto simp: rbind_Inr_iff guard_else_Inr_iff)
  have qs: "qs = fq_quantiles q" using v by (simp add: validate_quantiles_Inr)
  note dist = distinct_keys [OF v assms(2)] and imp = impute_facts [OF im]
  have all: "list_all2 (\<lambda>sr p. normalize_row qs (fst sr) (snd sr) = Inr p) (zip [1..fq_horizon q] raw) points"
    using ps unfolding rmap_Inr_all2 by (simp add: case_prod_beta)
  have n: "length points = length raw" using list_all2_lengthD [OF all] len by simp
  have "point_ok (fq_quantiles q) (int i + 1) (points ! i)" if i: "i < length points" for i
  proof -
    have "zip [1..fq_horizon q] raw ! i = (int i + 1, raw ! i)" using i n len by (simp add: nth_upto)
    then have "normalize_row qs (int i + 1) (raw ! i) = Inr (points ! i)"
      using list_all2_nthD2 [OF all i] by simp
    from normalize_row_ok [OF dist [folded qs] this] show ?thesis by (simp add: qs)
  qed
  then show ?thesis
    using h v len n dist out imp(1,2) by (simp add: forecast_ok_def g qs max_context_def)
qed

subsection \<open>The baseline raises forecast errors only\<close>

definition forecast_error :: "'a res \<Rightarrow> bool" where
  "forecast_error x \<longleftrightarrow> (\<exists>v. x = Inr v) \<or> (\<exists>m. x = Inl (ForecastError m))"

lemma forecast_error_simps [simp]: "forecast_error (Inr v)" "forecast_error (Inl (ForecastError m))"
  by (simp_all add: forecast_error_def)

lemma forecast_error_bind:
  "forecast_error m \<Longrightarrow> (\<And>x. m = Inr x \<Longrightarrow> forecast_error (f x)) \<Longrightarrow> forecast_error (rbind m f)"
  by (cases m) (auto simp: forecast_error_def)

lemma forecast_error_guard: "(ok \<Longrightarrow> forecast_error x) \<Longrightarrow> forecast_error (guard_else ok (ForecastError m) x)"
  by (simp add: guard_else_def)

lemma forecast_error_rmap: "(\<And>x. x \<in> set xs \<Longrightarrow> forecast_error (f x)) \<Longrightarrow> forecast_error (rmap f xs)"
proof (induction xs)
  case (Cons x xs)
  then have "forecast_error (f x)" "forecast_error (rmap f xs)" by simp_all
  then show ?case by (auto simp: forecast_error_def)
qed simp

text \<open>Values whose sums stay finite.\<close>

definition moderate :: "pyfloat \<Rightarrow> bool" where
  "moderate v \<longleftrightarrow> (\<exists>x. v = Fin x \<and> f64 x \<and> \<bar>x\<bar> \<le> 2 ^ 1022)"

lemma f64_power: "n \<le> 1023 \<Longrightarrow> f64 (2 ^ n)" "n \<le> 1023 \<Longrightarrow> f64 (- (2 ^ n))"
proof -
  assume n: "n \<le> 1023"
  then have "(2::rat) ^ n < 2 ^ 1024" by (intro power_strict_increasing) simp_all
  then show "f64 (2 ^ n)" using f64I [of 1 "int n"] by simp
  then show "f64 (- (2 ^ n))" by (simp add: f64_minus)
qed

lemma rnd_within: "n \<le> 1023 \<Longrightarrow> \<bar>x\<bar> \<le> 2 ^ n \<Longrightarrow> \<exists>r. rnd x = Fin r \<and> f64 r \<and> \<bar>r\<bar> \<le> 2 ^ n"
  using rnd_between [OF f64_power(2) f64_power(1), of n n x] by fastforce

lemma half_sum:
  assumes "n \<le> 1022" "\<bar>a\<bar> \<le> 2 ^ n" "\<bar>b\<bar> \<le> 2 ^ n"
  shows "\<exists>r m. rnd (a + b) = Fin r \<and> rnd (r / 2) = Fin m \<and> f64 m \<and> \<bar>m\<bar> \<le> 2 ^ n"
proof -
  have "\<bar>a + b\<bar> \<le> 2 ^ Suc n" using assms(2,3) by simp
  then obtain r where r: "rnd (a + b) = Fin r" "\<bar>r\<bar> \<le> 2 ^ Suc n" using rnd_within [of "Suc n"] assms(1) by auto
  then have "\<bar>r / 2\<bar> \<le> 2 ^ n" by simp
  then show ?thesis using rnd_within [of n "r / 2"] assms(1) r(1) by auto
qed

lemma median_moderate:
  assumes "xs \<noteq> []" "\<forall>x \<in> set xs. moderate x"
  shows "moderate (median xs)"
proof -
  let ?s = "sort_key float_key xs"
  have s: "moderate (?s ! i)" if "i < length xs" for i
    using that assms(2) by (metis length_sort nth_mem set_sort)
  show ?thesis
  proof (cases "odd (length xs)")
    case True
    then have "length xs div 2 < length xs" using assms(1) by (cases xs) simp_all
    from s [OF this] show ?thesis using True by (simp add: median_def)
  next
    case False
    have n: "0 < length xs" using assms(1) by simp
    then have "length xs div 2 < length xs" by simp
    then have lt: "length xs div 2 - 1 < length xs" "length xs div 2 < length xs" by linarith+
    obtain a b where ab: "?s ! (length xs div 2 - 1) = Fin a" "\<bar>a\<bar> \<le> 2 ^ 1022" "?s ! (length xs div 2) = Fin b" "\<bar>b\<bar> \<le> 2 ^ 1022"
      using s [OF lt(1)] s [OF lt(2)] unfolding moderate_def by blast
    obtain r m where r: "rnd (a + b) = Fin r" "rnd (r / 2) = Fin m" "f64 m" "\<bar>m\<bar> \<le> 2 ^ 1022"
      using half_sum [OF order_refl ab(2,4)] by blast
    then show ?thesis using False ab(1,3) by (simp add: median_def Let_def moderate_def)
  qed
qed

lemma fadd_wf [simp]: "wf_float (fadd a b)"
  by (cases a; cases b) simp_all

lemma constant_near:
  assumes "1 \<le> x" "x \<le> 2"
  obtains c where "rnd x = Fin c" "1 \<le> c"
  using rnd_between [of 1 2 x] f64_power(1) [of 1] assms by auto

lemma drift_z_total:
  assumes "f64 x" "0 < x" "x < 1"
  shows "\<exists>z. drift_z llog (Fin x) = Inr z"
proof -
  obtain a where a: "fsub (Fin 1) (Fin x) = Fin a" "2 powi (- 53) \<le> a"
    using one_minus_pos [OF assms(1) _ assms(3)] assms(2) by auto
  then have pos: "0 < a" using powi_pos [of "- 53"] by linarith
  have "a \<le> 1"
  proof -
    have "rnd (1 - x) = Fin a" using a(1) by simp
    then show ?thesis using rnd_unit [of "1 - x"] assms by auto
  qed
  then have "x \<le> x / a" "x / a \<le> 2 ^ 53"
    using pos a(2) assms by (simp_all add: field_simps power_int_minus mult_le_cancel_left1)
  then obtain r where r: "rnd (x / a) = Fin r" "x \<le> r"
    using rnd_between [OF assms(1) f64_power(1) [of 53], of "x / a"] by auto
  obtain c where c: "rnd (17 / 10) = Fin c" "1 \<le> c" by (rule constant_near [of "17 / 10"]) simp_all
  have "\<exists>z. fdiv l (Fin c) = Inr z" for l using c(2) by (cases l) simp_all
  then show ?thesis using a(1) pos r assms(2) by (simp add: drift_z_def c(1) py_log_def)
qed

lemma robust_drift_total:
  assumes "\<forall>q \<in> set quantiles. \<exists>x. q = Fin x \<and> f64 x \<and> 0 < x \<and> x < 1"
  obtains raw where "robust_drift llog lsqrt xs horizon quantiles = Inr raw" "length raw = nat horizon"
    "\<forall>row \<in> set raw. \<forall>qv \<in> set row. wf_float (snd qv)"
proof -
  let ?row = "drift_row llog lsqrt (drift_slope xs) (drift_scale (keep_last 256 xs)) (last xs) quantiles"
  have "\<exists>z. drift_z llog q = Inr z" if qin: "q \<in> set quantiles" for q
  proof -
    obtain x where x: "q = Fin x" "f64 x" "0 < x" "x < 1" using assms qin by blast
    show ?thesis unfolding x(1) by (rule drift_z_total [OF x(2-4)])
  qed
  then have row: "\<exists>row. ?row step = Inr row" for step
    unfolding drift_row_def Let_def by (intro rmap_total) (metis rbind_simps(2))
  then obtain raw where raw: "rmap ?row [1..horizon] = Inr raw" using rmap_total [of "[1..horizon]" ?row] by blast
  have wf: "\<forall>qv \<in> set row. wf_float (snd qv)" if "?row step = Inr row" for step row
  proof -
    have "list_all2 (\<lambda>q qv. wf_float (snd qv)) quantiles row"
      using that unfolding drift_row_def Let_def rmap_Inr_all2
      by (rule list_all2_mono) (auto simp: rbind_Inr_iff)
    then show ?thesis unfolding list_all2_conv_all_nth by (metis in_set_conv_nth)
  qed
  have all: "list_all2 (\<lambda>step row. ?row step = Inr row) [1..horizon] raw" using raw unfolding rmap_Inr_all2 .
  have "\<forall>row \<in> set raw. \<forall>qv \<in> set row. wf_float (snd qv)"
  proof
    fix row assume "row \<in> set raw"
    then obtain i where "i < length raw" "row = raw ! i" by (auto simp: in_set_conv_nth)
    then have "?row ([1..horizon] ! i) = Inr row" using list_all2_nthD2 [OF all] by simp
    then show "\<forall>qv \<in> set row. wf_float (snd qv)" by (rule wf)
  qed
  then show thesis using that raw list_all2_lengthD [OF all] by (simp add: robust_drift_def Let_def)
qed

lemma confidence_total:
  assumes "imputed \<le> n" "1 \<le> horizon"
  shows "\<exists>c. confidence llog2 n imputed horizon = Inr c"
proof -
  have "int imputed \<le> int (max 1 n)" "int (max 1 n) \<noteq> 0" using assms(1) by simp_all
  from int_div_unit [OF of_nat_0_le_iff this] obtain v where v: "int_div (int imputed) (int (max 1 n)) = Inr v" by blast
  obtain m where m: "fmax (Fin 8) (Fin (of_nat n)) = Fin m" "8 \<le> m"
    by (cases "8 < n") (simp_all add: fmax_def)
  have reach: "fdiv (Fin (of_int horizon)) (Fin m) = Inr (rnd (of_int horizon / m))" using m(2) by simp
  have "rnd (of_int horizon / m) = PInf \<or> (\<exists>r. rnd (of_int horizon / m) = Fin r \<and> 0 \<le> r)"
    using rnd_nonneg [of "of_int horizon / m"] assms(2) m(2) by auto
  then obtain p where p: "fdiv (Fin 1) (fadd (Fin 1) (rnd (of_int horizon / m))) = Inr p"
  proof (elim disjE exE conjE)
    fix r assume r: "rnd (of_int horizon / m) = Fin r" "0 \<le> r"
    have "rnd 1 = Fin 1" by simp
    moreover have "rnd (1 + r) = PInf \<or> (\<exists>s. rnd (1 + r) = Fin s \<and> 0 \<le> s)" using rnd_nonneg [of "1 + r"] r(2) by auto
    ultimately have "rnd (1 + r) = PInf \<or> (\<exists>s. rnd (1 + r) = Fin s \<and> 1 \<le> s)"
      using rnd_mono_Fin [of 1 1 "1 + r"] r(2) by auto
    then show thesis using that r(1) by auto
  qed simp
  have "\<exists>d. fdiv x (Fin 10) = Inr d" for x by (cases x) simp_all
  then obtain d where d: "fdiv (llog2 (Fin (of_nat (n + 1)))) (Fin 10) = Inr d" by blast
  show ?thesis unfolding confidence_def v m(1) rbind_simps(2) reach p d Let_def by blast
qed

lemma finite_digest:
  "\<forall>x \<in> json_floats j. wf_float x \<and> isfinite x \<Longrightarrow> \<exists>d. sha256_json hx j = Inr d"
  using strict_float_finite unfolding sha256_json_Inr by (metis canonical_json_ok_iff)

lemma jfloats_floats [simp]: "json_floats (jfloats xs) = set xs"
  by (auto simp: jfloats_def)

lemma input_payload_floats: "json_floats (input_payload q qs v) = json_floats v \<union> set qs"
  by (simp add: input_payload_def)

lemma alookup_member: "alookup d k = Some v \<Longrightarrow> (k, v) \<in> set d"
  by (simp add: alookup_map_of map_of_SomeD)

lemma normalize_row_values:
  assumes "normalize_row qs step row = Inr p" "distinct (map key_of qs)" "\<forall>qv \<in> set row. wf_float (snd qv)"
    "x \<in> json_floats (point_json p)"
  shows "wf_float x \<and> isfinite x"
proof -
  obtain vs where vs: "rmap (read_quantile row) qs = Inr vs"
    and p: "p = \<lparr>fp_step = step, fp_quantiles = foldl (\<lambda>d kv. aset d (fst kv) (snd kv)) [] (zip (map key_of qs) vs)\<rparr>"
    using assms(1) by (auto simp: normalize_row_def rbind_Inr_iff guard_else_Inr_iff)
  have all: "list_all2 (\<lambda>q v. read_quantile row q = Inr v) qs vs" using vs unfolding rmap_Inr_all2 .
  have "fp_quantiles p = zip (map key_of qs) vs"
    using aset_all [of "[]" "zip (map key_of qs) vs"] assms(2) list_all2_lengthD [OF all] by (simp add: p)
  then have "x \<in> set vs" using assms(4) by (auto simp: point_json_def dest: set_zip_rightD)
  then obtain i where i: "i < length vs" "x = vs ! i" by (auto simp: in_set_conv_nth)
  have "read_quantile row (qs ! i) = Inr x" using list_all2_nthD2 [OF all i(1)] i(2) by simp
  then obtain q where "alookup row q = Some x" "isfinite x"
    by (auto simp: read_quantile_def guard_else_Inr_iff split: option.splits)
  then show ?thesis using assms(3) alookup_member by force
qed

lemma valid_floats:
  assumes "validate_quantiles qs = Inr rs" "list_all wf_float qs"
  shows "\<forall>q \<in> set qs. \<exists>x. q = Fin x \<and> f64 x \<and> 0 < x \<and> x < 1"
proof
  fix q assume "q \<in> set qs"
  then have "flt (Fin 0) q" "flt q (Fin 1)" "wf_float q" using assms by (auto simp: validate_quantiles_Inr list_all_iff)
  then show "\<exists>x. q = Fin x \<and> f64 x \<and> 0 < x \<and> x < 1" by (rule quantile_float) blast
qed

lemma map_filter_member: "x \<in> set (List.map_filter id vs) \<Longrightarrow> Some x \<in> set vs"
  by (induction vs) (auto simp: List.map_filter_simps split: option.splits)

lemma impute_moderate:
  assumes "impute vs = Inr (xs, n)" "\<forall>x. Some x \<in> set vs \<longrightarrow> moderate x"
  shows "\<forall>x \<in> set xs. moderate x"
proof -
  let ?valid = "List.map_filter id (keep_last max_context vs)"
  have "?valid \<noteq> []" using assms(1) by (auto simp: impute_def guard_else_Inr_iff Let_def)
  moreover have "\<forall>x \<in> set ?valid. moderate x"
    using assms(2) keep_last_facts(2) [of max_context vs] map_filter_member by fast
  ultimately have "moderate (median ?valid)" by (rule median_moderate)
  then show ?thesis using impute_facts(4) [OF assms(1)] assms(2) by blast
qed

text \<open>Of values whose sums stay finite, the baseline returns a forecast or raises ForecastError.\<close>

lemma moderate_clean: "moderate x \<Longrightarrow> wf_float x \<and> isfinite x"
  by (auto simp: moderate_def)

lemma forecast_error_digest: "\<forall>x \<in> json_floats j. wf_float x \<and> isfinite x \<Longrightarrow> forecast_error (sha256_json hx j)"
  using finite_digest by (fastforce simp: forecast_error_def)

lemma forecast_error_points:
  "forecast_error (rmap (\<lambda>sr. normalize_row qs (fst sr) (snd sr)) srs)"
  by (rule forecast_error_rmap)
     (auto simp: normalize_row_def read_quantile_def split: option.splits
       intro!: forecast_error_bind forecast_error_rmap forecast_error_guard)

lemma points_clean:
  assumes "rmap (\<lambda>sr. normalize_row qs (fst sr) (snd sr)) (zip steps raw) = Inr points"
    "distinct (map key_of qs)" "\<forall>row \<in> set raw. \<forall>qv \<in> set row. wf_float (snd qv)"
  shows "\<forall>x \<in> json_floats (points_json points). wf_float x \<and> isfinite x"
proof
  fix x assume "x \<in> json_floats (points_json points)"
  then obtain p where p: "p \<in> set points" "x \<in> json_floats (point_json p)" by (auto simp: points_json_def)
  from p(1) obtain i where i: "i < length points" "p = points ! i" by (auto simp: in_set_conv_nth)
  have all: "list_all2 (\<lambda>sr p. normalize_row qs (fst sr) (snd sr) = Inr p) (zip steps raw) points"
    using assms(1) unfolding rmap_Inr_all2 .
  note len = list_all2_lengthD [OF all]
  have r: "normalize_row qs (steps ! i) (raw ! i) = Inr p" using list_all2_nthD2 [OF all i(1)] len i by simp
  have "raw ! i \<in> set raw" using len i(1) by simp
  then show "wf_float x \<and> isfinite x" using normalize_row_values [OF r assms(2) _ p(2)] assms(3) by blast
qed

text \<open>
  C27: for values of at most \<open>2 ^ 1022\<close> in absolute value the baseline provider makes
  \<open>run_forecast\<close> return a forecast or raise \<open>ForecastError\<close>, which the route maps to 422; no
  other exception escapes: no division by zero, no domain error, no refused number.
\<close>

theorem baseline_forecast_error:
  assumes "list_all wf_float (fq_quantiles q)" "\<forall>v. Some v \<in> set (fq_values q) \<longrightarrow> moderate v"
  shows "forecast_error (run_forecast hx llog2 q drift_name (robust_drift llog lsqrt))"
proof -
  have "forecast_error (validate_quantiles (fq_quantiles q))"
    unfolding validate_quantiles_def by (intro forecast_error_guard) simp
  moreover have "forecast_error (impute (fq_values q))"
    unfolding impute_def Let_def by (intro forecast_error_guard) simp
  moreover have quant: "\<forall>x \<in> set qs. \<exists>r. x = Fin r \<and> f64 r \<and> 0 < r \<and> r < 1" "distinct (map key_of qs)"
    if "validate_quantiles (fq_quantiles q) = Inr qs" for qs
    using valid_floats [OF that assms(1)] distinct_keys [OF that assms(1)] that by (simp_all add: validate_quantiles_Inr)
  moreover have "forecast_error (robust_drift llog lsqrt xs (fq_horizon q) qs)"
    if "validate_quantiles (fq_quantiles q) = Inr qs" for xs qs
    by (rule robust_drift_total [OF quant(1) [OF that], of llog lsqrt xs "fq_horizon q"]) (simp add: forecast_error_def)
  moreover have "\<forall>x \<in> set qs. wf_float x \<and> isfinite x" if "validate_quantiles (fq_quantiles q) = Inr qs" for qs
    using quant(1) [OF that] by auto
  moreover have "\<forall>x \<in> json_floats (points_json ps). wf_float x \<and> isfinite x"
    if "validate_quantiles (fq_quantiles q) = Inr qs" "robust_drift llog lsqrt xs (fq_horizon q) qs = Inr raw"
      "rmap (\<lambda>sr. normalize_row qs (fst sr) (snd sr)) (zip [1..fq_horizon q] raw) = Inr ps" for xs qs raw ps
    by (rule points_clean [OF that(3) quant(2) [OF that(1)]],
        rule robust_drift_total [OF quant(1) [OF that(1)], of llog lsqrt xs "fq_horizon q"]) (use that(2) in auto)
  moreover have "\<forall>x \<in> set (fst xn). wf_float x \<and> isfinite x" if "impute (fq_values q) = Inr xn" for xn
    using impute_moderate [of "fq_values q" "fst xn" "snd xn"] that assms(2) moderate_clean by auto
  moreover have "\<forall>x \<in> json_floats (JList (map (\<lambda>v. case v of None \<Rightarrow> JNull | Some x \<Rightarrow> JFloat x) (fq_values q))).
      wf_float x \<and> isfinite x"
    using assms(2) moderate_clean by (auto split: option.splits)
  moreover have "forecast_error (confidence llog2 (length (fst xn)) (snd xn) (fq_horizon q))"
    if "impute (fq_values q) = Inr xn" "1 \<le> fq_horizon q" for xn
  proof -
    have "snd xn \<le> length (fst xn)" using impute_facts(1,2) [of "fq_values q" "fst xn" "snd xn"] that(1)
      by (metis keep_last_facts(1) length_filter_le prod.collapse)
    from confidence_total [OF this that(2)] show ?thesis by (auto simp: forecast_error_def)
  qed
  ultimately show ?thesis
    unfolding run_forecast_def case_prod_beta
    by (intro forecast_error_guard forecast_error_bind forecast_error_digest forecast_error_points)
       ((unfold input_payload_floats jfloats_floats ball_Un)?, (rule forecast_error_simps | blast))+
qed

subsection \<open>A median that overflows\<close>

text \<open>
  The median of an even number of values is half the sum of the middle two.  Of values from
  \<open>2 ^ 1023\<close> on it is infinite although all values are finite, and it is filled in unchecked.
\<close>

lemma rnd_overflow: "2 ^ 1024 \<le> x \<Longrightarrow> rnd x = PInf"
proof -
  assume x: "2 ^ 1024 \<le> x"
  have "rndq (2 ^ 1024) = 2 ^ 1024" using rndq_exact [of 1 1024] by simp
  then have "2 ^ 1024 \<le> rndq x" using rndq_mono [OF x] by simp
  then show "rnd x = PInf" by (simp add: rnd_def)
qed

definition huge_request :: "string \<Rightarrow> rat \<Rightarrow> forecast_request" where
  "huge_request s x = \<lparr>fq_signal = s, fq_values = None # replicate 4 (Some (Fin x)), fq_horizon = 1,
     fq_quantiles = [Fin (1 / 2)]\<rparr>"

lemma huge_imputed:
  assumes "f64 x" "2 ^ 1023 \<le> x"
  shows "impute (fq_values (huge_request s x)) = Inr (PInf # replicate 4 (Fin x), 1)"
proof -
  have "(2::rat) * 2 ^ 1023 = 2 ^ 1024" by (simp only: power_Suc [symmetric] Suc_numeral) simp
  then have "2 ^ 1024 \<le> x + x" using assms(2) by linarith
  then have "median [Fin x, Fin x, Fin x, Fin x] = PInf"
    by (simp add: median_def float_key_def rnd_overflow fsigned_inf_def del: One_nat_def)
  then show ?thesis
    by (simp add: huge_request_def impute_def guard_else_def keep_last_def max_context_def List.map_filter_simps
      numeral_eq_Suc)
qed

lemma huge_drift:
  assumes "f64 x" "2 ^ 1023 \<le> x" "llog (Fin 1) = Fin 0" "lsqrt (Fin 1) = Fin 1"
  shows "robust_drift llog lsqrt (PInf # replicate 4 (Fin x)) 1 [Fin (1 / 2)] = Inr [[(Fin (1 / 2), Fin x)]]"
proof -
  have "0 < x" using assms(2) by (rule less_le_trans [rotated]) simp
  have four: "replicate 4 (Fin x) = [Fin x, Fin x, Fin x, Fin x]" by (simp add: numeral_eq_Suc)
  have keep: "keep_last 64 [PInf, Fin x, Fin x, Fin x, Fin x] = [PInf, Fin x, Fin x, Fin x, Fin x]"
    "keep_last 256 [PInf, Fin x, Fin x, Fin x, Fin x] = [PInf, Fin x, Fin x, Fin x, Fin x]"
    by (simp_all add: keep_last_def)
  have meds: "median [NInf, Fin 0, Fin 0, Fin 0] = Fin 0" "median [PInf, Fin 0, Fin 0, Fin 0, Fin 0] = Fin 0"
    by (simp_all add: median_def float_key_def Let_def)
  have "x < 2 ^ 1024" using assms(1) unfolding f64_iff abs_less_iff by blast
  then have med: "median [PInf, Fin x, Fin x, Fin x, Fin x] = Fin x"
    by (simp add: median_def float_key_def Let_def)
  have slope: "drift_slope [PInf, Fin x, Fin x, Fin x, Fin x] = Fin 0"
    by (simp add: drift_slope_def keep fsub_def meds)
  obtain c where c: "rnd (14826 / 10000) = Fin c" by (rule constant_near [of "14826 / 10000"]) simp_all
  have "drift_scale [PInf, Fin x, Fin x, Fin x, Fin x] = fmax (rnd (1 / 10 ^ 9)) (Fin 0)"
    unfolding drift_scale_def med Let_def c by (simp add: fsub_def meds)
  moreover obtain k where k: "rnd (1 / 10 ^ 9) = Fin k" "0 \<le> k" "f64 k"
    using rnd_unit [of "1 / 10 ^ 9"] f64_rnd by auto
  ultimately have scale: "drift_scale [PInf, Fin x, Fin x, Fin x, Fin x] = Fin k" by (simp add: fmax_def)
  obtain d where d: "rnd (17 / 10) = Fin d" "1 \<le> d" by (rule constant_near [of "17 / 10"]) simp_all
  have "drift_z llog (Fin (1 / 2)) = Inr (Fin 0)"
    unfolding drift_z_def d(1) using d(2) assms(3) by (simp add: py_log_def fsub_def)
  then show ?thesis
    unfolding four robust_drift_def keep slope scale Let_def
    using assms(1,4) k(3) by (simp add: drift_row_def)
qed

text \<open>Text of an infinite number is refused, so its digest is an error of another kind.\<close>

lemma rmap_Inl: "rmap f xs = Inl e \<Longrightarrow> \<exists>x \<in> set xs. f x = Inl e"
  by (induction xs) (auto simp: rbind_Inl_iff)

lemma json_text_error: "json_text qt strict_float j = Inl e \<Longrightarrow> e = nan_error"
proof (induction j arbitrary: e)
  case (JFloat x)
  then show ?case by (auto simp: strict_float_def split: pyfloat.splits option.splits)
next
  case (JList xs)
  then have "rmap (json_text qt strict_float) xs = Inl e" by (auto simp: rbind_Inl_iff rmap_id_map)
  then show ?case using JList.IH by (blast dest: rmap_Inl)
next
  case (JObj kvs)
  then have "rmap (\<lambda>kv. rbind (json_text qt strict_float (snd kv)) (\<lambda>s. Inr (qt (fst kv) @ '':'' @ s))) kvs = Inl e"
    by (auto simp: rbind_Inl_iff rmap_id_map)
  from rmap_Inl [OF this] obtain kv where kv: "kv \<in> set kvs" "json_text qt strict_float (snd kv) = Inl e"
    by (auto simp: rbind_Inl_iff)
  moreover have "snd kv \<in> Basic_BNFs.snds kv" by (cases kv) simp
  ultimately show ?case using JObj.IH by blast
qed simp_all

lemma infinite_digest:
  assumes "PInf \<in> json_floats j"
  shows "sha256_json hx j = Inl nan_error"
proof (cases "canonical_json j")
  case (Inl e)
  then have "e = nan_error" unfolding canonical_json_def by (rule json_text_error)
  then show ?thesis by (simp add: sha256_json_def Inl)
next
  case (Inr s)
  then have "\<exists>t. strict_float PInf = Inr t" using canonical_json_ok_iff [of j] assms by blast
  then show ?thesis by (simp add: strict_float_def)
qed



lemma strip_cpu [simp]: "strip ''cpu'' = ''cpu''"
  by code_simp


text \<open>
  C26: an accepted forecast, whatever the provider returned, has one point for every step of the
  horizon, numbered from 1, with one finite value for each quantile, not crossing, under pairwise
  different names; its receipt repeats the validated request, counts the values used, missing and
  cut off, and carries the digest of the points.
\<close>

theorem forecast_sound:
  assumes "run_forecast hx llog2 q name engine = Inr g" "list_all wf_float (fq_quantiles q)"
  shows "forecast_ok hx q g"
  using assms by (rule run_forecast_Inr)

text \<open>A small request and a provider that answers it.\<close>

definition small_request :: forecast_request where
  "small_request = \<lparr>fq_signal = ''cpu'', fq_values = [Some (Fin 1), None], fq_horizon = 1, fq_quantiles = [Fin (1 / 2)]\<rparr>"

theorem baseline_forecast_error_witness:
  "list_all wf_float (fq_quantiles small_request) \<and>
   forecast_error (run_forecast (\<lambda>t. t) (\<lambda>x. x) small_request drift_name (robust_drift (\<lambda>x. Fin 0) (\<lambda>x. x)))"
proof
  show wf: "list_all wf_float (fq_quantiles small_request)" by (simp add: small_request_def)
  have "\<forall>v. Some v \<in> set (fq_values small_request) \<longrightarrow> moderate v" by (simp add: small_request_def moderate_def)
  with wf show "forecast_error (run_forecast (\<lambda>t. t) (\<lambda>x. x) small_request drift_name
      (robust_drift (\<lambda>x. Fin 0) (\<lambda>x. x)))"
    by (rule baseline_forecast_error)
qed

lemma small_forecast:
  "\<exists>g. run_forecast hx llog2 small_request name (\<lambda>xs h qs. Inr [[(Fin (1 / 2), Fin 1)]]) = Inr g"
proof -
  let ?q = small_request and ?half = "[Fin (1 / 2)]"
  have q: "fq_signal ?q = ''cpu''" "fq_values ?q = [Some (Fin 1), None]" "fq_horizon ?q = 1" "fq_quantiles ?q = ?half"
    by (simp_all add: small_request_def)
  have v: "validate_quantiles ?half = Inr ?half" by (simp add: validate_quantiles_Inr strictly_increasing_def)
  have i: "impute [Some (Fin 1), None] = Inr ([Fin 1, Fin 1], 1)"
    by (simp add: impute_def guard_else_def keep_last_def max_context_def List.map_filter_simps)
  obtain p where p: "rmap (\<lambda>(step, row). normalize_row ?half step row) (zip [1..1] [[(Fin (1 / 2), Fin 1)]]) = Inr [p]"
      "json_floats (point_json p) = {Fin 1}"
    by (simp add: normalize_row_def read_quantile_def guard_else_def point_json_def)
  have "\<exists>d. sha256_json hx (points_json [p]) = Inr d"
    by (rule finite_digest) (simp add: points_json_def p(2))
  then obtain out where out: "sha256_json hx (points_json [p]) = Inr out" by blast
  have "\<exists>d. sha256_json hx (input_payload ?q ?half j) = Inr d" if "json_floats j = {Fin 1}" for j
    by (rule finite_digest) (simp add: input_payload_floats that)
  then obtain a b where ab: "sha256_json hx (input_payload ?q ?half (jfloats [Fin 1, Fin 1])) = Inr a"
    "sha256_json hx (input_payload ?q ?half
        (JList (map (\<lambda>v. case v of None \<Rightarrow> JNull | Some x \<Rightarrow> JFloat x) [Some (Fin 1), None]))) = Inr b"
    by fastforce
  obtain c where c: "confidence llog2 (Suc (Suc 0)) (Suc 0) 1 = Inr c"
    using confidence_total [of "Suc 0" "Suc (Suc 0)" 1 llog2] by auto
  show ?thesis
    using p(1) out ab c by (simp add: run_forecast_def q v i guard_else_def)
qed

theorem forecast_sound_witness:
  "\<exists>g. run_forecast (\<lambda>t. t) (\<lambda>x. x) small_request ''p'' (\<lambda>xs h qs. Inr [[(Fin (1 / 2), Fin 1)]]) = Inr g \<and>
     forecast_ok (\<lambda>t. t) small_request g"
proof -
  obtain g where "run_forecast (\<lambda>t. t) (\<lambda>x. x) small_request ''p'' (\<lambda>xs h qs. Inr [[(Fin (1 / 2), Fin 1)]]) = Inr g"
    using small_forecast by blast
  with forecast_sound [OF this] show ?thesis by (auto simp: small_request_def)
qed

end
