(* ===== verification/Settings.thy ===== *)
theory Settings
  imports Contracts
begin

section \<open>Runtime settings (lyte/settings.py)\<close>

text \<open>
  \<open>mk\_settings\<close> is the \<open>Settings\<close> constructor, \<open>settings\_from\_env\<close> its reading of the
  environment (a function from names to optional values).  \<open>url\_split\<close> is the part of
  \<open>urllib.parse.urlsplit\<close> the code reads: scheme, network location and whether user
  information is present; the syntax of a bracketed IPv6 host is checked by the parameter
  \<open>host\_ok\<close>, as \<open>ipaddress\<close> does.
\<close>

datatype environment = DEVELOPMENT | TEST | PRODUCTION

definition env_parse :: "string option \<Rightarrow> environment res" where
  "env_parse value =
     (let v = (case value of None \<Rightarrow> [] | Some s \<Rightarrow> s);
          normalized = py_lower (strip (if v = [] then ''development'' else v)) in
      if normalized = ''dev'' then Inr DEVELOPMENT
      else if normalized = ''prod'' then Inr PRODUCTION
      else if normalized = ''development'' then Inr DEVELOPMENT
      else if normalized = ''test'' then Inr TEST
      else if normalized = ''production'' then Inr PRODUCTION
      else Inl (ConfigurationError ''LYTE_ENV must be one of: development, test, production''))"

definition env_boolean :: "string option \<Rightarrow> bool \<Rightarrow> bool res" where
  "env_boolean value dflt =
     (case value of
        None \<Rightarrow> Inr dflt
      | Some s \<Rightarrow>
          (let n = py_lower (strip s) in
           if n \<in> set [''1'', ''true'', ''yes'', ''on''] then Inr True
           else if n \<in> set [''0'', ''false'', ''no'', ''off''] then Inr False
           else Inl (ConfigurationError ''boolean settings must be true/false or 1/0'')))"

definition starts_with :: "string \<Rightarrow> string \<Rightarrow> bool" where
  "starts_with p s = (take (length p) s = p)"

definition normalize_database_url :: "string \<Rightarrow> string" where
  "normalize_database_url value =
     (let url = strip value in
      if starts_with ''postgres://'' url then ''postgresql+psycopg://'' @ drop 11 url
      else if starts_with ''postgresql://'' url then ''postgresql+psycopg://'' @ drop 13 url
      else url)"

subsection \<open>URLs\<close>

record url_parts =
  up_scheme :: string
  up_netloc :: string

definition scheme_char :: "char \<Rightarrow> bool" where
  "scheme_char c = (is_alnum c \<or> c \<in> set ''+-.'')"

definition url_split :: "(string \<Rightarrow> bool) \<Rightarrow> string \<Rightarrow> url_parts res" where
  "url_split host_ok value =
     (let u0 = filter (\<lambda>c. code c \<notin> {9, 10, 13}) (dropWhile (\<lambda>c. code c \<le> 32) value);
          pre = takeWhile (\<lambda>c. c \<noteq> CHR '':'') u0;
          has_scheme = (pre \<noteq> u0 \<and> pre \<noteq> [] \<and> (is_lower (hd pre) \<or> is_upper (hd pre)) \<and>
                        list_all scheme_char pre);
          scheme = (if has_scheme then py_lower pre else []);
          rest = (if has_scheme then drop (Suc (length pre)) u0 else u0);
          netloc = (if take 2 rest = ''//''
                    then takeWhile (\<lambda>c. c \<notin> set ''/?#'') (drop 2 rest) else []);
          opened = (CHR ''['' \<in> set netloc); closed = (CHR '']'' \<in> set netloc);
          host = takeWhile (\<lambda>c. c \<noteq> CHR '']'') (drop 1 (dropWhile (\<lambda>c. c \<noteq> CHR ''['') netloc))
      in if opened \<noteq> closed then Inl (ValueError ''Invalid IPv6 URL'')
         else if opened \<and> \<not> host_ok host then Inl (ValueError ''Invalid IPv6 URL'')
         else Inr \<lparr>up_scheme = scheme, up_netloc = netloc\<rparr>)"

text \<open>\<open>parsed.username\<close> and \<open>parsed.password\<close>: what stands before the last \<open>@\<close>.\<close>

definition user_info :: "string \<Rightarrow> string option" where
  "user_info netloc =
     (if CHR ''@'' \<in> set netloc
      then Some (rev (drop 1 (dropWhile (\<lambda>c. c \<noteq> CHR ''@'') (rev netloc)))) else None)"

definition url_username :: "string \<Rightarrow> string" where
  "url_username netloc = (case user_info netloc of None \<Rightarrow> []
                          | Some i \<Rightarrow> takeWhile (\<lambda>c. c \<noteq> CHR '':'') i)"

definition url_password :: "string \<Rightarrow> string" where
  "url_password netloc = (case user_info netloc of None \<Rightarrow> []
                          | Some i \<Rightarrow> drop 1 (dropWhile (\<lambda>c. c \<noteq> CHR '':'') i))"

definition require_https :: "(string \<Rightarrow> bool) \<Rightarrow> string \<Rightarrow> string option \<Rightarrow> unit res" where
  "require_https host_ok name value =
     (case value of
        None \<Rightarrow> Inl (ConfigurationError (name @ '' is required in production''))
      | Some v \<Rightarrow>
          if v = [] then Inl (ConfigurationError (name @ '' is required in production''))
          else rbind (url_split host_ok v) (\<lambda>parsed.
            if up_scheme parsed \<noteq> ''https'' \<or> up_netloc parsed = [] \<or>
               url_username (up_netloc parsed) \<noteq> [] \<or> url_password (up_netloc parsed) \<noteq> []
            then Inl (ConfigurationError (name @ '' must be an HTTPS URL without user info''))
            else Inr ()))"

subsection \<open>The settings object\<close>

record settings =
  st_environment :: environment
  st_database_url :: string
  st_oidc_issuer :: "string option"
  st_oidc_audience :: "string option"
  st_oidc_jwks_url :: "string option"
  st_dev_auth_enabled :: bool
  st_dev_auth_token :: "string option"
  st_webhook_secret :: "string option"
  st_dev_subject :: string
  st_dev_tenant :: "string option"
  st_dev_workspace :: "string option"

definition nonblank_opt :: "string option \<Rightarrow> bool" where
  "nonblank_opt s = (s \<noteq> None \<and> s \<noteq> Some [])"

definition url_scheme_of :: "string \<Rightarrow> string" where
  "url_scheme_of url = py_lower (takeWhile (\<lambda>c. c \<noteq> CHR '':'') url)"

definition scheme_supported :: "string \<Rightarrow> bool" where
  "scheme_supported s = (s \<in> set [''sqlite'', ''sqlite+pysqlite'', ''postgresql'', ''postgresql+psycopg''])"

text \<open>\<open>\_\_post\_init\_\_\<close>, on the fields as given.\<close>

definition mk_settings :: "(string \<Rightarrow> bool) \<Rightarrow> settings \<Rightarrow> settings res" where
  "mk_settings host_ok s =
     (let url = normalize_database_url (st_database_url s); scheme = url_scheme_of url;
          prod = (st_environment s = PRODUCTION);
          token = (case st_dev_auth_token s of None \<Rightarrow> [] | Some t \<Rightarrow> t) in
      guard_else (url \<noteq> []) (ConfigurationError ''DATABASE_URL cannot be empty'')
     (guard_else (scheme_supported scheme)
        (ConfigurationError ''DATABASE_URL must use SQLite or PostgreSQL'')
     (guard_else (\<not> (st_dev_auth_enabled s \<and> prod))
        (ConfigurationError ''developer authentication is forbidden in production'')
     (guard_else (st_dev_auth_enabled s \<longrightarrow> 32 \<le> length token)
        (ConfigurationError ''LYTE_DEV_AUTH_TOKEN must contain at least 32 characters'')
     (guard_else (st_dev_auth_enabled s \<longrightarrow> nonblank_opt (st_dev_tenant s) \<and> nonblank_opt (st_dev_workspace s))
        (ConfigurationError ''developer authentication requires LYTE_DEV_TENANT_ID and LYTE_DEV_WORKSPACE_ID'')
     (guard_else (case st_webhook_secret s of None \<Rightarrow> True | Some w \<Rightarrow> 32 \<le> length w)
        (ConfigurationError ''LYTE_WEBHOOK_HMAC_SECRET must contain at least 32 characters when set'')
     (if prod then
        guard_else (\<not> starts_with ''sqlite'' scheme)
          (ConfigurationError ''production requires a PostgreSQL DATABASE_URL'')
       (rbind (require_https host_ok ''OIDC_ISSUER'' (st_oidc_issuer s)) (\<lambda>_.
        rbind (require_https host_ok ''OIDC_JWKS_URL'' (st_oidc_jwks_url s)) (\<lambda>_.
        guard_else (strip (case st_oidc_audience s of None \<Rightarrow> [] | Some a \<Rightarrow> a) \<noteq> [])
          (ConfigurationError ''OIDC_AUDIENCE is required in production'')
          (Inr (s\<lparr>st_database_url := url\<rparr>)))))
      else Inr (s\<lparr>st_database_url := url\<rparr>))))))))"

definition settings_from_env ::
  "(string \<Rightarrow> bool) \<Rightarrow> (string \<Rightarrow> string option) \<Rightarrow> settings res" where
  "settings_from_env host_ok env =
     rbind (env_parse (env ''LYTE_ENV'')) (\<lambda>environment.
       let default_database = (if environment = TEST then ''sqlite+pysqlite:///:memory:''
                               else ''sqlite+pysqlite:///./lyte.db'') in
       rbind (env_boolean (env ''LYTE_DEV_AUTH_ENABLED'') False) (\<lambda>dev.
         mk_settings host_ok
           \<lparr>st_environment = environment,
            st_database_url = normalize_database_url
              (case env ''DATABASE_URL'' of None \<Rightarrow> default_database | Some u \<Rightarrow> u),
            st_oidc_issuer = env ''OIDC_ISSUER'',
            st_oidc_audience = env ''OIDC_AUDIENCE'',
            st_oidc_jwks_url = env ''OIDC_JWKS_URL'',
            st_dev_auth_enabled = dev,
            st_dev_auth_token = env ''LYTE_DEV_AUTH_TOKEN'',
            st_webhook_secret = env ''LYTE_WEBHOOK_HMAC_SECRET'',
            st_dev_subject = (case env ''LYTE_DEV_AUTH_SUBJECT'' of
                                None \<Rightarrow> ''local-developer'' | Some u \<Rightarrow> u),
            st_dev_tenant = env ''LYTE_DEV_TENANT_ID'',
            st_dev_workspace = env ''LYTE_DEV_WORKSPACE_ID''\<rparr>))"

lemma require_https_Inr:
  "require_https host_ok n v = Inr u \<Longrightarrow>
     \<exists>s p. v = Some s \<and> s \<noteq> [] \<and> url_split host_ok s = Inr p \<and> up_scheme p = ''https'' \<and>
           up_netloc p \<noteq> [] \<and> url_username (up_netloc p) = [] \<and> url_password (up_netloc p) = []"
  by (auto simp: require_https_def res_simps split: option.splits if_splits)

lemma mk_settings_production:
  assumes "mk_settings host_ok s0 = Inr s" "st_environment s = PRODUCTION"
  shows "\<not> st_dev_auth_enabled s \<and> \<not> starts_with ''sqlite'' (url_scheme_of (st_database_url s)) \<and>
     (\<exists>u. require_https host_ok ''OIDC_ISSUER'' (st_oidc_issuer s) = Inr u) \<and>
     (\<exists>u. require_https host_ok ''OIDC_JWKS_URL'' (st_oidc_jwks_url s) = Inr u) \<and>
     (\<exists>a. st_oidc_audience s = Some a \<and> strip a \<noteq> [])"
  using assms
  by (auto simp: mk_settings_def Let_def res_simps strip_def lstrip_def rstrip_def
      split: if_splits option.splits)

lemma mk_settings_dev:
  assumes "mk_settings host_ok s0 = Inr s" "st_dev_auth_enabled s"
  shows "st_environment s \<noteq> PRODUCTION \<and> nonblank_opt (st_dev_tenant s) \<and>
     nonblank_opt (st_dev_workspace s) \<and> (\<exists>t. st_dev_auth_token s = Some t \<and> 32 \<le> length t)"
  using assms
  by (auto simp: mk_settings_def Let_def res_simps split: if_splits option.splits)

text \<open>C32: settings that load with LYTE_ENV production never enable developer authentication, never use a
  SQLite database, and always name an HTTPS issuer and an HTTPS key-set URL without user
  information and a non-blank audience.\<close>

theorem production_fails_closed:
  assumes "settings_from_env host_ok env = Inr s" "st_environment s = PRODUCTION"
  shows "\<not> st_dev_auth_enabled s \<and> \<not> starts_with ''sqlite'' (url_scheme_of (st_database_url s)) \<and>
     (\<exists>i j a p q. st_oidc_issuer s = Some i \<and> st_oidc_jwks_url s = Some j \<and>
        st_oidc_audience s = Some a \<and> strip a \<noteq> [] \<and>
        url_split host_ok i = Inr p \<and> up_scheme p = ''https'' \<and> user_info (up_netloc p) \<in> {None, Some [], Some '':''} \<and>
        url_split host_ok j = Inr q \<and> up_scheme q = ''https'' \<and> user_info (up_netloc q) \<in> {None, Some [], Some '':''})"
proof -
  have info: "user_info n \<in> {None, Some [], Some '':''}" if "url_username n = []" "url_password n = []" for n
  proof (cases "user_info n")
    case (Some i)
    with that(1) have "takeWhile (\<lambda>c. c \<noteq> CHR '':'') i = []" by (simp add: url_username_def)
    then have "dropWhile (\<lambda>c. c \<noteq> CHR '':'') i = i"
      by (metis append_Nil takeWhile_dropWhile_id)
    with that(2) Some have "drop 1 i = []" by (simp add: url_password_def)
    then have "i = [] \<or> (\<exists>c. i = [c])" by (cases i) auto
    with \<open>takeWhile (\<lambda>c. c \<noteq> CHR '':'') i = []\<close> Some show ?thesis by (auto split: if_splits)
  qed simp
  from assms(1) obtain s0 where "mk_settings host_ok s0 = Inr s"
    by (auto simp: settings_from_env_def res_simps Let_def)
  note prod = mk_settings_production [OF this assms(2)]
  then obtain i p where i: "st_oidc_issuer s = Some i" "url_split host_ok i = Inr p" "up_scheme p = ''https''"
      "user_info (up_netloc p) \<in> {None, Some [], Some '':''}"
    using require_https_Inr info by metis
  from prod obtain j q where "st_oidc_jwks_url s = Some j" "url_split host_ok j = Inr q" "up_scheme q = ''https''"
      "user_info (up_netloc q) \<in> {None, Some [], Some '':''}"
    using require_https_Inr info by metis
  with i prod show ?thesis by blast
qed

theorem production_fails_closed_witness:
  "\<exists>env s. settings_from_env (\<lambda>h. False) env = Inr s \<and> st_environment s = PRODUCTION \<and>
     \<not> st_dev_auth_enabled s \<and> \<not> starts_with ''sqlite'' (url_scheme_of (st_database_url s))"
proof -
  define env :: "string \<Rightarrow> string option" where
    "env = map_of [(''LYTE_ENV'', ''prod''), (''DATABASE_URL'', ''postgres://db/x''),
       (''OIDC_ISSUER'', ''https://i''), (''OIDC_AUDIENCE'', ''a''), (''OIDC_JWKS_URL'', ''https://k'')]"
  have "(case settings_from_env (\<lambda>h. False) (map_of [(''LYTE_ENV'', ''prod''), (''DATABASE_URL'', ''postgres://db/x''),
       (''OIDC_ISSUER'', ''https://i''), (''OIDC_AUDIENCE'', ''a''), (''OIDC_JWKS_URL'', ''https://k'')]) of
       Inr s \<Rightarrow> st_environment s = PRODUCTION | _ \<Rightarrow> False)"
    by code_simp
  then have "(case settings_from_env (\<lambda>h. False) env of Inr s \<Rightarrow> st_environment s = PRODUCTION | _ \<Rightarrow> False)"
    by (simp only: env_def)
  then obtain s where s: "settings_from_env (\<lambda>h. False) env = Inr s" "st_environment s = PRODUCTION"
    by (auto split: sum.splits)
  from production_fails_closed [OF s] s show ?thesis by blast
qed

end
