(* ===== verification/Auth.thy ===== *)
theory Auth
  imports Settings
begin

section \<open>Authentication and authorization (lyte/governance/auth.py, lyte/api/dependencies.py)\<close>

text \<open>
  \<open>mk\_principal\<close> is the \<open>Principal\<close> constructor, the two verifiers turn a bearer token into a
  principal, and \<open>authenticated\_scope\<close> is the guard every scoped route goes through.  PyJWT
  is third-party: \<open>decode\<close> is what \<open>jwt.decode\<close> returns for a token under the configured
  keys, issuer and audience (\<open>None\<close> for any exception it raises).  \<open>str\_of\<close> is Python's
  \<open>str\<close> on a decoded claim; \<open>rp\<close> prints lists and dicts.
\<close>

definition rbac_roles :: "string set" where
  "rbac_roles = set [''admin'', ''operator'', ''analyst'', ''viewer'', ''auditor'']"

record principal =
  pr_subject :: string
  pr_tenant :: uuid
  pr_workspaces :: "uuid set"
  pr_roles :: "string set"
  pr_issuer :: string
  pr_method :: string
  pr_claims :: "(string \<times> json) list"

definition mk_principal ::
  "string \<Rightarrow> uuid \<Rightarrow> uuid list \<Rightarrow> string list \<Rightarrow> string \<Rightarrow> string \<Rightarrow> (string \<times> json) list \<Rightarrow>
   principal res" where
  "mk_principal subject tenant workspaces roles issuer method claims =
     (let s = strip subject;
          rs = filter (\<lambda>r. r \<noteq> []) (map strip roles);
          unsupported = filter (\<lambda>r. r \<notin> rbac_roles) rs in
      guard_else (s \<noteq> [] \<and> length s \<le> 256) (AuthenticationError ''verified subject is invalid'')
     (guard_else (workspaces \<noteq> []) (AuthenticationError ''verified principal has no workspace scope'')
     (guard_else (unsupported = [])
        (AuthenticationError (''verified principal contains unsupported role(s): '' @
           join '', '' (sort (dedup unsupported))))
     (Inr \<lparr>pr_subject = s, pr_tenant = tenant, pr_workspaces = set workspaces, pr_roles = set rs,
           pr_issuer = issuer, pr_method = method, pr_claims = claims\<rparr>))))"

lemma mk_principal_fields:
  "mk_principal s t ws rs i m c = Inr p \<Longrightarrow>
     pr_subject p = strip s \<and> pr_subject p \<noteq> [] \<and> length (pr_subject p) \<le> 256 \<and> pr_tenant p = t \<and>
     pr_workspaces p = set ws \<and> ws \<noteq> [] \<and> pr_roles p = {r \<in> strip ` set rs. r \<noteq> []} \<and> pr_roles p \<subseteq> rbac_roles"
  by (auto simp: mk_principal_def Let_def res_simps filter_empty_conv)

subsection \<open>Claims\<close>

fun str_of :: "(json \<Rightarrow> string) \<Rightarrow> json \<Rightarrow> string" where
  "str_of rp (JStr s) = s"
| "str_of rp (JInt i) = show_int i"
| "str_of rp (JBool b) = (if b then ''True'' else ''False'')"
| "str_of rp JNull = ''None''"
| "str_of rp j = rp j"

text \<open>Truth value of a claim.\<close>

fun truthy :: "json \<Rightarrow> bool" where
  "truthy JNull = False"
| "truthy (JBool b) = b"
| "truthy (JInt i) = (i \<noteq> 0)"
| "truthy (JFloat x) = (x \<noteq> Fin 0)"
| "truthy (JStr s) = (s \<noteq> [])"
| "truthy (JList xs) = (xs \<noteq> [])"
| "truthy (JObj kvs) = (kvs \<noteq> [])"

fun jstr_text :: "json \<Rightarrow> string" where
  "jstr_text (JStr s) = s"
| "jstr_text _ = []"

definition claim_strings :: "json \<Rightarrow> string \<Rightarrow> string list res" where
  "claim_strings value claim =
     (case value of
        JStr s \<Rightarrow> Inr [s]
      | JList xs \<Rightarrow> if list_all is_jstr xs then Inr (map jstr_text xs)
                   else Inl (AuthenticationError (''verified '' @ claim @ '' claim has an invalid shape''))
      | _ \<Rightarrow> Inl (AuthenticationError (''verified '' @ claim @ '' claim has an invalid shape'')))"

definition scope_claim_error :: exc where
  "scope_claim_error = AuthenticationError ''verified JWT is missing a valid scope claim''"

text \<open>\<open>except (KeyError, TypeError, ValueError)\<close>: an authentication error passes through.\<close>

definition as_scope_error :: "exc \<Rightarrow> exc" where
  "as_scope_error e =
     (case e of ValueError _ \<Rightarrow> scope_claim_error | KeyError _ \<Rightarrow> scope_claim_error
      | TypeError _ \<Rightarrow> scope_claim_error | _ \<Rightarrow> e)"

definition claim_get :: "(string \<times> json) list \<Rightarrow> string \<Rightarrow> json res" where
  "claim_get claims k = (case alookup claims k of None \<Rightarrow> Inl (KeyError k) | Some v \<Rightarrow> Inr v)"

definition principal_from_claims ::
  "(json \<Rightarrow> string) \<Rightarrow> (string \<times> json) list \<Rightarrow> string \<Rightarrow> string \<Rightarrow> string \<Rightarrow> string \<Rightarrow> string \<Rightarrow>
   principal res" where
  "principal_from_claims rp claims issuer method tenant_claim workspaces_claim roles_claim =
     rbind (map_exc as_scope_error
        (rbind (claim_get claims tenant_claim) (\<lambda>tv.
         rbind (uuid_parse (str_of rp tv)) (\<lambda>tenant.
         rbind (claim_get claims workspaces_claim) (\<lambda>wv.
         rbind (claim_strings wv workspaces_claim) (\<lambda>wss.
         rbind (rmap uuid_parse wss) (\<lambda>workspaces.
         rbind (case alookup claims roles_claim of
                  None \<Rightarrow> Inr []
                | Some rv \<Rightarrow> if truthy rv then claim_strings rv roles_claim else Inr []) (\<lambda>roles.
         rbind (claim_get claims ''sub'') (\<lambda>sub.
           Inr (tenant, workspaces, roles, str_of rp sub))))))))))
       (\<lambda>(tenant, workspaces, roles, subject).
         mk_principal subject tenant workspaces roles issuer method claims)"

subsection \<open>Verifiers\<close>

record oidc =
  oi_issuer :: string
  oi_audience :: string
  oi_jwks_url :: string
  oi_algorithms :: "string list"
  oi_tenant_claim :: string
  oi_workspaces_claim :: string
  oi_roles_claim :: string

definition mk_oidc :: "string \<Rightarrow> string \<Rightarrow> string \<Rightarrow> string list \<Rightarrow> oidc res" where
  "mk_oidc issuer audience jwks algorithms =
     (if issuer = [] \<or> audience = [] \<or> jwks = []
      then Inl (AuthenticationUnavailable ''complete OIDC settings are required'')
      else if algorithms = []
      then Inl (AuthenticationUnavailable ''at least one JWT algorithm is required'')
      else Inr \<lparr>oi_issuer = issuer, oi_audience = audience, oi_jwks_url = jwks,
                oi_algorithms = algorithms, oi_tenant_claim = ''tenant_id'',
                oi_workspaces_claim = ''workspace_ids'', oi_roles_claim = ''roles''\<rparr>)"

type_synonym jwt_decode = "oidc \<Rightarrow> string \<Rightarrow> (string \<times> json) list option"

text \<open>\<open>has\_jwt\<close>: whether PyJWT with cryptographic support can be imported.\<close>

definition oidc_verify ::
  "(json \<Rightarrow> string) \<Rightarrow> bool \<Rightarrow> jwt_decode \<Rightarrow> oidc \<Rightarrow> string \<Rightarrow> principal res" where
  "oidc_verify rp has_jwt decode v token =
     (if \<not> (16 \<le> length token \<and> length token \<le> 16384)
      then Inl (AuthenticationError ''bearer credential is malformed'')
      else if \<not> has_jwt
      then Inl (AuthenticationUnavailable ''PyJWT with cryptographic support is required for OIDC'')
      else case decode v token of
             None \<Rightarrow> Inl (AuthenticationError ''bearer credential verification failed'')
           | Some claims \<Rightarrow> principal_from_claims rp claims (oi_issuer v) ''oidc'' (oi_tenant_claim v)
                              (oi_workspaces_claim v) (oi_roles_claim v))"

definition py_ascii :: "string \<Rightarrow> bool" where
  "py_ascii s = list_all (\<lambda>c. code c < 128) s"

datatype verifier = OIDC oidc | DevToken string principal

definition opt_text :: "string option \<Rightarrow> string" where
  "opt_text s = (case s of None \<Rightarrow> ''None'' | Some t \<Rightarrow> t)"

definition mk_dev_verifier :: "settings \<Rightarrow> verifier res" where
  "mk_dev_verifier s =
     (if st_environment s = PRODUCTION \<or> \<not> st_dev_auth_enabled s
      then Inl (AuthenticationUnavailable ''developer authentication is not enabled'')
      else if \<not> nonblank_opt (st_dev_auth_token s)
      then Inl (AuthenticationUnavailable ''developer token is missing'')
      else rbind (uuid_parse (opt_text (st_dev_tenant s))) (\<lambda>tenant.
           rbind (uuid_parse (opt_text (st_dev_workspace s))) (\<lambda>workspace.
           rbind (mk_principal (st_dev_subject s) tenant [workspace] [''admin'', ''operator'']
                    ''local-explicit-dev-auth'' ''development_token'' []) (\<lambda>p.
             Inr (DevToken (the (st_dev_auth_token s)) p)))))"

text \<open>\<open>hmac.compare\_digest\<close> on two strings raises TypeError unless both are ASCII.\<close>

definition dev_verify :: "string \<Rightarrow> principal \<Rightarrow> string \<Rightarrow> principal res" where
  "dev_verify secret p token =
     (if \<not> (py_ascii token \<and> py_ascii secret)
      then Inl (TypeError ''comparing strings with non-ASCII characters is not supported'')
      else if token = secret then Inr p
      else Inl (AuthenticationError ''bearer credential verification failed''))"

definition verify_token ::
  "(json \<Rightarrow> string) \<Rightarrow> bool \<Rightarrow> jwt_decode \<Rightarrow> verifier \<Rightarrow> string \<Rightarrow> principal res" where
  "verify_token rp has_jwt decode v token =
     (case v of OIDC cfg \<Rightarrow> oidc_verify rp has_jwt decode cfg token
      | DevToken secret p \<Rightarrow> dev_verify secret p token)"

definition service_from_settings :: "settings \<Rightarrow> verifier res" where
  "service_from_settings s =
     (if st_dev_auth_enabled s then mk_dev_verifier s
      else if nonblank_opt (st_oidc_issuer s) \<and> nonblank_opt (st_oidc_audience s) \<and>
              nonblank_opt (st_oidc_jwks_url s)
      then rbind (mk_oidc (the (st_oidc_issuer s)) (the (st_oidc_audience s))
                    (the (st_oidc_jwks_url s)) [''RS256'', ''ES256'']) (\<lambda>o'. Inr (OIDC o'))
      else Inl (AuthenticationUnavailable
             ''no authentication verifier is configured; anonymous access is denied''))"

subsection \<open>Headers and workspace ownership\<close>

definition authenticate_header ::
  "(string \<Rightarrow> principal res) \<Rightarrow> string option \<Rightarrow> principal res" where
  "authenticate_header verify authorization =
     (case authorization of
        None \<Rightarrow> Inl (AuthenticationError ''Bearer authorization is required'')
      | Some a \<Rightarrow>
          (let scheme = takeWhile (\<lambda>c. c \<noteq> CHR '' '') a;
               has_separator = (scheme \<noteq> a);
               token = drop (Suc (length scheme)) a in
           if a = [] \<or> \<not> has_separator \<or> py_lower scheme \<noteq> ''bearer'' \<or> strip token = []
           then Inl (AuthenticationError ''Bearer authorization is required'')
           else verify (strip token)))"

definition authorize_workspace :: "principal \<Rightarrow> scope \<Rightarrow> string set option \<Rightarrow> unit res" where
  "authorize_workspace p s required =
     (if pr_tenant p \<noteq> sc_tenant s
      then Inl (AuthorizationError ''principal does not own the requested tenant'')
      else if sc_workspace s \<notin> pr_workspaces p
      then Inl (AuthorizationError ''principal does not own the requested workspace'')
      else case required of
             None \<Rightarrow> Inr ()
           | Some rs \<Rightarrow> if rs \<noteq> {} \<and> pr_roles p \<inter> rs = {}
                        then Inl (AuthorizationError ''principal lacks the required role'') else Inr ())"

subsection \<open>Route guards (api/dependencies.py)\<close>

definition mutation_roles :: "string set" where
  "mutation_roles = {''operator'', ''admin''}"

definition admin_roles :: "string set" where
  "admin_roles = {''admin''}"

definition parse_scope :: "string option \<Rightarrow> string option \<Rightarrow> scope option res" where
  "parse_scope tenant workspace =
     (if tenant = None \<and> workspace = None then Inr None
      else if \<not> nonblank_opt tenant \<or> \<not> nonblank_opt workspace
      then Inl (HTTPException 400 ''X-Lyte-Tenant-ID and X-Lyte-Workspace-ID must be supplied together'')
      else case (uuid_parse (the tenant), uuid_parse (the workspace)) of
             (Inr t, Inr w) \<Rightarrow> Inr (Some \<lparr>sc_tenant = t, sc_workspace = w\<rparr>)
           | _ \<Rightarrow> Inl (HTTPException 400 ''tenant and workspace identifiers must be UUIDs''))"

text \<open>
  \<open>auth\<close> is \<open>runtime.authentication\<close>: the verifier, if one is configured.  Exceptions that the
  guard does not catch pass through.
\<close>

definition auth_status :: "exc \<Rightarrow> exc" where
  "auth_status e =
     (case e of
        AuthenticationUnavailable _ \<Rightarrow>
          HTTPException 503 ''authentication verifier is unavailable; request denied''
      | AuthenticationError _ \<Rightarrow> HTTPException 401 ''bearer authentication failed''
      | _ \<Rightarrow> e)"

definition owner_status :: "exc \<Rightarrow> exc" where
  "owner_status e =
     (case e of
        AuthorizationError _ \<Rightarrow>
          HTTPException 403 ''the verified principal is not authorized for this scope''
      | _ \<Rightarrow> e)"

definition authenticated_scope ::
  "(string \<Rightarrow> principal res) option \<Rightarrow> string option \<Rightarrow> string option \<Rightarrow> string option \<Rightarrow>
   string set option \<Rightarrow> scope res" where
  "authenticated_scope auth authorization tenant workspace required =
     (case auth of
        None \<Rightarrow> Inl (HTTPException 503 ''authentication is not configured; request denied'')
      | Some verify \<Rightarrow>
          rbind (map_exc auth_status (authenticate_header verify authorization)) (\<lambda>p.
          rbind (parse_scope tenant workspace) (\<lambda>so.
            case so of
              None \<Rightarrow> Inl (HTTPException 400 ''an explicit tenant and workspace scope is required'')
            | Some s \<Rightarrow>
                rbind (map_exc owner_status (authorize_workspace p s required)) (\<lambda>_. Inr s))))"

definition get_read_scope ::
  "bool \<Rightarrow> scope \<Rightarrow> (string \<Rightarrow> principal res) option \<Rightarrow> string option \<Rightarrow> string option \<Rightarrow>
   string option \<Rightarrow> scope res" where
  "get_read_scope demo_mode demo_scope auth authorization tenant workspace =
     (if demo_mode \<and> authorization = None \<and> tenant = None \<and> workspace = None then Inr demo_scope
      else authenticated_scope auth authorization tenant workspace None)"

definition get_mutation_scope ::
  "(string \<Rightarrow> principal res) option \<Rightarrow> string option \<Rightarrow> string option \<Rightarrow> string option \<Rightarrow> scope res" where
  "get_mutation_scope auth authorization tenant workspace =
     authenticated_scope auth authorization tenant workspace (Some mutation_roles)"

definition get_admin_scope ::
  "(string \<Rightarrow> principal res) option \<Rightarrow> string option \<Rightarrow> string option \<Rightarrow> string option \<Rightarrow> scope res" where
  "get_admin_scope auth authorization tenant workspace =
     authenticated_scope auth authorization tenant workspace (Some admin_roles)"

subsection \<open>Correctness\<close>

lemma authorize_workspace_Inr_iff:
  "authorize_workspace p s required = Inr () \<longleftrightarrow>
     pr_tenant p = sc_tenant s \<and> sc_workspace s \<in> pr_workspaces p \<and>
     (\<forall>rs. required = Some rs \<longrightarrow> rs = {} \<or> pr_roles p \<inter> rs \<noteq> {})"
  by (auto simp: authorize_workspace_def split: option.splits)

lemma authenticate_header_Inr:
  assumes "authenticate_header verify authorization = Inr p"
  shows "\<exists>scheme rest. authorization = Some (scheme @ '' '' @ rest) \<and> py_lower scheme = ''bearer'' \<and>
           strip rest \<noteq> [] \<and> verify (strip rest) = Inr p"
proof -
  from assms obtain a where a: "authorization = Some a"
    by (auto simp: authenticate_header_def split: option.splits)
  let ?s = "takeWhile (\<lambda>c. c \<noteq> CHR '' '') a"
  from assms a have p: "?s \<noteq> a" "py_lower ?s = ''bearer''" "strip (drop (Suc (length ?s)) a) \<noteq> []"
      "verify (strip (drop (Suc (length ?s)) a)) = Inr p"
    by (auto simp: authenticate_header_def Let_def split: if_splits)
  have lt: "length ?s < length a"
    using p(1) by (metis length_takeWhile_le less_le takeWhile_eq_take take_all_iff order_refl)
  then have "a = ?s @ a ! length ?s # drop (Suc (length ?s)) a"
    by (metis id_take_nth_drop takeWhile_eq_take)
  moreover have "a ! length ?s = CHR '' ''"
    using lt nth_length_takeWhile [OF lt] by simp
  ultimately have "a = ?s @ '' '' @ drop (Suc (length ?s)) a" by simp
  with a p show ?thesis by blast
qed

lemma authenticated_scope_Inr:
  assumes "authenticated_scope auth authorization tenant workspace required = Inr s"
  shows "\<exists>verify p t w. auth = Some verify \<and> authenticate_header verify authorization = Inr p \<and>
     tenant = Some t \<and> workspace = Some w \<and> uuid_parse t = Inr (sc_tenant s) \<and>
     uuid_parse w = Inr (sc_workspace s) \<and> authorize_workspace p s required = Inr ()"
proof -
  from assms obtain verify p where v: "auth = Some verify" "authenticate_header verify authorization = Inr p"
    and ps: "parse_scope tenant workspace = Inr (Some s)" and ok: "authorize_workspace p s required = Inr ()"
    by (auto simp: authenticated_scope_def res_simps split: option.splits)
  from ps obtain t w where "tenant = Some t" "workspace = Some w" "uuid_parse t = Inr (sc_tenant s)"
      "uuid_parse w = Inr (sc_workspace s)"
    by (auto simp: parse_scope_def nonblank_opt_def split: if_splits sum.splits)
  with v ok show ?thesis by blast
qed

text \<open>C10: a mutating route obtains a scope only from a configured verifier that accepted the bearer token
  of the Authorization header; the scope is the one the two headers name, it belongs to the verified
  principal's tenant and workspaces, and the principal holds the operator or the admin role.\<close>

theorem mutation_requires_authority:
  assumes "get_mutation_scope auth authorization tenant workspace = Inr s"
  shows "\<exists>verify p scheme rest t w.
     auth = Some verify \<and> authorization = Some (scheme @ '' '' @ rest) \<and> py_lower scheme = ''bearer'' \<and>
     verify (strip rest) = Inr p \<and> tenant = Some t \<and> workspace = Some w \<and>
     uuid_parse t = Inr (sc_tenant s) \<and> uuid_parse w = Inr (sc_workspace s) \<and>
     pr_tenant p = sc_tenant s \<and> sc_workspace s \<in> pr_workspaces p \<and>
     (''operator'' \<in> pr_roles p \<or> ''admin'' \<in> pr_roles p)"
proof -
  from assms have "authenticated_scope auth authorization tenant workspace (Some mutation_roles) = Inr s"
    by (simp add: get_mutation_scope_def)
  from authenticated_scope_Inr [OF this] obtain verify p t w where
    v: "auth = Some verify" "authenticate_header verify authorization = Inr p"
    and h: "tenant = Some t" "workspace = Some w" "uuid_parse t = Inr (sc_tenant s)"
      "uuid_parse w = Inr (sc_workspace s)"
    and ok: "authorize_workspace p s (Some mutation_roles) = Inr ()"
    by blast
  from ok have "pr_tenant p = sc_tenant s" "sc_workspace s \<in> pr_workspaces p"
      "''operator'' \<in> pr_roles p \<or> ''admin'' \<in> pr_roles p"
    by (auto simp: authorize_workspace_Inr_iff mutation_roles_def)
  with v h authenticate_header_Inr [OF v(2)] show ?thesis by blast
qed

text \<open>Without credentials the only readable scope is the fixed demo scope, and only in demo mode; a
  read with any credential or scope header is authenticated like every other request.\<close>

theorem anonymous_read_is_demo_only:
  assumes "get_read_scope demo_mode demo_scope auth authorization tenant workspace = Inr s"
  shows "(demo_mode \<and> s = demo_scope \<and> authorization = None \<and> tenant = None \<and> workspace = None) \<or>
     (\<exists>verify p. auth = Some verify \<and> authenticate_header verify authorization = Inr p \<and>
        pr_tenant p = sc_tenant s \<and> sc_workspace s \<in> pr_workspaces p)"
  using assms
  by (auto simp: get_read_scope_def authorize_workspace_Inr_iff dest!: authenticated_scope_Inr
      split: if_splits)

lemma claims_scope:
  assumes "principal_from_claims rp claims issuer method tc wc rc = Inr p"
  shows "\<exists>tv wv wss. alookup claims tc = Some tv \<and> uuid_parse (str_of rp tv) = Inr (pr_tenant p) \<and>
     alookup claims wc = Some wv \<and> claim_strings wv wc = Inr wss \<and>
     (\<forall>w \<in> pr_workspaces p. \<exists>x \<in> set wss. uuid_parse x = Inr w) \<and> pr_roles p \<subseteq> rbac_roles"
proof -
  from assms obtain tv wv wss ws sub roles where
    c: "alookup claims tc = Some tv" "uuid_parse (str_of rp tv) = Inr (pr_tenant p)"
       "alookup claims wc = Some wv" "claim_strings wv wc = Inr wss" "rmap uuid_parse wss = Inr ws"
    and p: "pr_workspaces p = set ws" "pr_roles p \<subseteq> rbac_roles"
    by (auto simp: principal_from_claims_def res_simps claim_get_def
        dest!: mk_principal_fields split: option.splits)
  have "\<forall>w \<in> set ws. \<exists>x \<in> set wss. uuid_parse x = Inr w"
    using c(5) unfolding rmap_Inr_all2 list_all2_conv_all_nth
    by (metis in_set_conv_nth)
  with c p show ?thesis by blast
qed

text \<open>a principal verified by OIDC owns exactly the tenant its token names and no workspace its token
  does not list, and holds only roles of the RBAC catalogue.\<close>

theorem oidc_principal_from_token:
  assumes "oidc_verify rp has_jwt decode v token = Inr p"
  shows "has_jwt \<and> 16 \<le> length token \<and> length token \<le> 16384 \<and>
    (\<exists>claims tv wv wss. decode v token = Some claims \<and>
       alookup claims (oi_tenant_claim v) = Some tv \<and> uuid_parse (str_of rp tv) = Inr (pr_tenant p) \<and>
       alookup claims (oi_workspaces_claim v) = Some wv \<and>
       claim_strings wv (oi_workspaces_claim v) = Inr wss \<and>
       (\<forall>w \<in> pr_workspaces p. \<exists>x \<in> set wss. uuid_parse x = Inr w)) \<and>
    pr_roles p \<subseteq> rbac_roles"
  using assms
  by (auto simp: oidc_verify_def dest!: claims_scope split: if_splits option.splits)

subsection \<open>Examples\<close>

definition example_principal :: principal where
  "example_principal = \<lparr>pr_subject = ''u'', pr_tenant = 1, pr_workspaces = set [2],
     pr_roles = set [''admin''], pr_issuer = ''i'', pr_method = ''oidc'', pr_claims = []\<rparr>"

definition accept_all :: "string \<Rightarrow> principal res" where
  "accept_all token = Inr example_principal"

definition uuid_one :: string where "uuid_one = ''00000000-0000-0000-0000-000000000001''"
definition uuid_two :: string where "uuid_two = ''00000000-0000-0000-0000-000000000002''"

lemma parse_uuid_one: "uuid_parse uuid_one = Inr 1"
  by code_simp

lemma parse_uuid_two: "uuid_parse uuid_two = Inr 2"
  by code_simp

lemma bearer_example: "authenticate_header v (Some ''Bearer k'') = v ''k''"
proof -
  have "py_lower ''Bearer'' = ''bearer''" "strip ''k'' = ''k''" by code_simp+
  then show ?thesis by (simp add: authenticate_header_def)
qed

lemma scope_example:
  "parse_scope (Some uuid_one) (Some uuid_two) = Inr (Some \<lparr>sc_tenant = 1, sc_workspace = 2\<rparr>)"
  by (simp add: parse_scope_def parse_uuid_one parse_uuid_two) (simp add: nonblank_opt_def uuid_one_def uuid_two_def)

lemma guard_example:
  "required = None \<or> required = Some mutation_roles \<Longrightarrow>
   authenticated_scope (Some accept_all) (Some ''Bearer k'') (Some uuid_one)
     (Some uuid_two) required = Inr \<lparr>sc_tenant = 1, sc_workspace = 2\<rparr>"
  by (auto simp: authenticated_scope_def bearer_example scope_example authorize_workspace_def
      accept_all_def example_principal_def mutation_roles_def)

theorem mutation_requires_authority_witness:
  "\<exists>verify p scheme rest t w.
     Some accept_all = Some verify \<and> Some ''Bearer k'' = Some (scheme @ '' '' @ rest) \<and>
     py_lower scheme = ''bearer'' \<and> verify (strip rest) = Inr p \<and> Some uuid_one = Some t \<and>
     Some uuid_two = Some w \<and> uuid_parse t = Inr 1 \<and> uuid_parse w = Inr 2 \<and>
     pr_tenant p = 1 \<and> 2 \<in> pr_workspaces p \<and> (''operator'' \<in> pr_roles p \<or> ''admin'' \<in> pr_roles p)"
proof -
  have "get_mutation_scope (Some accept_all) (Some ''Bearer k'') (Some uuid_one)
      (Some uuid_two) = Inr \<lparr>sc_tenant = 1, sc_workspace = 2\<rparr>"
    by (simp add: get_mutation_scope_def guard_example)
  from mutation_requires_authority [OF this] show ?thesis
    by (simp only: scope.simps)
qed

theorem anonymous_read_is_demo_only_witness:
  "\<exists>verify p. Some accept_all = Some verify \<and>
     authenticate_header verify (Some ''Bearer k'') = Inr p \<and> pr_tenant p = 1 \<and> 2 \<in> pr_workspaces p"
proof -
  have "get_read_scope True \<lparr>sc_tenant = 7, sc_workspace = 8\<rparr> (Some accept_all)
      (Some ''Bearer k'') (Some uuid_one) (Some uuid_two) = Inr \<lparr>sc_tenant = 1, sc_workspace = 2\<rparr>"
    by (simp add: get_read_scope_def guard_example)
  from anonymous_read_is_demo_only [OF this] show ?thesis by simp
qed

definition example_oidc :: oidc where
  "example_oidc = \<lparr>oi_issuer = ''i'', oi_audience = ''a'', oi_jwks_url = ''k'', oi_algorithms = [''RS256''],
     oi_tenant_claim = ''tenant_id'', oi_workspaces_claim = ''workspace_ids'', oi_roles_claim = ''roles''\<rparr>"

definition example_claims :: "(string \<times> json) list" where
  "example_claims = [(''sub'', JStr ''u''), (''tenant_id'', JStr uuid_one),
     (''workspace_ids'', JList [JStr uuid_two]), (''roles'', JStr ''viewer'')]"

theorem oidc_principal_from_token_witness:
  "\<exists>p. oidc_verify (\<lambda>j. []) True (\<lambda>v t. Some example_claims) example_oidc ''0123456789abcdef'' = Inr p \<and>
     pr_roles p \<subseteq> rbac_roles \<and>
     (\<exists>claims tv wv wss. Some example_claims = Some claims \<and>
       alookup claims (oi_tenant_claim example_oidc) = Some tv \<and>
       uuid_parse (str_of (\<lambda>j. []) tv) = Inr (pr_tenant p) \<and>
       alookup claims (oi_workspaces_claim example_oidc) = Some wv \<and>
       claim_strings wv (oi_workspaces_claim example_oidc) = Inr wss \<and>
       (\<forall>w \<in> pr_workspaces p. \<exists>x \<in> set wss. uuid_parse x = Inr w))"
proof -
  have s: "strip ''u'' = ''u''" "strip ''viewer'' = ''viewer''" by code_simp+
  have r: "''viewer'' \<in> rbac_roles" by (simp add: rbac_roles_def)
  have "\<exists>p. oidc_verify (\<lambda>j. []) True (\<lambda>v t. Some example_claims) example_oidc ''0123456789abcdef'' = Inr p"
    by (simp add: oidc_verify_def principal_from_claims_def example_claims_def example_oidc_def claim_get_def
        claim_strings_def parse_uuid_one parse_uuid_two mk_principal_def s r Let_def)
  then obtain p where p: "oidc_verify (\<lambda>j. []) True (\<lambda>v t. Some example_claims) example_oidc
      ''0123456789abcdef'' = Inr p" ..
  from oidc_principal_from_token [OF p] p show ?thesis by blast
qed

end
