(* ===== verification/Hatun.thy ===== *)
theory Hatun
  imports Contracts
begin

section \<open>The Hatun review gate (lyte/governance/hatun.py)\<close>

text \<open>
  A request is normalised by its constructor and judged by \<open>evaluate_hatun\<close>, which returns
  one of the decisions REVIEW, ABSTAIN and DENY, and never the permission to execute.
\<close>

datatype hatun_decision = REVIEW | ABSTAIN | DENY

record hatun_request =
  hq_action :: string
  hq_labels :: "truth_label list"
  hq_missing :: "string list"
  hq_violations :: "string list"
  hq_execute :: bool
  hq_reversible :: bool
  hq_risk :: string

text \<open>The risk levels, in a list so that membership computes.\<close>

definition risk_levels :: "string list" where
  "risk_levels = [''low'', ''medium'', ''high'', ''critical'']"

definition mk_hatun_request :: "hatun_request \<Rightarrow> hatun_request res" where
  "mk_hatun_request q =
     (let action = py_lower (strip (hq_action q)); risk = py_lower (strip (hq_risk q)) in
      guard_else (action \<noteq> [] \<and> length action \<le> 128)
        (ValueError ''action_type must contain 1-128 characters'')
     (guard_else (risk \<in> set risk_levels)
        (ValueError ''risk must be low, medium, high, or critical'')
     (Inr (q\<lparr>hq_action := action, hq_risk := risk,
             hq_missing := clean_refs (hq_missing q),
             hq_violations := clean_refs (hq_violations q)\<rparr>))))"

record hatun_review =
  hr_decision :: hatun_decision
  hr_reasons :: "string list"
  hr_label :: truth_label
  hr_can_execute :: bool
  hr_human :: bool

definition mk_hatun_review ::
  "hatun_decision \<Rightarrow> string list \<Rightarrow> truth_label \<Rightarrow> bool \<Rightarrow> bool \<Rightarrow> hatun_review res" where
  "mk_hatun_review d reasons label can_execute human =
     guard_else (\<not> can_execute) (ValueError ''Hatun cannot execute actions'')
    (guard_else (reasons \<noteq> []) (ValueError ''Hatun reviews require at least one reason'')
    (Inr \<lparr>hr_decision = d, hr_reasons = reasons, hr_label = label,
          hr_can_execute = can_execute, hr_human = human\<rparr>))"

fun decision_value :: "hatun_decision \<Rightarrow> string" where
  "decision_value REVIEW = ''REVIEW''"
| "decision_value ABSTAIN = ''ABSTAIN''"
| "decision_value DENY = ''DENY''"

definition hatun_to_dict :: "hatun_review \<Rightarrow> json" where
  "hatun_to_dict r =
     JObj [(''decision'', JStr (decision_value (hr_decision r))),
           (''reasons'', jstrs (hr_reasons r)),
           (''truth_label'', JStr (label_value (hr_label r))),
           (''can_execute'', JBool False),
           (''human_decision_required'', JBool (hr_human r))]"

definition deny_reasons :: "hatun_request \<Rightarrow> string list" where
  "deny_reasons q =
     (if hq_execute q then [''production effectors are disabled in this release''] else []) @
     (if \<not> hq_reversible q then [''irreversible actions are outside the review boundary''] else []) @
     map (\<lambda>v. ''policy violation: '' @ v) (hq_violations q) @
     (if hq_risk q = ''critical''
      then [''critical-risk actions require a separate protected release''] else [])"

text \<open>\<open>sorted({label.value for label in labels if label in unavailable})\<close>\<close>

definition unusable_labels :: "truth_label list \<Rightarrow> string list" where
  "unusable_labels ls =
     sort (dedup (map label_value (filter (\<lambda>l. l = UNAVAILABLE \<or> l = ROADMAP) ls)))"

definition abstain_reasons :: "hatun_request \<Rightarrow> string list" where
  "abstain_reasons q =
     map (\<lambda>n. ''missing evidence: '' @ n) (hq_missing q) @
     (if hq_labels q = [] then [''no evidence was supplied''] else []) @
     (if unusable_labels (hq_labels q) \<noteq> []
      then [''evidence is not production-observed: '' @ join '', '' (unusable_labels (hq_labels q))]
      else [])"

definition review_reasons :: "hatun_request \<Rightarrow> string list" where
  "review_reasons q =
     [''evidence is sufficient for human review'',
      ''correlation and modeled scores do not establish causality''] @
     (if SAMPLE \<in> set (hq_labels q)
      then [''sample evidence is demonstration-only and cannot support production action'']
      else [])"

definition evaluate_hatun :: "hatun_request \<Rightarrow> hatun_review res" where
  "evaluate_hatun q =
     (if deny_reasons q \<noteq> [] then mk_hatun_review DENY (deny_reasons q) MODELED False True
      else if abstain_reasons q \<noteq> []
           then mk_hatun_review ABSTAIN (abstain_reasons q) MODELED False True
      else mk_hatun_review REVIEW (review_reasons q)
             (if SAMPLE \<in> set (hq_labels q) then SAMPLE else MODELED) False True)"

definition hatun_labels :: "string list \<Rightarrow> truth_label list res" where
  "hatun_labels vs = rmap label_of vs"

subsection \<open>Lemmas\<close>

lemma unusable_labels_Nil:
  "unusable_labels ls = [] \<longleftrightarrow> UNAVAILABLE \<notin> set ls \<and> ROADMAP \<notin> set ls"
proof -
  have "unusable_labels ls = [] \<longleftrightarrow> set (unusable_labels ls) = {}"
    by (metis empty_set set_empty)
  also have "set (unusable_labels ls) = label_value ` set (filter (\<lambda>l. l = UNAVAILABLE \<or> l = ROADMAP) ls)"
    by (simp add: unusable_labels_def)
  finally show ?thesis by auto
qed

lemma deny_reasons_Nil:
  "deny_reasons q = [] \<longleftrightarrow>
     \<not> hq_execute q \<and> hq_reversible q \<and> hq_violations q = [] \<and> hq_risk q \<noteq> ''critical''"
  unfolding deny_reasons_def by (simp add: append_eq_conv_conj)

lemma abstain_reasons_Nil:
  "abstain_reasons q = [] \<longleftrightarrow>
     hq_missing q = [] \<and> hq_labels q \<noteq> [] \<and>
     UNAVAILABLE \<notin> set (hq_labels q) \<and> ROADMAP \<notin> set (hq_labels q)"
  unfolding abstain_reasons_def using unusable_labels_Nil [of "hq_labels q"] by simp

subsection \<open>Properties\<close>

text \<open>C33: \<open>evaluate_hatun\<close> never raises, and its decision is exactly the documented table:
  DENY if the request asks for execution, is irreversible, violates a policy or is of critical
  risk; otherwise ABSTAIN if evidence is missing, absent, or labelled UNAVAILABLE or ROADMAP;
  otherwise REVIEW.  Whatever the request, the review cannot execute, requires a human
  decision, has a reason, carries the SAMPLE label exactly when it is a REVIEW resting on sample
  evidence, and its serialised form says \<open>can_execute: False\<close>.\<close>

theorem evaluate_hatun_table:
  "\<exists>r. evaluate_hatun q = Inr r \<and>
       \<not> hr_can_execute r \<and> hr_human r \<and> hr_reasons r \<noteq> [] \<and>
       jget (hatun_to_dict r) ''can_execute'' = Some (JBool False) \<and>
       hr_decision r =
         (if \<not> hq_execute q \<and> hq_reversible q \<and> hq_violations q = [] \<and> hq_risk q \<noteq> ''critical''
          then if hq_missing q = [] \<and> hq_labels q \<noteq> [] \<and>
                  UNAVAILABLE \<notin> set (hq_labels q) \<and> ROADMAP \<notin> set (hq_labels q)
               then REVIEW else ABSTAIN
          else DENY) \<and>
       hr_label r = (if hr_decision r = REVIEW \<and> SAMPLE \<in> set (hq_labels q) then SAMPLE else MODELED)"
proof -
  have rne: "review_reasons q \<noteq> []" by (simp add: review_reasons_def)
  show ?thesis
    using deny_reasons_Nil [of q] abstain_reasons_Nil [of q] rne
    unfolding evaluate_hatun_def mk_hatun_review_def hatun_to_dict_def by auto
qed

text \<open>Whatever a caller writes in a request that asks for execution or cites a policy
  violation with any visible character, a successfully constructed request is denied: the
  normalisation of the constructor (stripping, lower-casing, dropping blank and repeated
  entries) cannot turn a denial into a review.  In particular the risk is compared after
  normalisation, so \<open>" Critical "\<close> is denied.\<close>

theorem hatun_normalisation_keeps_denial:
  assumes "mk_hatun_request raw = Inr q"
    and "hq_execute raw \<or> \<not> hq_reversible raw \<or> py_lower (strip (hq_risk raw)) = ''critical'' \<or>
         (\<exists>v \<in> set (hq_violations raw). strip v \<noteq> [])"
  shows "\<exists>r. evaluate_hatun q = Inr r \<and> hr_decision r = DENY"
proof -
  have q: "q = raw\<lparr>hq_action := py_lower (strip (hq_action raw)),
                   hq_risk := py_lower (strip (hq_risk raw)),
                   hq_missing := clean_refs (hq_missing raw),
                   hq_violations := clean_refs (hq_violations raw)\<rparr>"
    using assms(1) by (simp add: mk_hatun_request_def Let_def guard_else_Inr_iff)
  have "clean_refs (hq_violations raw) \<noteq> []" if "v \<in> set (hq_violations raw)" "strip v \<noteq> []" for v
    using that by (auto simp: clean_refs_def filter_empty_conv)
  then have "deny_reasons q \<noteq> []"
    using assms(2) unfolding deny_reasons_Nil q by auto
  then show ?thesis by (simp add: evaluate_hatun_def mk_hatun_review_def)
qed

definition example_request :: hatun_request where
  "example_request = \<lparr>hq_action = ''Restart'', hq_labels = [MEASURED], hq_missing = [],
     hq_violations = [], hq_execute = False, hq_reversible = True, hq_risk = '' Critical ''\<rparr>"

theorem hatun_normalisation_keeps_denial_witness:
  "\<exists>q r. mk_hatun_request example_request = Inr q \<and> evaluate_hatun q = Inr r \<and> hr_decision r = DENY"
proof -
  have ok: "mk_hatun_request example_request =
    Inr (example_request\<lparr>hq_action := ''restart'', hq_risk := ''critical''\<rparr>)"
    by code_simp
  have "py_lower (strip (hq_risk example_request)) = ''critical''" by code_simp
  with hatun_normalisation_keeps_denial [OF ok] ok show ?thesis by blast
qed

end
