(* ===== verification/Factory.thy ===== *)
theory Factory
  imports Contracts
begin

section \<open>The decision cell compiler (a11oy\_factory)\<close>

text \<open>
  The catalogue of cells (cells.py), the fail-closed compiler with its self-hashing receipt
  (compiler.py) and the job catalogue (jobs.py).  The arguments \<open>ts\<close> and \<open>rid\<close> of
  \<open>compile_cell\<close> are the clock reading and the fresh UUID, and \<open>hx\<close> is SHA-256 in
  hexadecimal.
\<close>

subsection \<open>Cells (cells.py)\<close>

record cell =
  ce_id :: string
  ce_title :: string
  ce_organ :: string
  ce_honesty :: string
  ce_admitted :: bool
  ce_bind :: string
  ce_note :: string
  ce_job :: string
  ce_cite :: string
  ce_szl :: string

definition lyte_cell :: cell where
  "lyte_cell =
     \<lparr>ce_id = ''lyte'', ce_title = ''Lyte'', ce_organ = ''heart'', ce_honesty = ''STRUCTURAL-ONLY'',
      ce_admitted = True, ce_bind = ''BIND_AS_A11OY_PACKAGE'',
      ce_note = ''The one admitted cell. Schema-checked bind into a11oy. Not a flagship.'',
      ce_job = ''design-partner cell'', ce_cite = ''Owner-admitted. Not a flagship.'',
      ce_szl = ''Schema-checked bind into a11oy. Formulas never grant authority.''\<rparr>"

definition frontier :: "nat \<Rightarrow> string \<Rightarrow> string \<Rightarrow> string \<Rightarrow> string \<Rightarrow> string \<Rightarrow> cell" where
  "frontier n title organ job cite szl =
     \<lparr>ce_id = ''N'' @ show_nat n, ce_title = title, ce_organ = organ, ce_honesty = ''ROADMAP'',
      ce_admitted = False, ce_bind = ''BIND_AS_A11OY_PACKAGE'',
      ce_note = title @ ''. Cite '' @ cite @ ''. SZL takes the job: '' @ szl @
                '' Compiler refuses admission until doctrine names it LIVE.'',
      ce_job = job, ce_cite = cite, ce_szl = szl\<rparr>"

definition frontiers :: "cell list" where
  "frontiers = [
   frontier 1 ''Serve'' ''brain'' ''inference serving''
     ''vLLM (production default, PagedAttention, continuous batching, OpenAI /v1); SGLang (RadixAttention prefix reuse, agentic/structured); Ollama (local DX wrapping llama.cpp)''
     ''receipted fail-closed serving with schema outside the weights. Not a vLLM/SGLang/Ollama rehost.'',
   frontier 2 ''Graph'' ''nervous'' ''agent orchestration''
     ''LangGraph (stateful cyclic multi-agent, durable execution, checkpointing, human-in-the-loop interrupt())''
     ''doctrine-bound graph with SENTRA on every edge. Not a LangGraph rehost.'',
   frontier 3 ''Guard'' ''immune'' ''input/output safeguard''
     ''Llama Guard (prompt and response classification, risk taxonomy; Llama-Guard-4 multimodal)''
     ''SENTRA tripwires plus WILLAY conscience. Not a Llama Guard rehost.'',
   frontier 4 ''Mosaic'' ''circulatory'' ''data mosaic''
     ''MosaicML / Databricks Mosaic AI (train, customize, and deploy on own data, lakehouse)''
     ''receipted mosaic with UNSIGNED-honest lineage. Not a Databricks rehost.'',
   frontier 5 ''Lattice'' ''immune'' ''defense overlay''
     ''immune-lattice COP (SENTRA/YAWAR). Hub vertical may be LIVE; this frontier bind is not.''
     ''defense overlay on every cell. Hunt, isolate, deceive. Never strike people. Bind stays ROADMAP.'',
   frontier 6 ''Cover'' ''heart'' ''P&C insurance core''
     ''Guidewire (policy, billing, claims; 570+ insurers)''
     ''allodial/counsel bind. Formulas never grant authority. Not a Guidewire rehost.'',
   frontier 7 ''Quant'' ''brain'' ''algorithmic research and backtest''
     ''QuantConnect LEAN (research, backtest, live trade on many venues)''
     ''receipted backtest. Actuation SIMULATED. Not a broker. Not a LEAN rehost.'',
   frontier 8 ''Title'' ''skeleton'' ''property records''
     ''Zillow (residential listings and records). szl-real-estate is a LIVE Hub vertical; this frontier bind is not.''
     ''receipted title/underwrite bind. Not a Zillow rehost. Bind stays ROADMAP.'']"

definition all_cells :: "cell list" where
  "all_cells = lyte_cell # frontiers"

text \<open>The dict \<open>CELLS\<close> and the set \<open>ADMITTED\<close>.\<close>

definition cells :: "(string \<times> cell) list" where
  "cells = map (\<lambda>c. (ce_id c, c)) all_cells"

definition admitted :: "string list" where
  "admitted = map ce_id (filter ce_admitted (map snd cells))"

subsection \<open>Receipts (compiler.py)\<close>

definition genesis :: string where
  "genesis = replicate 64 (CHR ''0'')"

definition factory_sha256 :: "(string \<Rightarrow> string) \<Rightarrow> (string \<times> json) list \<Rightarrow> string res" where
  "factory_sha256 hx payload = rbind (dumps_ascii (JObj payload)) (\<lambda>s. Inr (hx s))"

definition receipt_fields :: "string list" where
  "receipt_fields =
     [''id'', ''ts'', ''organ'', ''action'', ''decision'', ''honesty_tier'', ''lambda_status'',
      ''energy'', ''signer'', ''cell'', ''bind'', ''prev_hash'', ''hash'', ''doctrine'', ''lock'',
      ''flagship'', ''note'', ''signal_digest'']"

definition receipt_body :: "(string \<times> json) list \<Rightarrow> (string \<times> json) list" where
  "receipt_body r = filter (\<lambda>kv. fst kv \<noteq> ''hash'') r"

text \<open>A receipt read back is a dict with distinct keys.\<close>

definition verify_receipt :: "(string \<Rightarrow> string) \<Rightarrow> (string \<times> json) list \<Rightarrow> bool res" where
  "verify_receipt hx r =
     (if set (map fst r) \<noteq> set receipt_fields then Inr False
      else rbind (factory_sha256 hx (receipt_body r)) (\<lambda>d.
             Inr (alookup r ''hash'' = Some (JStr d))))"

definition lookup_cell :: "string \<Rightarrow> cell option" where
  "lookup_cell key =
     (case alookup cells key of Some c \<Rightarrow> Some c
      | None \<Rightarrow> (case alookup cells (py_lower key) of Some c \<Rightarrow> Some c
                | None \<Rightarrow> alookup cells (py_upper key)))"

text \<open>Decision, honesty tier, note, bind, organ and cell identifier of a compilation.\<close>

definition judge :: "string \<Rightarrow> string \<times> string \<times> string \<times> string \<times> string \<times> string" where
  "judge key =
     (case lookup_cell key of
        None \<Rightarrow> (''BLOCKED'', ''UNAVAILABLE'', ''Unknown cell. Fail closed.'', ''UNBOUND'', ''skeleton'',
                 if key = [] then ''<empty>'' else key)
      | Some c \<Rightarrow> (if ce_admitted c then ''ALLOW'' else ''BLOCKED'', ce_honesty c, ce_note c,
                   ce_bind c, ce_organ c, ce_id c))"

definition compile_body ::
  "string \<Rightarrow> string \<Rightarrow> string \<Rightarrow> string \<Rightarrow> string \<Rightarrow> (string \<times> json) list" where
  "compile_body key prev ts rid signal_digest =
     (let (decision, honesty, note, bind, organ, cid) = judge key in
      [(''id'', JStr rid), (''ts'', JStr ts), (''organ'', JStr organ), (''action'', JStr ''compile''),
       (''decision'', JStr decision), (''honesty_tier'', JStr honesty),
       (''lambda_status'', JStr ''Conjecture 1''), (''energy'', JNull),
       (''signer'', JStr ''UNSIGNED-honest''), (''cell'', JStr cid), (''bind'', JStr bind),
       (''prev_hash'', JStr prev), (''doctrine'', JStr ''v11''), (''lock'', JStr ''749/14/163''),
       (''flagship'', JStr ''a11oy''), (''note'', JStr note),
       (''signal_digest'', JStr signal_digest)])"

definition compile_cell ::
  "(string \<Rightarrow> string) \<Rightarrow> string \<Rightarrow> string \<Rightarrow> string \<Rightarrow> string \<Rightarrow> uuid \<Rightarrow> (string \<times> json) list res" where
  "compile_cell hx cell_id prev_hash signal ts rid =
     (let key = strip cell_id;
          prev = (if length prev_hash = 64 then prev_hash else genesis);
          (_, _, _, _, _, cid) = judge key in
      rbind (factory_sha256 hx [(''signal'', JStr signal), (''cell'', JStr cid)]) (\<lambda>sd.
        let body = compile_body key prev ts (uuid_str rid) sd in
        rbind (factory_sha256 hx body) (\<lambda>digest.
          Inr (take 12 body @ (''hash'', JStr digest) # drop 12 body))))"

subsection \<open>Jobs (jobs.py)\<close>

record job =
  jb_id :: string
  jb_title :: string
  jb_leader :: string
  jb_url :: string
  jb_organ :: string
  jb_cell :: string
  jb_honesty :: string
  jb_admitted :: bool
  jb_take :: string
  jb_refuse :: string

definition jobs :: "job list" where
  "jobs = [
   \<lparr>jb_id = ''lyte'', jb_title = ''Lyte design-partner cell'', jb_leader = ''SZL owner order'',
     jb_url = ''https://github.com/szl-holdings/a11oy-factory'',
     jb_organ = ''heart'', jb_cell = ''lyte'', jb_honesty = ''STRUCTURAL-ONLY'', jb_admitted = True,
     jb_take = ''BIND_AS_A11OY_PACKAGE. Schema-checked bind into a11oy.'',
     jb_refuse = ''Not a second flagship. Formulas never grant authority.''\<rparr>,
   \<lparr>jb_id = ''vllm'', jb_title = ''Production LLM serving'', jb_leader = ''vLLM'',
     jb_url = ''https://github.com/vllm-project/vllm'',
     jb_organ = ''brain'', jb_cell = ''N1'', jb_honesty = ''ROADMAP'', jb_admitted = False,
     jb_take = ''Receipted fail-closed serving. Schema outside the weights. OpenAI-shaped /v1.'',
     jb_refuse = ''Do not rehost vLLM, PagedAttention, or their kernels.''\<rparr>,
   \<lparr>jb_id = ''sglang'', jb_title = ''Agentic / structured serving'', jb_leader = ''SGLang'',
     jb_url = ''https://github.com/sgl-project/sglang'',
     jb_organ = ''brain'', jb_cell = ''N1'', jb_honesty = ''ROADMAP'', jb_admitted = False,
     jb_take = ''Prefix-reuse and structured output as a serving job, under receipts.'',
     jb_refuse = ''Do not rehost RadixAttention or SGLang runtime.''\<rparr>,
   \<lparr>jb_id = ''ollama'', jb_title = ''Local developer serving'', jb_leader = ''Ollama'',
     jb_url = ''https://github.com/ollama/ollama'',
     jb_organ = ''brain'', jb_cell = ''N1'', jb_honesty = ''ROADMAP'', jb_admitted = False,
     jb_take = ''Honest local DX path wrapping llama.cpp. CPU-honest until GPU is MEASURED.'',
     jb_refuse = ''Do not rehost Ollama. Do not claim GPU serve LIVE.''\<rparr>,
   \<lparr>jb_id = ''langgraph'', jb_title = ''Stateful agent graph'', jb_leader = ''LangGraph'',
     jb_url = ''https://www.langchain.com/langgraph'',
     jb_organ = ''nervous'', jb_cell = ''N2'', jb_honesty = ''ROADMAP'', jb_admitted = False,
     jb_take = ''Durable graph, checkpoint, human-in-the-loop. SENTRA on every edge.'',
     jb_refuse = ''Do not rehost LangGraph StateGraph or interrupt().''\<rparr>,
   \<lparr>jb_id = ''llamaguard'', jb_title = ''Prompt and response safeguard'', jb_leader = ''Llama Guard'',
     jb_url = ''https://ai.meta.com/research/publications/llama-guard-llm-based-input-output-safeguard-for-human-ai-conversations/'',
     jb_organ = ''immune'', jb_cell = ''N3'', jb_honesty = ''ROADMAP'', jb_admitted = False,
     jb_take = ''Classify prompt and response. Fail closed on taxonomy hits.'',
     jb_refuse = ''Do not rehost Llama Guard weights or Purple Llama.''\<rparr>,
   \<lparr>jb_id = ''mosaic'', jb_title = ''Own-data mosaic'', jb_leader = ''MosaicML / Databricks Mosaic AI'',
     jb_url = ''https://www.databricks.com/blog/databricks-mosaicml'',
     jb_organ = ''circulatory'', jb_cell = ''N4'', jb_honesty = ''ROADMAP'', jb_admitted = False,
     jb_take = ''Receipted mosaic with UNSIGNED-honest lineage on own data.'',
     jb_refuse = ''Do not rehost MosaicML, Mosaic AI, or the lakehouse.''\<rparr>,
   \<lparr>jb_id = ''lattice'', jb_title = ''Defense overlay'', jb_leader = ''immune-lattice'',
     jb_url = ''https://github.com/szl-holdings/immune/tree/main/python'',
     jb_organ = ''immune'', jb_cell = ''N5'', jb_honesty = ''ROADMAP'', jb_admitted = False,
     jb_take = ''SENTRA/YAWAR overlay on every cell. Defense only.'',
     jb_refuse = ''Hub vertical may be LIVE. This frontier bind is not. Never strike people.''\<rparr>,
   \<lparr>jb_id = ''guidewire'', jb_title = ''P&C insurance core'', jb_leader = ''Guidewire'',
     jb_url = ''https://www.guidewire.com/'',
     jb_organ = ''heart'', jb_cell = ''N6'', jb_honesty = ''ROADMAP'', jb_admitted = False,
     jb_take = ''Allodial/counsel bind for policy, billing, claims jobs.'',
     jb_refuse = ''Do not rehost Guidewire InsuranceSuite. Formulas never grant authority.''\<rparr>,
   \<lparr>jb_id = ''quantconnect'', jb_title = ''Algorithmic research and backtest'', jb_leader = ''QuantConnect LEAN'',
     jb_url = ''https://www.quantconnect.com/'',
     jb_organ = ''brain'', jb_cell = ''N7'', jb_honesty = ''ROADMAP'', jb_admitted = False,
     jb_take = ''Receipted backtest. Actuation SIMULATED.'',
     jb_refuse = ''Not a broker. Do not rehost LEAN. A price is not a fill.''\<rparr>,
   \<lparr>jb_id = ''zillow'', jb_title = ''Property records'', jb_leader = ''Zillow'',
     jb_url = ''https://www.zillow.com/'',
     jb_organ = ''skeleton'', jb_cell = ''N8'', jb_honesty = ''ROADMAP'', jb_admitted = False,
     jb_take = ''Receipted title/underwrite bind on public records.'',
     jb_refuse = ''Do not rehost Zillow. szl-real-estate Hub vertical may be LIVE; this bind is not.''\<rparr>,
   \<lparr>jb_id = ''sigstore'', jb_title = ''Keyless artifact signing'', jb_leader = ''Sigstore / Cosign'',
     jb_url = ''https://www.sigstore.dev/'',
     jb_organ = ''skeleton'', jb_cell = '''', jb_honesty = ''STRUCTURAL-ONLY'', jb_admitted = False,
     jb_take = ''UNSIGNED-honest SHA-256 is tamper-EVIDENT.'',
     jb_refuse = ''Not a signature. Not Cosign. Not Fulcio. Signing stays STRUCTURAL-ONLY.''\<rparr>,
   \<lparr>jb_id = ''energy'', jb_title = ''Grid carbon / joule accounting'', jb_leader = ''Electricity Maps'',
     jb_url = ''https://www.electricitymaps.com/'',
     jb_organ = ''circulatory'', jb_cell = '''', jb_honesty = ''UNAVAILABLE'', jb_admitted = False,
     jb_take = ''Energy remains UNAVAILABLE until NVML is MEASURED.'',
     jb_refuse = ''Do not fabricate joules. Do not clone Electricity Maps.''\<rparr>,
   \<lparr>jb_id = ''unsloth'', jb_title = ''Receipted QLoRA'', jb_leader = ''Unsloth'',
     jb_url = ''https://github.com/unslothai/unsloth'',
     jb_organ = ''brain'', jb_cell = ''N1'', jb_honesty = ''ROADMAP'', jb_admitted = False,
     jb_take = ''Fine-tunes only against LIVE weights with a receipt.'',
     jb_refuse = ''No unreceipted QLoRA. Not an Unsloth rehost.''\<rparr>]"

definition job_blob :: "job \<Rightarrow> string" where
  "job_blob j = py_lower (join '' '' [jb_id j, jb_title j, jb_leader j, jb_organ j, jb_cell j,
                                      jb_honesty j, jb_take j, jb_refuse j])"

definition cell_blob :: "cell \<Rightarrow> string" where
  "cell_blob c = py_lower (join '' '' [ce_id c, ce_title c, ce_job c, ce_cite c, ce_szl c,
                                       ce_note c, ce_organ c])"

text \<open>\<open>needle in text\<close>\<close>

fun contains :: "string \<Rightarrow> string \<Rightarrow> bool" where
  "contains p s = (take (length p) s = p \<or> (case s of [] \<Rightarrow> False | _ # t \<Rightarrow> contains p t))"

declare contains.simps [simp del]

definition job_dict :: "job \<Rightarrow> json" where
  "job_dict j =
     JObj [(''id'', JStr (jb_id j)), (''title'', JStr (jb_title j)), (''leader'', JStr (jb_leader j)),
           (''url'', JStr (jb_url j)), (''organ'', JStr (jb_organ j)), (''cell'', JStr (jb_cell j)),
           (''honesty'', JStr (jb_honesty j)), (''admitted'', JBool (jb_admitted j)),
           (''take'', JStr (jb_take j)), (''refuse'', JStr (jb_refuse j))]"

definition cell_dict :: "cell \<Rightarrow> json" where
  "cell_dict c =
     JObj [(''id'', JStr (ce_id c)), (''title'', JStr (ce_title c)), (''organ'', JStr (ce_organ c)),
           (''honesty'', JStr (ce_honesty c)), (''admitted'', JBool (ce_admitted c)),
           (''bind'', JStr (ce_bind c)), (''note'', JStr (ce_note c)), (''job'', JStr (ce_job c)),
           (''cite'', JStr (ce_cite c)), (''szl'', JStr (ce_szl c))]"

definition search_jobs :: "string \<Rightarrow> json" where
  "search_jobs q =
     (let needle = py_lower (strip q) in
      JObj [(''query'', JStr q),
            (''jobs'', JList (map job_dict (filter (\<lambda>j. needle = [] \<or> contains needle (job_blob j)) jobs))),
            (''cells'', JList (map cell_dict (filter (\<lambda>c. needle = [] \<or> contains needle (cell_blob c)) all_cells))),
            (''lambda_status'', JStr ''Conjecture 1''), (''energy'', JNull),
            (''signer'', JStr ''UNSIGNED-honest''),
            (''note'', JStr ''Catalog of cited jobs. Not a live web crawl. We take the job, not the code.'')])"

subsection \<open>Lemmas\<close>

lemma cells_checked:
  "list_all (\<lambda>c. (ce_admitted c \<longleftrightarrow> ce_id c = ''lyte'') \<and> ce_id c \<noteq> [] \<and>
     ce_honesty c = (if ce_admitted c then ''STRUCTURAL-ONLY'' else ''ROADMAP'')) all_cells"
  by code_simp

lemma alookup_cells: "alookup cells k = Some c \<Longrightarrow> c \<in> set all_cells \<and> ce_id c = k"
  unfolding cells_def alookup_map_of by (auto dest!: map_of_SomeD)

lemma alookup_lyte: "alookup cells ''lyte'' = Some lyte_cell"
  by code_simp

lemma lookup_cell_member:
  "lookup_cell k = Some c \<Longrightarrow> c \<in> set all_cells \<and> (ce_id c = k \<or> ce_id c = py_lower k \<or> ce_id c = py_upper k)"
  unfolding lookup_cell_def using alookup_cells by (auto split: option.splits)

lemma upper_char_not_lower: "c' \<in> set (upper_char c) \<Longrightarrow> \<not> is_lower c'"
proof -
  assume c': "c' \<in> set (upper_char c)"
  have less: "code c < 256" by simp
  consider "c' = char_of (code c - 32)" "is_lower c" | "c' = char_of (code c - 32)" "224 \<le> code c"
    | "c' = CHR ''S''" | "c' = c" "\<not> is_lower c"
    using c' by (auto simp: upper_char_def split: if_splits)
  then show ?thesis
  proof cases
    case 1
    have "code c - 32 < 256" using less by linarith
    then have "code c' = code c - 32" using 1(1) by simp
    then show ?thesis using 1(2) unfolding is_lower_def by linarith
  next
    case 2
    have "code c - 32 < 256" using less by linarith
    then have "code c' = code c - 32" using 2(1) by simp
    then show ?thesis using 2(2) unfolding is_lower_def by linarith
  qed (simp_all add: is_lower_def code_def)
qed

lemma py_upper_not_lyte: "py_upper k \<noteq> ''lyte''"
proof
  assume eq: "py_upper k = ''lyte''"
  have "\<not> is_lower c" if "c \<in> set (py_upper k)" for c
    using that upper_char_not_lower by (auto simp: py_upper_def)
  moreover have "is_lower (CHR ''l'')" by (simp add: is_lower_def code_def)
  ultimately show False using eq by simp
qed

lemma py_lower_lyte: "py_lower ''lyte'' = ''lyte''"
  by code_simp

lemma frontier_not_lyte:
  assumes "alookup cells k = Some c" "py_lower k = ''lyte''"
  shows "k = ''lyte''"
proof -
  have "list_all (\<lambda>c. py_lower (ce_id c) \<noteq> ''lyte'' \<or> ce_id c = ''lyte'') all_cells" by code_simp
  then show ?thesis using alookup_cells [OF assms(1)] assms(2) unfolding list_all_iff by metis
qed

text \<open>The lookup finds an admitted cell exactly for the word \<open>lyte\<close> in any case.\<close>

lemma lookup_admitted:
  "(case lookup_cell k of None \<Rightarrow> False | Some c \<Rightarrow> ce_admitted c) \<longleftrightarrow> py_lower k = ''lyte''"
proof
  assume "case lookup_cell k of None \<Rightarrow> False | Some c \<Rightarrow> ce_admitted c"
  then obtain c where c: "lookup_cell k = Some c" "ce_admitted c" by (cases "lookup_cell k") auto
  then have "ce_id c = ''lyte''"
    using cells_checked lookup_cell_member [OF c(1)] unfolding list_all_iff by blast
  then show "py_lower k = ''lyte''"
    using lookup_cell_member [OF c(1)] py_upper_not_lyte [of k] py_lower_lyte by metis
next
  assume l: "py_lower k = ''lyte''"
  have "lookup_cell k = Some lyte_cell"
  proof (cases "alookup cells k")
    case None
    then show ?thesis by (simp add: lookup_cell_def l alookup_lyte)
  next
    case (Some c)
    then have "k = ''lyte''" using l by (rule frontier_not_lyte)
    then show ?thesis by (simp add: lookup_cell_def alookup_lyte)
  qed
  then show "case lookup_cell k of None \<Rightarrow> False | Some c \<Rightarrow> ce_admitted c"
    by (simp add: lyte_cell_def)
qed

lemma lookup_honesty:
  "lookup_cell k = Some c \<Longrightarrow> ce_honesty c = (if ce_admitted c then ''STRUCTURAL-ONLY'' else ''ROADMAP'')"
  using cells_checked lookup_cell_member [of k c] unfolding list_all_iff by blast

lemma factory_sha256_total: "json_floats (JObj payload) = {} \<Longrightarrow> \<exists>d. factory_sha256 hx payload = Inr d"
  using dumps_ascii_total [of "JObj payload"] unfolding factory_sha256_def by auto

lemma compile_body_facts:
  "json_floats (JObj (compile_body key prev ts rid sd)) = {}"
  "map fst (compile_body key prev ts rid sd) = filter (\<lambda>f. f \<noteq> ''hash'') receipt_fields"
proof -
  obtain a b c e f cid where "judge key = (a, b, c, e, f, cid)" by (cases "judge key") auto
  then show "json_floats (JObj (compile_body key prev ts rid sd)) = {}"
    "map fst (compile_body key prev ts rid sd) = filter (\<lambda>f. f \<noteq> ''hash'') receipt_fields"
    by (simp_all add: compile_body_def receipt_fields_def)
qed

text \<open>The shape of a receipt.\<close>

definition sealed :: "(string \<times> json) list \<Rightarrow> string \<Rightarrow> (string \<times> json) list" where
  "sealed body d = take 12 body @ (''hash'', JStr d) # drop 12 body"

lemma compile_cell_shape:
  obtains sd d where
    "factory_sha256 hx (compile_body (strip cell_id) (if length prev = 64 then prev else genesis) ts
       (uuid_str rid) sd) = Inr d"
    "compile_cell hx cell_id prev signal ts rid =
       Inr (sealed (compile_body (strip cell_id) (if length prev = 64 then prev else genesis) ts
              (uuid_str rid) sd) d)"
proof -
  let ?key = "strip cell_id" and ?prev = "if length prev = 64 then prev else genesis"
  obtain a b c e f cid where j: "judge ?key = (a, b, c, e, f, cid)" by (cases "judge ?key") auto
  obtain sd where sd: "factory_sha256 hx [(''signal'', JStr signal), (''cell'', JStr cid)] = Inr sd"
    using factory_sha256_total [of "[(''signal'', JStr signal), (''cell'', JStr cid)]"] by auto
  obtain d where d: "factory_sha256 hx (compile_body ?key ?prev ts (uuid_str rid) sd) = Inr d"
    using factory_sha256_total [OF compile_body_facts(1)] by blast
  have "compile_cell hx cell_id prev signal ts rid =
    Inr (sealed (compile_body ?key ?prev ts (uuid_str rid) sd) d)"
    unfolding compile_cell_def Let_def sealed_def using j sd d by simp
  with d show thesis by (rule that)
qed

lemma sealed_fields:
  "map fst (sealed (compile_body key prev ts rid sd) d) = receipt_fields"
  "receipt_body (sealed (compile_body key prev ts rid sd) d) = compile_body key prev ts rid sd"
  "alookup (sealed (compile_body key prev ts rid sd) d) ''hash'' = Some (JStr d)"
  "alookup (sealed (compile_body key prev ts rid sd) d) ''prev_hash'' = Some (JStr prev)"
  "alookup (sealed (compile_body key prev ts rid sd) d) ''decision'' = Some (JStr (fst (judge key)))"
  "alookup (sealed (compile_body key prev ts rid sd) d) ''honesty_tier'' = Some (JStr (fst (snd (judge key))))"
proof -
  obtain a b c e f cid where "judge key = (a, b, c, e, f, cid)" by (cases "judge key") auto
  note eval = this sealed_def compile_body_def receipt_fields_def receipt_body_def
  show
    "map fst (sealed (compile_body key prev ts rid sd) d) = receipt_fields"
    "receipt_body (sealed (compile_body key prev ts rid sd) d) = compile_body key prev ts rid sd"
    "alookup (sealed (compile_body key prev ts rid sd) d) ''hash'' = Some (JStr d)"
    "alookup (sealed (compile_body key prev ts rid sd) d) ''prev_hash'' = Some (JStr prev)"
    "alookup (sealed (compile_body key prev ts rid sd) d) ''decision'' = Some (JStr (fst (judge key)))"
    "alookup (sealed (compile_body key prev ts rid sd) d) ''honesty_tier'' = Some (JStr (fst (snd (judge key))))"
    by (simp_all add: eval)
qed

lemma sealed_verifies:
  assumes "factory_sha256 hx (compile_body key prev ts rid sd) = Inr d"
  shows "verify_receipt hx (sealed (compile_body key prev ts rid sd) d) = Inr True"
  using assms unfolding verify_receipt_def sealed_fields by simp

lemma judge_decision:
  "fst (judge key) = (if py_lower key = ''lyte'' then ''ALLOW'' else ''BLOCKED'')"
  "fst (snd (judge key)) = (if py_lower key = ''lyte'' then ''STRUCTURAL-ONLY''
     else if lookup_cell key = None then ''UNAVAILABLE'' else ''ROADMAP'')"
  using lookup_admitted [of key] lookup_honesty [of key]
  unfolding judge_def by (cases "lookup_cell key"; simp)+

subsection \<open>Properties\<close>

text \<open>C35: The compiler is total and fails closed.  For every cell identifier, previous hash,
  signal, clock and UUID it returns a receipt with exactly the declared fields in their order
  that its own \<open>verify_receipt\<close> accepts.  The decision is ALLOW exactly when the identifier,
  stripped, is the word \<open>lyte\<close> in any case; every other identifier is BLOCKED, and the honesty
  tier is then ROADMAP for a frontier cell and UNAVAILABLE for an unknown one.  The previous hash
  is kept if it has 64 characters and is otherwise the genesis hash.\<close>

theorem compile_cell_fails_closed:
  "\<exists>r. compile_cell hx cell_id prev signal ts rid = Inr r \<and>
       verify_receipt hx r = Inr True \<and> map fst r = receipt_fields \<and>
       alookup r ''decision'' =
         Some (JStr (if py_lower (strip cell_id) = ''lyte'' then ''ALLOW'' else ''BLOCKED'')) \<and>
       alookup r ''honesty_tier'' =
         Some (JStr (if py_lower (strip cell_id) = ''lyte'' then ''STRUCTURAL-ONLY''
                     else if lookup_cell (strip cell_id) = None then ''UNAVAILABLE'' else ''ROADMAP'')) \<and>
       alookup r ''prev_hash'' = Some (JStr (if length prev = 64 then prev else genesis))"
  by (rule compile_cell_shape [of hx cell_id prev ts rid signal])
     (auto simp only: sealed_fields sealed_verifies judge_decision)

text \<open>Receipts are tamper-evident.  If two dicts both pass \<open>verify_receipt\<close> and carry
  the same \<open>hash\<close>, then all their other fields agree (up to the order of keys), or the hash
  function collides on the two different texts of these fields.\<close>

theorem receipts_tamper_evident:
  assumes "verify_receipt hx r = Inr True" and "verify_receipt hx r' = Inr True"
    and "alookup r ''hash'' = alookup r' ''hash''"
  shows "sort_keys (JObj (receipt_body r)) = sort_keys (JObj (receipt_body r')) \<or>
         (\<exists>s t. dumps_ascii (JObj (receipt_body r)) = Inr s \<and>
                dumps_ascii (JObj (receipt_body r')) = Inr t \<and> collision hx s t)"
proof -
  have printed: "\<exists>s. dumps_ascii (JObj (receipt_body q)) = Inr s \<and> alookup q ''hash'' = Some (JStr (hx s))"
    if "verify_receipt hx q = Inr True" for q
    using that unfolding verify_receipt_def factory_sha256_def
    by (cases "dumps_ascii (JObj (receipt_body q))") (simp_all split: if_splits)
  obtain s t where st: "dumps_ascii (JObj (receipt_body r)) = Inr s"
    "dumps_ascii (JObj (receipt_body r')) = Inr t" "hx s = hx t"
    using printed [OF assms(1)] printed [OF assms(2)] assms(3) by auto
  show ?thesis
  proof (cases "s = t")
    case True
    then show ?thesis using dumps_ascii_inj st by blast
  next
    case False
    then show ?thesis using st unfolding collision_def by blast
  qed
qed

text \<open>A receipt of the compiler and the same dict in another order, with the identity in place
  of SHA-256.\<close>

lemma distinct_receipt_fields: "distinct receipt_fields"
  by code_simp

lemma verify_rev:
  assumes v: "verify_receipt hx r = Inr True" and d: "distinct (map fst r)"
  shows "verify_receipt hx (rev r) = Inr True" "alookup (rev r) ''hash'' = alookup r ''hash''"
proof -
  have "mset (receipt_body (rev r)) = mset (receipt_body r)" by (simp add: receipt_body_def rev_filter)
  moreover have "distinct (map fst (receipt_body (rev r)))"
    using d by (simp add: receipt_body_def rev_filter distinct_map_filter rev_map [symmetric])
  ultimately have "dumps_ascii (JObj (receipt_body (rev r))) = dumps_ascii (JObj (receipt_body r))"
    by (rule dumps_ascii_perm)
  moreover show hash: "alookup (rev r) ''hash'' = alookup r ''hash''"
    using d unfolding alookup_map_of
    by (metis map_of_inject_set distinct_rev rev_map set_rev)
  ultimately show "verify_receipt hx (rev r) = Inr True"
    using v unfolding verify_receipt_def factory_sha256_def by (simp split: if_splits)
qed

theorem receipts_tamper_evident_witness:
  "\<exists>r. compile_cell id ''lyte'' genesis [] ''2026-01-01T00:00:00Z'' 1 = Inr r \<and>
       sort_keys (JObj (receipt_body r)) = sort_keys (JObj (receipt_body (rev r)))"
proof (rule compile_cell_shape [of id "''lyte''" genesis "''2026-01-01T00:00:00Z''" 1 "[]"])
  fix sd d
  let ?b = "compile_body (strip ''lyte'') (if length genesis = 64 then genesis else genesis)
    ''2026-01-01T00:00:00Z'' (uuid_str 1) sd"
  let ?r = "sealed ?b d"
  assume d: "factory_sha256 id ?b = Inr d"
    and c: "compile_cell id ''lyte'' genesis [] ''2026-01-01T00:00:00Z'' 1 = Inr ?r"
  from sealed_verifies [OF d] have v: "verify_receipt id ?r = Inr True" .
  have "distinct (map fst ?r)" by (simp only: sealed_fields distinct_receipt_fields)
  note w = verify_rev [OF v this]
  have "sort_keys (JObj (receipt_body ?r)) = sort_keys (JObj (receipt_body (rev ?r)))"
    using receipts_tamper_evident [OF v w(1) w(2) [symmetric]] unfolding collision_def id_apply by blast
  with c show ?thesis by blast
qed

end
