(* ===== verification/Connector_Base.thy ===== *)
theory Connector_Base
  imports Contracts
begin

section \<open>Connector contracts (lyte/connectors/base.py)\<close>

text \<open>
  What every connector shares: the strict JSON reader, the shape checks, idempotency claims and
  the removal of sensitive attributes.  A body is a byte string, one \<open>char\<close> per byte.  The
  parameter \<open>decode\<close> is \<open>json.loads\<close> up to its hooks: the tree it reads, in which an object is
  the list of its pairs, duplicates included, and \<open>NaN\<close> and \<open>Infinity\<close> are the constants
  handed to \<open>parse\_constant\<close>; the hooks are modelled here.  (If a text has both a duplicate key
  and a later syntax error the code reports the former, the model the latter; both are
  \<open>PayloadValidationError\<close>.)  The recursion limit is not modelled.
\<close>

subsection \<open>Idempotency claims\<close>

text \<open>\<open>^[A-Za-z0-9][A-Za-z0-9.\_:-]{15,127}$\<close>\<close>

definition safe_char :: "char \<Rightarrow> bool" where
  "safe_char c = (is_alnum c \<or> c \<in> set ''._:-'')"

definition claim_key_ok :: "string \<Rightarrow> bool" where
  "claim_key_ok s = (16 \<le> length s \<and> length s \<le> 128 \<and> is_alnum (hd s) \<and> list_all safe_char s)"

record idem_claim =
  ic_key :: string
  ic_sha :: string

definition mk_idem_claim :: "string \<Rightarrow> string \<Rightarrow> idem_claim res" where
  "mk_idem_claim key sha =
     guard_else (claim_key_ok key) (PayloadValidationError ''idempotency key must contain 16-128 safe characters'')
    (guard_else (is_hex64 sha) (PayloadValidationError ''payload_sha256 must be a lowercase SHA-256 digest'')
      (Inr \<lparr>ic_key = key, ic_sha = sha\<rparr>))"

definition idem_claim_to_dict :: "(string \<Rightarrow> string) \<Rightarrow> idem_claim \<Rightarrow> (string \<times> json) list" where
  "idem_claim_to_dict hx c =
     [(''key_sha256'', JStr (hx (ic_key c))), (''payload_sha256'', JStr (ic_sha c))]"

subsection \<open>Connector results\<close>

datatype connector_state = Observed | Observed_Partial | Not_Modified | Source_Unavailable

fun state_value :: "connector_state \<Rightarrow> string" where
  "state_value Observed = ''OBSERVED''"
| "state_value Observed_Partial = ''OBSERVED_PARTIAL''"
| "state_value Not_Modified = ''NOT_MODIFIED''"
| "state_value Source_Unavailable = ''UNAVAILABLE''"

record connector_result =
  cr_source :: string
  cr_state :: connector_state
  cr_records :: "json list"
  cr_receipt :: receipt_draft
  cr_reason :: "string option"
  cr_complete :: bool
  cr_meta :: "(string \<times> json) list"

definition mk_connector_result :: "connector_result \<Rightarrow> connector_result res" where
  "mk_connector_result r =
     (if cr_state r = Source_Unavailable then
        guard_else (strip (case cr_reason r of None \<Rightarrow> [] | Some s \<Rightarrow> s) \<noteq> [])
          (ValueError ''UNAVAILABLE connector results require a reason'')
       (guard_else (cr_records r = [])
          (ValueError ''UNAVAILABLE connector results cannot contain records'') (Inr r))
      else
        guard_else (cr_reason r = None)
          (ValueError ''available connector results cannot contain an unavailable reason'')
       (guard_else (\<not> (cr_state r = Observed_Partial \<and> cr_complete r))
          (ValueError ''OBSERVED_PARTIAL results must declare complete=False'') (Inr r)))"

definition cr_label :: "connector_result \<Rightarrow> truth_label" where
  "cr_label r = (if cr_state r = Source_Unavailable then UNAVAILABLE else rd_label (cr_receipt r))"

definition connector_result_to_dict :: "connector_result \<Rightarrow> (string \<times> json) list" where
  "connector_result_to_dict r =
     [(''source_id'', JStr (cr_source r)), (''state'', JStr (state_value (cr_state r))),
      (''truth_label'', JStr (label_value (cr_label r))), (''reason'', jopt (cr_reason r)),
      (''complete'', JBool (cr_complete r)), (''record_count'', JInt (int (length (cr_records r)))),
      (''records'', JList (cr_records r)), (''metadata'', JObj (cr_meta r))]"

subsection \<open>Reading JSON\<close>

text \<open>\<open>repr\<close> of a string, as \<open>!r\<close> prints it.\<close>

definition repr_char :: "char \<Rightarrow> char \<Rightarrow> string" where
  "repr_char q c =
     (let n = code c in
      if c = q \<or> n = 92 then [CHR 0x5C, c]
      else if n = 9 then [CHR 0x5C, CHR ''t''] else if n = 10 then [CHR 0x5C, CHR ''n'']
      else if n = 13 then [CHR 0x5C, CHR ''r'']
      else if n < 32 \<or> (127 \<le> n \<and> n \<le> 160) \<or> n = 173
      then [CHR 0x5C, CHR ''x'', hex_digit (n div 16), hex_digit (n mod 16)]
      else [c])"

definition py_repr :: "string \<Rightarrow> string" where
  "py_repr s =
     (let q = (if CHR 0x27 \<in> set s \<and> CHR 0x22 \<notin> set s then CHR 0x22 else CHR 0x27)
      in [q] @ concat (map (repr_char q) s) @ [q])"

datatype tree =
    Const string
  | Atom json
  | Items "tree list"
  | Pairs "(string \<times> tree) list"

datatype decoded = Not_Utf8 | Malformed | Decoded tree

definition first_repeat :: "string list \<Rightarrow> string option" where
  "first_repeat ks =
     map_option snd (List.find (\<lambda>(i, k). k \<in> set (take i ks)) (enumerate 0 ks))"

text \<open>\<open>reject\_constant\<close> and \<open>unique\_object\<close>, called as the reader meets constants and closes
  objects.\<close>

fun build :: "string \<Rightarrow> tree \<Rightarrow> json res"
and build_items :: "string \<Rightarrow> tree list \<Rightarrow> json list res"
and build_pairs :: "string \<Rightarrow> (string \<times> tree) list \<Rightarrow> (string \<times> json) list res" where
  "build path (Const c) = Inl (PayloadValidationError (path @ '' contains non-finite number '' @ c))"
| "build path (Atom j) = Inr j"
| "build path (Items xs) = rbind (build_items path xs) (\<lambda>js. Inr (JList js))"
| "build path (Pairs kvs) =
     rbind (build_pairs path kvs) (\<lambda>ps.
       case first_repeat (map fst ps) of
         Some k \<Rightarrow> Inl (PayloadValidationError (path @ '' contains duplicate key '' @ py_repr k))
       | None \<Rightarrow> Inr (JObj ps))"
| "build_items path [] = Inr []"
| "build_items path (x # xs) = rbind (build path x) (\<lambda>j. rbind (build_items path xs) (\<lambda>js. Inr (j # js)))"
| "build_pairs path [] = Inr []"
| "build_pairs path ((k, v) # kvs) =
     rbind (build path v) (\<lambda>j. rbind (build_pairs path kvs) (\<lambda>ps. Inr ((k, j) # ps)))"

fun walk_finite :: "string \<Rightarrow> json \<Rightarrow> unit res"
and walk_fields :: "string \<Rightarrow> (string \<times> json) list \<Rightarrow> unit res"
and walk_elems :: "string \<Rightarrow> nat \<Rightarrow> json list \<Rightarrow> unit res" where
  "walk_finite path (JFloat x) =
     guard_else (isfinite x) (PayloadValidationError (path @ '' must be finite'')) (Inr ())"
| "walk_finite path (JObj kvs) = walk_fields path kvs"
| "walk_finite path (JList xs) = walk_elems path 0 xs"
| "walk_finite path _ = Inr ()"
| "walk_fields path [] = Inr ()"
| "walk_fields path ((k, v) # kvs) = rbind (walk_finite (path @ ''.'' @ k) v) (\<lambda>_. walk_fields path kvs)"
| "walk_elems path i [] = Inr ()"
| "walk_elems path i (x # xs) =
     rbind (walk_finite (path @ ''['' @ show_nat i @ '']'') x) (\<lambda>_. walk_elems path (Suc i) xs)"

definition assert_finite_json :: "string \<Rightarrow> json \<Rightarrow> unit res" where
  "assert_finite_json path j =
     rbind (walk_finite path j) (\<lambda>_.
     rbind (map_exc (\<lambda>_. PayloadValidationError (path @ '' is not canonical JSON data'')) (canonical_json j))
       (\<lambda>_. Inr ()))"

definition strict_json_loads :: "(string \<Rightarrow> decoded) \<Rightarrow> nat \<Rightarrow> string \<Rightarrow> string \<Rightarrow> json res" where
  "strict_json_loads decode max_bytes path payload =
     guard_else (length payload \<le> max_bytes)
       (PayloadValidationError (path @ '' exceeds '' @ show_nat max_bytes @ '' bytes''))
    (guard_else (payload \<noteq> []) (PayloadValidationError (path @ '' cannot be empty''))
    (case decode payload of
       Not_Utf8 \<Rightarrow> Inl (PayloadValidationError (path @ '' must be UTF-8 JSON''))
     | Malformed \<Rightarrow> Inl (PayloadValidationError (path @ '' is malformed JSON''))
     | Decoded t \<Rightarrow>
         rbind (build path t) (\<lambda>j. rbind (assert_finite_json path j) (\<lambda>_. Inr j))))"

subsection \<open>Shapes\<close>

definition require_object :: "string \<Rightarrow> json \<Rightarrow> (string \<times> json) list res" where
  "require_object path j =
     (case j of JObj kvs \<Rightarrow> Inr kvs | _ \<Rightarrow> Inl (PayloadValidationError (path @ '' must be an object'')))"

definition require_list :: "string \<Rightarrow> nat \<Rightarrow> json \<Rightarrow> json list res" where
  "require_list path maximum j =
     (case j of
        JList xs \<Rightarrow> guard_else (length xs \<le> maximum)
          (PayloadValidationError (path @ '' exceeds the limit of '' @ show_nat maximum)) (Inr xs)
      | _ \<Rightarrow> Inl (PayloadValidationError (path @ '' must be an array'')))"

definition require_fields ::
  "string \<Rightarrow> string list \<Rightarrow> string list \<Rightarrow> (string \<times> json) list \<Rightarrow> unit res" where
  "require_fields path allowed required kvs =
     (let unknown = sort (dedup (filter (\<lambda>k. k \<notin> set allowed) (map fst kvs)));
          missing = sort (dedup (filter (\<lambda>k. k \<notin> fst ` set kvs) required)) in
      guard_else (unknown = [])
        (PayloadValidationError (path @ '' contains unsupported field(s): '' @ join '', '' unknown))
     (guard_else (missing = [])
        (PayloadValidationError (path @ '' is missing required field(s): '' @ join '', '' missing))
        (Inr ())))"

subsection \<open>Sensitive attributes\<close>

text \<open>The cleaned value and the paths of the removed keys.\<close>

fun clean_value :: "string \<Rightarrow> json \<Rightarrow> json \<times> string list"
and clean_mapping :: "string \<Rightarrow> (string \<times> json) list \<Rightarrow> (string \<times> json) list \<times> string list"
and clean_items :: "string \<Rightarrow> nat \<Rightarrow> json list \<Rightarrow> json list \<times> string list" where
  "clean_value path (JObj kvs) = (JObj (fst (clean_mapping path kvs)), snd (clean_mapping path kvs))"
| "clean_value path (JList xs) = (JList (fst (clean_items path 0 xs)), snd (clean_items path 0 xs))"
| "clean_value path j = (j, [])"
| "clean_mapping path [] = ([], [])"
| "clean_mapping path ((k, v) # kvs) =
     (let key_path = (if path = [] then k else path @ ''.'' @ k); rest = clean_mapping path kvs in
      if is_sensitive_key k then (fst rest, key_path # snd rest)
      else let c = clean_value key_path v in ((k, fst c) # fst rest, snd c @ snd rest))"
| "clean_items path i [] = ([], [])"
| "clean_items path i (x # xs) =
     (let c = clean_value (path @ ''['' @ show_nat i @ '']'') x; rest = clean_items path (Suc i) xs
      in (fst c # fst rest, snd c @ snd rest))"

definition strip_sensitive_attributes ::
  "(string \<times> json) list \<Rightarrow> (string \<times> json) list \<times> string list" where
  "strip_sensitive_attributes kvs =
     (let (c, s) = clean_mapping [] kvs in (c, sort (dedup s)))"

subsection \<open>Lemmas\<close>

definition keys_safe :: "json \<Rightarrow> bool" where
  "keys_safe j \<longleftrightarrow> (\<forall>k \<in> json_keys j. \<not> is_sensitive_key k)"

lemma keys_safe_simps [simp]:
  "keys_safe (JObj kvs) \<longleftrightarrow> (\<forall>kv \<in> set kvs. \<not> is_sensitive_key (fst kv) \<and> keys_safe (snd kv))"
  "keys_safe (JList xs) \<longleftrightarrow> (\<forall>x \<in> set xs. keys_safe x)"
  "keys_safe JNull" "keys_safe (JBool b)" "keys_safe (JInt n)" "keys_safe (JFloat x)" "keys_safe (JStr s)"
  by (auto simp: keys_safe_def)

lemma clean_mapping_Cons:
  "clean_mapping path ((k, v) # kvs) =
     (if is_sensitive_key k
      then (fst (clean_mapping path kvs), (if path = [] then k else path @ ''.'' @ k) # snd (clean_mapping path kvs))
      else ((k, fst (clean_value (if path = [] then k else path @ ''.'' @ k) v)) # fst (clean_mapping path kvs),
            snd (clean_value (if path = [] then k else path @ ''.'' @ k) v) @ snd (clean_mapping path kvs)))"
  by (simp add: Let_def)

lemma clean_keys:
  "keys_safe (fst (clean_value path j))"
  "keys_safe (JObj (fst (clean_mapping path kvs)))"
  "keys_safe (JList (fst (clean_items path i xs)))"
proof (induction path j and path kvs and path i xs rule: clean_value_clean_mapping_clean_items.induct)
  case (5 path k v kvs)
  show ?case
  proof (cases "is_sensitive_key k")
    case True
    then show ?thesis using "5.IH"(1) [OF refl] by (simp only: clean_mapping_Cons if_True fst_conv)
  next
    case False
    from "5.IH"(2) [OF refl refl False] "5.IH"(1) [OF refl] show ?thesis
      by (simp only: clean_mapping_Cons False if_False fst_conv snd_conv keys_safe_simps list.set ball_simps simp_thms)
  qed
next
  case (7 path i x xs)
  then show ?case by (simp add: Let_def)
qed simp_all

lemma strip_sensitive_keys:
  "strip_sensitive_attributes kvs = (c, s) \<Longrightarrow> k \<in> json_keys (JObj c) \<Longrightarrow> \<not> is_sensitive_key k"
  using clean_keys(2) [of "[]" kvs]
  by (simp add: strip_sensitive_attributes_def keys_safe_def split: prod.splits) blast

lemma sort_Nil: "sort xs = [] \<longleftrightarrow> xs = []"
  by (metis set_empty set_sort)

lemma require_fields_Inr:
  "require_fields path allowed required kvs = Inr u \<longleftrightarrow>
     fst ` set kvs \<subseteq> set allowed \<and> set required \<subseteq> fst ` set kvs"
  by (auto simp: require_fields_def guard_else_Inr_iff Let_def filter_empty_conv sort_Nil)

lemma mk_receipt_draft_fields:
  assumes "mk_receipt_draft kind stype sid payload label refs = Inr d"
  shows "rd_payload d = payload" "rd_label d = label" "receipt_draft_ok d"
  using assms mk_receipt_draft_ok [OF assms] by (auto simp: mk_receipt_draft_def guard_else_Inr_iff rbind_Inr_iff)

end
