(* ===== verification/Webhook.thy ===== *)
theory Webhook
  imports Connector_Base Binary64
begin

section \<open>The governed-event webhook (lyte/connectors/generic\_webhook.py)\<close>

text \<open>
  A signed event is accepted once: the verifier checks its age, its HMAC, its shape and its
  source, then claims its nonce in the process-local registry.  The registry is explicit state,
  and a call returns it even when it raises, because the code prunes and claims before later
  checks run.  \<open>now.timestamp()\<close> is counted in whole microseconds: for the years 2004 to 2038
  the binary64 sums of the code order exactly as these integers do.  Parameters: \<open>mac\<close> is
  HMAC-SHA256 in hexadecimal, \<open>hb\<close> the SHA-256 of a byte string, \<open>fromiso\<close> is
  \<open>datetime.fromisoformat\<close>, \<open>decode\<close> the JSON reader.
\<close>

subsection \<open>Replay protection\<close>

record registry =
  rp_retention :: int
  rp_max :: nat
  rp_nonces :: "(string \<times> int) list"
  rp_claims :: "(string \<times> (string \<times> int)) list"

definition seconds :: "int \<Rightarrow> int" where
  "seconds n = 1000000 * n"

definition mk_registry :: "int \<Rightarrow> nat \<Rightarrow> registry res" where
  "mk_registry retention entries =
     guard_else (60 \<le> retention \<and> retention \<le> 86400)
       (ValueError ''retention_seconds must be between 60 and 86400'')
    (guard_else (100 \<le> entries \<and> entries \<le> 1000000)
       (ValueError ''max_entries must be between 100 and 1000000'')
       (Inr \<lparr>rp_retention = retention, rp_max = entries, rp_nonces = [], rp_claims = []\<rparr>))"

record replay_claim =
  pc_nonce :: string
  pc_idem :: idem_claim
  pc_replayed :: bool

definition prune :: "int \<Rightarrow> registry \<Rightarrow> registry" where
  "prune current rp =
     rp\<lparr>rp_nonces := filter (\<lambda>(k, expiry). expiry > current) (rp_nonces rp),
        rp_claims := filter (\<lambda>(k, v). snd v > current) (rp_claims rp)\<rparr>"

text \<open>The body of the locked section, on the pruned registry.\<close>

definition claim_locked :: "registry \<Rightarrow> string \<Rightarrow> idem_claim \<Rightarrow> int \<Rightarrow> replay_claim res \<times> registry" where
  "claim_locked rp nonce claim current =
     (let key = ic_key claim; sha = ic_sha claim; existing = alookup (rp_claims rp) key;
          expires = current + seconds (rp_retention rp) in
      if nonce \<in> fst ` set (rp_nonces rp)
      then (Inl (ReplayDetectedError ''nonce has already been used''), rp)
      else if rp_max rp \<le> length (rp_nonces rp)
      then (Inl (ReplayProtectionUnavailable ''nonce registry is at its safe capacity''), rp)
      else if (case existing of None \<Rightarrow> False | Some v \<Rightarrow> fst v \<noteq> sha)
      then (Inl (WebhookIdempotencyConflict ''idempotency key is already bound to a different payload''), rp)
      else if existing = None \<and> rp_max rp \<le> length (rp_claims rp)
      then (Inl (ReplayProtectionUnavailable ''idempotency registry is at its safe capacity''), rp)
      else (Inr \<lparr>pc_nonce = nonce, pc_idem = claim, pc_replayed = (existing \<noteq> None)\<rparr>,
            rp\<lparr>rp_nonces := aset (rp_nonces rp) nonce expires,
               rp_claims := aset (rp_claims rp) key (sha, expires)\<rparr>))"

definition claim_event ::
  "registry \<Rightarrow> string \<Rightarrow> string \<Rightarrow> string \<Rightarrow> datetime \<Rightarrow> replay_claim res \<times> registry" where
  "claim_event rp nonce key sha now =
     (if \<not> claim_key_ok nonce
      then (Inl (PayloadValidationError ''nonce must contain 16-128 safe characters''), rp)
      else if \<not> is_aware now then (Inl (ValueError ''now must be timezone-aware''), rp)
      else case mk_idem_claim key sha of
             Inl e \<Rightarrow> (Inl e, rp)
           | Inr claim \<Rightarrow> claim_locked (prune (micros now) rp) nonce claim (micros now))"

subsection \<open>Events\<close>

record governed_event =
  ge_version :: string
  ge_id :: string
  ge_source :: string
  ge_type :: string
  ge_subject_type :: string
  ge_subject_id :: string
  ge_occurred :: datetime
  ge_label :: truth_label
  ge_attrs :: "(string \<times> json) list"
  ge_refs :: "string list"

definition event_to_dict :: "governed_event \<Rightarrow> (string \<times> json) list res" where
  "event_to_dict e =
     rbind (isoformat_z (ge_occurred e)) (\<lambda>ts.
       Inr [(''schema_version'', JStr (ge_version e)), (''event_id'', JStr (ge_id e)),
            (''source_id'', JStr (ge_source e)), (''event_type'', JStr (ge_type e)),
            (''subject_type'', JStr (ge_subject_type e)), (''subject_id'', JStr (ge_subject_id e)),
            (''occurred_at'', JStr ts), (''truth_label'', JStr (label_value (ge_label e))),
            (''attributes'', JObj (ge_attrs e)), (''evidence_refs'', jstrs (ge_refs e))])"

text \<open>\<open>^[a-zA-Z0-9][a-zA-Z0-9.\_:-]{0,127}$\<close>\<close>

definition safe_id :: "string \<Rightarrow> bool" where
  "safe_id s = (s \<noteq> [] \<and> length s \<le> 128 \<and> is_alnum (hd s) \<and> list_all safe_char s)"

definition event_fields :: "string list" where
  "event_fields = [''schema_version'', ''event_id'', ''source_id'', ''event_type'', ''subject_type'',
     ''subject_id'', ''occurred_at'', ''truth_label'', ''attributes'', ''evidence_refs'']"

definition event_string :: "(string \<times> json) list \<Rightarrow> string \<Rightarrow> string res" where
  "event_string kvs field =
     (case jget_null (JObj kvs) field of
        JStr s \<Rightarrow> guard_else (safe_id s) (PayloadValidationError (''governed_event.'' @ field @ '' is invalid'')) (Inr s)
      | _ \<Rightarrow> Inl (PayloadValidationError (''governed_event.'' @ field @ '' is invalid'')))"

definition event_time :: "(string \<Rightarrow> datetime option) \<Rightarrow> json \<Rightarrow> datetime res" where
  "event_time fromiso j =
     (case j of
        JStr raw \<Rightarrow>
          guard_else (length raw \<le> 64) (PayloadValidationError ''governed_event.occurred_at is invalid'')
         (case fromiso (py_replace ''Z'' ''+00:00'' raw) of
            None \<Rightarrow> Inl (PayloadValidationError ''governed_event.occurred_at is invalid'')
          | Some t \<Rightarrow> guard_else (is_aware t)
              (PayloadValidationError ''governed_event.occurred_at requires a timezone'') (Inr t))
      | _ \<Rightarrow> Inl (PayloadValidationError ''governed_event.occurred_at is invalid''))"

definition event_label :: "json \<Rightarrow> truth_label res" where
  "event_label j =
     rbind (map_exc (\<lambda>_. PayloadValidationError ''governed_event.truth_label is invalid'')
        (case j of JStr s \<Rightarrow> label_of s | _ \<Rightarrow> Inl (ValueError ''not a valid TruthLabel''))) (\<lambda>l.
       guard_else (l \<noteq> UNAVAILABLE \<and> l \<noteq> ROADMAP)
         (PayloadValidationError ''governed_event with payload data cannot be UNAVAILABLE or ROADMAP'') (Inr l))"

definition event_attributes :: "json \<Rightarrow> (string \<times> json) list res" where
  "event_attributes j =
     rbind (require_object ''governed_event.attributes'' j) (\<lambda>attrs.
     guard_else (length attrs \<le> 64)
       (PayloadValidationError ''governed_event.attributes exceeds the limit of 64'')
    (rbind (map_exc (\<lambda>_. PayloadValidationError ''governed_event.attributes contains forbidden or invalid data'')
        (rbind (assert_no_sensitive_keys ''governed_event.attributes'' (JObj attrs)) (\<lambda>_.
          canonical_json (JObj attrs)))) (\<lambda>_. Inr attrs)))"

fun event_refs :: "nat \<Rightarrow> json list \<Rightarrow> string list res" where
  "event_refs i [] = Inr []"
| "event_refs i (JStr raw # xs) =
     guard_else (strip raw \<noteq> [] \<and> length raw \<le> 512)
       (PayloadValidationError (''governed_event.evidence_refs['' @ show_nat i @ ''] is invalid''))
    (rbind (event_refs (Suc i) xs) (\<lambda>rs. Inr (strip raw # rs)))"
| "event_refs i (x # xs) =
     Inl (PayloadValidationError (''governed_event.evidence_refs['' @ show_nat i @ ''] is invalid''))"

definition parse_event :: "(string \<Rightarrow> datetime option) \<Rightarrow> json \<Rightarrow> governed_event res" where
  "parse_event fromiso j =
     rbind (require_object ''governed_event'' j) (\<lambda>kvs.
     rbind (require_fields ''governed_event'' event_fields event_fields kvs) (\<lambda>_.
     guard_else (jget_null (JObj kvs) ''schema_version'' = JStr ''lyte.event.v1'')
       (PayloadValidationError ''governed_event.schema_version must be lyte.event.v1'')
    (rbind (event_string kvs ''event_id'') (\<lambda>eid.
     rbind (event_string kvs ''source_id'') (\<lambda>source.
     rbind (event_string kvs ''event_type'') (\<lambda>etype.
     rbind (event_string kvs ''subject_type'') (\<lambda>stype.
     rbind (event_string kvs ''subject_id'') (\<lambda>sid.
     rbind (event_time fromiso (jget_null (JObj kvs) ''occurred_at'')) (\<lambda>ts.
     rbind (event_label (jget_null (JObj kvs) ''truth_label'')) (\<lambda>label.
     rbind (event_attributes (jget_null (JObj kvs) ''attributes'')) (\<lambda>attrs.
     rbind (require_list ''governed_event.evidence_refs'' 32 (jget_null (JObj kvs) ''evidence_refs'')) (\<lambda>raw.
     rbind (event_refs 0 raw) (\<lambda>refs.
       Inr \<lparr>ge_version = ''lyte.event.v1'', ge_id = eid, ge_source = source, ge_type = etype,
            ge_subject_type = stype, ge_subject_id = sid, ge_occurred = ts, ge_label = label,
            ge_attrs = attrs, ge_refs = dedup refs\<rparr>)))))))))))))"

subsection \<open>The verifier\<close>

record event_verifier =
  vf_sources :: "string list"
  vf_secret :: "string option"
  vf_unsigned :: bool
  vf_max_body :: nat
  vf_skew :: int

definition mk_verifier ::
  "string list \<Rightarrow> string option \<Rightarrow> bool \<Rightarrow> nat \<Rightarrow> int \<Rightarrow> event_verifier res" where
  "mk_verifier allowed secret allow_unsigned max_body skew =
     (let sources = dedup (map strip allowed) in
      guard_else (sources \<noteq> [] \<and> list_all safe_id sources)
        (ValueError ''allowed_sources must contain valid source identifiers'')
     (guard_else (case secret of None \<Rightarrow> True | Some k \<Rightarrow> 32 \<le> length k)
        (ValueError ''HMAC secret must contain at least 32 bytes'')
     (guard_else (secret \<noteq> None \<or> allow_unsigned)
        (ValueError ''an HMAC secret is required unless unsigned mode is explicit'')
     (guard_else (1024 \<le> max_body \<and> max_body \<le> 2000000)
        (ValueError ''max_body_bytes must be between 1024 and 2000000'')
     (guard_else (30 \<le> skew \<and> skew \<le> 3600)
        (ValueError ''max_timestamp_skew_seconds must be between 30 and 3600'')
       (Inr \<lparr>vf_sources = sources, vf_secret = secret, vf_unsigned = allow_unsigned,
            vf_max_body = max_body, vf_skew = skew\<rparr>))))))"

text \<open>The signature of a call that passed the timestamp and nonce checks, so that both encode as
  ASCII.\<close>

definition sign_governed_event :: "(string \<Rightarrow> string \<Rightarrow> string) \<Rightarrow> string \<Rightarrow> string \<Rightarrow> string \<Rightarrow> string \<Rightarrow> string res" where
  "sign_governed_event mac secret timestamp nonce body =
     guard_else (32 \<le> length secret) (ValueError ''HMAC secret must contain at least 32 bytes'')
       (Inr (''sha256='' @ mac secret (timestamp @ ''.'' @ nonce @ ''.'' @ body)))"

record event_call =
  ec_body :: string
  ec_scope :: scope
  ec_signature :: "string option"
  ec_timestamp :: string
  ec_nonce :: string
  ec_key :: string
  ec_now :: datetime

record verified_event =
  ve_scope :: scope
  ve_event :: governed_event
  ve_claim :: replay_claim
  ve_signed :: bool
  ve_sha :: string
  ve_receipt :: receipt_draft

text \<open>\<open>current.timestamp() - signed\_at\_seconds\<close> converts the integer to a float first.\<close>

definition check_age :: "event_verifier \<Rightarrow> event_call \<Rightarrow> unit res" where
  "check_age v c =
     guard_else (is_aware (ec_now c)) (ValueError ''now must be timezone-aware'')
    (case py_int_str (ec_timestamp c) of
       None \<Rightarrow> Inl (TimestampSkewError ''signature timestamp must be Unix seconds'')
     | Some n \<Rightarrow>
         guard_else (show_int n = ec_timestamp c \<and> 0 \<le> n)
           (TimestampSkewError ''signature timestamp must be canonical Unix seconds'')
        (rbind (float_of_int n) (\<lambda>_.
         guard_else (\<bar>micros (ec_now c) - seconds n\<bar> \<le> seconds (vf_skew v))
           (TimestampSkewError ''signature timestamp is outside the permitted skew'')
        (guard_else (claim_key_ok (ec_nonce c))
           (PayloadValidationError ''nonce must contain 16-128 safe characters'') (Inr ())))))"


definition signature_ok :: "string \<Rightarrow> bool" where
  "signature_ok s = (take 7 s = ''sha256='' \<and> is_hex64 (drop 7 s))"

definition check_signature :: "(string \<Rightarrow> string \<Rightarrow> string) \<Rightarrow> event_verifier \<Rightarrow> event_call \<Rightarrow> bool res" where
  "check_signature mac v c =
     (case vf_secret v of
        Some secret \<Rightarrow>
          (case ec_signature c of
             Some signature \<Rightarrow>
               guard_else (signature_ok signature)
                 (SignatureVerificationError ''HMAC signature is missing or malformed'')
              (rbind (sign_governed_event mac secret (ec_timestamp c) (ec_nonce c) (ec_body c)) (\<lambda>expected.
               guard_else (signature = expected)
                 (SignatureVerificationError ''HMAC signature verification failed'') (Inr True)))
           | None \<Rightarrow> Inl (SignatureVerificationError ''HMAC signature is missing or malformed''))
      | None \<Rightarrow> guard_else (vf_unsigned v)
                  (SignatureVerificationError ''HMAC verification is unavailable'') (Inr False))"

definition event_receipt ::
  "(string \<Rightarrow> string) \<Rightarrow> event_call \<Rightarrow> governed_event \<Rightarrow> bool \<Rightarrow> bool \<Rightarrow> string \<Rightarrow> receipt_draft res" where
  "event_receipt hx c e verified replayed sha =
     rbind (isoformat_z (ge_occurred e)) (\<lambda>ts.
     mk_receipt_draft ''ingest.governed_event.verified'' (ge_subject_type e) (ge_subject_id e)
       (scope_to_dict (ec_scope c) @
        [(''event_id'', JStr (ge_id e)), (''source_id'', JStr (ge_source e)),
         (''event_type'', JStr (ge_type e)), (''occurred_at'', JStr ts),
         (''signature_verified'', JBool verified), (''unsigned_mode'', JBool (\<not> verified)),
         (''replayed'', JBool replayed), (''payload_sha256'', JStr sha),
         (''idempotency_key_sha256'', JStr (hx (ec_key c)))])
       (ge_label e) (ge_refs e))"

text \<open>Everything before the registry is touched.\<close>

definition check_event ::
  "(string \<Rightarrow> string \<Rightarrow> string) \<Rightarrow> (string \<Rightarrow> decoded) \<Rightarrow> (string \<Rightarrow> datetime option) \<Rightarrow> event_verifier \<Rightarrow>
   event_call \<Rightarrow> (bool \<times> governed_event) res" where
  "check_event mac decode fromiso v c =
     rbind (check_age v c) (\<lambda>_.
     rbind (check_signature mac v c) (\<lambda>verified.
     rbind (strict_json_loads decode (vf_max_body v) ''governed_event'' (ec_body c)) (\<lambda>j.
     rbind (parse_event fromiso j) (\<lambda>e.
     guard_else (ge_source e \<in> set (vf_sources v))
       (GovernedEventError ''event source is not in the code-defined allowlist'')
       (Inr (verified, e))))))"

definition verify_event ::
  "(string \<Rightarrow> string) \<Rightarrow> (string \<Rightarrow> string) \<Rightarrow> (string \<Rightarrow> string \<Rightarrow> string) \<Rightarrow> (string \<Rightarrow> decoded) \<Rightarrow>
   (string \<Rightarrow> datetime option) \<Rightarrow> event_verifier \<Rightarrow> registry \<Rightarrow> event_call \<Rightarrow> verified_event res \<times> registry" where
  "verify_event hx hb mac decode fromiso v rp c =
     (case check_event mac decode fromiso v c of
        Inl e \<Rightarrow> (Inl e, rp)
      | Inr (verified, e) \<Rightarrow>
          let sha = hb (ec_body c) in
          (case claim_event rp (ec_nonce c) (ec_key c) sha (ec_now c) of
             (Inl x, rp') \<Rightarrow> (Inl x, rp')
           | (Inr claim, rp') \<Rightarrow>
               (rbind (event_receipt hx c e verified (pc_replayed claim) sha) (\<lambda>receipt.
                  Inr \<lparr>ve_scope = ec_scope c, ve_event = e, ve_claim = claim, ve_signed = verified,
                       ve_sha = sha, ve_receipt = receipt\<rparr>), rp')))"

definition verified_to_dict :: "(string \<Rightarrow> string) \<Rightarrow> verified_event \<Rightarrow> (string \<times> json) list res" where
  "verified_to_dict hx x =
     rbind (event_to_dict (ve_event x)) (\<lambda>e.
       Inr (scope_to_dict (ve_scope x) @
            [(''event'', JObj e), (''signature_verified'', JBool (ve_signed x)),
             (''replayed'', JBool (pc_replayed (ve_claim x))), (''payload_sha256'', JStr (ve_sha x)),
             (''idempotency'', JObj (idem_claim_to_dict hx (pc_idem (ve_claim x))))]))"

text \<open>Calls one after the other on one registry: what each returned, and the registry after.\<close>

fun verify_all ::
  "(event_call \<Rightarrow> registry \<Rightarrow> 'r \<times> registry) \<Rightarrow> registry \<Rightarrow> event_call list \<Rightarrow> 'r list \<times> registry" where
  "verify_all f rp [] = ([], rp)"
| "verify_all f rp (c # cs) =
     (let (r, rp1) = f c rp; (rs, rp2) = verify_all f rp1 cs in (r # rs, rp2))"

subsection \<open>Lemmas\<close>

lemma seconds_less [simp]: "seconds a < seconds b \<longleftrightarrow> a < b" "seconds a \<le> seconds b \<longleftrightarrow> a \<le> b"
  by (simp_all add: seconds_def)

lemma aset_other: "(k, v) \<in> set d \<Longrightarrow> k \<noteq> k' \<Longrightarrow> (k, v) \<in> set (aset d k' v')"
  by (induction d k' v' rule: aset.induct) auto

lemma aset_new: "(k, v) \<in> set (aset d k v)"
  by (induction d k v rule: aset.induct) auto

lemma length_aset: "length (aset d k v) = (if k \<in> fst ` set d then length d else Suc (length d))"
  by (induction d k v rule: aset.induct) auto

lemma alookup_key: "alookup d k = Some v \<Longrightarrow> k \<in> fst ` set d"
  by (induction d k rule: alookup.induct) (auto split: if_splits)

lemma claim_locked_Inr:
  assumes "claim_locked rp nonce claim t = (Inr c, rp')"
  shows "nonce \<notin> fst ` set (rp_nonces rp)" "length (rp_nonces rp) < rp_max rp"
    "alookup (rp_claims rp) (ic_key claim) = None \<longrightarrow> length (rp_claims rp) < rp_max rp"
    "rp' = rp\<lparr>rp_nonces := aset (rp_nonces rp) nonce (t + seconds (rp_retention rp)),
              rp_claims := aset (rp_claims rp) (ic_key claim) (ic_sha claim, t + seconds (rp_retention rp))\<rparr>"
  using assms by (auto simp: claim_locked_def Let_def split: if_splits)

lemma claim_locked_Inl: "claim_locked rp nonce claim t = (Inl e, rp') \<Longrightarrow> rp' = rp"
  by (auto simp: claim_locked_def Let_def split: if_splits)

text \<open>The three outcomes of a claim: nothing happened, expired entries were dropped, or the nonce
  was new and was entered.\<close>

lemma claim_event_cases:
  assumes "claim_event rp nonce key sha now = (r, rp')"
  obtains (refused) e where "r = Inl e" "rp' = rp"
  | (pruned) e where "r = Inl e" "rp' = prune (micros now) rp"
  | (entered) c claim where "r = Inr c" "mk_idem_claim key sha = Inr claim"
      "claim_locked (prune (micros now) rp) nonce claim (micros now) = (Inr c, rp')"
proof (cases "claim_key_ok nonce \<and> is_aware now")
  case False
  then show thesis using assms refused by (auto simp: claim_event_def split: if_splits)
next
  case True
  show thesis
  proof (cases "mk_idem_claim key sha")
    case (Inl e)
    then show thesis using True assms refused by (auto simp: claim_event_def)
  next
    case (Inr claim)
    then have l: "claim_locked (prune (micros now) rp) nonce claim (micros now) = (r, rp')"
      using True assms by (simp add: claim_event_def)
    show thesis
    proof (cases r)
      case (Inl e)
      then show thesis using l claim_locked_Inl pruned by blast
    next
      case (Inr c)
      then show thesis using l \<open>mk_idem_claim key sha = Inr claim\<close> entered by blast
    qed
  qed
qed

lemma claim_event_keeps:
  assumes "claim_event rp nonce key sha now = (r, rp')" "(n, e) \<in> set (rp_nonces rp)" "micros now < e"
  shows "(n, e) \<in> set (rp_nonces rp')" "n = nonce \<Longrightarrow> \<exists>x. r = Inl x" "rp_retention rp' = rp_retention rp"
proof -
  have kept: "(n, e) \<in> set (rp_nonces (prune (micros now) rp))" using assms(2,3) by (auto simp: prune_def)
  have "(n, e) \<in> set (rp_nonces rp') \<and> (n = nonce \<longrightarrow> (\<exists>x. r = Inl x)) \<and> rp_retention rp' = rp_retention rp"
    using assms(1)
  proof (cases rule: claim_event_cases)
    case (entered c claim)
    note l = claim_locked_Inr [OF entered(3)]
    have "n \<noteq> nonce" using l(1) kept by force
    then show ?thesis using kept by (simp add: l(4) aset_other prune_def)
  qed (use kept assms(2) in \<open>auto simp: prune_def\<close>)
  then show "(n, e) \<in> set (rp_nonces rp')" "n = nonce \<Longrightarrow> \<exists>x. r = Inl x" "rp_retention rp' = rp_retention rp" by blast+
qed

lemma claim_event_enters:
  assumes "claim_event rp nonce key sha now = (Inr c, rp')"
  shows "(nonce, micros now + seconds (rp_retention rp)) \<in> set (rp_nonces rp')" "rp_retention rp' = rp_retention rp"
proof -
  obtain claim where "claim_locked (prune (micros now) rp) nonce claim (micros now) = (Inr c, rp')"
    using assms by (cases rule: claim_event_cases) auto
  note l = claim_locked_Inr [OF this]
  show "(nonce, micros now + seconds (rp_retention rp)) \<in> set (rp_nonces rp')" "rp_retention rp' = rp_retention rp"
    by (simp_all add: l(4) aset_new prune_def)
qed

definition registry_ok :: "registry \<Rightarrow> bool" where
  "registry_ok rp \<longleftrightarrow>
     length (rp_nonces rp) \<le> rp_max rp \<and> length (rp_claims rp) \<le> rp_max rp"

lemma claim_event_ok:
  assumes "claim_event rp nonce key sha now = (r, rp')" "registry_ok rp"
  shows "registry_ok rp' \<and> rp_max rp' = rp_max rp \<and> rp_retention rp' = rp_retention rp"
proof -
  have p: "registry_ok (prune t rp)" for t
    using assms(2) length_filter_le order_trans unfolding registry_ok_def prune_def by (auto intro: order_trans [OF length_filter_le])
  show ?thesis
    using assms(1)
  proof (cases rule: claim_event_cases)
    case (entered c claim)
    note l = claim_locked_Inr [OF entered(3)]
    let ?d = "rp_claims (prune (micros now) rp)"
    have "length (aset ?d (ic_key claim) x) \<le> rp_max rp" for x
    proof (cases "ic_key claim \<in> fst ` set ?d")
      case True
      then show ?thesis using p [of "micros now"] by (simp add: length_aset registry_ok_def) (simp add: prune_def)
    next
      case False
      then have "alookup ?d (ic_key claim) = None" using alookup_key by fastforce
      then show ?thesis using False l(3) by (simp add: length_aset) (simp add: prune_def)
    qed
    moreover have "length (aset (rp_nonces (prune (micros now) rp)) nonce x) \<le> rp_max rp" for x
      using l(2) by (auto simp: length_aset prune_def)
    ultimately show ?thesis by (simp add: l(4) registry_ok_def) (simp add: prune_def)
  qed (use assms(2) p in \<open>auto simp: prune_def\<close>)
qed

lemma verify_event_cases:
  assumes "verify_event hx hb mac decode fromiso v rp c = (r, rp')"
  obtains (rejected) e where "r = Inl e" "rp' = rp"
  | (claimed) verified ev k where "check_event mac decode fromiso v c = Inr (verified, ev)"
      "claim_event rp (ec_nonce c) (ec_key c) (hb (ec_body c)) (ec_now c) = (k, rp')"
      "r = rbind k (\<lambda>k. rbind (event_receipt hx c ev verified (pc_replayed k) (hb (ec_body c))) (\<lambda>receipt.
         Inr \<lparr>ve_scope = ec_scope c, ve_event = ev, ve_claim = k, ve_signed = verified,
              ve_sha = hb (ec_body c), ve_receipt = receipt\<rparr>))"
proof (cases "check_event mac decode fromiso v c")
  case (Inl e)
  then show thesis using assms by (auto simp: verify_event_def intro: rejected)
next
  case (Inr x)
  obtain verified ev where x: "x = (verified, ev)" by (cases x)
  obtain k rp1 where k: "claim_event rp (ec_nonce c) (ec_key c) (hb (ec_body c)) (ec_now c) = (k, rp1)"
    by (cases "claim_event rp (ec_nonce c) (ec_key c) (hb (ec_body c)) (ec_now c)")
  show thesis
    by (rule claimed [of verified ev k]) (use assms Inr x k in \<open>cases k; simp add: verify_event_def Let_def\<close>)+
qed

lemma check_age_Inr:
  "check_age v c = Inr u \<longleftrightarrow> is_aware (ec_now c) \<and> claim_key_ok (ec_nonce c) \<and>
     (\<exists>n x. py_int_str (ec_timestamp c) = Some n \<and> show_int n = ec_timestamp c \<and> 0 \<le> n \<and>
          float_of_int n = Inr x \<and> \<bar>micros (ec_now c) - seconds n\<bar> \<le> seconds (vf_skew v))"
  by (cases "py_int_str (ec_timestamp c)") (auto simp: check_age_def guard_else_Inr_iff rbind_Inr_iff)

lemma huge_timestamp:
  assumes "is_aware (ec_now c)" "py_int_str (ec_timestamp c) = Some n" "show_int n = ec_timestamp c" "2 ^ 1024 \<le> n"
  shows "check_age v c = Inl (OverflowError ''int too large to convert to float'')"
proof -
  have "0 \<le> n" using assms(4) order_trans [of 0 "2 ^ 1024" n] by simp
  then show ?thesis using assms(1-3) float_of_int_huge [OF assms(4)] by (simp add: check_age_def)
qed

lemma check_event_Inr:
  "check_event mac decode fromiso v c = Inr (verified, e) \<longleftrightarrow>
     (\<exists>u j. check_age v c = Inr u \<and> check_signature mac v c = Inr verified \<and>
        strict_json_loads decode (vf_max_body v) ''governed_event'' (ec_body c) = Inr j \<and>
        parse_event fromiso j = Inr e \<and> ge_source e \<in> set (vf_sources v))"
  by (auto simp: check_event_def rbind_Inr_iff guard_else_Inr_iff)

lemma verify_event_Inr:
  assumes "verify_event hx hb mac decode fromiso v rp c = (Inr x, rp')"
  shows "check_event mac decode fromiso v c = Inr (ve_signed x, ve_event x)"
    "claim_event rp (ec_nonce c) (ec_key c) (hb (ec_body c)) (ec_now c) = (Inr (ve_claim x), rp')"
    "event_receipt hx c (ve_event x) (ve_signed x) (pc_replayed (ve_claim x)) (hb (ec_body c)) = Inr (ve_receipt x)"
    "ve_scope x = ec_scope c" "ve_sha x = hb (ec_body c)"
proof -
  have "check_event mac decode fromiso v c = Inr (ve_signed x, ve_event x) \<and>
    claim_event rp (ec_nonce c) (ec_key c) (hb (ec_body c)) (ec_now c) = (Inr (ve_claim x), rp') \<and>
    event_receipt hx c (ve_event x) (ve_signed x) (pc_replayed (ve_claim x)) (hb (ec_body c)) = Inr (ve_receipt x) \<and>
    ve_scope x = ec_scope c \<and> ve_sha x = hb (ec_body c)"
    using assms
  proof (cases rule: verify_event_cases)
    case (claimed verified ev k)
    obtain y where k: "k = Inr y" using claimed(3) by (cases k) auto
    with claimed(3) [symmetric] claimed(1,2) show ?thesis by (auto simp: rbind_Inr_iff)
  qed simp
  then show "check_event mac decode fromiso v c = Inr (ve_signed x, ve_event x)"
    "claim_event rp (ec_nonce c) (ec_key c) (hb (ec_body c)) (ec_now c) = (Inr (ve_claim x), rp')"
    "event_receipt hx c (ve_event x) (ve_signed x) (pc_replayed (ve_claim x)) (hb (ec_body c)) = Inr (ve_receipt x)"
    "ve_scope x = ec_scope c" "ve_sha x = hb (ec_body c)" by blast+
qed

lemma verify_event_keeps:
  assumes "verify_event hx hb mac decode fromiso v rp c = (r, rp')"
    and "(n, e) \<in> set (rp_nonces rp)" "micros (ec_now c) < e"
  shows "(n, e) \<in> set (rp_nonces rp')" "n = ec_nonce c \<Longrightarrow> \<exists>x. r = Inl x"
proof -
  have "(n, e) \<in> set (rp_nonces rp') \<and> (n = ec_nonce c \<longrightarrow> (\<exists>x. r = Inl x))"
    using assms(1)
  proof (cases rule: verify_event_cases)
    case (claimed verified ev k)
    from claim_event_keeps [OF claimed(2) assms(2,3)] claimed(3) show ?thesis by auto
  qed (use assms(2) in simp)
  then show "(n, e) \<in> set (rp_nonces rp')" "n = ec_nonce c \<Longrightarrow> \<exists>x. r = Inl x" by blast+
qed

lemma claim_event_retention:
  assumes "claim_event rp nonce key sha now = (r, rp')"
  shows "rp_retention rp' = rp_retention rp"
  using assms
proof (cases rule: claim_event_cases)
  case (entered c claim)
  then show ?thesis using claim_locked_Inr(4) [OF entered(3)] by (simp add: prune_def)
qed (simp_all add: prune_def)

lemma verify_event_retention:
  assumes "verify_event hx hb mac decode fromiso v rp c = (r, rp')"
  shows "rp_retention rp' = rp_retention rp"
  using assms
proof (cases rule: verify_event_cases)
  case (claimed verified ev k)
  from claim_event_retention [OF claimed(2)] show ?thesis .
qed simp

abbreviation events ::
  "(string \<Rightarrow> string) \<Rightarrow> (string \<Rightarrow> string) \<Rightarrow> (string \<Rightarrow> string \<Rightarrow> string) \<Rightarrow> (string \<Rightarrow> decoded) \<Rightarrow>
   (string \<Rightarrow> datetime option) \<Rightarrow> event_verifier \<Rightarrow> registry \<Rightarrow> event_call list \<Rightarrow> verified_event res list \<times> registry" where
  "events hx hb mac decode fromiso v \<equiv> verify_all (\<lambda>c rp. verify_event hx hb mac decode fromiso v rp c)"

lemma events_refuse_known:
  assumes "events hx hb mac decode fromiso v rp cs = (rs, rp')" "(n, e) \<in> set (rp_nonces rp)"
    and "j < length cs" "ec_nonce (cs ! j) = n" "\<forall>k \<le> j. micros (ec_now (cs ! k)) < e"
  shows "\<exists>x. rs ! j = Inl x"
  using assms
proof (induction cs arbitrary: rp rs j)
  case (Cons c cs)
  obtain r rp1 where r: "verify_event hx hb mac decode fromiso v rp c = (r, rp1)"
    by (cases "verify_event hx hb mac decode fromiso v rp c")
  obtain rs1 where rs: "events hx hb mac decode fromiso v rp1 cs = (rs1, rp')" "rs = r # rs1"
    using Cons.prems(1) r by (auto split: prod.splits)
  have now: "micros (ec_now c) < e" using Cons.prems(5) by (metis le0 nth_Cons_0)
  note keep = verify_event_keeps [OF r Cons.prems(2) now]
  show ?case
  proof (cases j)
    case 0
    then show ?thesis using keep(2) Cons.prems(4) rs(2) by auto
  next
    case (Suc i)
    have "\<forall>k \<le> i. micros (ec_now (cs ! k)) < e" using Cons.prems(5) Suc by (metis Suc_le_mono nth_Cons_Suc)
    then show ?thesis using Cons.IH [OF rs(1) keep(1)] Cons.prems(3,4) Suc rs(2) by simp
  qed
qed simp

lemma events_accepted:
  assumes "events hx hb mac decode fromiso v rp cs = (rs, rp')" "j < length cs" "rs ! j = Inr y"
  shows "\<exists>rp1 rp2. verify_event hx hb mac decode fromiso v rp1 (cs ! j) = (Inr y, rp2)"
  using assms
proof (induction cs arbitrary: rp rs j)
  case (Cons c cs)
  obtain r rp1 where r: "verify_event hx hb mac decode fromiso v rp c = (r, rp1)"
    by (cases "verify_event hx hb mac decode fromiso v rp c")
  obtain rs1 where rs: "events hx hb mac decode fromiso v rp1 cs = (rs1, rp')" "rs = r # rs1"
    using Cons.prems(1) r by (auto split: prod.splits)
  show ?case
  proof (cases j)
    case 0
    then show ?thesis using r rs(2) Cons.prems(3) by auto
  next
    case (Suc i)
    then show ?thesis using Cons.IH [OF rs(1)] Cons.prems(2,3) rs(2) by simp
  qed
qed simp

lemma parsed_event:
  assumes "parse_event fromiso j = Inr e"
  shows "ge_label e \<notin> {UNAVAILABLE, ROADMAP}" "is_aware (ge_occurred e)"
    "\<forall>k \<in> json_keys (JObj (ge_attrs e)). \<not> is_sensitive_key k"
proof -
  from assms obtain l j1 t j2 attrs j3 where "event_label j1 = Inr l" "event_time fromiso j2 = Inr t"
    "event_attributes j3 = Inr attrs" and e: "ge_label e = l" "ge_occurred e = t" "ge_attrs e = attrs"
    unfolding parse_event_def rbind_Inr_iff guard_else_Inr_iff by auto
  then show "ge_label e \<notin> {UNAVAILABLE, ROADMAP}" "is_aware (ge_occurred e)"
    "\<forall>k \<in> json_keys (JObj (ge_attrs e)). \<not> is_sensitive_key k"
    by (auto simp: event_label_def event_time_def event_attributes_def res_simps assert_no_sensitive_iff
        split: json.splits option.splits)
qed

lemma event_receipt_ok:
  assumes "event_receipt hx c e verified replayed sha = Inr d"
  shows "receipt_draft_ok d" "rd_label d = ge_label e"
proof -
  obtain stype sid payload refs where
    d: "mk_receipt_draft ''ingest.governed_event.verified'' stype sid payload (ge_label e) refs = Inr d"
    using assms unfolding event_receipt_def rbind_Inr_iff by blast
  show "receipt_draft_ok d" using mk_receipt_draft_ok [OF d] .
  show "rd_label d = ge_label e" using d unfolding mk_receipt_draft_def guard_else_Inr_iff rbind_Inr_iff by auto
qed

lemma event_receipt_total:
  assumes "is_aware (ge_occurred e)" "name_ok (ge_subject_type e)" "strip (ge_subject_id e) \<noteq> []"
    "length (strip (ge_subject_id e)) \<le> 256"
  shows "\<exists>d. event_receipt hx c e verified replayed sha = Inr d"
proof -
  have keys: "name_ok ''ingest.governed_event.verified''" "\<not> is_sensitive_key ''tenant_id''" "\<not> is_sensitive_key ''workspace_id''"
    "\<not> is_sensitive_key ''event_id''" "\<not> is_sensitive_key ''source_id''" "\<not> is_sensitive_key ''event_type''"
    "\<not> is_sensitive_key ''occurred_at''" "\<not> is_sensitive_key ''signature_verified''" "\<not> is_sensitive_key ''unsigned_mode''"
    "\<not> is_sensitive_key ''replayed''" "\<not> is_sensitive_key ''payload_sha256''" "\<not> is_sensitive_key ''idempotency_key_sha256''"
    by code_simp+
  obtain ts where ts: "isoformat_z (ge_occurred e) = Inr ts" using assms(1) isoformat_z_Inr_iff by blast
  let ?p = "scope_to_dict (ec_scope c) @
        [(''event_id'', JStr (ge_id e)), (''source_id'', JStr (ge_source e)),
         (''event_type'', JStr (ge_type e)), (''occurred_at'', JStr ts),
         (''signature_verified'', JBool verified), (''unsigned_mode'', JBool (\<not> verified)),
         (''replayed'', JBool replayed), (''payload_sha256'', JStr sha),
         (''idempotency_key_sha256'', JStr (hx (ec_key c)))]"
  have "assert_no_sensitive_keys ''payload'' (JObj ?p) = Inr ()"
    by (simp add: scope_to_dict_def keys)
  moreover obtain s where "canonical_json (JObj ?p) = Inr s"
    using canonical_json_total [of "JObj ?p"] by (auto simp: scope_to_dict_def)
  ultimately show ?thesis using assms keys(1) ts by (simp add: event_receipt_def mk_receipt_draft_def)
qed

subsection \<open>Properties\<close>


text \<open>C16: A verified event is authentic, fresh and admissible.  If a call succeeds, then with a
  configured secret its signature is the HMAC of timestamp, nonce and body under that secret (and
  without one, unsigned mode was enabled and the event is marked unsigned); its timestamp is
  within the permitted skew of the clock; the body fits the limit; the source is allowlisted; the
  event has a production label, an aware time and no sensitive attribute key at any depth; and
  the receipt draft to persist is well formed and carries the event's label.\<close>

theorem verified_event_sound:
  assumes "verify_event hx hb mac decode fromiso v rp c = (Inr x, rp')"
  shows "(case vf_secret v of
           Some k \<Rightarrow> ve_signed x \<and> ec_signature c =
             Some (''sha256='' @ mac k (ec_timestamp c @ ''.'' @ ec_nonce c @ ''.'' @ ec_body c))
         | None \<Rightarrow> vf_unsigned v \<and> \<not> ve_signed x) \<and>
    (\<exists>n. ec_timestamp c = show_int n \<and> \<bar>micros (ec_now c) - seconds n\<bar> \<le> seconds (vf_skew v)) \<and>
    length (ec_body c) \<le> vf_max_body v \<and> ge_source (ve_event x) \<in> set (vf_sources v) \<and>
    ge_label (ve_event x) \<notin> {UNAVAILABLE, ROADMAP} \<and> is_aware (ge_occurred (ve_event x)) \<and>
    (\<forall>k \<in> json_keys (JObj (ge_attrs (ve_event x))). \<not> is_sensitive_key k) \<and>
    receipt_draft_ok (ve_receipt x) \<and> rd_label (ve_receipt x) = ge_label (ve_event x)"
proof -
  note ok = verify_event_Inr [OF assms]
  from ok(1) obtain u j where age: "check_age v c = Inr u" and sig: "check_signature mac v c = Inr (ve_signed x)"
    and js: "strict_json_loads decode (vf_max_body v) ''governed_event'' (ec_body c) = Inr j"
    and ev: "parse_event fromiso j = Inr (ve_event x)" and src: "ge_source (ve_event x) \<in> set (vf_sources v)"
    unfolding check_event_Inr by blast
  have "case vf_secret v of
      Some k \<Rightarrow> ve_signed x \<and> ec_signature c =
        Some (''sha256='' @ mac k (ec_timestamp c @ ''.'' @ ec_nonce c @ ''.'' @ ec_body c))
    | None \<Rightarrow> vf_unsigned v \<and> \<not> ve_signed x"
    using sig unfolding check_signature_def sign_governed_event_def
    by (auto simp: guard_else_Inr_iff rbind_Inr_iff split: option.splits)
  moreover have "\<exists>n. ec_timestamp c = show_int n \<and> \<bar>micros (ec_now c) - seconds n\<bar> \<le> seconds (vf_skew v)"
    using age unfolding check_age_Inr by metis
  moreover have "length (ec_body c) \<le> vf_max_body v"
    using js unfolding strict_json_loads_def guard_else_Inr_iff by blast
  moreover note src parsed_event [OF ev]
  moreover note event_receipt_ok [OF ok(3)]
  ultimately show ?thesis by blast
qed

text \<open>C37: A rejected event still uses up its nonce.  The parser admits any safe identifier as
  \<open>subject\_type\<close>, but the receipt draft, built after the nonce was claimed, only lower-case
  names: an authentic event of type \<open>Service\<close> raises a bare \<open>ValueError\<close>, which is none of the
  errors the verifier declares, and the sender's retry within the retention time is refused as a
  replay.\<close>

theorem rejected_event_burns_nonce:
  assumes "check_event mac decode fromiso v c = Inr (authentic, e)"
    and "claim_event rp (ec_nonce c) (ec_key c) (hb (ec_body c)) (ec_now c) = (Inr k, rp')"
    and "\<not> name_ok (ge_subject_type e)"
    and "check_event mac decode fromiso v (c\<lparr>ec_now := later\<rparr>) = Inr (authentic, e)"
    and "micros later < micros (ec_now c) + seconds (rp_retention rp)"
  shows "verify_event hx hb mac decode fromiso v rp c =
           (Inl (ValueError ''subject_type must match ^[a-z][a-z0-9_.:-]{0,127}$''), rp') \<and>
         fst (verify_event hx hb mac decode fromiso v rp' (c\<lparr>ec_now := later\<rparr>)) =
           Inl (ReplayDetectedError ''nonce has already been used'')"
proof -
  have kind: "name_ok ''ingest.governed_event.verified''" by code_simp
  obtain ts where "isoformat_z (ge_occurred e) = Inr ts"
    using assms(1) parsed_event unfolding check_event_Inr by (metis isoformat_z_Inr_iff)
  then have receipt: "event_receipt hx c e a b sha = Inl (ValueError ''subject_type must match ^[a-z][a-z0-9_.:-]{0,127}$'')" for a b sha
    using assms(3) kind by (simp add: event_receipt_def mk_receipt_draft_def)
  obtain claim where claim: "mk_idem_claim (ec_key c) (hb (ec_body c)) = Inr claim"
    using assms(2) by (cases rule: claim_event_cases) auto
  have used: "ec_nonce c \<in> fst ` set (rp_nonces (prune (micros later) rp'))"
    using claim_event_enters(1) [OF assms(2)] assms(5) by (force simp: prune_def)
  have "claim_key_ok (ec_nonce c)" "is_aware later"
    using assms(4) unfolding check_event_Inr check_age_Inr by auto
  then have "claim_event rp' (ec_nonce c) (ec_key c) (hb (ec_body c)) later =
      (Inl (ReplayDetectedError ''nonce has already been used''), prune (micros later) rp')"
    using claim used by (simp add: claim_event_def claim_locked_def Let_def)
  then show ?thesis using assms(1,2,4) receipt by (simp add: verify_event_def Let_def)
qed

text \<open>The registries stay within their capacity whatever is sent: from a new protector, no
  sequence of calls makes either table larger than \<open>max\_entries\<close>.\<close>

theorem registries_bounded:
  assumes "mk_registry retention entries = Inr rp" "events hx hb mac decode fromiso v rp cs = (rs, rp')"
  shows "length (rp_nonces rp') \<le> entries \<and> length (rp_claims rp') \<le> entries"
proof -
  have "registry_ok rp2 \<and> rp_max rp2 = rp_max rp1"
    if "events hx hb mac decode fromiso v rp1 cs = (rs, rp2)" "registry_ok rp1" for rp1 rp2 cs rs
    using that
  proof (induction cs arbitrary: rp1 rs)
    case (Cons c cs)
    obtain r rp3 where r: "verify_event hx hb mac decode fromiso v rp1 c = (r, rp3)"
      by (cases "verify_event hx hb mac decode fromiso v rp1 c")
    have "registry_ok rp3 \<and> rp_max rp3 = rp_max rp1"
      using r
    proof (cases rule: verify_event_cases)
      case (claimed verified ev k)
      from claim_event_ok [OF claimed(2) Cons.prems(2)] show ?thesis by simp
    qed (use Cons.prems(2) in simp)
    then show ?case using Cons.IH Cons.prems(1) r by (auto split: prod.splits)
  qed simp
  moreover have "registry_ok rp \<and> rp_max rp = entries"
    using assms(1) by (auto simp: mk_registry_def guard_else_Inr_iff registry_ok_def)
  ultimately show ?thesis using assms(2) unfolding registry_ok_def by fastforce
qed

subsection \<open>Witnesses\<close>

text \<open>A signed event from an allowlisted agent, under a fixed MAC, digest, clock and reader; the
  reader takes the body for the subject type.\<close>

definition wb_decode :: "string \<Rightarrow> decoded" where
  "wb_decode body = Decoded (Pairs
     [(''schema_version'', Atom (JStr ''lyte.event.v1'')), (''event_id'', Atom (JStr ''evt-1'')),
      (''source_id'', Atom (JStr ''agent'')), (''event_type'', Atom (JStr ''deploy'')),
      (''subject_type'', Atom (JStr body)), (''subject_id'', Atom (JStr ''svc'')),
      (''occurred_at'', Atom (JStr ''2026-01-01T00:00:00Z'')), (''truth_label'', Atom (JStr ''REPORTED'')),
      (''attributes'', Pairs [(''region'', Atom (JStr ''eu''))]),
      (''evidence_refs'', Items [Atom (JStr ''run:1'')])])"

definition wb_mac :: "string \<Rightarrow> string \<Rightarrow> string" where
  "wb_mac k m = replicate 64 (CHR ''a'')"

definition wb_hash :: "string \<Rightarrow> string" where
  "wb_hash s = replicate 64 (CHR ''b'')"

definition wb_time :: "string \<Rightarrow> datetime option" where
  "wb_time s = Some (Aware 0)"

definition wb_verifier :: event_verifier where
  "wb_verifier = \<lparr>vf_sources = [''agent''], vf_secret = Some (replicate 32 (CHR ''k'')),
     vf_unsigned = False, vf_max_body = 65536, vf_skew = 300\<rparr>"

definition wb_call :: "string \<Rightarrow> int \<Rightarrow> event_call" where
  "wb_call body now = \<lparr>ec_body = body, ec_scope = \<lparr>sc_tenant = 1, sc_workspace = 2\<rparr>,
     ec_signature = Some (''sha256='' @ replicate 64 (CHR ''a'')), ec_timestamp = ''100'',
     ec_nonce = ''nonce-0123456789'', ec_key = ''key-0123456789ab'', ec_now = Aware (seconds now)\<rparr>"

definition wb_registry :: registry where
  "wb_registry = \<lparr>rp_retention = 900, rp_max = 1000, rp_nonces = [], rp_claims = []\<rparr>"

abbreviation wb_events :: "event_call list \<Rightarrow> verified_event res list \<times> registry" where
  "wb_events \<equiv> events wb_hash wb_hash wb_mac wb_decode wb_time wb_verifier wb_registry"

abbreviation wb_verify :: "registry \<Rightarrow> event_call \<Rightarrow> verified_event res \<times> registry" where
  "wb_verify \<equiv> verify_event wb_hash wb_hash wb_mac wb_decode wb_time wb_verifier"

lemma wb_age: "\<bar>now - 100\<bar> \<le> 300 \<Longrightarrow> check_age wb_verifier (wb_call body now) = Inr ()"
proof -
  assume "\<bar>now - 100\<bar> \<le> 300"
  moreover have "float_of_int 100 = Inr (Fin 100)" by (simp add: float_of_int_def f64_numeral)
  moreover have "claim_key_ok ''nonce-0123456789''" "py_int_str ''100'' = Some 100" "show_int 100 = ''100''" by code_simp+
  ultimately show ?thesis by (simp add: check_age_Inr wb_call_def wb_verifier_def seconds_def)
qed

lemma wb_signed: "check_signature wb_mac wb_verifier (wb_call body now) = Inr True"
proof -
  have "signature_ok (''sha256='' @ replicate 64 (CHR ''a''))" by code_simp
  then show ?thesis
    by (simp add: check_signature_def sign_governed_event_def wb_call_def wb_verifier_def wb_mac_def)
qed

lemma wb_labels:
  "safe_id ''evt-1''" "safe_id ''agent''" "safe_id ''deploy''" "safe_id ''service''" "safe_id ''Service''" "safe_id ''svc''"
  "claim_key_ok ''nonce-0123456789''" "claim_key_ok ''key-0123456789ab''" "is_hex64 (replicate 64 (CHR ''b''))"
  "\<not> is_sensitive_key ''region''" "label_of ''REPORTED'' = Inr REPORTED" "strip ''run:1'' = ''run:1''" "strip ''svc'' = ''svc''"
  "name_ok ''service''" "\<not> name_ok ''Service''" "name_ok ''ingest.governed_event.verified''"
  by code_simp+

definition wb_event :: "string \<Rightarrow> governed_event" where
  "wb_event stype = \<lparr>ge_version = ''lyte.event.v1'', ge_id = ''evt-1'', ge_source = ''agent'',
     ge_type = ''deploy'', ge_subject_type = stype, ge_subject_id = ''svc'', ge_occurred = Aware 0,
     ge_label = REPORTED, ge_attrs = [(''region'', JStr ''eu'')], ge_refs = [''run:1'']\<rparr>"

definition wb_fields :: "string \<Rightarrow> (string \<times> json) list" where
  "wb_fields body =
     [(''schema_version'', JStr ''lyte.event.v1''), (''event_id'', JStr ''evt-1''),
      (''source_id'', JStr ''agent''), (''event_type'', JStr ''deploy''),
      (''subject_type'', JStr body), (''subject_id'', JStr ''svc''),
      (''occurred_at'', JStr ''2026-01-01T00:00:00Z''), (''truth_label'', JStr ''REPORTED''),
      (''attributes'', JObj [(''region'', JStr ''eu'')]), (''evidence_refs'', JList [JStr ''run:1''])]"

lemma wb_parsed:
  assumes "safe_id body"
  shows "strict_json_loads wb_decode 65536 ''governed_event'' body = Inr (JObj (wb_fields body))"
    "parse_event wb_time (JObj (wb_fields body)) = Inr (wb_event body)"
proof -
  obtain s where "canonical_json (JObj (wb_fields body)) = Inr s"
    using canonical_json_total [of "JObj (wb_fields body)"] by (auto simp: wb_fields_def)
  then show "strict_json_loads wb_decode 65536 ''governed_event'' body = Inr (JObj (wb_fields body))"
    using assms unfolding safe_id_def
    by (simp add: strict_json_loads_def wb_decode_def first_repeat_def assert_finite_json_def wb_fields_def)
next
  obtain s where "canonical_json (JObj [(''region'', JStr ''eu'')]) = Inr s"
    using canonical_json_total [of "JObj [(''region'', JStr ''eu'')]"] by auto
  then show "parse_event wb_time (JObj (wb_fields body)) = Inr (wb_event body)"
    using assms by (simp add: parse_event_def event_fields_def event_string_def event_time_def event_label_def
        event_attributes_def wb_time_def wb_event_def wb_labels jget_null_def require_object_def
        require_fields_def require_list_def wb_fields_def)
qed

lemma wb_checked:
  assumes "safe_id body" "\<bar>now - 100\<bar> \<le> 300"
  shows "check_event wb_mac wb_decode wb_time wb_verifier (wb_call body now) = Inr (True, wb_event body)"
proof -
  have "vf_max_body wb_verifier = 65536" "ec_body (wb_call body now) = body" "ge_source (wb_event body) \<in> set (vf_sources wb_verifier)"
    by (simp_all add: wb_verifier_def wb_call_def wb_event_def)
  then show ?thesis using wb_age [OF assms(2)] wb_signed wb_parsed [OF assms(1)] by (simp add: check_event_Inr)
qed

definition wb_claimed :: "int \<Rightarrow> registry" where
  "wb_claimed now = wb_registry\<lparr>rp_nonces := [(''nonce-0123456789'', seconds (now + 900))],
     rp_claims := [(''key-0123456789ab'', (replicate 64 (CHR ''b''), seconds (now + 900)))]\<rparr>"

lemma wb_claim:
  "\<exists>k. claim_event wb_registry ''nonce-0123456789'' ''key-0123456789ab'' (wb_hash body) (Aware (seconds now)) =
     (Inr k, wb_claimed now) \<and> pc_replayed k = False"
  by (simp add: claim_event_def claim_locked_def wb_registry_def wb_claimed_def wb_labels mk_idem_claim_def
      wb_hash_def prune_def seconds_def Let_def algebra_simps)

lemma wb_verified: "\<exists>x. wb_verify wb_registry (wb_call ''service'' 100) = (Inr x, wb_claimed 100)"
proof -
  have call: "ec_body (wb_call b n) = b" "ec_nonce (wb_call b n) = ''nonce-0123456789''"
    "ec_key (wb_call b n) = ''key-0123456789ab''" "ec_now (wb_call b n) = Aware (seconds n)" for b n
    by (simp_all add: wb_call_def)
  have "\<exists>d. event_receipt wb_hash (wb_call b n) (wb_event ''service'') x y z = Inr d" for b n x y z
    by (rule event_receipt_total) (simp_all add: wb_event_def wb_labels)
  then obtain d where "event_receipt wb_hash (wb_call ''service'' 100) (wb_event ''service'') True False (wb_hash ''service'') = Inr d"
    by blast
  then show ?thesis using wb_checked [of "''service''" 100] wb_claim [of "''service''" 100] wb_labels(4)
    by (auto simp: verify_event_def Let_def call)
qed


lemma verified_event_sound_witness:
  "\<exists>x. fst (wb_verify wb_registry (wb_call ''service'' 100)) = Inr x \<and> receipt_draft_ok (ve_receipt x) \<and> ve_signed x"
proof -
  obtain x where x: "wb_verify wb_registry (wb_call ''service'' 100) = (Inr x, wb_claimed 100)" using wb_verified by blast
  have "vf_secret wb_verifier = Some (replicate 32 (CHR ''k''))" by (simp add: wb_verifier_def)
  then show ?thesis using verified_event_sound [OF x] x by simp
qed

lemma rejected_event_burns_nonce_witness:
  "fst (wb_verify (wb_claimed 100) (wb_call ''Service'' 101)) = Inl (ReplayDetectedError ''nonce has already been used'')"
proof -
  obtain k where k: "claim_event wb_registry (ec_nonce (wb_call ''Service'' 100)) (ec_key (wb_call ''Service'' 100))
      (wb_hash (ec_body (wb_call ''Service'' 100))) (ec_now (wb_call ''Service'' 100)) = (Inr k, wb_claimed 100)"
    using wb_claim [of "''Service''" 100] by (auto simp: wb_call_def)
  have later: "(wb_call ''Service'' 100)\<lparr>ec_now := Aware (seconds 101)\<rparr> = wb_call ''Service'' 101"
    by (simp add: wb_call_def)
  have "\<not> name_ok (ge_subject_type (wb_event ''Service''))" by (simp add: wb_event_def wb_labels)
  moreover have "check_event wb_mac wb_decode wb_time wb_verifier (wb_call ''Service'' 100) = Inr (True, wb_event ''Service'')"
    "check_event wb_mac wb_decode wb_time wb_verifier (wb_call ''Service'' 101) = Inr (True, wb_event ''Service'')"
    by (rule wb_checked; simp add: wb_labels)+
  moreover have "micros (Aware (seconds 101)) < micros (ec_now (wb_call ''Service'' 100)) + seconds (rp_retention wb_registry)"
    by (simp add: wb_call_def wb_registry_def seconds_def)
  ultimately show ?thesis
    using rejected_event_burns_nonce [where hx = wb_hash and hb = wb_hash and c = "wb_call ''Service'' 100" and rp = wb_registry
        and mac = wb_mac and decode = wb_decode and fromiso = wb_time and v = wb_verifier and authentic = True
        and e = "wb_event ''Service''" and later = "Aware (seconds 101)" and k = k and rp' = "wb_claimed 100"] k
    by (simp add: later)
qed

lemma registries_bounded_witness:
  "length (rp_nonces (snd (wb_events [wb_call ''service'' 100, wb_call ''service'' 400]))) \<le> 1000"
proof -
  have "mk_registry 900 1000 = Inr wb_registry" by (simp add: mk_registry_def wb_registry_def)
  from registries_bounded [OF this prod.collapse [symmetric]] show ?thesis by blast
qed

end
