(* ===== verification/Github_Actions.thy ===== *)
theory Github_Actions
  imports Connector_Base Binary64
begin

section \<open>The GitHub Actions reader (lyte/connectors/github\_actions.py)\<close>

text \<open>
  A bounded, read-only observation of the workflow runs of an allowlisted repository: pages are
  asked for one after the other, each is checked, and whatever goes wrong becomes an
  \<open>UNAVAILABLE\<close> result.  The HTTP client is the parameter \<open>fetch\<close>: for the repository, the page
  size, the page number and the \<open>If-None-Match\<close> header, either a transport failure or a reply, whose
  body is a list of chunks that may break off.  Parameters as in the webhook: \<open>decode\<close>,
  \<open>fromiso\<close>, \<open>hx\<close>.
\<close>

subsection \<open>Limits\<close>

record gh_limits =
  gl_pages :: nat
  gl_per_page :: nat
  gl_body :: nat
  gl_connect :: pyfloat
  gl_read :: pyfloat

definition timeout_ok :: "pyfloat \<Rightarrow> bool" where
  "timeout_ok x = (fle (rnd (1 / 10)) x \<and> fle x (Fin 30))"

definition mk_limits :: "gh_limits \<Rightarrow> gh_limits res" where
  "mk_limits l =
     guard_else (1 \<le> gl_pages l \<and> gl_pages l \<le> 10) (ValueError ''max_pages must be between 1 and 10'')
    (guard_else (1 \<le> gl_per_page l \<and> gl_per_page l \<le> 100) (ValueError ''per_page must be between 1 and 100'')
    (guard_else (1024 \<le> gl_body l \<and> gl_body l \<le> 5000000)
       (ValueError ''max_body_bytes must be between 1024 and 5000000'')
    (guard_else (timeout_ok (gl_connect l))
       (ValueError ''connect_timeout_seconds must be between 0.1 and 30 seconds'')
    (guard_else (timeout_ok (gl_read l))
       (ValueError ''read_timeout_seconds must be between 0.1 and 30 seconds'') (Inr l)))))"

subsection \<open>Runs and results\<close>

record gh_run =
  gr_id :: int
  gr_name :: string
  gr_status :: string
  gr_conclusion :: "string option"
  gr_duration :: "int option"
  gr_branch :: string
  gr_event :: string
  gr_sha :: string
  gr_created :: string
  gr_started :: string
  gr_updated :: string

definition run_to_dict :: "gh_run \<Rightarrow> (string \<times> json) list" where
  "run_to_dict r =
     [(''run_id'', JInt (gr_id r)), (''workflow_name'', JStr (gr_name r)),
      (''status'', JStr (gr_status r)), (''conclusion'', jopt (gr_conclusion r)),
      (''duration_ms'', (case gr_duration r of None \<Rightarrow> JNull | Some d \<Rightarrow> JInt d)),
      (''branch'', JStr (gr_branch r)), (''event'', JStr (gr_event r)),
      (''head_sha'', JStr (gr_sha r)), (''created_at'', JStr (gr_created r)),
      (''run_started_at'', JStr (gr_started r)), (''updated_at'', JStr (gr_updated r)),
      (''truth_label'', JStr (label_value REPORTED))]"

record gh_result =
  gh_repo :: string
  gh_state :: connector_state
  gh_runs :: "gh_run list"
  gh_receipt :: receipt_draft
  gh_etag :: "string option"
  gh_pages :: nat
  gh_complete :: bool
  gh_reason :: "string option"

definition mk_gh_result :: "gh_result \<Rightarrow> gh_result res" where
  "mk_gh_result r =
     (if gh_state r = Source_Unavailable then
        guard_else (gh_reason r \<noteq> None \<and> gh_reason r \<noteq> Some [])
          (ValueError ''UNAVAILABLE GitHub results require a reason'')
       (guard_else (gh_runs r = [])
          (ValueError ''UNAVAILABLE GitHub results cannot contain runs'') (Inr r))
      else
        guard_else (gh_reason r = None)
          (ValueError ''available GitHub results cannot have an unavailable reason'')
       (guard_else (\<not> (gh_state r = Observed_Partial \<and> gh_complete r))
          (ValueError ''partial results must declare complete=False'') (Inr r)))"

definition gh_label :: "gh_result \<Rightarrow> truth_label" where
  "gh_label r = (if gh_state r = Source_Unavailable then UNAVAILABLE else REPORTED)"

definition gh_result_to_dict :: "gh_result \<Rightarrow> (string \<times> json) list" where
  "gh_result_to_dict r =
     [(''source_id'', JStr ''github_actions''), (''repository'', JStr (gh_repo r)),
      (''state'', JStr (state_value (gh_state r))), (''truth_label'', JStr (label_value (gh_label r))),
      (''reason'', jopt (gh_reason r)), (''complete'', JBool (gh_complete r)),
      (''pages_fetched'', JInt (int (gh_pages r))), (''etag'', jopt (gh_etag r)),
      (''run_count'', JInt (int (length (gh_runs r)))),
      (''runs'', JList (map (\<lambda>x. JObj (run_to_dict x)) (gh_runs r)))]"

subsection \<open>The allowlist\<close>

definition owner_char :: "char \<Rightarrow> bool" where
  "owner_char c = (is_alnum c \<or> c \<in> set ''_.-'')"

text \<open>\<open>^[A-Za-z0-9](?:[A-Za-z0-9\_.-]{0,38})/[A-Za-z0-9\_.-]{1,100}$\<close>; no character class holds
  the slash, so the text before the first one is the owner.\<close>

definition repository_ok :: "string \<Rightarrow> bool" where
  "repository_ok s =
     (let owner = takeWhile (\<lambda>c. c \<noteq> CHR ''/'') s; name = drop (Suc (length owner)) s in
      length owner < length s \<and> owner \<noteq> [] \<and> is_alnum (hd owner) \<and> length owner \<le> 39 \<and>
      list_all owner_char (tl owner) \<and> name \<noteq> [] \<and> length name \<le> 100 \<and> list_all owner_char name)"

fun has_dots :: "string \<Rightarrow> bool" where
  "has_dots (a # b # s) = (a = CHR ''.'' \<and> b = CHR ''.'' \<or> has_dots (b # s))"
| "has_dots s = False"

definition normalize_repository :: "string \<Rightarrow> string res" where
  "normalize_repository repo =
     (let s = strip repo in
      guard_else (repository_ok s \<and> \<not> has_dots s)
        (ConnectorPolicyError ''repository must be a valid owner/name identifier'') (Inr (py_lower s)))"

record gh_connector =
  gc_allowed :: "string list"
  gc_limits :: gh_limits

definition mk_connector :: "string list \<Rightarrow> gh_limits option \<Rightarrow> gh_connector res" where
  "mk_connector repos limits =
     rbind (rmap normalize_repository repos) (\<lambda>ns.
     guard_else (ns \<noteq> []) (ValueError ''at least one GitHub repository must be allowlisted'')
       (Inr \<lparr>gc_allowed = ns,
             gc_limits = (case limits of Some l \<Rightarrow> l | None \<Rightarrow>
               \<lparr>gl_pages = 3, gl_per_page = 25, gl_body = 1000000, gl_connect = Fin 3, gl_read = Fin 8\<rparr>)\<rparr>))"

subsection \<open>Workflow runs\<close>

definition parse_time :: "(string \<Rightarrow> datetime option) \<Rightarrow> string \<Rightarrow> json \<Rightarrow> datetime res" where
  "parse_time fromiso field j =
     (case j of
        JStr raw \<Rightarrow>
          guard_else (length raw \<le> 64) (PayloadValidationError (''GitHub run '' @ field @ '' is invalid''))
         (case fromiso (py_replace ''Z'' ''+00:00'' raw) of
            None \<Rightarrow> Inl (PayloadValidationError (''GitHub run '' @ field @ '' is invalid''))
          | Some t \<Rightarrow> guard_else (is_aware t)
              (PayloadValidationError (''GitHub run '' @ field @ '' must include a timezone'')) (Inr t))
      | _ \<Rightarrow> Inl (PayloadValidationError (''GitHub run '' @ field @ '' is invalid'')))"

definition run_fields :: "string list" where
  "run_fields = [''id'', ''name'', ''status'', ''conclusion'', ''head_branch'', ''event'', ''head_sha'',
     ''created_at'', ''updated_at'']"

definition run_text :: "(string \<times> json) list \<Rightarrow> string \<Rightarrow> string res" where
  "run_text kvs field =
     (case jget_null (JObj kvs) field of
        JStr raw \<Rightarrow> guard_else (strip raw \<noteq> [] \<and> length raw \<le> 256)
          (PayloadValidationError (''GitHub workflow run '' @ field @ '' is invalid'')) (Inr (strip raw))
      | _ \<Rightarrow> Inl (PayloadValidationError (''GitHub workflow run '' @ field @ '' is invalid'')))"

definition run_conclusion :: "json \<Rightarrow> string option res" where
  "run_conclusion j =
     (case j of
        JNull \<Rightarrow> Inr None
      | JStr raw \<Rightarrow> guard_else (strip raw \<noteq> [] \<and> length raw \<le> 64)
          (PayloadValidationError ''GitHub workflow run conclusion is invalid'') (Inr (Some (strip raw)))
      | _ \<Rightarrow> Inl (PayloadValidationError ''GitHub workflow run conclusion is invalid''))"

definition is_sha1 :: "string \<Rightarrow> bool" where
  "is_sha1 s = (length s = 40 \<and> list_all (\<lambda>c. is_digit c \<or> c \<in> set ''abcdefABCDEF'') s)"

text \<open>\<open>int((updated - started).total\_seconds() * 1\_000)\<close>: a binary64 division and product, cut
  off.\<close>

definition duration_ms :: "int \<Rightarrow> int res" where
  "duration_ms us =
     rbind (int_div us 1000000) (\<lambda>s.
       case fmul s (Fin 1000) of
         Fin q \<Rightarrow> Inr (if 0 \<le> q then \<lfloor>q\<rfloor> else - \<lfloor>- q\<rfloor>)
       | NaN \<Rightarrow> Inl (ValueError ''cannot convert float NaN to integer'')
       | _ \<Rightarrow> Inl (OverflowError ''cannot convert float infinity to integer''))"

definition run_times :: "(string \<Rightarrow> datetime option) \<Rightarrow> json \<Rightarrow> (datetime \<times> datetime \<times> datetime) res" where
  "run_times fromiso j =
     rbind (parse_time fromiso ''created_at'' (jget_null j ''created_at'')) (\<lambda>created.
     rbind (if jget_null j ''run_started_at'' \<noteq> JNull
            then parse_time fromiso ''run_started_at'' (jget_null j ''run_started_at'')
            else Inr created) (\<lambda>started.
     rbind (parse_time fromiso ''updated_at'' (jget_null j ''updated_at'')) (\<lambda>updated.
     guard_else (micros created \<le> micros started \<and> micros started \<le> micros updated)
       (PayloadValidationError ''GitHub workflow run timestamps are inconsistent'')
       (Inr (created, started, updated)))))"

definition run_duration :: "string \<Rightarrow> datetime \<Rightarrow> datetime \<Rightarrow> int option res" where
  "run_duration status started updated =
     (if status = ''completed''
      then rbind (duration_ms (micros updated - micros started)) (\<lambda>d. Inr (Some d)) else Inr None)"

definition parse_run :: "(string \<Rightarrow> datetime option) \<Rightarrow> json \<Rightarrow> gh_run res" where
  "parse_run fromiso j =
     (case j of
        JObj kvs \<Rightarrow>
          guard_else (set run_fields \<subseteq> fst ` set kvs)
            (PayloadValidationError ''GitHub workflow run is missing required fields'')
         (case jget_null j ''id'' of
            JInt rid \<Rightarrow>
              guard_else (0 < rid) (PayloadValidationError ''GitHub workflow run id must be positive'')
             (rbind (run_text kvs ''name'') (\<lambda>name.
              rbind (run_text kvs ''status'') (\<lambda>status.
              rbind (run_text kvs ''head_branch'') (\<lambda>branch.
              rbind (run_text kvs ''event'') (\<lambda>event.
              rbind (run_text kvs ''head_sha'') (\<lambda>sha.
              guard_else (is_sha1 sha)
                (PayloadValidationError ''GitHub workflow run head_sha must be a 40-digit SHA'')
             (rbind (run_conclusion (jget_null j ''conclusion'')) (\<lambda>conclusion.
              rbind (run_times fromiso j) (\<lambda>(created, started, updated).
              rbind (run_duration status started updated) (\<lambda>duration.
              rbind (isoformat_z created) (\<lambda>c. rbind (isoformat_z started) (\<lambda>s.
              rbind (isoformat_z updated) (\<lambda>u.
                Inr \<lparr>gr_id = rid, gr_name = name, gr_status = status, gr_conclusion = conclusion,
                     gr_duration = duration, gr_branch = branch, gr_event = event,
                     gr_sha = py_lower sha, gr_created = c, gr_started = s, gr_updated = u\<rparr>)))))))))))))
          | _ \<Rightarrow> Inl (PayloadValidationError ''GitHub workflow run id must be positive''))
      | _ \<Rightarrow> Inl (PayloadValidationError ''GitHub workflow run must be an object''))"

subsection \<open>Receipts\<close>

definition gh_receipt_for ::
  "(string \<Rightarrow> string) \<Rightarrow> string \<Rightarrow> connector_state \<Rightarrow> nat \<Rightarrow> nat \<Rightarrow> bool \<Rightarrow> string option \<Rightarrow> string option \<Rightarrow>
   receipt_draft res" where
  "gh_receipt_for hx repo state n pages full etag reason =
     mk_receipt_draft ''source.github_actions.observed'' ''repository'' repo
       [(''source_id'', JStr ''github_actions''), (''state'', JStr (state_value state)),
        (''run_count'', JInt (int n)), (''pages_fetched'', JInt (int pages)),
        (''complete'', JBool full),
        (''etag_sha256'', (case etag of None \<Rightarrow> JNull | Some [] \<Rightarrow> JNull | Some s \<Rightarrow> JStr (hx s))),
        (''reason'', jopt reason), (''read_only'', JBool True)]
       (if state = Source_Unavailable then UNAVAILABLE else REPORTED) [''github:'' @ repo]"

definition gh_unavailable :: "(string \<Rightarrow> string) \<Rightarrow> string \<Rightarrow> string \<Rightarrow> nat \<Rightarrow> gh_result res" where
  "gh_unavailable hx repo reason pages =
     rbind (gh_receipt_for hx repo Source_Unavailable 0 pages False None (Some reason)) (\<lambda>receipt.
       mk_gh_result \<lparr>gh_repo = repo, gh_state = Source_Unavailable, gh_runs = [], gh_receipt = receipt,
         gh_etag = None, gh_pages = pages, gh_complete = False, gh_reason = Some reason\<rparr>)"

subsection \<open>Pages\<close>

record response =
  rp_status :: int
  rp_etag :: "string option"
  rp_content_length :: "string option"
  rp_chunks :: "string list"
  rp_broken :: bool

datatype reply = Transport_Failed | Reply response

datatype body = Overflow | Broken | Body string

fun read_body :: "nat \<Rightarrow> bool \<Rightarrow> string \<Rightarrow> string list \<Rightarrow> body" where
  "read_body limit broken acc [] = (if broken then Broken else Body acc)"
| "read_body limit broken acc (c # cs) =
     (if limit < length (acc @ c) then Overflow else read_body limit broken (acc @ c) cs)"

record gh_acc =
  ga_runs :: "gh_run list"
  ga_total :: "int option"
  ga_etag :: "string option"

fun add_runs :: "(string \<Rightarrow> datetime option) \<Rightarrow> gh_run list \<Rightarrow> json list \<Rightarrow> gh_run list res" where
  "add_runs fromiso runs [] = Inr runs"
| "add_runs fromiso runs (item # items) =
     rbind (parse_run fromiso item) (\<lambda>run.
     guard_else (gr_id run \<notin> gr_id ` set runs) (PayloadValidationError ''GitHub repeated a workflow run id'')
       (add_runs fromiso (runs @ [run]) items))"

text \<open>The checks on one decoded page: the state after it, and whether pagination goes on.\<close>

definition check_page ::
  "(string \<Rightarrow> datetime option) \<Rightarrow> nat \<Rightarrow> string option \<Rightarrow> gh_acc \<Rightarrow> json \<Rightarrow> (gh_acc \<times> bool) res" where
  "check_page fromiso per_page header acc decoded =
     (case decoded of
        JObj _ \<Rightarrow>
          (case (jget_null decoded ''workflow_runs'', jget_null decoded ''total_count'') of
             (JList raw, JInt m) \<Rightarrow>
               guard_else (0 \<le> m) (PayloadValidationError
                 ''github_response requires workflow_runs and non-negative total_count'')
              (guard_else (length raw \<le> per_page)
                 (PayloadValidationError ''GitHub returned more runs than requested'')
              (guard_else (case ga_total acc of None \<Rightarrow> True | Some t \<Rightarrow> m = t)
                 (PayloadValidationError ''GitHub total_count changed during pagination'')
              (guard_else (int (length (ga_runs acc) + length raw) \<le> m)
                 (PayloadValidationError ''GitHub returned more runs than total_count'')
              (rbind (add_runs fromiso (ga_runs acc) raw) (\<lambda>runs.
                 Inr (\<lparr>ga_runs = runs, ga_total = Some m,
                       ga_etag = (if ga_total acc = None then header else ga_etag acc)\<rparr>,
                      \<not> (length raw < per_page \<or> int (length runs) = m)))))))
           | _ \<Rightarrow> Inl (PayloadValidationError
                 ''github_response requires workflow_runs and non-negative total_count''))
      | _ \<Rightarrow> Inl (PayloadValidationError ''github_response must be an object''))"

datatype step = Return_Not_Modified "string option" | Return_Unavailable string | Raised | Escaped exc | Next gh_acc | Break gh_acc

definition caught :: "exc \<Rightarrow> bool" where
  "caught e = (case e of PayloadValidationError _ \<Rightarrow> True | ValueError _ \<Rightarrow> True | _ \<Rightarrow> False)"

definition py_or :: "string option \<Rightarrow> string option \<Rightarrow> string option" where
  "py_or a b = (case a of Some (c # s) \<Rightarrow> a | _ \<Rightarrow> b)"

text \<open>The body of the loop, once a reply is there.\<close>

definition page_step ::
  "(string \<Rightarrow> decoded) \<Rightarrow> (string \<Rightarrow> datetime option) \<Rightarrow> gh_limits \<Rightarrow> string option \<Rightarrow> nat \<Rightarrow> gh_acc \<Rightarrow>
   response \<Rightarrow> step" where
  "page_step decode fromiso l etag page acc r =
     (if rp_status r = 304 \<and> page = 1 then Return_Not_Modified (py_or (rp_etag r) etag)
      else if 300 \<le> rp_status r \<and> rp_status r < 400 then Return_Unavailable ''redirect_rejected''
      else if rp_status r \<noteq> 200
      then Return_Unavailable (if rp_status r \<in> {403, 429} then ''rate_limited_or_forbidden''
                               else ''upstream_http_'' @ show_int (rp_status r))
      else case (case py_or (rp_content_length r) None of
                   None \<Rightarrow> None
                 | Some s \<Rightarrow> (case py_int_str s of
                     None \<Rightarrow> Some ''invalid_content_length''
                   | Some n \<Rightarrow> if int (gl_body l) < n then Some ''response_body_overflow'' else None)) of
             Some reason \<Rightarrow> Return_Unavailable reason
           | None \<Rightarrow>
               (case read_body (gl_body l) (rp_broken r) [] (rp_chunks r) of
                  Overflow \<Rightarrow> Return_Unavailable ''response_body_overflow''
                | Broken \<Rightarrow> Raised
                | Body s \<Rightarrow>
                    (case rbind (strict_json_loads decode (gl_body l) ''github_response'' s)
                            (check_page fromiso (gl_per_page l) (rp_etag r) acc) of
                       Inl e \<Rightarrow> if caught e then Raised else Escaped e
                     | Inr (acc', again) \<Rightarrow> if again then Next acc' else Break acc')))"

text \<open>\<open>for page in range(1, max\_pages + 1)\<close>, with the pages left to ask for: what ended the loop
  and the replies received.  A transport failure is a \<open>Raised\<close>, as are the
  exceptions the handler names; the loop ran out when the end is a \<open>Next\<close>.\<close>

fun pages_from ::
  "(nat \<Rightarrow> reply) \<Rightarrow> (nat \<Rightarrow> gh_acc \<Rightarrow> response \<Rightarrow> step) \<Rightarrow> nat \<Rightarrow> nat \<Rightarrow> gh_acc \<Rightarrow> nat \<Rightarrow> step \<times> nat" where
  "pages_from ask f page 0 acc fetched = (Next acc, fetched)"
| "pages_from ask f page (Suc left) acc fetched =
     (case ask page of
        Transport_Failed \<Rightarrow> (Raised, fetched)
      | Reply r \<Rightarrow>
          (case f page acc r of
             Next acc' \<Rightarrow> pages_from ask f (Suc page) left acc' (Suc fetched)
           | x \<Rightarrow> (x, Suc fetched)))"

definition gh_observed ::
  "(string \<Rightarrow> string) \<Rightarrow> string \<Rightarrow> gh_acc \<Rightarrow> nat \<Rightarrow> gh_result res" where
  "gh_observed hx repo acc fetched =
     (let full = (ga_total acc = Some (int (length (ga_runs acc))));
          state = (if full then Observed else Observed_Partial) in
      rbind (gh_receipt_for hx repo state (length (ga_runs acc)) fetched full (ga_etag acc) None) (\<lambda>receipt.
        mk_gh_result \<lparr>gh_repo = repo, gh_state = state, gh_runs = ga_runs acc, gh_receipt = receipt,
          gh_etag = ga_etag acc, gh_pages = fetched, gh_complete = full, gh_reason = None\<rparr>))"

definition fetch_workflow_runs ::
  "(string \<Rightarrow> string) \<Rightarrow> (string \<Rightarrow> decoded) \<Rightarrow> (string \<Rightarrow> datetime option) \<Rightarrow>
   (string \<Rightarrow> nat \<Rightarrow> nat \<Rightarrow> string option \<Rightarrow> reply) \<Rightarrow> gh_connector \<Rightarrow> string \<Rightarrow> string option \<Rightarrow>
   gh_result res" where
  "fetch_workflow_runs hx decode fromiso fetch gc repository etag =
     rbind (normalize_repository repository) (\<lambda>repo.
     guard_else (repo \<in> set (gc_allowed gc))
       (ConnectorPolicyError ''repository is not in the code-defined allowlist'')
    (guard_else (case etag of None \<Rightarrow> True | Some e \<Rightarrow> 1 \<le> length e \<and> length e \<le> 256)
       (ConnectorPolicyError ''ETag must contain 1-256 characters'')
    (let l = gc_limits gc;
         ask = (\<lambda>page. fetch repo (gl_per_page l) page (if page = 1 then etag else None)) in
     case pages_from ask (page_step decode fromiso l etag) 1 (gl_pages l)
            \<lparr>ga_runs = [], ga_total = None, ga_etag = None\<rparr> 0 of
       (Return_Not_Modified tag, n) \<Rightarrow>
         rbind (gh_receipt_for hx repo Not_Modified 0 n True tag None) (\<lambda>receipt.
           mk_gh_result \<lparr>gh_repo = repo, gh_state = Not_Modified, gh_runs = [], gh_receipt = receipt,
             gh_etag = tag, gh_pages = n, gh_complete = True, gh_reason = None\<rparr>)
     | (Return_Unavailable reason, n) \<Rightarrow> gh_unavailable hx repo reason n
     | (Raised, n) \<Rightarrow> gh_unavailable hx repo ''transport_or_payload_failure'' n
     | (Escaped e, n) \<Rightarrow> Inl e
     | (Next acc, n) \<Rightarrow> gh_observed hx repo acc n
     | (Break acc, n) \<Rightarrow> gh_observed hx repo acc n)))"

subsection \<open>Lemmas\<close>

definition run_ok :: "gh_run \<Rightarrow> bool" where
  "run_ok r \<longleftrightarrow> 0 < gr_id r \<and> is_sha1 (gr_sha r) \<and> gr_name r \<noteq> [] \<and>
     (case gr_duration r of None \<Rightarrow> gr_status r \<noteq> ''completed'' | Some d \<Rightarrow> 0 \<le> d)"

lemma lower_sha: "is_sha1 s \<Longrightarrow> is_sha1 (py_lower s)"
proof -
  have "is_digit (lower_char c) \<or> lower_char c \<in> set ''abcdefABCDEF''"
    if "is_digit c \<or> c \<in> set ''abcdefABCDEF''" for c
  proof (cases "is_digit c")
    case True
    then have "lower_char c = c" by (auto simp: lower_char_def is_digit_def is_upper_def)
    with True show ?thesis by simp
  next
    case False
    with that have "c \<in> set ''abcdefABCDEF''" by blast
    moreover have "\<forall>c \<in> set ''abcdefABCDEF''. lower_char c \<in> set ''abcdefABCDEF''" by code_simp
    ultimately show ?thesis by blast
  qed
  then show "is_sha1 s \<Longrightarrow> is_sha1 (py_lower s)"
    by (auto simp: is_sha1_def py_lower_def list_all_iff)
qed

lemma int_div_nonneg:
  assumes "int_div a 1000000 = Inr x" "0 \<le> a"
  shows "\<exists>q. x = Fin q \<and> 0 \<le> q"
proof -
  have "0 \<le> rat_of_int a / of_int 1000000" using assms(2) by simp
  from rnd_nonneg [OF this] assms(1) show ?thesis by (auto simp: int_div_def)
qed

lemma duration_nonneg:
  assumes "duration_ms us = Inr d" "0 \<le> us"
  shows "0 \<le> d"
proof -
  obtain x where x: "int_div us 1000000 = Inr x" using assms(1) by (auto simp: duration_ms_def rbind_Inr_iff)
  then obtain q where q: "x = Fin q" "0 \<le> q" using int_div_nonneg assms(2) by blast
  then have "0 \<le> q * 1000" by simp
  from rnd_nonneg [OF this] assms(1) x q show ?thesis by (auto simp: duration_ms_def split: if_splits)
qed

lemma parse_time_cases:
  "parse_time fromiso field j = Inl e \<Longrightarrow> \<exists>s. e = PayloadValidationError s"
  "parse_time fromiso field j = Inr t \<Longrightarrow> is_aware t \<and> (\<exists>s. fromiso s = Some t)"
  by (auto simp: parse_time_def guard_else_def split: json.splits option.splits if_splits)

lemma run_times_Inr:
  assumes "run_times fromiso j = Inr (created, started, updated)"
  shows "micros created \<le> micros started" "micros started \<le> micros updated"
    "is_aware created" "is_aware started" "is_aware updated"
    "\<exists>s. fromiso s = Some started" "\<exists>s. fromiso s = Some updated"
proof -
  obtain x y where t: "parse_time fromiso ''created_at'' x = Inr created" "parse_time fromiso ''updated_at'' y = Inr updated"
    "started = created \<or> (\<exists>z. parse_time fromiso ''run_started_at'' z = Inr started)"
    "micros created \<le> micros started" "micros started \<le> micros updated"
    using assms unfolding run_times_def rbind_Inr_iff guard_else_Inr_iff by (auto split: if_splits)
  then show "micros created \<le> micros started" "micros started \<le> micros updated" by blast+
  show "is_aware created" "is_aware started" "is_aware updated"
    "\<exists>s. fromiso s = Some started" "\<exists>s. fromiso s = Some updated"
    using t parse_time_cases(2) by blast+
qed

lemma parse_run_ok:
  assumes "parse_run fromiso j = Inr r"
  shows "run_ok r"
proof (cases j)
  case (JObj kvs)
  show ?thesis
  proof (cases "jget_null j ''id''")
    case (JInt rid)
    obtain name status branch event sha conclusion created started updated duration c s u where
      p: "0 < rid" "run_text kvs ''name'' = Inr name" "is_sha1 sha"
        "run_times fromiso j = Inr (created, started, updated)"
        "run_duration status started updated = Inr duration"
      and r: "r = \<lparr>gr_id = rid, gr_name = name, gr_status = status, gr_conclusion = conclusion,
               gr_duration = duration, gr_branch = branch, gr_event = event,
               gr_sha = py_lower sha, gr_created = c, gr_started = s, gr_updated = u\<rparr>"
      using assms unfolding parse_run_def JObj JInt [unfolded JObj]
      by (simp only: json.case guard_else_Inr_iff rbind_Inr_iff split_paired_Ex prod.case) blast
    have "name \<noteq> []" using p(2) by (auto simp: run_text_def guard_else_Inr_iff split: json.splits)
    moreover have "case duration of None \<Rightarrow> status \<noteq> ''completed'' | Some d \<Rightarrow> 0 \<le> d"
      using run_times_Inr [OF p(4)] p(5) duration_nonneg by (auto simp: run_duration_def rbind_Inr_iff split: if_splits)
    ultimately show ?thesis using p(1,3) lower_sha by (cases duration) (simp_all add: run_ok_def r)
  qed (use assms JObj in \<open>auto simp: parse_run_def guard_else_Inr_iff\<close>)
qed (use assms in \<open>auto simp: parse_run_def\<close>)

lemma add_runs_Inr:
  assumes "add_runs fromiso runs items = Inr rs"
  shows "\<exists>ys. rs = runs @ ys \<and> list_all2 (\<lambda>i y. parse_run fromiso i = Inr y) items ys"
    and "distinct (map gr_id runs) \<Longrightarrow> distinct (map gr_id rs)"
    and "\<forall>r \<in> set runs. run_ok r \<Longrightarrow> \<forall>r \<in> set rs. run_ok r"
proof -
  have "(\<exists>ys. rs = runs @ ys \<and> list_all2 (\<lambda>i y. parse_run fromiso i = Inr y) items ys) \<and>
    (distinct (map gr_id runs) \<longrightarrow> distinct (map gr_id rs)) \<and>
    ((\<forall>r \<in> set runs. run_ok r) \<longrightarrow> (\<forall>r \<in> set rs. run_ok r))"
    using assms
  proof (induction fromiso runs items rule: add_runs.induct)
    case (2 fromiso runs item items)
    from "2.prems" obtain run where run: "parse_run fromiso item = Inr run" "gr_id run \<notin> gr_id ` set runs"
      "add_runs fromiso (runs @ [run]) items = Inr rs"
      by (auto simp: rbind_Inr_iff guard_else_Inr_iff)
    note ih = "2.IH" [OF run(3)]
    show ?case using ih run(1,2) parse_run_ok [OF run(1)] by (auto simp: list_all2_Cons1)
  qed auto
  then show "\<exists>ys. rs = runs @ ys \<and> list_all2 (\<lambda>i y. parse_run fromiso i = Inr y) items ys"
    "distinct (map gr_id runs) \<Longrightarrow> distinct (map gr_id rs)"
    "\<forall>r \<in> set runs. run_ok r \<Longrightarrow> \<forall>r \<in> set rs. run_ok r" by blast+
qed

text \<open>What every page keeps.\<close>

definition acc_ok :: "gh_acc \<Rightarrow> bool" where
  "acc_ok acc \<longleftrightarrow> distinct (map gr_id (ga_runs acc)) \<and> (\<forall>r \<in> set (ga_runs acc). run_ok r) \<and>
     (case ga_total acc of None \<Rightarrow> ga_runs acc = [] | Some m \<Rightarrow> int (length (ga_runs acc)) \<le> m)"

lemma check_page_Inr:
  assumes "check_page fromiso per_page header acc j = Inr (acc', again)"
  obtains raw m where "jget_null j ''workflow_runs'' = JList raw" "jget_null j ''total_count'' = JInt m"
    "length raw \<le> per_page" "ga_total acc \<noteq> None \<longrightarrow> ga_total acc = Some m"
    "int (length (ga_runs acc) + length raw) \<le> m" "add_runs fromiso (ga_runs acc) raw = Inr (ga_runs acc')"
    "ga_total acc' = Some m" "again \<longleftrightarrow> \<not> (length raw < per_page \<or> int (length (ga_runs acc')) = m)"
proof -
  from assms have "\<exists>raw m. jget_null j ''workflow_runs'' = JList raw \<and> jget_null j ''total_count'' = JInt m \<and>
    length raw \<le> per_page \<and> (ga_total acc \<noteq> None \<longrightarrow> ga_total acc = Some m) \<and>
    int (length (ga_runs acc) + length raw) \<le> m \<and> add_runs fromiso (ga_runs acc) raw = Inr (ga_runs acc') \<and>
    ga_total acc' = Some m \<and> (again \<longleftrightarrow> \<not> (length raw < per_page \<or> int (length (ga_runs acc')) = m))"
    unfolding check_page_def
    by (auto simp: guard_else_Inr_iff rbind_Inr_iff split: json.splits option.splits)
  then show thesis using that by blast
qed

lemma check_page_ok:
  assumes "check_page fromiso per_page header acc j = Inr (acc', again)" "acc_ok acc"
  shows "acc_ok acc'"
proof (rule check_page_Inr [OF assms(1)])
  fix raw m
  assume a: "int (length (ga_runs acc) + length raw) \<le> m" "ga_total acc' = Some m"
    "add_runs fromiso (ga_runs acc) raw = Inr (ga_runs acc')"
  note r = add_runs_Inr [OF a(3)]
  from r(1) have "length (ga_runs acc') = length (ga_runs acc) + length raw"
    by (auto dest: list_all2_lengthD)
  then show "acc_ok acc'" using a(1,2) r(2,3) assms(2) by (simp add: acc_ok_def)
qed

lemma page_step_ok:
  assumes "page_step decode fromiso l etag page acc r = Next a \<or> page_step decode fromiso l etag page acc r = Break a"
    and "acc_ok acc"
  shows "acc_ok a"
proof -
  obtain j again where "check_page fromiso (gl_per_page l) (rp_etag r) acc j = Inr (a, again)"
    using assms(1) unfolding page_step_def
    by (auto simp: rbind_Inr_iff split: if_splits option.splits body.splits sum.splits prod.splits)
  from check_page_ok [OF this assms(2)] show ?thesis .
qed

lemma pages_from_ok:
  assumes "pages_from ask (page_step decode fromiso l etag) page left acc fetched = (x, n)" "acc_ok acc"
  shows "n \<le> fetched + left" "x = Next a \<or> x = Break a \<Longrightarrow> acc_ok a"
proof -
  have "n \<le> fetched + left \<and> (\<forall>a. x = Next a \<or> x = Break a \<longrightarrow> acc_ok a)"
    using assms
  proof (induction left arbitrary: page acc fetched)
    case (Suc left)
    show ?case
    proof (cases "ask page")
      case (Reply r)
      show ?thesis
      proof (cases "page_step decode fromiso l etag page acc r")
        case (Next a)
        then have "pages_from ask (page_step decode fromiso l etag) (Suc page) left a (Suc fetched) = (x, n)"
          using Suc.prems(1) Reply by simp
        moreover have "acc_ok a" using Next by (intro page_step_ok [OF _ Suc.prems(2)]) blast
        ultimately have "n \<le> Suc fetched + left \<and> (\<forall>a. x = Next a \<or> x = Break a \<longrightarrow> acc_ok a)"
          by (rule Suc.IH)
        then show ?thesis by simp
      next
        case (Break a)
        then have "acc_ok a" by (intro page_step_ok [OF _ Suc.prems(2)]) blast
        then show ?thesis using Suc.prems(1) Reply Break by auto
      qed (use Suc.prems Reply in auto)
    qed (use Suc.prems in auto)
  qed auto
  then show "n \<le> fetched + left" "x = Next a \<or> x = Break a \<Longrightarrow> acc_ok a" by blast+
qed

lemma normalize_repository_Inr:
  assumes "normalize_repository s = Inr repo"
  shows "CHR ''/'' \<in> set repo" "length repo \<le> 140"
proof -
  let ?s = "strip s" and ?o = "takeWhile (\<lambda>c. c \<noteq> CHR ''/'') (strip s)"
  have repo: "repo = py_lower ?s" and ok: "repository_ok ?s"
    using assms by (simp_all add: normalize_repository_def Let_def guard_else_Inr_iff)
  have l: "length ?o < length ?s" "length ?o \<le> 39" "length (drop (Suc (length ?o)) ?s) \<le> 100"
    using ok by (simp_all add: repository_ok_def Let_def)
  have "dropWhile (\<lambda>c. c \<noteq> CHR ''/'') ?s \<noteq> []"
    using l(1) takeWhile_dropWhile_id [of "\<lambda>c. c \<noteq> CHR ''/''" ?s] by (metis append_Nil2 less_irrefl)
  then have "CHR ''/'' \<in> set ?s" by (auto simp: dropWhile_eq_Nil_conv)
  moreover have "lower_char (CHR ''/'') = CHR ''/''" by code_simp
  ultimately show "CHR ''/'' \<in> set repo" unfolding repo py_lower_def by force
  show "length repo \<le> 140" unfolding repo py_lower_def using l by simp
qed

lemma gh_receipt_total:
  assumes "CHR ''/'' \<in> set repo" "length repo \<le> 140"
  shows "\<exists>d. gh_receipt_for hx repo state n pages full etag reason = Inr d \<and> receipt_draft_ok d \<and>
    alookup (rd_payload d) ''run_count'' = Some (JInt (int n)) \<and>
    rd_label d = (if state = Source_Unavailable then UNAVAILABLE else REPORTED)"
proof -
  have keys: "name_ok ''source.github_actions.observed''" "name_ok ''repository''" "\<not> is_sensitive_key ''source_id''"
    "\<not> is_sensitive_key ''state''" "\<not> is_sensitive_key ''run_count''" "\<not> is_sensitive_key ''pages_fetched''"
    "\<not> is_sensitive_key ''complete''" "\<not> is_sensitive_key ''etag_sha256''" "\<not> is_sensitive_key ''reason''"
    "\<not> is_sensitive_key ''read_only''" by code_simp+
  have "\<not> py_isspace (CHR ''/'')" by code_simp
  then have "strip repo \<noteq> []" "length (strip repo) \<le> 256"
    using strip_nonblank [OF assms(1)] length_strip_le [of repo] assms(2) by auto
  moreover obtain tag where tag: "tag = (case etag of None \<Rightarrow> JNull | Some [] \<Rightarrow> JNull | Some s \<Rightarrow> JStr (hx s))" by blast
  then have t: "tag = JNull \<or> (\<exists>s. tag = JStr s)" by (auto split: option.splits list.splits)
  let ?p = "[(''source_id'', JStr ''github_actions''), (''state'', JStr (state_value state)),
        (''run_count'', JInt (int n)), (''pages_fetched'', JInt (int pages)),
        (''complete'', JBool full), (''etag_sha256'', tag), (''reason'', jopt reason), (''read_only'', JBool True)]"
  have r: "jopt reason = JNull \<or> (\<exists>s. jopt reason = JStr s)" by (cases reason) (auto simp: jopt_def)
  have "assert_no_sensitive_keys ''payload'' (JObj ?p) = Inr ()"
    using t r by (auto simp: keys)
  moreover obtain s where "canonical_json (JObj ?p) = Inr s"
    using canonical_json_total [of "JObj ?p"] t r by auto
  ultimately obtain d where d: "gh_receipt_for hx repo state n pages full etag reason = Inr d"
    "rd_payload d = ?p" "rd_label d = (if state = Source_Unavailable then UNAVAILABLE else REPORTED)"
    using keys(1,2) unfolding gh_receipt_for_def tag [symmetric] mk_receipt_draft_def
    by simp
  then have "receipt_draft_ok d" using mk_receipt_draft_ok unfolding gh_receipt_for_def by blast
  then show ?thesis using d by simp
qed

definition gh_honest :: "gh_result \<Rightarrow> bool" where
  "gh_honest r \<longleftrightarrow>
     distinct (map gr_id (gh_runs r)) \<and> (\<forall>x \<in> set (gh_runs r). run_ok x) \<and>
     (gh_runs r \<noteq> [] \<longrightarrow> gh_state r \<in> {Observed, Observed_Partial}) \<and>
     (gh_complete r \<longleftrightarrow> gh_state r \<in> {Observed, Not_Modified}) \<and>
     (gh_reason r \<noteq> None \<longleftrightarrow> gh_state r = Source_Unavailable) \<and>
     receipt_draft_ok (gh_receipt r) \<and> rd_label (gh_receipt r) = gh_label r \<and>
     alookup (rd_payload (gh_receipt r)) ''run_count'' = Some (JInt (int (length (gh_runs r))))"

lemma gh_unavailable_total:
  assumes "CHR ''/'' \<in> set repo" "length repo \<le> 140" "reason \<noteq> []"
  shows "\<exists>r. gh_unavailable hx repo reason n = Inr r \<and> gh_honest r \<and> gh_repo r = repo \<and> gh_pages r = n"
proof -
  obtain d where "gh_receipt_for hx repo Source_Unavailable 0 n False None (Some reason) = Inr d"
    "receipt_draft_ok d" "alookup (rd_payload d) ''run_count'' = Some (JInt 0)" "rd_label d = UNAVAILABLE"
    using gh_receipt_total [OF assms(1,2), of hx Source_Unavailable 0 n False None "Some reason"] by auto
  then show ?thesis using assms(3) by (simp add: gh_unavailable_def mk_gh_result_def gh_honest_def gh_label_def)
qed

lemma gh_observed_total:
  assumes "CHR ''/'' \<in> set repo" "length repo \<le> 140" "acc_ok acc"
  shows "\<exists>r. gh_observed hx repo acc n = Inr r \<and> gh_honest r \<and> gh_repo r = repo \<and> gh_pages r = n \<and>
    gh_runs r = ga_runs acc \<and>
    gh_state r = (if ga_total acc = Some (int (length (ga_runs acc))) then Observed else Observed_Partial)"
proof -
  let ?full = "ga_total acc = Some (int (length (ga_runs acc)))"
  let ?state = "if ?full then Observed else Observed_Partial"
  obtain d where "gh_receipt_for hx repo ?state (length (ga_runs acc)) n ?full (ga_etag acc) None = Inr d"
    "receipt_draft_ok d" "alookup (rd_payload d) ''run_count'' = Some (JInt (int (length (ga_runs acc))))"
    "rd_label d = REPORTED"
    using gh_receipt_total [OF assms(1,2), of hx ?state "length (ga_runs acc)" n ?full "ga_etag acc" None]
    by (auto split: if_splits)
  then show ?thesis using assms(3)
    by (simp add: gh_observed_def Let_def mk_gh_result_def gh_honest_def gh_label_def acc_ok_def)
qed

lemma gh_not_modified_total:
  assumes "CHR ''/'' \<in> set repo" "length repo \<le> 140"
  shows "\<exists>r. rbind (gh_receipt_for hx repo Not_Modified 0 n True tag None) (\<lambda>receipt.
           mk_gh_result \<lparr>gh_repo = repo, gh_state = Not_Modified, gh_runs = [], gh_receipt = receipt,
             gh_etag = tag, gh_pages = n, gh_complete = True, gh_reason = None\<rparr>) = Inr r \<and>
         gh_honest r \<and> gh_repo r = repo \<and> gh_pages r = n"
proof -
  obtain d where "gh_receipt_for hx repo Not_Modified 0 n True tag None = Inr d"
    "receipt_draft_ok d" "alookup (rd_payload d) ''run_count'' = Some (JInt 0)" "rd_label d = REPORTED"
    using gh_receipt_total [OF assms(1,2), of hx Not_Modified 0 n True tag None] by auto
  then show ?thesis by (simp add: mk_gh_result_def gh_honest_def gh_label_def)
qed

lemma page_step_reason:
  "page_step decode fromiso l etag page acc r = Return_Unavailable reason \<Longrightarrow> reason \<noteq> []"
  unfolding page_step_def by (auto split: if_splits option.splits body.splits sum.splits prod.splits)

lemma pages_from_reason:
  "pages_from ask (page_step decode fromiso l etag) page left acc fetched = (Return_Unavailable reason, n) \<Longrightarrow> reason \<noteq> []"
proof (induction left arbitrary: page acc fetched)
  case (Suc left)
  show ?case
  proof (cases "ask page")
    case (Reply r)
    then show ?thesis using Suc page_step_reason
      by (cases "page_step decode fromiso l etag page acc r") auto
  qed (use Suc.prems in auto)
qed simp

abbreviation start_acc :: gh_acc where
  "start_acc \<equiv> \<lparr>ga_runs = [], ga_total = None, ga_etag = None\<rparr>"

lemma start_acc_ok: "acc_ok start_acc"
  by (simp add: acc_ok_def)

text \<open>A fetch that is allowed either lets an exception escape or returns an honest result.\<close>

lemma fetch_cases:
  assumes "normalize_repository repository = Inr repo" "repo \<in> set (gc_allowed gc)"
    "case etag of None \<Rightarrow> True | Some e \<Rightarrow> 1 \<le> length e \<and> length e \<le> 256"
    and x: "pages_from (\<lambda>page. fetch repo (gl_per_page (gc_limits gc)) page (if page = 1 then etag else None))
       (page_step decode fromiso (gc_limits gc) etag) 1 (gl_pages (gc_limits gc)) start_acc 0 = (x, n)"
  obtains (escaped) e where "x = Escaped e" "fetch_workflow_runs hx decode fromiso fetch gc repository etag = Inl e"
  | (returned) r where "fetch_workflow_runs hx decode fromiso fetch gc repository etag = Inr r"
      "gh_honest r" "gh_repo r = repo" "gh_pages r = n" "n \<le> gl_pages (gc_limits gc)"
      "\<forall>a. x = Next a \<or> x = Break a \<longrightarrow> gh_runs r = ga_runs a \<and>
         gh_state r = (if ga_total a = Some (int (length (ga_runs a))) then Observed else Observed_Partial)"
proof -
  note repo = normalize_repository_Inr [OF assms(1)]
  note ok = pages_from_ok [OF x start_acc_ok]
  have f: "fetch_workflow_runs hx decode fromiso fetch gc repository etag =
    (case x of
       Return_Not_Modified tag \<Rightarrow>
         rbind (gh_receipt_for hx repo Not_Modified 0 n True tag None) (\<lambda>receipt.
           mk_gh_result \<lparr>gh_repo = repo, gh_state = Not_Modified, gh_runs = [], gh_receipt = receipt,
             gh_etag = tag, gh_pages = n, gh_complete = True, gh_reason = None\<rparr>)
     | Return_Unavailable reason \<Rightarrow> gh_unavailable hx repo reason n
     | Raised \<Rightarrow> gh_unavailable hx repo ''transport_or_payload_failure'' n
     | Escaped e \<Rightarrow> Inl e | Next a \<Rightarrow> gh_observed hx repo a n | Break a \<Rightarrow> gh_observed hx repo a n)"
    unfolding fetch_workflow_runs_def assms(1) rbind_simps Let_def x
    using assms(2,3) by (cases x) simp_all
  have n: "n \<le> gl_pages (gc_limits gc)" using ok(1) by simp
  show thesis
  proof (cases x)
    case (Return_Not_Modified tag)
    then show thesis using gh_not_modified_total [OF repo, of hx n tag] f n by (auto intro!: returned)
  next
    case (Return_Unavailable reason)
    then have "reason \<noteq> []" using pages_from_reason x by blast
    then show thesis using Return_Unavailable gh_unavailable_total [OF repo, of reason hx n] f n by (auto intro!: returned)
  next
    case Raised
    then show thesis using gh_unavailable_total [OF repo, of "''transport_or_payload_failure''" hx n] f n by (auto intro!: returned)
  next
    case (Escaped e)
    then show thesis using f escaped by simp
  next
    case (Next a)
    then show thesis using gh_observed_total [OF repo ok(2), of a hx n] f n by (auto intro!: returned)
  next
    case (Break a)
    then show thesis using gh_observed_total [OF repo ok(2), of a hx n] f n by (auto intro!: returned)
  qed
qed

subsection \<open>Properties\<close>

text \<open>C31: What a fetch reports is honest, whatever GitHub sends.  The repository is allowlisted and
  at most \<open>max\_pages\<close> replies were read; the runs have distinct positive ids, 40-digit SHAs and,
  when completed, a non-negative duration; only observed results hold runs; the result is
  complete exactly when it is \<open>OBSERVED\<close> or \<open>NOT\_MODIFIED\<close> and has a reason exactly when it is
  unavailable; and the receipt carries the label and the number of runs of the result.\<close>

theorem github_result_honest:
  assumes "fetch_workflow_runs hx decode fromiso fetch gc repository etag = Inr r"
  shows "gh_repo r \<in> set (gc_allowed gc) \<and> gh_pages r \<le> gl_pages (gc_limits gc) \<and> gh_honest r"
proof -
  obtain repo where g: "normalize_repository repository = Inr repo" "repo \<in> set (gc_allowed gc)"
    "case etag of None \<Rightarrow> True | Some e \<Rightarrow> 1 \<le> length e \<and> length e \<le> 256"
    using assms unfolding fetch_workflow_runs_def rbind_Inr_iff guard_else_Inr_iff by blast
  obtain x n where x: "pages_from (\<lambda>page. fetch repo (gl_per_page (gc_limits gc)) page (if page = 1 then etag else None))
       (page_step decode fromiso (gc_limits gc) etag) 1 (gl_pages (gc_limits gc)) start_acc 0 = (x, n)"
    by (rule prod.exhaust)
  from g x show ?thesis by (cases rule: fetch_cases [where hx = hx]) (use assms g(2) in auto)
qed

text \<open>A faithful upstream: page \<open>k\<close> is the \<open>k\<close>-th slice of the list, with its length.\<close>

definition serves ::
  "(string \<Rightarrow> decoded) \<Rightarrow> gh_limits \<Rightarrow> (nat \<Rightarrow> reply) \<Rightarrow> json list \<Rightarrow> bool" where
  "serves decode l ask items \<longleftrightarrow>
     (\<forall>k < gl_pages l. \<exists>r s kvs. ask (Suc k) = Reply r \<and> rp_status r = 200 \<and> rp_content_length r = None \<and>
        read_body (gl_body l) (rp_broken r) [] (rp_chunks r) = Body s \<and>
        strict_json_loads decode (gl_body l) ''github_response'' s = Inr (JObj kvs) \<and>
        jget_null (JObj kvs) ''workflow_runs'' = JList (take (gl_per_page l) (drop (k * gl_per_page l) items)) \<and>
        jget_null (JObj kvs) ''total_count'' = JInt (int (length items)))"

lemma add_runs_total:
  assumes "list_all2 (\<lambda>i y. parse_run fromiso i = Inr y) items ys" "distinct (map gr_id (runs @ ys))"
  shows "add_runs fromiso runs items = Inr (runs @ ys)"
  using assms
proof (induction items ys arbitrary: runs rule: list_all2_induct)
  case (Cons i items y ys)
  then show ?case using Cons.IH [of "runs @ [y]"] by (auto simp: guard_else_def)
qed simp

lemma page_step_serves:
  assumes "serves decode l ask items" "k < gl_pages l"
    "list_all2 (\<lambda>i y. parse_run fromiso i = Inr y) items rs" "distinct (map gr_id rs)"
    "ga_runs acc = take (k * gl_per_page l) rs" "ga_total acc \<noteq> None \<longrightarrow> ga_total acc = Some (int (length items))"
    "k * gl_per_page l \<le> length items"
  shows "\<exists>r a. ask (Suc k) = Reply r \<and> ga_runs a = take (Suc k * gl_per_page l) rs \<and>
    ga_total a = Some (int (length items)) \<and>
    page_step decode fromiso l etag (Suc k) acc r =
      (if Suc k * gl_per_page l < length items then Next a else Break a)"
proof -
  let ?p = "gl_per_page l" and ?n = "length items"
  let ?raw = "take ?p (drop (k * ?p) items)"
  have len: "length rs = ?n" using assms(3) list_all2_lengthD by metis
  obtain r s kvs where r: "ask (Suc k) = Reply r" "rp_status r = 200" "rp_content_length r = None"
    "read_body (gl_body l) (rp_broken r) [] (rp_chunks r) = Body s"
    "strict_json_loads decode (gl_body l) ''github_response'' s = Inr (JObj kvs)"
    "jget_null (JObj kvs) ''workflow_runs'' = JList ?raw" "jget_null (JObj kvs) ''total_count'' = JInt (int ?n)"
    using assms(1,2) unfolding serves_def by blast
  have take: "take (Suc k * ?p) rs = take (k * ?p) rs @ take ?p (drop (k * ?p) rs)"
    using take_add [of "k * ?p" ?p rs] by (simp only: mult_Suc add.commute)
  have all: "list_all2 (\<lambda>i y. parse_run fromiso i = Inr y) ?raw (take ?p (drop (k * ?p) rs))"
    using assms(3) by (intro list_all2_takeI list_all2_dropI)
  have dist: "distinct (map gr_id (take (k * ?p) rs @ take ?p (drop (k * ?p) rs)))"
    using distinct_take [OF assms(4), of "Suc k * ?p"] unfolding take [symmetric] by (simp only: take_map)
  have add: "add_runs fromiso (ga_runs acc) ?raw = Inr (take (Suc k * ?p) rs)"
    unfolding assms(5) take by (rule add_runs_total [OF all dist])
  define a where "a = \<lparr>ga_runs = take (Suc k * ?p) rs, ga_total = Some (int ?n),
     ga_etag = (if ga_total acc = None then rp_etag r else ga_etag acc)\<rparr>"
  have "length (ga_runs acc) + length ?raw \<le> ?n" unfolding assms(5) using assms(7) len by (auto simp: min_def)
  then have fits: "int (length (ga_runs acc) + length ?raw) \<le> int ?n" by (rule of_nat_mono)
  have total: "case ga_total acc of None \<Rightarrow> True | Some t \<Rightarrow> int ?n = t" using assms(6) by (cases "ga_total acc") auto
  have again: "(\<not> (length ?raw < ?p \<or> int (length (take (Suc k * ?p) rs)) = int ?n)) \<longleftrightarrow> Suc k * ?p < ?n"
    using len assms(7) by (auto simp: min_def)
  have "check_page fromiso ?p (rp_etag r) acc (JObj kvs) = Inr (a, Suc k * ?p < ?n)"
    unfolding check_page_def using fits total add again r(6,7) by (simp add: guard_else_def a_def)
  then have "page_step decode fromiso l etag (Suc k) acc r = (if Suc k * ?p < ?n then Next a else Break a)"
    unfolding page_step_def using r by (simp add: py_or_def)
  then show ?thesis using r(1) a_def by auto
qed

lemma pages_from_serves:
  assumes "serves decode l ask items" "list_all2 (\<lambda>i y. parse_run fromiso i = Inr y) items rs" "distinct (map gr_id rs)"
    and "k + left = gl_pages l" "0 < left"
    and "ga_runs acc = take (k * gl_per_page l) rs" "ga_total acc \<noteq> None \<longrightarrow> ga_total acc = Some (int (length items))"
    and "k * gl_per_page l \<le> length items"
  shows "\<exists>a n. ga_runs a = take (gl_pages l * gl_per_page l) rs \<and> ga_total a = Some (int (length items)) \<and>
    (pages_from ask (page_step decode fromiso l etag) (Suc k) left acc fetched = (Next a, n) \<or>
     pages_from ask (page_step decode fromiso l etag) (Suc k) left acc fetched = (Break a, n))"
  using assms(4-)
proof (induction left arbitrary: k acc fetched)
  case (Suc left)
  let ?p = "gl_per_page l"
  have k: "k < gl_pages l" using Suc.prems(1) by simp
  obtain r a where r: "ask (Suc k) = Reply r" "ga_runs a = take (Suc k * ?p) rs" "ga_total a = Some (int (length items))"
    "page_step decode fromiso l etag (Suc k) acc r = (if Suc k * ?p < length items then Next a else Break a)"
    using page_step_serves [OF assms(1) k assms(2,3) Suc.prems(3-5)] by blast
  have len: "length rs = length items" using assms(2) list_all2_lengthD by metis
  show ?case
  proof (cases "Suc k * ?p < length items")
    case True
    then have step: "pages_from ask (page_step decode fromiso l etag) (Suc k) (Suc left) acc fetched =
        pages_from ask (page_step decode fromiso l etag) (Suc (Suc k)) left a (Suc fetched)"
      using r(1,4) by simp
    show ?thesis
    proof (cases left)
      case 0
      then have "Suc k = gl_pages l" using Suc.prems(1) by simp
      then show ?thesis using step 0 r(2,3) by auto
    next
      case (Suc m)
      then show ?thesis unfolding step
        using Suc.IH [of "Suc k" a "Suc fetched"] \<open>k + Suc left = gl_pages l\<close> r(2,3) True by simp
    qed
  next
    case False
    have "Suc k * ?p \<le> gl_pages l * ?p" using k by (intro mult_le_mono1) simp
    then have "take (Suc k * ?p) rs = take (gl_pages l * ?p) rs" using False len by simp
    then show ?thesis using r False by auto
  qed
qed simp

text \<open>C14: Pagination loses and repeats nothing.  If the upstream serves a list of valid runs with
  distinct ids, page by page, the fetch returns exactly these runs in order, as \<open>OBSERVED\<close>; when
  they do not fit into \<open>max\_pages\<close> pages it returns the first \<open>max\_pages * per\_page\<close> of them, as
  \<open>OBSERVED\_PARTIAL\<close>.\<close>

theorem pagination_exact:
  assumes "normalize_repository repository = Inr repo" "repo \<in> set (gc_allowed gc)"
    and "case etag of None \<Rightarrow> True | Some e \<Rightarrow> 1 \<le> length e \<and> length e \<le> 256"
    and "mk_limits l = Inr l" "gc_limits gc = l"
    and "serves decode l (\<lambda>page. fetch repo (gl_per_page l) page (if page = 1 then etag else None)) items"
    and "rmap (parse_run fromiso) items = Inr rs" "distinct (map gr_id rs)"
  shows "\<exists>r. fetch_workflow_runs hx decode fromiso fetch gc repository etag = Inr r \<and>
    gh_runs r = take (gl_pages l * gl_per_page l) rs \<and>
    gh_state r = (if length items \<le> gl_pages l * gl_per_page l then Observed else Observed_Partial)"
proof -
  let ?ask = "\<lambda>page. fetch repo (gl_per_page l) page (if page = 1 then etag else None)"
  have all: "list_all2 (\<lambda>i y. parse_run fromiso i = Inr y) items rs" using assms(7) by (simp add: rmap_Inr_all2)
  then have len: "length rs = length items" using list_all2_lengthD by metis
  have "0 < gl_pages l" using assms(4) by (auto simp: mk_limits_def guard_else_Inr_iff)
  from pages_from_serves [OF assms(6) all assms(8), of 0 "gl_pages l" start_acc etag 0] this
  obtain a n x where a: "ga_runs a = take (gl_pages l * gl_per_page l) rs" "ga_total a = Some (int (length items))"
    "x = Next a \<or> x = Break a" "pages_from ?ask (page_step decode fromiso l etag) 1 (gl_pages l) start_acc 0 = (x, n)"
    by auto
  have full: "ga_total a = Some (int (length (ga_runs a))) \<longleftrightarrow> length items \<le> gl_pages l * gl_per_page l"
    unfolding a(1,2) by (simp only: length_take len option.inject of_nat_eq_iff) (simp add: min_def)
  show ?thesis
    using assms(1-3) a(4) [folded assms(5)]
  proof (cases rule: fetch_cases [where hx = hx])
    case (returned r)
    then show ?thesis using a(1,3) full by auto
  qed (use a(3) in auto)
qed

text \<open>Every error of the reader and of the page checks is one the handler names.\<close>

lemma caught_simps [simp]: "caught (PayloadValidationError s)" "caught (ValueError s)"
  by (simp_all add: caught_def)

lemma build_caught:
  "build path t = Inl e \<Longrightarrow> caught e"
  "build_items path ts = Inl e \<Longrightarrow> caught e"
  "build_pairs path kvs = Inl e \<Longrightarrow> caught e"
  by (induction path t and path ts and path kvs rule: build_build_items_build_pairs.induct)
    (auto simp: rbind_Inl_iff split: option.splits)

lemma walk_caught:
  "walk_finite path j = Inl e \<Longrightarrow> caught e"
  "walk_fields path kvs = Inl e \<Longrightarrow> caught e"
  "walk_elems path i xs = Inl e \<Longrightarrow> caught e"
  by (induction path j and path kvs and path i xs rule: walk_finite_walk_fields_walk_elems.induct)
    (auto simp: rbind_Inl_iff guard_else_Inl_iff split: if_splits)

lemma strict_json_loads_caught: "strict_json_loads decode m path s = Inl e \<Longrightarrow> caught e"
  unfolding strict_json_loads_def assert_finite_json_def
  by (auto simp: rbind_Inl_iff guard_else_Inl_iff map_exc_Inl_iff build_caught walk_caught
      split: if_splits decoded.splits)

lemma duration_total:
  assumes "0 \<le> us" "us \<le> 2 ^ 61"
  shows "\<exists>d. duration_ms us = Inr d"
proof -
  have f: "f64 (of_int (2 ^ 53))" "f64 (of_int (2 ^ 43))" by (rule f64_of_int; simp)+
  have "rat_of_int us \<le> of_int (2 ^ 61)" using assms(2) by (rule of_int_le_iff [THEN iffD2])
  then have "0 \<le> rat_of_int us / 1000000" "rat_of_int us / 1000000 \<le> of_int (2 ^ 43)" using assms(1) by simp_all
  from rnd_between [OF f64_0 f(2) this] obtain q where q: "rnd (rat_of_int us / 1000000) = Fin q" "0 \<le> q" "q \<le> of_int (2 ^ 43)"
    by blast
  then have "0 \<le> q * 1000" "q * 1000 \<le> of_int (2 ^ 53)" by simp_all
  from rnd_between [OF f64_0 f(1) this] obtain r where "rnd (q * 1000) = Fin r" by blast
  then show ?thesis using q(1) by (simp add: duration_ms_def int_div_def)
qed

lemma run_text_caught: "run_text kvs field = Inl e \<Longrightarrow> caught e" "run_conclusion j = Inl e \<Longrightarrow> caught e"
  by (auto simp: run_text_def run_conclusion_def guard_else_Inl_iff split: json.splits if_splits)

lemma aware_iso: "is_aware t \<Longrightarrow> isoformat_z t \<noteq> Inl e"
  by (cases t) auto

lemma run_times_caught: "run_times fromiso j = Inl e \<Longrightarrow> caught e"
  using parse_time_cases(1) [of fromiso]
  by (fastforce simp: run_times_def rbind_Inl_iff guard_else_Inl_iff split: if_splits)

lemma parse_run_caught:
  assumes range: "\<forall>s t. fromiso s = Some t \<longrightarrow> \<bar>micros t\<bar> \<le> 2 ^ 60" and e: "parse_run fromiso j = Inl e"
  shows "caught e"
proof (cases j)
  case (JObj kvs)
  show ?thesis
  proof (cases "jget_null j ''id''")
    case (JInt rid)
    note c = run_times_caught run_text_caught
    show ?thesis
    proof (rule ccontr)
      assume no: "\<not> caught e"
      have "run_duration status started updated \<noteq> Inl e \<and> isoformat_z created \<noteq> Inl e \<and>
          isoformat_z started \<noteq> Inl e \<and> isoformat_z updated \<noteq> Inl e"
        if t: "run_times fromiso j = Inr (created, started, updated)" for status created started updated
      proof -
        note t = run_times_Inr [OF t]
        have "\<bar>micros started\<bar> \<le> 2 ^ 60" "\<bar>micros updated\<bar> \<le> 2 ^ 60" using t(6,7) range by blast+
        then have "micros updated - micros started \<le> 2 ^ 61" by (simp add: abs_le_iff)
        then have "\<exists>d. duration_ms (micros updated - micros started) = Inr d" using t(2) by (intro duration_total) simp_all
        then show ?thesis using t(3-5) aware_iso by (auto simp: run_duration_def)
      qed
      then show False
        using e no c unfolding parse_run_def JObj JInt [unfolded JObj] json.case guard_else_Inl_iff rbind_Inl_iff
        by (auto simp: rbind_Inl_iff split: if_splits)
    qed
  qed (use e JObj in \<open>auto simp: parse_run_def guard_else_Inl_iff split: if_splits\<close>)
qed (use e in \<open>auto simp: parse_run_def\<close>)

lemma add_runs_caught:
  assumes range: "\<forall>s t. fromiso s = Some t \<longrightarrow> \<bar>micros t\<bar> \<le> 2 ^ 60"
  shows "add_runs fromiso runs items = Inl e \<Longrightarrow> caught e"
  by (induction items arbitrary: runs) (auto simp: rbind_Inl_iff guard_else_Inl_iff parse_run_caught [OF range] split: if_splits)

lemma check_page_caught:
  assumes range: "\<forall>s t. fromiso s = Some t \<longrightarrow> \<bar>micros t\<bar> \<le> 2 ^ 60"
  shows "check_page fromiso per_page header acc j = Inl e \<Longrightarrow> caught e"
  unfolding check_page_def
  by (auto simp: rbind_Inl_iff guard_else_Inl_iff add_runs_caught [OF range] split: json.splits if_splits)

lemma pages_from_escapes:
  assumes range: "\<forall>s t. fromiso s = Some t \<longrightarrow> \<bar>micros t\<bar> \<le> 2 ^ 60"
  shows "pages_from ask (page_step decode fromiso l etag) page left acc fetched \<noteq> (Escaped e, n)"
proof (induction left arbitrary: page acc fetched)
  case (Suc left)
  have no: "page_step decode fromiso l etag page acc r \<noteq> Escaped e" for r
    unfolding page_step_def using check_page_caught [OF range] strict_json_loads_caught
    by (auto simp: rbind_Inl_iff split: if_splits option.splits body.splits sum.splits prod.splits)
  show ?case
  proof (cases "ask page")
    case (Reply r)
    then show ?thesis using Suc.IH no [of r] by (cases "page_step decode fromiso l etag page acc r") auto
  qed simp
qed simp


subsection \<open>Witnesses\<close>

text \<open>Two runs, served one per page.\<close>

definition gx_item :: "int \<Rightarrow> json" where
  "gx_item n = JObj [(''id'', JInt n), (''name'', JStr ''build''), (''status'', JStr ''completed''),
     (''conclusion'', JStr ''success''), (''head_branch'', JStr ''main''), (''event'', JStr ''push''),
     (''head_sha'', JStr (replicate 40 (CHR ''A''))), (''created_at'', JStr ''2026-01-01T00:00:00Z''),
     (''updated_at'', JStr ''2026-01-01T00:00:00Z'')]"

definition gx_run :: "int \<Rightarrow> gh_run" where
  "gx_run n = \<lparr>gr_id = n, gr_name = ''build'', gr_status = ''completed'', gr_conclusion = Some ''success'',
     gr_duration = Some 0, gr_branch = ''main'', gr_event = ''push'', gr_sha = replicate 40 (CHR ''a''),
     gr_created = iso_utc 0, gr_started = iso_utc 0, gr_updated = iso_utc 0\<rparr>"

definition gx_time :: "string \<Rightarrow> datetime option" where
  "gx_time s = Some (Aware 0)"

definition gx_page :: "string \<Rightarrow> (string \<times> json) list" where
  "gx_page s = [(''total_count'', JInt 2),
     (''workflow_runs'', JList (if s = ''1'' then [gx_item 7] else if s = ''2'' then [gx_item 8] else []))]"

definition gx_decode :: "string \<Rightarrow> decoded" where
  "gx_decode s = Decoded (Atom (JObj (gx_page s)))"

definition gx_fetch :: "string \<Rightarrow> nat \<Rightarrow> nat \<Rightarrow> string option \<Rightarrow> reply" where
  "gx_fetch repo per_page page tag =
     Reply \<lparr>rp_status = 200, rp_etag = Some ''v1'', rp_content_length = None,
            rp_chunks = [if page = 1 then ''1'' else if page = 2 then ''2'' else ''3''], rp_broken = False\<rparr>"

definition gx_connector :: gh_connector where
  "gx_connector = \<lparr>gc_allowed = [''szl/lyte''], gc_limits =
     \<lparr>gl_pages = 3, gl_per_page = 1, gl_body = 2000, gl_connect = Fin 3, gl_read = Fin 8\<rparr>\<rparr>"

lemma gx_repo: "normalize_repository ''SZL/lyte'' = Inr ''szl/lyte''"
  by code_simp

lemma gx_limits: "mk_limits (gc_limits gx_connector) = Inr (gc_limits gx_connector)"
proof -
  obtain r where "rnd (1 / 10) = Fin r" "r \<le> 1" using rnd_unit [of "1 / 10"] by auto
  then show ?thesis by (simp add: mk_limits_def gx_connector_def timeout_ok_def)
qed

lemma gx_parsed: "0 < n \<Longrightarrow> parse_run gx_time (gx_item n) = Inr (gx_run n)"
proof -
  assume "0 < n"
  moreover have "strip ''build'' = ''build''" "strip ''completed'' = ''completed''" "strip ''main'' = ''main''"
    "strip ''push'' = ''push''" "strip (replicate 40 (CHR ''A'')) = replicate 40 (CHR ''A'')"
    "is_sha1 (replicate 40 (CHR ''A''))" "py_lower (replicate 40 (CHR ''A'')) = replicate 40 (CHR ''a'')"
    "strip ''success'' = ''success''"
    by code_simp+
  moreover have "duration_ms 0 = Inr 0" by (simp add: duration_ms_def int_div_def)
  ultimately show ?thesis
    by (simp add: parse_run_def gx_item_def gx_run_def run_fields_def run_text_def run_conclusion_def run_times_def
        run_duration_def parse_time_def gx_time_def jget_null_def)
qed

lemma gx_serves:
  "serves gx_decode (gc_limits gx_connector)
     (\<lambda>page. gx_fetch ''szl/lyte'' (gl_per_page (gc_limits gx_connector)) page (if page = 1 then None else None))
     [gx_item 7, gx_item 8]"
proof -
  have load: "strict_json_loads gx_decode 2000 ''github_response'' s = Inr (JObj (gx_page s))"
    if "s \<in> {''1'', ''2'', ''3''}" for s
  proof -
    have "json_floats (JObj (gx_page s)) = {}" by (auto simp: gx_page_def gx_item_def)
    then obtain t where "canonical_json (JObj (gx_page s)) = Inr t" using canonical_json_total by blast
    moreover have "walk_finite ''github_response'' (JObj (gx_page s)) = Inr ()"
      by (simp add: gx_page_def gx_item_def)
    ultimately show ?thesis
      using that by (auto simp: strict_json_loads_def gx_decode_def assert_finite_json_def)
  qed
  have "k < 3 \<Longrightarrow> k = 0 \<or> k = 1 \<or> k = 2" for k :: nat by linarith
  then show ?thesis
    unfolding serves_def by (auto simp: gx_connector_def gx_fetch_def load jget_null_def) (auto simp: gx_page_def)
qed

lemma pagination_exact_witness:
  "\<exists>r. fetch_workflow_runs id gx_decode gx_time gx_fetch gx_connector ''SZL/lyte'' None = Inr r \<and>
     gh_runs r = [gx_run 7, gx_run 8] \<and> gh_state r = Observed"
proof -
  have a: "''szl/lyte'' \<in> set (gc_allowed gx_connector)" by (simp add: gx_connector_def)
  have b: "rmap (parse_run gx_time) [gx_item 7, gx_item 8] = Inr [gx_run 7, gx_run 8]" by (simp add: gx_parsed)
  have c: "distinct (map gr_id [gx_run 7, gx_run 8])" by (simp add: gx_run_def)
  have d: "gl_pages (gc_limits gx_connector) * gl_per_page (gc_limits gx_connector) = 3" by (simp add: gx_connector_def)
  have e: "case None of None \<Rightarrow> True | Some (e :: string) \<Rightarrow> 1 \<le> length e \<and> length e \<le> 256" by simp
  show ?thesis
    using pagination_exact [where fetch = gx_fetch and etag = None and hx = id, OF gx_repo a e gx_limits refl gx_serves b c]
    by (simp add: d)
qed


lemma github_result_honest_witness:
  "\<exists>r. fetch_workflow_runs id gx_decode gx_time gx_fetch gx_connector ''SZL/lyte'' None = Inr r \<and> gh_honest r"
proof -
  obtain r where r: "fetch_workflow_runs id gx_decode gx_time gx_fetch gx_connector ''SZL/lyte'' None = Inr r"
  proof -
    obtain x n where x: "pages_from (\<lambda>page. gx_fetch ''szl/lyte'' (gl_per_page (gc_limits gx_connector)) page (if page = 1 then None else None))
       (page_step gx_decode gx_time (gc_limits gx_connector) None) 1 (gl_pages (gc_limits gx_connector)) start_acc 0 = (x, n)"
      by (rule prod.exhaust)
    have range: "\<forall>s t. gx_time s = Some t \<longrightarrow> \<bar>micros t\<bar> \<le> 2 ^ 60" by (simp add: gx_time_def)
    have a: "''szl/lyte'' \<in> set (gc_allowed gx_connector)" by (simp add: gx_connector_def)
    show thesis
      by (rule fetch_cases [where fetch = gx_fetch and etag = None and hx = id, OF gx_repo a _ x]) (use that x pages_from_escapes [OF range] in auto)
  qed
  from github_result_honest [OF r] r show ?thesis by blast
qed

end
