(* ===== verification/Otlp.thy ===== *)
theory Otlp
  imports Connector_Base Binary64
begin

section \<open>The OTLP ingestor (lyte/connectors/otlp\_http.py)\<close>

text \<open>
  One bounded OTLP/HTTP JSON request becomes a batch of normalised records or is rejected as a
  whole.  The ingestor's two buffers, the records and the paths of stripped attributes, are the
  state \<open>ingest_state\<close>; every method that fills them takes it and returns it, and an exception
  drops it, since the next request starts from empty buffers.  A dictionary is the list of its
  pairs; the reader has refused duplicate keys.  Parameters: \<open>decode\<close>, \<open>hx\<close> and \<open>hb\<close> as in
  the webhook.
\<close>

subsection \<open>Limits, records, batches\<close>

record otlp_limits =
  ol_body :: nat
  ol_resources :: nat
  ol_scopes :: nat
  ol_records :: nat
  ol_attributes :: nat
  ol_buckets :: nat
  ol_text :: nat

definition default_limits :: otlp_limits where
  "default_limits = \<lparr>ol_body = 1000000, ol_resources = 16, ol_scopes = 32, ol_records = 5000,
     ol_attributes = 64, ol_buckets = 256, ol_text = 4096\<rparr>"

fun limits_checked :: "(string \<times> nat \<times> nat) list \<Rightarrow> unit res" where
  "limits_checked [] = Inr ()"
| "limits_checked ((name, value, maximum) # rest) =
     guard_else (1 \<le> value \<and> value \<le> maximum)
       (ValueError (name @ '' must be between 1 and '' @ show_nat maximum)) (limits_checked rest)"

definition mk_otlp_limits :: "otlp_limits \<Rightarrow> otlp_limits res" where
  "mk_otlp_limits l =
     rbind (limits_checked
       [(''max_body_bytes'', ol_body l, 10000000), (''max_resources'', ol_resources l, 128),
        (''max_scopes_per_resource'', ol_scopes l, 256), (''max_records'', ol_records l, 50000),
        (''max_attributes_per_set'', ol_attributes l, 256), (''max_buckets'', ol_buckets l, 2048),
        (''max_text_length'', ol_text l, 65536)]) (\<lambda>_. Inr l)"

type_synonym fields = "(string \<times> json) list"

record otlp_record =
  or_signal :: string
  or_name :: string
  or_time :: int
  or_resource :: fields
  or_scope :: fields
  or_attrs :: fields
  or_data :: fields

definition mk_otlp_record :: "otlp_record \<Rightarrow> otlp_record res" where
  "mk_otlp_record r =
     guard_else (or_signal r \<in> {''traces'', ''metrics'', ''logs''}) (ValueError ''unsupported OTLP signal'')
    (guard_else (0 \<le> or_time r) (ValueError ''time_unix_nano must be non-negative'') (Inr r))"

definition otlp_record_to_dict :: "otlp_record \<Rightarrow> fields" where
  "otlp_record_to_dict r =
     [(''signal'', JStr (or_signal r)), (''name'', JStr (or_name r)), (''time_unix_nano'', JInt (or_time r)),
      (''resource_attributes'', JObj (or_resource r)), (''scope'', JObj (or_scope r)),
      (''attributes'', JObj (or_attrs r)), (''data'', JObj (or_data r)),
      (''truth_label'', JStr (label_value REPORTED))]"

record otlp_batch =
  ob_scope :: scope
  ob_signal :: string
  ob_records :: "otlp_record list"
  ob_idem :: idem_claim
  ob_receipt :: receipt_draft
  ob_stripped :: "string list"

definition otlp_batch_to_dict :: "(string \<Rightarrow> string) \<Rightarrow> otlp_batch \<Rightarrow> fields" where
  "otlp_batch_to_dict hx b =
     scope_to_dict (ob_scope b) @
     [(''signal'', JStr (ob_signal b)), (''truth_label'', JStr (label_value REPORTED)),
      (''record_count'', JInt (int (length (ob_records b)))),
      (''stripped_attribute_count'', JInt (int (length (ob_stripped b)))),
      (''idempotency'', JObj (idem_claim_to_dict hx (ob_idem b))),
      (''records'', JList (map (\<lambda>r. JObj (otlp_record_to_dict r)) (ob_records b)))]"

subsection \<open>The buffers\<close>

record ingest_state =
  is_records :: "otlp_record list"
  is_stripped :: "string list"

type_synonym 'a op = "ingest_state \<Rightarrow> ('a \<times> ingest_state) res"

definition sbind :: "'a op \<Rightarrow> ('a \<Rightarrow> 'b op) \<Rightarrow> 'b op" where
  "sbind m f = (\<lambda>s. rbind (m s) (\<lambda>r. f (fst r) (snd r)))"

definition slift :: "'a res \<Rightarrow> 'a op" where
  "slift m = (\<lambda>s. rbind m (\<lambda>x. Inr (x, s)))"

fun for_each :: "(nat \<Rightarrow> json \<Rightarrow> unit op) \<Rightarrow> nat \<Rightarrow> json list \<Rightarrow> unit op" where
  "for_each f i [] = slift (Inr ())"
| "for_each f i (x # xs) = sbind (f i x) (\<lambda>_. for_each f (Suc i) xs)"

definition idx :: "string \<Rightarrow> nat \<Rightarrow> string" where
  "idx path i = path @ ''['' @ show_nat i @ '']''"

definition append_record :: "otlp_limits \<Rightarrow> string \<Rightarrow> otlp_record \<Rightarrow> unit op" where
  "append_record l path r =
     (\<lambda>s. guard_else (length (is_records s) < ol_records l)
            (PayloadValidationError (path @ '' would exceed the record limit of '' @ show_nat (ol_records l)))
            (Inr ((), s\<lparr>is_records := is_records s @ [r]\<rparr>)))"

subsection \<open>Scalars\<close>

definition otlp_text :: "otlp_limits \<Rightarrow> string \<Rightarrow> bool \<Rightarrow> json \<Rightarrow> string res" where
  "otlp_text l path required j =
     (case j of
        JStr s \<Rightarrow>
          guard_else (\<not> (required \<and> s = [])) (PayloadValidationError (path @ '' cannot be empty''))
         (guard_else (length s \<le> ol_text l)
            (PayloadValidationError (path @ '' exceeds '' @ show_nat (ol_text l) @ '' characters'')) (Inr s))
      | _ \<Rightarrow> Inl (PayloadValidationError (path @ '' must be a string'')))"

text \<open>\<open>^(?:0|[1-9][0-9]{0,39})$\<close>, with an optional sign for \<open>int64\<close>.\<close>

definition decimal :: "string \<Rightarrow> bool" where
  "decimal s = (s = ''0'' \<or> (s \<noteq> [] \<and> length s \<le> 40 \<and> list_all is_digit s \<and> hd s \<noteq> CHR ''0''))"

definition decimal_value :: "string \<Rightarrow> nat" where
  "decimal_value s = foldl (\<lambda>n c. 10 * n + (code c - 48)) 0 s"

definition otlp_unsigned :: "string \<Rightarrow> json \<Rightarrow> int res" where
  "otlp_unsigned path j =
     (case j of
        JStr s \<Rightarrow>
          guard_else (decimal s) (PayloadValidationError (path @ '' must be an unsigned decimal string''))
         (guard_else (decimal_value s \<le> 2 ^ 64 - 1) (PayloadValidationError (path @ '' exceeds uint64''))
            (Inr (int (decimal_value s))))
      | _ \<Rightarrow> Inl (PayloadValidationError (path @ '' must be an unsigned decimal string'')))"

definition otlp_signed :: "string \<Rightarrow> json \<Rightarrow> int res" where
  "otlp_signed path j =
     (case j of
        JStr s \<Rightarrow>
          (let neg = (take 1 s = ''-''); d = (if neg then drop 1 s else s);
               n = (if neg then - int (decimal_value d) else int (decimal_value d)) in
           guard_else (decimal d) (PayloadValidationError (path @ '' must be a signed decimal string''))
          (guard_else (- (2 ^ 63) \<le> n \<and> n \<le> 2 ^ 63 - 1) (PayloadValidationError (path @ '' exceeds int64''))
             (Inr n)))
      | _ \<Rightarrow> Inl (PayloadValidationError (path @ '' must be a signed decimal string'')))"

text \<open>\<open>float(value)\<close> of an integer beyond the binary64 range raises \<open>OverflowError\<close>.\<close>

definition otlp_number :: "string \<Rightarrow> json \<Rightarrow> pyfloat res" where
  "otlp_number path j =
     rbind (case j of JInt n \<Rightarrow> float_of_int n | JFloat x \<Rightarrow> Inr x
            | _ \<Rightarrow> Inl (PayloadValidationError (path @ '' must be a JSON number''))) (\<lambda>x.
       guard_else (isfinite x) (PayloadValidationError (path @ '' must be finite'')) (Inr x))"

definition otlp_hex :: "string \<Rightarrow> nat \<Rightarrow> json \<Rightarrow> string res" where
  "otlp_hex path n j =
     (case j of
        JStr s \<Rightarrow>
          guard_else (length s = n \<and> list_all (\<lambda>c. hex_value c \<noteq> None) s \<and> \<not> list_all (\<lambda>c. c = CHR ''0'') s)
            (PayloadValidationError (path @ '' has an invalid hexadecimal identifier'')) (Inr (py_lower s))
      | _ \<Rightarrow> Inl (PayloadValidationError (path @ '' has an invalid hexadecimal identifier'')))"

definition otlp_enum :: "string \<Rightarrow> (int \<times> string) list \<Rightarrow> int \<Rightarrow> json \<Rightarrow> string res" where
  "otlp_enum path choices dflt j =
     (let bad = Inl (PayloadValidationError (path @ '' has an unsupported enum value'')) in
      case j of
        JNull \<Rightarrow> (case map_of choices dflt of Some s \<Rightarrow> Inr s | None \<Rightarrow> Inl (KeyError (show_int dflt)))
      | JInt n \<Rightarrow> (case map_of choices n of Some s \<Rightarrow> Inr s | None \<Rightarrow> bad)
      | JStr s \<Rightarrow> if s \<in> snd ` set choices then Inr s else bad
      | _ \<Rightarrow> bad)"

definition span_kinds :: "(int \<times> string) list" where
  "span_kinds = [(0, ''SPAN_KIND_UNSPECIFIED''), (1, ''SPAN_KIND_INTERNAL''), (2, ''SPAN_KIND_SERVER''),
     (3, ''SPAN_KIND_CLIENT''), (4, ''SPAN_KIND_PRODUCER''), (5, ''SPAN_KIND_CONSUMER'')]"

definition status_codes :: "(int \<times> string) list" where
  "status_codes = [(0, ''STATUS_CODE_UNSET''), (1, ''STATUS_CODE_OK''), (2, ''STATUS_CODE_ERROR'')]"

definition temporalities :: "(int \<times> string) list" where
  "temporalities = [(1, ''AGGREGATION_TEMPORALITY_DELTA''), (2, ''AGGREGATION_TEMPORALITY_CUMULATIVE'')]"

subsection \<open>Attributes, resources, scopes\<close>

definition has_field :: "fields \<Rightarrow> string \<Rightarrow> bool" where
  "has_field kvs k = (k \<in> fst ` set kvs)"

definition field :: "fields \<Rightarrow> string \<Rightarrow> json" where
  "field kvs k = jget_null (JObj kvs) k"

text \<open>\<open>if name in item: result[key] = parse(item[name])\<close>\<close>

definition optional :: "fields \<Rightarrow> string \<Rightarrow> string \<Rightarrow> (json \<Rightarrow> json res) \<Rightarrow> fields res" where
  "optional kvs name key parse =
     (if has_field kvs name then rbind (parse (field kvs name)) (\<lambda>v. Inr [(key, v)]) else Inr [])"

definition text_json :: "otlp_limits \<Rightarrow> string \<Rightarrow> bool \<Rightarrow> json \<Rightarrow> json res" where
  "text_json l path required j = rbind (otlp_text l path required j) (\<lambda>s. Inr (JStr s))"

definition any_value :: "otlp_limits \<Rightarrow> string \<Rightarrow> json \<Rightarrow> json res" where
  "any_value l path j =
     (let allowed = [''stringValue'', ''boolValue'', ''intValue'', ''doubleValue''] in
      rbind (require_object path j) (\<lambda>item.
      rbind (require_fields path allowed [] item) (\<lambda>_.
      case filter (has_field item) allowed of
        [f] \<Rightarrow>
          if f = ''stringValue'' then text_json l (path @ ''.'' @ f) False (field item f)
          else if f = ''boolValue'' then
            (case field item f of
               JBool b \<Rightarrow> Inr (JBool b)
             | _ \<Rightarrow> Inl (PayloadValidationError (path @ ''.'' @ f @ '' must be a boolean'')))
          else if f = ''intValue'' then rbind (otlp_signed (path @ ''.'' @ f) (field item f)) (\<lambda>n. Inr (JInt n))
          else rbind (otlp_number (path @ ''.'' @ f) (field item f)) (\<lambda>x. Inr (JFloat x))
      | _ \<Rightarrow> Inl (PayloadValidationError (path @ '' must contain exactly one supported scalar value'')))))"

fun attribute_items :: "otlp_limits \<Rightarrow> string \<Rightarrow> nat \<Rightarrow> json list \<Rightarrow> fields \<Rightarrow> fields res" where
  "attribute_items l path i [] parsed = Inr parsed"
| "attribute_items l path i (x # xs) parsed =
     rbind (require_object (idx path i) x) (\<lambda>item.
     rbind (require_fields (idx path i) [''key'', ''value''] [''key'', ''value''] item) (\<lambda>_.
     rbind (otlp_text l (idx path i @ ''.key'') True (field item ''key'')) (\<lambda>key.
     guard_else (\<not> has_field parsed key)
       (PayloadValidationError (path @ '' contains duplicate attribute key '' @ py_repr key))
    (rbind (any_value l (idx path i @ ''.value'') (field item ''value'')) (\<lambda>v.
       attribute_items l path (Suc i) xs (parsed @ [(key, v)]))))))"

definition otlp_attributes :: "otlp_limits \<Rightarrow> string \<Rightarrow> json \<Rightarrow> fields op" where
  "otlp_attributes l path j =
     (if j = JNull then slift (Inr [])
      else (\<lambda>s.
        rbind (require_list path (ol_attributes l) j) (\<lambda>raw.
        rbind (attribute_items l path 0 raw []) (\<lambda>parsed.
          let c = strip_sensitive_attributes parsed in
          Inr (fst c, s\<lparr>is_stripped := dedup (is_stripped s @ snd c)\<rparr>)))))"

definition otlp_resource :: "otlp_limits \<Rightarrow> string \<Rightarrow> json \<Rightarrow> fields op" where
  "otlp_resource l path j =
     (if j = JNull then slift (Inr [])
      else
        sbind (slift (require_object path j)) (\<lambda>resource.
        sbind (slift (require_fields path [''attributes''] [] resource)) (\<lambda>_.
          otlp_attributes l (path @ ''.attributes'') (field resource ''attributes''))))"

definition otlp_scope :: "otlp_limits \<Rightarrow> string \<Rightarrow> json \<Rightarrow> fields op" where
  "otlp_scope l path j =
     (if j = JNull then slift (Inr [])
      else
        sbind (slift (require_object path j)) (\<lambda>kvs.
        sbind (slift (require_fields path [''name'', ''version'', ''attributes''] [] kvs)) (\<lambda>_.
        sbind (slift (optional kvs ''name'' ''name'' (text_json l (path @ ''.name'') True))) (\<lambda>name.
        sbind (slift (optional kvs ''version'' ''version'' (text_json l (path @ ''.version'') True))) (\<lambda>version.
        sbind (otlp_attributes l (path @ ''.attributes'') (field kvs ''attributes'')) (\<lambda>attrs.
          slift (Inr (name @ version @ (if attrs = [] then [] else [(''attributes'', JObj attrs)])))))))))"

text \<open>The two loops the three signals share: resources, then scopes, then items.\<close>

definition scope_group ::
  "otlp_limits \<Rightarrow> string \<Rightarrow> (string \<Rightarrow> fields \<Rightarrow> fields \<Rightarrow> json \<Rightarrow> unit op) \<Rightarrow> fields \<Rightarrow> string \<Rightarrow> json \<Rightarrow> unit op" where
  "scope_group l items_name parse resource path j =
     sbind (slift (require_object path j)) (\<lambda>group.
     sbind (slift (require_fields path [''scope'', items_name, ''schemaUrl''] [items_name] group)) (\<lambda>_.
     sbind (otlp_scope l (path @ ''.scope'') (field group ''scope'')) (\<lambda>scope.
     sbind (slift (optional group ''schemaUrl'' ''schemaUrl'' (text_json l (path @ ''.schemaUrl'') True))) (\<lambda>_.
     sbind (slift (require_list (path @ ''.'' @ items_name) (ol_records l) (field group items_name))) (\<lambda>items.
       for_each (\<lambda>i x. parse (idx (path @ ''.'' @ items_name) i) resource scope x) 0 items)))))"

definition resource_group ::
  "otlp_limits \<Rightarrow> string \<Rightarrow> string \<Rightarrow> (string \<Rightarrow> fields \<Rightarrow> fields \<Rightarrow> json \<Rightarrow> unit op) \<Rightarrow> string \<Rightarrow> json \<Rightarrow> unit op" where
  "resource_group l scopes_name items_name parse path j =
     sbind (slift (require_object path j)) (\<lambda>group.
     sbind (slift (require_fields path [''resource'', scopes_name, ''schemaUrl''] [scopes_name] group)) (\<lambda>_.
     sbind (otlp_resource l (path @ ''.resource'') (field group ''resource'')) (\<lambda>resource.
     sbind (slift (optional group ''schemaUrl'' ''schemaUrl'' (text_json l (path @ ''.schemaUrl'') True))) (\<lambda>_.
     sbind (slift (require_list (path @ ''.'' @ scopes_name) (ol_scopes l) (field group scopes_name))) (\<lambda>scopes.
       for_each (\<lambda>i x. scope_group l items_name parse resource (idx (path @ ''.'' @ scopes_name) i) x) 0 scopes)))))"

definition resource_groups ::
  "otlp_limits \<Rightarrow> string \<Rightarrow> string \<Rightarrow> string \<Rightarrow> (string \<Rightarrow> fields \<Rightarrow> fields \<Rightarrow> json \<Rightarrow> unit op) \<Rightarrow> json \<Rightarrow> unit op" where
  "resource_groups l path scopes_name items_name parse j =
     sbind (slift (require_list path (ol_resources l) j)) (\<lambda>resources.
       for_each (\<lambda>i x. resource_group l scopes_name items_name parse (idx path i) x) 0 resources)"

subsection \<open>Spans\<close>

definition span_status :: "otlp_limits \<Rightarrow> string \<Rightarrow> fields \<Rightarrow> fields res" where
  "span_status l path sp =
     rbind (require_object (path @ ''.status'') (if has_field sp ''status'' then field sp ''status'' else JObj [])) (\<lambda>status.
     rbind (require_fields (path @ ''.status'') [''code'', ''message''] [] status) (\<lambda>_.
     rbind (otlp_enum (path @ ''.status.code'') status_codes 0 (field status ''code'')) (\<lambda>code.
     rbind (optional status ''message'' ''message'' (text_json l (path @ ''.status.message'') False)) (\<lambda>message.
       Inr ((''code'', JStr code) # message)))))"

definition span_data :: "otlp_limits \<Rightarrow> string \<Rightarrow> fields \<Rightarrow> (int \<times> fields) res" where
  "span_data l path sp =
     rbind (otlp_hex (path @ ''.traceId'') 32 (field sp ''traceId'')) (\<lambda>trace.
     rbind (otlp_hex (path @ ''.spanId'') 16 (field sp ''spanId'')) (\<lambda>sid.
     rbind (if has_field sp ''parentSpanId'' \<and> field sp ''parentSpanId'' \<noteq> JStr []
            then rbind (otlp_hex (path @ ''.parentSpanId'') 16 (field sp ''parentSpanId'')) (\<lambda>p. Inr (JStr p))
            else Inr JNull) (\<lambda>parent.
     rbind (otlp_unsigned (path @ ''.startTimeUnixNano'') (field sp ''startTimeUnixNano'')) (\<lambda>start.
     rbind (otlp_unsigned (path @ ''.endTimeUnixNano'') (field sp ''endTimeUnixNano'')) (\<lambda>stop.
     guard_else (start \<le> stop) (PayloadValidationError (path @ ''.endTimeUnixNano precedes startTimeUnixNano''))
    (rbind (span_status l path sp) (\<lambda>status.
     rbind (otlp_enum (path @ ''.kind'') span_kinds 0 (field sp ''kind'')) (\<lambda>kind.
     rbind (optional sp ''traceState'' ''trace_state'' (text_json l (path @ ''.traceState'') False)) (\<lambda>tstate.
       Inr (stop, [(''trace_id'', JStr trace), (''span_id'', JStr sid), (''parent_span_id'', parent),
            (''start_time_unix_nano'', JInt start), (''end_time_unix_nano'', JInt stop),
            (''duration_nano'', JInt (stop - start)), (''kind'', JStr kind), (''status'', JObj status)]
            @ tstate))))))))))"

definition parse_span :: "otlp_limits \<Rightarrow> string \<Rightarrow> fields \<Rightarrow> fields \<Rightarrow> json \<Rightarrow> unit op" where
  "parse_span l path resource scope j =
     sbind (slift (require_object path j)) (\<lambda>sp.
     sbind (slift (require_fields path
       [''traceId'', ''spanId'', ''parentSpanId'', ''traceState'', ''name'', ''kind'', ''startTimeUnixNano'',
        ''endTimeUnixNano'', ''attributes'', ''status'']
       [''traceId'', ''spanId'', ''name'', ''startTimeUnixNano'', ''endTimeUnixNano''] sp)) (\<lambda>_.
     sbind (slift (span_data l path sp)) (\<lambda>d.
     sbind (slift (otlp_text l (path @ ''.name'') True (field sp ''name''))) (\<lambda>name.
     sbind (otlp_attributes l (path @ ''.attributes'') (field sp ''attributes'')) (\<lambda>attrs.
     sbind (slift (mk_otlp_record \<lparr>or_signal = ''traces'', or_name = name, or_time = fst d, or_resource = resource,
       or_scope = scope, or_attrs = attrs, or_data = snd d\<rparr>)) (append_record l path))))))"

definition parse_traces :: "otlp_limits \<Rightarrow> json \<Rightarrow> unit op" where
  "parse_traces l = resource_groups l ''otlp.resourceSpans'' ''scopeSpans'' ''spans'' (parse_span l)"

subsection \<open>Metrics\<close>

text \<open>\<open>startTimeUnixNano\<close>, which may not lie after \<open>timeUnixNano\<close>, and the integer \<open>flags\<close>.\<close>

definition point_start :: "string \<Rightarrow> fields \<Rightarrow> int \<Rightarrow> fields res" where
  "point_start path point time =
     (if has_field point ''startTimeUnixNano'' then
        rbind (otlp_unsigned (path @ ''.startTimeUnixNano'') (field point ''startTimeUnixNano'')) (\<lambda>start.
        guard_else (start \<le> time) (PayloadValidationError (path @ ''.startTimeUnixNano exceeds timeUnixNano''))
          (Inr [(''start_time_unix_nano'', JInt start)]))
      else Inr [])"

definition int_flags :: "string \<Rightarrow> fields \<Rightarrow> fields res" where
  "int_flags path point =
     optional point ''flags'' ''flags'' (\<lambda>j.
       case j of JInt n \<Rightarrow> Inr (JInt n) | _ \<Rightarrow> Inl (PayloadValidationError (path @ ''.flags must be an integer'')))"

text \<open>A point: its attributes, its time and the rest of its fields.\<close>

definition number_value :: "string \<Rightarrow> fields \<Rightarrow> (json \<times> string) res" where
  "number_value path point =
     (case filter (has_field point) [''asDouble'', ''asInt''] of
        [f] \<Rightarrow>
          if f = ''asDouble'' then rbind (otlp_number (path @ ''.'' @ f) (field point f)) (\<lambda>x. Inr (JFloat x, f))
          else rbind (otlp_signed (path @ ''.'' @ f) (field point f)) (\<lambda>n. Inr (JInt n, f))
      | _ \<Rightarrow> Inl (PayloadValidationError (path @ '' must contain exactly one of asDouble or asInt'')))"

definition number_point :: "otlp_limits \<Rightarrow> string \<Rightarrow> json \<Rightarrow> (fields \<times> int \<times> fields) op" where
  "number_point l path j =
     sbind (slift (require_object path j)) (\<lambda>point.
     sbind (slift (require_fields path
       [''attributes'', ''startTimeUnixNano'', ''timeUnixNano'', ''asDouble'', ''asInt'', ''flags'']
       [''timeUnixNano''] point)) (\<lambda>_.
     sbind (slift (number_value path point)) (\<lambda>v.
     sbind (otlp_attributes l (path @ ''.attributes'') (field point ''attributes'')) (\<lambda>attrs.
     sbind (slift (otlp_unsigned (path @ ''.timeUnixNano'') (field point ''timeUnixNano''))) (\<lambda>time.
     sbind (slift (point_start path point time)) (\<lambda>start.
     sbind (slift (int_flags path point)) (\<lambda>flags.
       slift (Inr (attrs, time, [(''value'', fst v), (''value_encoding'', JStr (snd v))] @ start @ flags)))))))))"

fun numbers_at :: "(string \<Rightarrow> json \<Rightarrow> 'a res) \<Rightarrow> string \<Rightarrow> nat \<Rightarrow> json list \<Rightarrow> 'a list res" where
  "numbers_at f path i [] = Inr []"
| "numbers_at f path i (x # xs) =
     rbind (f (idx path i) x) (\<lambda>y. rbind (numbers_at f path (Suc i) xs) (\<lambda>ys. Inr (y # ys)))"

fun increasing :: "pyfloat list \<Rightarrow> bool" where
  "increasing (x # y # xs) = (\<not> fle y x \<and> increasing (y # xs))"
| "increasing xs = True"

definition optional_number :: "string \<Rightarrow> fields \<Rightarrow> string \<Rightarrow> pyfloat option res" where
  "optional_number path point name =
     (if has_field point name
      then rbind (otlp_number (path @ ''.'' @ name) (field point name)) (\<lambda>x. Inr (Some x)) else Inr None)"

definition histogram_counts :: "otlp_limits \<Rightarrow> string \<Rightarrow> fields \<Rightarrow> (int \<times> int list \<times> pyfloat list) res" where
  "histogram_counts l path point =
     rbind (require_list (path @ ''.bucketCounts'') (ol_buckets l) (field point ''bucketCounts'')) (\<lambda>counts_raw.
     rbind (require_list (path @ ''.explicitBounds'') (ol_buckets l) (field point ''explicitBounds'')) (\<lambda>bounds_raw.
     rbind (numbers_at otlp_unsigned (path @ ''.bucketCounts'') 0 counts_raw) (\<lambda>counts.
     rbind (numbers_at otlp_number (path @ ''.explicitBounds'') 0 bounds_raw) (\<lambda>bounds.
     guard_else (length counts = length bounds + 1)
       (PayloadValidationError (path @ ''.bucketCounts must have one more item than bounds''))
    (guard_else (increasing bounds)
       (PayloadValidationError (path @ ''.explicitBounds must be strictly increasing''))
    (rbind (otlp_unsigned (path @ ''.count'') (field point ''count'')) (\<lambda>n.
     guard_else (sum_list counts = n)
       (PayloadValidationError (path @ ''.bucketCounts do not sum to count''))
       (Inr (n, counts, bounds)))))))))"

definition num_fields :: "string \<Rightarrow> pyfloat option \<Rightarrow> fields" where
  "num_fields name x = (case x of None \<Rightarrow> [] | Some v \<Rightarrow> [(name, JFloat v)])"

definition histogram_point :: "otlp_limits \<Rightarrow> string \<Rightarrow> json \<Rightarrow> (fields \<times> int \<times> fields) op" where
  "histogram_point l path j =
     sbind (slift (require_object path j)) (\<lambda>point.
     sbind (slift (require_fields path
       [''attributes'', ''startTimeUnixNano'', ''timeUnixNano'', ''count'', ''sum'', ''bucketCounts'',
        ''explicitBounds'', ''min'', ''max'', ''flags'']
       [''timeUnixNano'', ''count'', ''bucketCounts'', ''explicitBounds''] point)) (\<lambda>_.
     sbind (slift (histogram_counts l path point)) (\<lambda>h.
     sbind (otlp_attributes l (path @ ''.attributes'') (field point ''attributes'')) (\<lambda>attrs.
     sbind (slift (otlp_unsigned (path @ ''.timeUnixNano'') (field point ''timeUnixNano''))) (\<lambda>time.
     sbind (slift (point_start path point time)) (\<lambda>start.
     sbind (slift (optional_number path point ''sum'')) (\<lambda>total.
     sbind (slift (optional_number path point ''min'')) (\<lambda>low.
     sbind (slift (optional_number path point ''max'')) (\<lambda>high.
     sbind (slift (guard_else (case (low, high) of (Some a, Some b) \<Rightarrow> \<not> flt b a | _ \<Rightarrow> True)
       (PayloadValidationError (path @ ''.min exceeds max'')) (Inr ()))) (\<lambda>_.
     sbind (slift (int_flags path point)) (\<lambda>flags.
       slift (Inr (attrs, time,
         [(''count'', JInt (fst h)), (''bucket_counts'', JList (map JInt (fst (snd h)))),
          (''explicit_bounds'', JList (map JFloat (snd (snd h))))] @ start @
         num_fields ''sum'' total @ num_fields ''min'' low @ num_fields ''max'' high @ flags)))))))))))))"

text \<open>The one type of a metric, its body and the metadata every point carries.\<close>

definition metric_kind :: "string \<Rightarrow> fields \<Rightarrow> string res" where
  "metric_kind path metric =
     (case filter (has_field metric) [''gauge'', ''sum'', ''histogram''] of
        [k] \<Rightarrow> Inr k
      | _ \<Rightarrow> Inl (PayloadValidationError (path @ '' must contain exactly one supported metric type'')))"

definition kind_fields :: "string \<Rightarrow> string list" where
  "kind_fields kind =
     (if kind = ''gauge'' then [''dataPoints'']
      else if kind = ''sum'' then [''dataPoints'', ''aggregationTemporality'', ''isMonotonic'']
      else [''dataPoints'', ''aggregationTemporality''])"

definition kind_metadata :: "string \<Rightarrow> string \<Rightarrow> fields \<Rightarrow> fields res" where
  "kind_metadata path kind body =
     (if kind = ''gauge'' then Inr []
      else
        rbind (otlp_enum (path @ ''.'' @ kind @ ''.aggregationTemporality'') temporalities 1
          (field body ''aggregationTemporality'')) (\<lambda>t.
        if kind = ''sum'' then
          (case field body ''isMonotonic'' of
             JBool b \<Rightarrow> Inr [(''aggregation_temporality'', JStr t), (''is_monotonic'', JBool b)]
           | _ \<Rightarrow> Inl (PayloadValidationError (path @ ''.sum.isMonotonic must be a boolean'')))
        else Inr [(''aggregation_temporality'', JStr t)]))"

definition metric_point ::
  "otlp_limits \<Rightarrow> string \<Rightarrow> string \<Rightarrow> fields \<Rightarrow> fields \<Rightarrow> fields \<Rightarrow> string \<Rightarrow> json \<Rightarrow> unit op" where
  "metric_point l kind name resource scope metadata path j =
     sbind ((if kind = ''histogram'' then histogram_point else number_point) l path j) (\<lambda>p.
     sbind (slift (mk_otlp_record \<lparr>or_signal = ''metrics'', or_name = name, or_time = fst (snd p),
       or_resource = resource, or_scope = scope, or_attrs = fst p,
       or_data = (''metric_type'', JStr kind) # metadata @ snd (snd p)\<rparr>)) (append_record l path))"

definition parse_metric :: "otlp_limits \<Rightarrow> string \<Rightarrow> fields \<Rightarrow> fields \<Rightarrow> json \<Rightarrow> unit op" where
  "parse_metric l path resource scope j =
     sbind (slift (require_object path j)) (\<lambda>metric.
     sbind (slift (require_fields path
       [''name'', ''description'', ''unit'', ''gauge'', ''sum'', ''histogram''] [''name''] metric)) (\<lambda>_.
     sbind (slift (metric_kind path metric)) (\<lambda>kind.
     sbind (slift (otlp_text l (path @ ''.name'') True (field metric ''name''))) (\<lambda>name.
     sbind (slift (optional metric ''description'' ''description'' (text_json l (path @ ''.description'') False))) (\<lambda>descr.
     sbind (slift (optional metric ''unit'' ''unit'' (text_json l (path @ ''.unit'') False))) (\<lambda>unit.
     sbind (slift (require_object (path @ ''.'' @ kind) (field metric kind))) (\<lambda>body.
     sbind (slift (require_fields (path @ ''.'' @ kind) (kind_fields kind) (kind_fields kind) body)) (\<lambda>_.
     sbind (slift (kind_metadata path kind body)) (\<lambda>meta.
     sbind (slift (require_list (path @ ''.'' @ kind @ ''.dataPoints'') (ol_records l) (field body ''dataPoints''))) (\<lambda>points.
       for_each (\<lambda>i x. metric_point l kind name resource scope (descr @ unit @ meta)
         (idx (path @ ''.'' @ kind @ ''.dataPoints'') i) x) 0 points))))))))))"

definition parse_metrics :: "otlp_limits \<Rightarrow> json \<Rightarrow> unit op" where
  "parse_metrics l = resource_groups l ''otlp.resourceMetrics'' ''scopeMetrics'' ''metrics'' (parse_metric l)"

subsection \<open>Logs\<close>

definition log_severity :: "string \<Rightarrow> fields \<Rightarrow> fields res" where
  "log_severity path record =
     optional record ''severityNumber'' ''severity_number'' (\<lambda>j.
       case j of
         JInt n \<Rightarrow> guard_else (0 \<le> n \<and> n \<le> 24)
           (PayloadValidationError (path @ ''.severityNumber must be an integer from 0 to 24'')) (Inr (JInt n))
       | _ \<Rightarrow> Inl (PayloadValidationError (path @ ''.severityNumber must be an integer from 0 to 24'')))"

definition log_data :: "otlp_limits \<Rightarrow> string \<Rightarrow> fields \<Rightarrow> (int \<times> fields) res" where
  "log_data l path record =
     rbind (otlp_unsigned (path @ ''.timeUnixNano'') (field record ''timeUnixNano'')) (\<lambda>time.
     rbind (any_value l (path @ ''.body'') (field record ''body'')) (\<lambda>body.
     rbind (optional record ''observedTimeUnixNano'' ''observed_time_unix_nano''
       (\<lambda>j. rbind (otlp_unsigned (path @ ''.observedTimeUnixNano'') j) (\<lambda>n. Inr (JInt n)))) (\<lambda>seen.
     rbind (log_severity path record) (\<lambda>severity.
     rbind (optional record ''severityText'' ''severity_text'' (text_json l (path @ ''.severityText'') False)) (\<lambda>stext.
     rbind (int_flags path record) (\<lambda>flags.
     rbind (optional record ''traceId'' ''trace_id''
       (\<lambda>j. rbind (otlp_hex (path @ ''.traceId'') 32 j) (\<lambda>h. Inr (JStr h)))) (\<lambda>trace.
     rbind (optional record ''spanId'' ''span_id'' (\<lambda>j.
       guard_else (has_field record ''traceId'') (PayloadValidationError (path @ ''.spanId requires traceId''))
         (rbind (otlp_hex (path @ ''.spanId'') 16 j) (\<lambda>h. Inr (JStr h))))) (\<lambda>sid.
       Inr (time, (''body'', body) # seen @ severity @ stext @ flags @ trace @ sid)))))))))"

text \<open>\<open>str(data.get("severity\_text") or "log")\<close>\<close>

definition log_name :: "fields \<Rightarrow> string" where
  "log_name d = (case field d ''severity_text'' of JStr (c # s) \<Rightarrow> c # s | _ \<Rightarrow> ''log'')"

definition parse_log_record :: "otlp_limits \<Rightarrow> string \<Rightarrow> fields \<Rightarrow> fields \<Rightarrow> json \<Rightarrow> unit op" where
  "parse_log_record l path resource scope j =
     sbind (slift (require_object path j)) (\<lambda>record.
     sbind (slift (require_fields path
       [''timeUnixNano'', ''observedTimeUnixNano'', ''severityNumber'', ''severityText'', ''body'',
        ''attributes'', ''flags'', ''traceId'', ''spanId''] [''timeUnixNano'', ''body''] record)) (\<lambda>_.
     sbind (slift (log_data l path record)) (\<lambda>d.
     sbind (otlp_attributes l (path @ ''.attributes'') (field record ''attributes'')) (\<lambda>attrs.
     sbind (slift (mk_otlp_record \<lparr>or_signal = ''logs'', or_name = log_name (snd d), or_time = fst d,
       or_resource = resource, or_scope = scope, or_attrs = attrs, or_data = snd d\<rparr>)) (append_record l path)))))"

definition parse_logs :: "otlp_limits \<Rightarrow> json \<Rightarrow> unit op" where
  "parse_logs l = resource_groups l ''otlp.resourceLogs'' ''scopeLogs'' ''logRecords'' (parse_log_record l)"

subsection \<open>Ingestion\<close>

definition top_field :: "fields \<Rightarrow> string res" where
  "top_field top_fs =
     (let expected = [''resourceSpans'', ''resourceMetrics'', ''resourceLogs'']; tf = dedup (map fst top_fs);
          unknown = sort (filter (\<lambda>k. k \<notin> set expected) tf) in
      if length tf = 1 \<and> unknown = [] then Inr (hd tf)
      else if unknown \<noteq> []
      then Inl (PayloadValidationError (''otlp contains unsupported top-level field(s): '' @ join '', '' unknown))
      else Inl (PayloadValidationError
        ''otlp must contain exactly one of resourceSpans, resourceMetrics, resourceLogs''))"

definition parse_signal :: "otlp_limits \<Rightarrow> string \<Rightarrow> string \<times> (json \<Rightarrow> unit op)" where
  "parse_signal l tf =
     (if tf = ''resourceSpans'' then (''traces'', parse_traces l)
      else if tf = ''resourceMetrics'' then (''metrics'', parse_metrics l)
      else (''logs'', parse_logs l))"

definition otlp_receipt ::
  "(string \<Rightarrow> string) \<Rightarrow> scope \<Rightarrow> string \<Rightarrow> ingest_state \<Rightarrow> string \<Rightarrow> string \<Rightarrow> receipt_draft res" where
  "otlp_receipt hx scope signal s sha key =
     mk_receipt_draft ''ingest.otlp.accepted'' ''telemetry_signal'' signal
       (scope_to_dict scope @
        [(''signal'', JStr signal), (''record_count'', JInt (int (length (is_records s)))),
         (''payload_sha256'', JStr sha), (''idempotency_key_sha256'', JStr (hx key)),
         (''stripped_attribute_count'', JInt (int (length (is_stripped s)))),
         (''subset'', JStr ''bounded_scalar_v1'')])
       REPORTED [''otlp:'' @ signal @ '':'' @ sha]"

definition ingest ::
  "(string \<Rightarrow> string) \<Rightarrow> (string \<Rightarrow> string) \<Rightarrow> (string \<Rightarrow> decoded) \<Rightarrow> otlp_limits \<Rightarrow> string \<Rightarrow> scope \<Rightarrow> string \<Rightarrow>
   otlp_batch res" where
  "ingest hx hb decode l body scope key =
     rbind (strict_json_loads decode (ol_body l) ''otlp'' body) (\<lambda>j.
     rbind (require_object ''otlp'' j) (\<lambda>top_fs.
     rbind (top_field top_fs) (\<lambda>tf.
     let signal = fst (parse_signal l tf) in
     rbind (snd (parse_signal l tf) (field top_fs tf) \<lparr>is_records = [], is_stripped = []\<rparr>) (\<lambda>r.
     let s = snd r in
     guard_else (is_records s \<noteq> []) (PayloadValidationError ''otlp export must contain at least one record'')
    (rbind (mk_idem_claim key (hb body)) (\<lambda>claim.
     rbind (otlp_receipt hx scope signal s (hb body) key) (\<lambda>receipt.
       Inr \<lparr>ob_scope = scope, ob_signal = signal, ob_records = is_records s, ob_idem = claim,
            ob_receipt = receipt, ob_stripped = sort (is_stripped s)\<rparr>)))))))"

subsection \<open>Lemmas\<close>

text \<open>An operation that yields values with \<open>R\<close> and appends \<open>n\<close> records with \<open>Q\<close>, within the
  limit.\<close>

definition adds :: "otlp_limits \<Rightarrow> (otlp_record \<Rightarrow> bool) \<Rightarrow> nat \<Rightarrow> ('a \<Rightarrow> bool) \<Rightarrow> 'a op \<Rightarrow> bool" where
  "adds l Q n R m \<longleftrightarrow>
     (\<forall>s x s'. m s = Inr (x, s') \<longrightarrow> R x \<and>
        (\<exists>rs. is_records s' = is_records s @ rs \<and> length rs = n \<and> (\<forall>r \<in> set rs. Q r)) \<and>
        (length (is_records s) \<le> ol_records l \<longrightarrow> length (is_records s') \<le> ol_records l))"

lemma adds_slift: "(\<And>x. m = Inr x \<Longrightarrow> R x) \<Longrightarrow> adds l Q 0 R (slift m)"
  by (auto simp: adds_def slift_def rbind_Inr_iff)

lemma adds_sbind:
  assumes "adds l Q n R m" "\<And>x. R x \<Longrightarrow> adds l Q k R' (f x)"
  shows "adds l Q (n + k) R' (sbind m f)"
proof -
  have "R' y \<and> (\<exists>rs. is_records s' = is_records s @ rs \<and> length rs = n + k \<and> (\<forall>r \<in> set rs. Q r)) \<and>
      (length (is_records s) \<le> ol_records l \<longrightarrow> length (is_records s') \<le> ol_records l)"
    if y: "sbind m f s = Inr (y, s')" for s y s'
  proof -
    obtain x s1 where x: "m s = Inr (x, s1)" "f x s1 = Inr (y, s')"
      using y by (auto simp: sbind_def rbind_Inr_iff)
    from assms(1) x(1) obtain rs where r: "R x" "is_records s1 = is_records s @ rs" "length rs = n" "\<forall>r \<in> set rs. Q r"
      "length (is_records s) \<le> ol_records l \<longrightarrow> length (is_records s1) \<le> ol_records l"
      unfolding adds_def by blast
    from assms(2) [OF r(1)] x(2) obtain rs2 where r2: "R' y" "is_records s' = is_records s1 @ rs2" "length rs2 = k"
      "\<forall>r \<in> set rs2. Q r" "length (is_records s1) \<le> ol_records l \<longrightarrow> length (is_records s') \<le> ol_records l"
      unfolding adds_def by blast
    show ?thesis
    proof (intro conjI exI)
      show "is_records s' = is_records s @ (rs @ rs2)" using r(2) r2(2) by simp
      show "length (rs @ rs2) = n + k" using r(3) r2(3) by simp
      show "\<forall>r \<in> set (rs @ rs2). Q r" using r(4) r2(4) by auto
      show "R' y" by (rule r2(1))
      show "length (is_records s) \<le> ol_records l \<longrightarrow> length (is_records s') \<le> ol_records l" using r(5) r2(5) by blast
    qed
  qed
  then show ?thesis unfolding adds_def by blast
qed

lemma adds_lift_bind:
  assumes "\<And>x. m = Inr x \<Longrightarrow> adds l Q k R (f x)"
  shows "adds l Q k R (sbind (slift m) f)"
proof -
  have "adds l Q 0 (\<lambda>x. m = Inr x) (slift m)" by (rule adds_slift)
  from adds_sbind [OF this assms] show ?thesis by simp
qed

lemma adds_bind0:
  assumes "adds l Q 0 R m" "\<And>x. R x \<Longrightarrow> adds l Q k R' (f x)"
  shows "adds l Q k R' (sbind m f)"
  using adds_sbind [OF assms] by simp

lemma adds_append: "Q r \<Longrightarrow> adds l Q 1 (\<lambda>_. True) (append_record l path r)"
  by (auto simp: adds_def append_record_def guard_else_Inr_iff)

definition safe_fields :: "fields \<Rightarrow> bool" where
  "safe_fields kvs \<longleftrightarrow> keys_safe (JObj kvs)"

lemma safe_fields_simps [simp]:
  "safe_fields []"
  "safe_fields ((k, v) # kvs) \<longleftrightarrow> \<not> is_sensitive_key k \<and> keys_safe v \<and> safe_fields kvs"
  "safe_fields (xs @ ys) \<longleftrightarrow> safe_fields xs \<and> safe_fields ys"
  by (auto simp: safe_fields_def)

declare keys_safe_simps(1) [simp del]

lemma keys_safe_JObj [simp]: "keys_safe (JObj kvs) \<longleftrightarrow> safe_fields kvs"
  by (simp add: safe_fields_def)

lemma adds_attributes: "adds l Q 0 safe_fields (otlp_attributes l path j)"
proof -
  have "safe_fields (fst (strip_sensitive_attributes kvs))" for kvs
    using strip_sensitive_keys [of kvs] unfolding safe_fields_def keys_safe_def by (metis prod.collapse)
  then show ?thesis
    by (auto simp: adds_def otlp_attributes_def slift_def rbind_Inr_iff Let_def)
qed

lemma adds_resource: "adds l Q 0 safe_fields (otlp_resource l path j)"
  unfolding otlp_resource_def
  by (cases "j = JNull") (auto intro!: adds_slift adds_lift_bind adds_attributes)

lemma optional_text:
  "optional kvs name key (text_json l path req) = Inr xs \<Longrightarrow> \<not> is_sensitive_key key \<Longrightarrow> safe_fields xs"
  by (auto simp: optional_def text_json_def rbind_Inr_iff split: if_splits)

lemma adds_scope: "adds l Q 0 safe_fields (otlp_scope l path j)"
proof (cases "j = JNull")
  case False
  have safe: "\<not> is_sensitive_key ''name''" "\<not> is_sensitive_key ''version''" "\<not> is_sensitive_key ''attributes''"
    by code_simp+
  have "adds l Q 0 safe_fields
      (sbind (otlp_attributes l p a) (\<lambda>attrs. slift (Inr (name @ version @ (if attrs = [] then [] else [(''attributes'', JObj attrs)])))))"
    if "safe_fields name" "safe_fields version" for name version p a
    by (rule adds_bind0 [OF adds_attributes], rule adds_slift) (use that safe in auto)
  then show ?thesis using False optional_text safe unfolding otlp_scope_def
    by (auto intro!: adds_lift_bind)
qed (auto simp: otlp_scope_def intro!: adds_slift)

text \<open>What an accepted record satisfies.\<close>

definition uint64 :: "int \<Rightarrow> bool" where
  "uint64 n \<longleftrightarrow> 0 \<le> n \<and> n < 2 ^ 64"

definition span_ok :: "int \<Rightarrow> fields \<Rightarrow> bool" where
  "span_ok stop d \<longleftrightarrow>
     (\<exists>start. uint64 start \<and> start \<le> stop \<and> alookup d ''start_time_unix_nano'' = Some (JInt start) \<and>
        alookup d ''end_time_unix_nano'' = Some (JInt stop) \<and> alookup d ''duration_nano'' = Some (JInt (stop - start)))"

definition buckets_ok :: "fields \<Rightarrow> bool" where
  "buckets_ok d \<longleftrightarrow>
     (\<exists>n counts bounds. (''count'', JInt n) \<in> set d \<and> (''bucket_counts'', JList (map JInt counts)) \<in> set d \<and>
        (''explicit_bounds'', JList (map JFloat bounds)) \<in> set d \<and>
        sum_list counts = n \<and> uint64 n \<and> (\<forall>c \<in> set counts. uint64 c) \<and> length counts = length bounds + 1 \<and>
        sorted_wrt flt bounds \<and> (\<forall>x \<in> set bounds. isfinite x))"

definition data_ok :: "string \<Rightarrow> int \<Rightarrow> fields \<Rightarrow> bool" where
  "data_ok signal time d \<longleftrightarrow>
     (if signal = ''traces'' then span_ok time d
      else if signal = ''metrics'' then alookup d ''metric_type'' = Some (JStr ''histogram'') \<longrightarrow> buckets_ok d
      else has_field d ''body'')"

definition otlp_record_ok :: "string \<Rightarrow> otlp_record \<Rightarrow> bool" where
  "otlp_record_ok signal r \<longleftrightarrow>
     or_signal r = signal \<and> or_name r \<noteq> [] \<and> uint64 (or_time r) \<and>
     safe_fields (or_resource r) \<and> safe_fields (or_scope r) \<and> safe_fields (or_attrs r) \<and>
     data_ok signal (or_time r) (or_data r)"

lemma otlp_unsigned_Inr: "otlp_unsigned path j = Inr n \<Longrightarrow> uint64 n"
  by (auto simp: otlp_unsigned_def uint64_def guard_else_Inr_iff split: json.splits)

lemma otlp_text_Inr: "otlp_text l path True j = Inr s \<Longrightarrow> s \<noteq> []"
  by (auto simp: otlp_text_def guard_else_Inr_iff split: json.splits)

lemma span_data_ok:
  assumes "span_data l path sp = Inr (stop, d)"
  shows "uint64 stop" "span_ok stop d"
proof -
  from assms obtain start rest trace sid parent where
    s: "otlp_unsigned (path @ ''.startTimeUnixNano'') (field sp ''startTimeUnixNano'') = Inr start"
      "otlp_unsigned (path @ ''.endTimeUnixNano'') (field sp ''endTimeUnixNano'') = Inr stop" "start \<le> stop"
    and d: "d = [(''trace_id'', JStr trace), (''span_id'', JStr sid), (''parent_span_id'', parent),
            (''start_time_unix_nano'', JInt start), (''end_time_unix_nano'', JInt stop),
            (''duration_nano'', JInt (stop - start))] @ rest"
    unfolding span_data_def rbind_Inr_iff guard_else_Inr_iff by auto
  show "uint64 stop" by (rule otlp_unsigned_Inr [OF s(2)])
  show "span_ok stop d" using otlp_unsigned_Inr [OF s(1)] s(3) by (auto simp: span_ok_def d)
qed

lemma adds_record:
  assumes "otlp_record_ok signal r"
  shows "adds l (otlp_record_ok signal) 1 (\<lambda>_. True) (sbind (slift (mk_otlp_record r)) (append_record l path))"
proof (rule adds_lift_bind)
  fix x
  assume "mk_otlp_record r = Inr x"
  then have "x = r" by (simp add: mk_otlp_record_def guard_else_Inr_iff)
  then show "adds l (otlp_record_ok signal) 1 (\<lambda>_. True) (append_record l path x)"
    using adds_append [where Q = "otlp_record_ok signal" and r = r] assms by simp
qed

lemma adds_span:
  assumes "safe_fields resource" "safe_fields scope"
  shows "adds l (otlp_record_ok ''traces'') 1 (\<lambda>_. True) (parse_span l path resource scope j)"
  unfolding parse_span_def
proof (intro adds_lift_bind)
  fix d name sp
  assume d: "span_data l path sp = Inr d" and name: "otlp_text l (path @ ''.name'') True (field sp ''name'') = Inr name"
  show "adds l (otlp_record_ok ''traces'') 1 (\<lambda>_. True)
     (sbind (otlp_attributes l (path @ ''.attributes'') (field sp ''attributes'')) (\<lambda>attrs.
      sbind (slift (mk_otlp_record \<lparr>or_signal = ''traces'', or_name = name, or_time = fst d, or_resource = resource,
       or_scope = scope, or_attrs = attrs, or_data = snd d\<rparr>)) (append_record l path)))"
    by (rule adds_bind0 [OF adds_attributes], rule adds_record)
      (use assms d span_data_ok [of l path sp "fst d" "snd d"] otlp_text_Inr [OF name] in
        \<open>simp add: otlp_record_ok_def data_ok_def\<close>)
qed

lemma adds_log:
  assumes "safe_fields resource" "safe_fields scope"
  shows "adds l (otlp_record_ok ''logs'') 1 (\<lambda>_. True) (parse_log_record l path resource scope j)"
  unfolding parse_log_record_def
proof (intro adds_lift_bind)
  fix d fs
  assume d: "log_data l path fs = Inr d"
  have "uint64 (fst d)" "has_field (snd d) ''body''"
    using d otlp_unsigned_Inr by (auto simp: log_data_def rbind_Inr_iff has_field_def)
  moreover have "log_name (snd d) \<noteq> []" by (auto simp: log_name_def split: json.splits list.splits)
  ultimately have ok: "otlp_record_ok ''logs'' \<lparr>or_signal = ''logs'', or_name = log_name (snd d), or_time = fst d,
       or_resource = resource, or_scope = scope, or_attrs = attrs, or_data = snd d\<rparr>" if "safe_fields attrs" for attrs
    using assms that by (simp add: otlp_record_ok_def data_ok_def)
  show "adds l (otlp_record_ok ''logs'') 1 (\<lambda>_. True)
     (sbind (otlp_attributes l (path @ ''.attributes'') (field fs ''attributes'')) (\<lambda>attrs.
      sbind (slift (mk_otlp_record \<lparr>or_signal = ''logs'', or_name = log_name (snd d), or_time = fst d,
       or_resource = resource, or_scope = scope, or_attrs = attrs, or_data = snd d\<rparr>)) (append_record l path)))"
    by (rule adds_bind0 [OF adds_attributes], rule adds_record) (rule ok)
qed

subsection \<open>Metrics\<close>

lemma numbers_at_Inr: "numbers_at f path i xs = Inr ys \<Longrightarrow> \<forall>y \<in> set ys. \<exists>p x. f p x = Inr y"
  by (induction f path i xs arbitrary: ys rule: numbers_at.induct) (auto simp: rbind_Inr_iff, blast)

lemma increasing_sorted: "increasing xs \<Longrightarrow> \<forall>x \<in> set xs. isfinite x \<Longrightarrow> sorted_wrt flt xs"
proof (induction xs rule: increasing.induct)
  case (1 x y xs)
  obtain a b where ab: "x = Fin a" "y = Fin b" "a < b"
    using "1.prems" by (auto simp: isfinite_iff)
  have "sorted_wrt flt (y # xs)" using "1.IH" "1.prems" by simp
  moreover have "flt x z" if "z \<in> set xs" for z
  proof -
    have "flt y z" using calculation that by simp
    moreover have "isfinite z" using "1.prems"(2) that by simp
    then obtain c where "z = Fin c" unfolding isfinite_iff by blast
    ultimately show ?thesis using ab by simp
  qed
  ultimately show ?case using ab by simp
qed simp_all

lemma otlp_number_Inr: "otlp_number path j = Inr x \<Longrightarrow> isfinite x"
  by (auto simp: otlp_number_def rbind_Inr_iff guard_else_Inr_iff)

lemma histogram_counts_ok:
  assumes "histogram_counts l path point = Inr (n, counts, bounds)"
  shows "sum_list counts = n" "uint64 n" "\<forall>c \<in> set counts. uint64 c" "length counts = length bounds + 1"
    "sorted_wrt flt bounds" "\<forall>x \<in> set bounds. isfinite x"
proof -
  from assms obtain cs bs where h: "numbers_at otlp_unsigned (path @ ''.bucketCounts'') 0 cs = Inr counts"
    "numbers_at otlp_number (path @ ''.explicitBounds'') 0 bs = Inr bounds" "length counts = length bounds + 1"
    "increasing bounds" "otlp_unsigned (path @ ''.count'') (field point ''count'') = Inr n" "sum_list counts = n"
    unfolding histogram_counts_def rbind_Inr_iff guard_else_Inr_iff by auto
  show "sum_list counts = n" "length counts = length bounds + 1" by (rule h)+
  show "uint64 n" by (rule otlp_unsigned_Inr [OF h(5)])
  show "\<forall>c \<in> set counts. uint64 c" using numbers_at_Inr [OF h(1)] otlp_unsigned_Inr by blast
  show fin: "\<forall>x \<in> set bounds. isfinite x" using numbers_at_Inr [OF h(2)] otlp_number_Inr by blast
  show "sorted_wrt flt bounds" by (rule increasing_sorted [OF h(4) fin])
qed

definition point_ok :: "string \<Rightarrow> fields \<times> int \<times> fields \<Rightarrow> bool" where
  "point_ok kind p \<longleftrightarrow> safe_fields (fst p) \<and> uint64 (fst (snd p)) \<and>
     (kind = ''histogram'' \<longrightarrow> buckets_ok (snd (snd p)))"

lemma buckets_ok_mono: "buckets_ok d \<Longrightarrow> set d \<subseteq> set e \<Longrightarrow> buckets_ok e"
  unfolding buckets_ok_def by blast

lemma adds_ret: "R x \<Longrightarrow> adds l Q 0 R (slift (Inr x))"
  by (rule adds_slift) simp

lemma adds_number_point: "kind \<noteq> ''histogram'' \<Longrightarrow> adds l Q 0 (point_ok kind) (number_point l path j)"
  unfolding number_point_def
  by (intro adds_lift_bind adds_bind0 [OF adds_attributes] adds_ret)
    (simp add: point_ok_def otlp_unsigned_Inr)

lemma histogram_point_ok:
  assumes "histogram_counts l path point = Inr h" "safe_fields attrs" "otlp_unsigned p j = Inr time"
  shows "point_ok ''histogram'' (attrs, time,
         [(''count'', JInt (fst h)), (''bucket_counts'', JList (map JInt (fst (snd h)))),
          (''explicit_bounds'', JList (map JFloat (snd (snd h))))] @ rest)"
proof -
  note h = histogram_counts_ok [of l path point "fst h" "fst (snd h)" "snd (snd h)", unfolded prod.collapse, OF assms(1)]
  have "buckets_ok ([(''count'', JInt (fst h)), (''bucket_counts'', JList (map JInt (fst (snd h)))),
          (''explicit_bounds'', JList (map JFloat (snd (snd h))))] @ rest)"
    unfolding buckets_ok_def
    by (intro exI [of _ "fst h"] exI [of _ "fst (snd h)"] exI [of _ "snd (snd h)"] conjI h) simp_all
  then show ?thesis using assms(2) otlp_unsigned_Inr [OF assms(3)] by (simp add: point_ok_def)
qed

lemma adds_histogram_point: "adds l Q 0 (point_ok ''histogram'') (histogram_point l path j)"
  unfolding histogram_point_def
  by (intro adds_lift_bind adds_bind0 [OF adds_attributes] adds_ret) (rule histogram_point_ok; assumption)

lemma adds_metric_point:
  assumes "safe_fields resource" "safe_fields scope" "name \<noteq> []"
  shows "adds l (otlp_record_ok ''metrics'') 1 (\<lambda>_. True) (metric_point l kind name resource scope metadata path j)"
proof -
  let ?m = "(if kind = ''histogram'' then histogram_point else number_point) l path j"
  have "adds l (otlp_record_ok ''metrics'') 0 (point_ok kind) ?m"
    using adds_histogram_point adds_number_point by simp
  then show ?thesis
    unfolding metric_point_def
  proof (rule adds_bind0, intro adds_record)
    fix p
    assume p: "point_ok kind p"
    let ?d = "(''metric_type'', JStr kind) # metadata @ snd (snd p)"
    have "kind = ''histogram'' \<longrightarrow> buckets_ok ?d"
      using p buckets_ok_mono [of "snd (snd p)" ?d] unfolding point_ok_def by auto
    then have "data_ok ''metrics'' (fst (snd p)) ?d" unfolding data_ok_def by simp
    then show "otlp_record_ok ''metrics'' \<lparr>or_signal = ''metrics'', or_name = name, or_time = fst (snd p),
       or_resource = resource, or_scope = scope, or_attrs = fst p, or_data = ?d\<rparr>"
      using p assms by (simp add: otlp_record_ok_def point_ok_def)
  qed
qed

subsection \<open>The loops\<close>

text \<open>How many records a request asks for.\<close>

fun elems :: "json \<Rightarrow> json list" where
  "elems (JList xs) = xs"
| "elems _ = []"

definition count_in :: "string \<Rightarrow> (json \<Rightarrow> nat) \<Rightarrow> json \<Rightarrow> nat" where
  "count_in name c j = sum_list (map c (elems (jget_null j name)))"

definition metric_points :: "json \<Rightarrow> nat" where
  "metric_points j = sum_list (map (\<lambda>k. length (elems (jget_null (jget_null j k) ''dataPoints'')))
     [''gauge'', ''sum'', ''histogram''])"

definition requested :: "json \<Rightarrow> nat" where
  "requested j =
     count_in ''resourceSpans'' (count_in ''scopeSpans'' (count_in ''spans'' (\<lambda>_. 1))) j +
     count_in ''resourceMetrics'' (count_in ''scopeMetrics'' (count_in ''metrics'' metric_points)) j +
     count_in ''resourceLogs'' (count_in ''scopeLogs'' (count_in ''logRecords'' (\<lambda>_. 1))) j"

lemma require_Inr:
  "require_object path j = Inr kvs \<longleftrightarrow> j = JObj kvs"
  "require_list path m j = Inr xs \<longleftrightarrow> j = JList xs \<and> length xs \<le> m"
  by (auto simp: require_object_def require_list_def guard_else_Inr_iff split: json.splits)

lemma adds_for_each:
  assumes "\<And>i x. adds l Q (c x) (\<lambda>_. True) (f i x)"
  shows "adds l Q (sum_list (map c xs)) (\<lambda>_. True) (for_each f i xs)"
proof (induction xs arbitrary: i)
  case Nil
  show ?case by (simp add: adds_slift)
next
  case (Cons x xs)
  have "adds l Q (c x + sum_list (map c xs)) (\<lambda>_. True) (sbind (f i x) (\<lambda>_. for_each f (Suc i) xs))"
    by (rule adds_sbind [OF assms]) (rule Cons.IH)
  then show ?case by simp
qed

lemma adds_scope_group:
  assumes "\<And>path scope x. safe_fields scope \<Longrightarrow> adds l Q (c x) (\<lambda>_. True) (parse path resource scope x)"
  shows "adds l Q (count_in name c j) (\<lambda>_. True) (scope_group l name parse resource path j)"
  unfolding scope_group_def
proof (intro adds_lift_bind adds_bind0 [OF adds_scope])
  fix group scope items
  assume a: "require_object path j = Inr group" "safe_fields scope"
    "require_list (path @ ''.'' @ name) (ol_records l) (field group name) = Inr items"
  have "count_in name c j = sum_list (map c items)" using a(1,3) by (simp add: require_Inr count_in_def field_def)
  then show "adds l Q (count_in name c j) (\<lambda>_. True)
      (for_each (\<lambda>i x. parse (idx (path @ ''.'' @ name) i) resource scope x) 0 items)"
    by (simp only:) (intro adds_for_each assms a(2))
qed

lemma adds_resource_group:
  assumes "\<And>path resource scope x. safe_fields resource \<Longrightarrow> safe_fields scope \<Longrightarrow>
      adds l Q (c x) (\<lambda>_. True) (parse path resource scope x)"
  shows "adds l Q (count_in scopes (count_in name c) j) (\<lambda>_. True) (resource_group l scopes name parse path j)"
  unfolding resource_group_def
proof (intro adds_lift_bind adds_bind0 [OF adds_resource])
  fix group resource xs
  assume a: "require_object path j = Inr group" "safe_fields resource"
    "require_list (path @ ''.'' @ scopes) (ol_scopes l) (field group scopes) = Inr xs"
  have "count_in scopes (count_in name c) j = sum_list (map (count_in name c) xs)"
    using a(1,3) by (simp add: require_Inr count_in_def [of scopes] field_def)
  then show "adds l Q (count_in scopes (count_in name c) j) (\<lambda>_. True)
      (for_each (\<lambda>i x. scope_group l name parse resource (idx (path @ ''.'' @ scopes) i) x) 0 xs)"
    by (simp only:) (intro adds_for_each adds_scope_group assms a(2))
qed

lemma adds_resource_groups:
  assumes "\<And>path resource scope x. safe_fields resource \<Longrightarrow> safe_fields scope \<Longrightarrow>
      adds l Q (c x) (\<lambda>_. True) (parse path resource scope x)"
  shows "adds l Q (sum_list (map (count_in scopes (count_in name c)) (elems j))) (\<lambda>_. True)
    (resource_groups l path scopes name parse j)"
  unfolding resource_groups_def
proof (intro adds_lift_bind)
  fix xs
  assume "require_list path (ol_resources l) j = Inr xs"
  then show "adds l Q (sum_list (map (count_in scopes (count_in name c)) (elems j))) (\<lambda>_. True)
      (for_each (\<lambda>i x. resource_group l scopes name parse (idx path i) x) 0 xs)"
    by (simp only: require_Inr elems.simps) (intro adds_for_each adds_resource_group assms)
qed

lemma absent_field: "\<not> has_field kvs k \<Longrightarrow> jget_null (JObj kvs) k = JNull"
  by (induction kvs k rule: alookup.induct) (auto simp: has_field_def jget_null_def)

lemma elems_absent [simp]: "elems (jget_null JNull k) = []"
  by (simp add: jget_null_def)

lemma metric_kind_points:
  assumes "metric_kind path fs = Inr kind"
  shows "metric_points (JObj fs) = length (elems (jget_null (field fs kind) ''dataPoints''))"
proof -
  have "kind \<in> set [''gauge'', ''sum'', ''histogram''] \<and>
      (\<forall>k \<in> set [''gauge'', ''sum'', ''histogram'']. k \<noteq> kind \<longrightarrow> \<not> has_field fs k)"
    using assms by (auto simp: metric_kind_def split: list.splits if_splits)
  then show ?thesis by (auto simp: metric_points_def field_def absent_field)
qed

lemma adds_metric:
  assumes "safe_fields resource" "safe_fields scope"
  shows "adds l (otlp_record_ok ''metrics'') (metric_points j) (\<lambda>_. True) (parse_metric l path resource scope j)"
  unfolding parse_metric_def
proof (intro adds_lift_bind)
  fix fs kind name descr munit body meta points
  assume a: "require_object path j = Inr fs" "metric_kind path fs = Inr kind"
    "otlp_text l (path @ ''.name'') True (field fs ''name'') = Inr name"
    "require_object (path @ ''.'' @ kind) (field fs kind) = Inr body"
    "require_list (path @ ''.'' @ kind @ ''.dataPoints'') (ol_records l) (field body ''dataPoints'') = Inr points"
  have "metric_points j = sum_list (map (\<lambda>_. 1) points)"
    using metric_kind_points [OF a(2)] a(1,4,5) by (simp add: require_Inr field_def sum_list_triv)
  then show "adds l (otlp_record_ok ''metrics'') (metric_points j) (\<lambda>_. True)
     (for_each (\<lambda>i x. metric_point l kind name resource scope (descr @ munit @ meta)
         (idx (path @ ''.'' @ kind @ ''.dataPoints'') i) x) 0 points)"
    by (simp only:) (intro adds_for_each adds_metric_point assms otlp_text_Inr [OF a(3)])
qed

text \<open>The one field of the request decides the signal and the count.\<close>

lemma top_field_Inr:
  assumes "top_field fs = Inr tf"
  shows "tf \<in> {''resourceSpans'', ''resourceMetrics'', ''resourceLogs''}" "fst ` set fs = {tf}"
proof -
  let ?top = "dedup (map fst fs)"
  have t: "length ?top = 1" "sort (filter (\<lambda>k. k \<notin> {''resourceSpans'', ''resourceMetrics'', ''resourceLogs''}) ?top) = []"
    "tf = hd ?top"
    using assms by (auto simp: top_field_def Let_def split: if_splits)
  then have top: "?top = [tf]" by (cases ?top) auto
  then show "fst ` set fs = {tf}" using set_dedup [of "map fst fs"] by simp
  show "tf \<in> {''resourceSpans'', ''resourceMetrics'', ''resourceLogs''}"
    using t(2) unfolding top sort_Nil by (auto split: if_splits)
qed

lemma count_absent: "\<not> has_field fs k \<Longrightarrow> count_in k c (JObj fs) = 0"
  by (simp add: count_in_def absent_field)

lemma parse_signal_adds:
  assumes "top_field fs = Inr tf"
  shows "adds l (otlp_record_ok (fst (parse_signal l tf))) (requested (JObj fs)) (\<lambda>_. True) (snd (parse_signal l tf) (field fs tf))"
proof -
  have other: "k \<noteq> tf \<Longrightarrow> \<not> has_field fs k" for k using top_field_Inr(2) [OF assms] by (simp add: has_field_def)
  consider "tf = ''resourceSpans''" | "tf = ''resourceMetrics''" | "tf = ''resourceLogs''"
    using top_field_Inr(1) [OF assms] by blast
  then show ?thesis
  proof cases
    case 1
    then have r: "requested (JObj fs) = sum_list (map (count_in ''scopeSpans'' (count_in ''spans'' (\<lambda>_. 1))) (elems (field fs tf)))"
      by (simp add: requested_def count_absent other count_in_def [of "''resourceSpans''"] field_def)
    show ?thesis unfolding r using 1
      by (simp only: parse_signal_def if_True fst_conv snd_conv parse_traces_def simp_thms)
        (intro adds_resource_groups adds_span)
  next
    case 2
    then have r: "requested (JObj fs) = sum_list (map (count_in ''scopeMetrics'' (count_in ''metrics'' metric_points)) (elems (field fs tf)))"
      by (simp add: requested_def count_absent other count_in_def [of "''resourceMetrics''"] field_def)
    have "parse_signal l tf = (''metrics'', parse_metrics l)" using 2 by (simp add: parse_signal_def)
    then show ?thesis unfolding r
      by (simp only: fst_conv snd_conv parse_metrics_def) (intro adds_resource_groups adds_metric)
  next
    case 3
    then have r: "requested (JObj fs) = sum_list (map (count_in ''scopeLogs'' (count_in ''logRecords'' (\<lambda>_. 1))) (elems (field fs tf)))"
      by (simp add: requested_def count_absent other count_in_def [of "''resourceLogs''"] field_def)
    have "parse_signal l tf = (''logs'', parse_logs l)" using 3 by (simp add: parse_signal_def)
    then show ?thesis unfolding r
      by (simp only: fst_conv snd_conv parse_logs_def) (intro adds_resource_groups adds_log)
  qed
qed

lemma ingest_Inr:
  assumes "ingest hx hb decode l body scope key = Inr b"
  obtains fs where "strict_json_loads decode (ol_body l) ''otlp'' body = Inr (JObj fs)"
    "\<forall>r \<in> set (ob_records b). otlp_record_ok (ob_signal b) r" "length (ob_records b) = requested (JObj fs)"
    "length (ob_records b) \<le> ol_records l" "ob_records b \<noteq> []"
    "receipt_draft_ok (ob_receipt b)" "(''record_count'', JInt (int (length (ob_records b)))) \<in> set (rd_payload (ob_receipt b))"
    "ob_idem b = \<lparr>ic_key = key, ic_sha = hb body\<rparr>"
proof -
  obtain fs tf s claim where a: "strict_json_loads decode (ol_body l) ''otlp'' body = Inr (JObj fs)" "top_field fs = Inr tf"
    "snd (parse_signal l tf) (field fs tf) \<lparr>is_records = [], is_stripped = []\<rparr> = Inr ((), s)" "is_records s \<noteq> []"
    "mk_idem_claim key (hb body) = Inr claim" "ob_idem b = claim"
    "otlp_receipt hx scope (fst (parse_signal l tf)) s (hb body) key = Inr (ob_receipt b)"
    "ob_records b = is_records s" "ob_signal b = fst (parse_signal l tf)"
    using assms by (auto simp: ingest_def Let_def rbind_Inr_iff guard_else_Inr_iff require_Inr)
  obtain rs where r: "is_records s = rs" "length rs = requested (JObj fs)" "\<forall>r \<in> set rs. otlp_record_ok (ob_signal b) r"
    "length rs \<le> ol_records l"
    using parse_signal_adds [OF a(2), of l] a(3,9) unfolding adds_def by fastforce
  have d: "receipt_draft_ok (ob_receipt b)" "(''record_count'', JInt (int (length (is_records s)))) \<in> set (rd_payload (ob_receipt b))"
    using mk_receipt_draft_fields [OF a(7) [unfolded otlp_receipt_def]] by simp_all
  show thesis
    by (rule that [OF a(1)]) (use r d a(4-6,8) in \<open>auto simp: mk_idem_claim_def guard_else_Inr_iff\<close>)
qed

subsection \<open>Properties\<close>

text \<open>C13: An accepted batch is well formed and complete.  It holds exactly one record for every
  span, metric point or log record of the request, between one and \<open>max\_records\<close> of them, and
  nothing is truncated; each has the signal of the batch, a name, a \<open>uint64\<close> time and no sensitive
  key in its resource, scope or own attributes; a span ends no earlier than it starts and its
  duration is the difference; the buckets of a histogram sum to its count, are one more than its
  bounds, and the bounds are finite and strictly increasing; and the receipt counts the records.\<close>

theorem otlp_batch_sound:
  assumes "ingest hx hb decode l body scope key = Inr b"
  shows "\<exists>fs. strict_json_loads decode (ol_body l) ''otlp'' body = Inr (JObj fs) \<and>
    length (ob_records b) = requested (JObj fs) \<and> 0 < length (ob_records b) \<and> length (ob_records b) \<le> ol_records l \<and>
    (\<forall>r \<in> set (ob_records b). otlp_record_ok (ob_signal b) r) \<and>
    receipt_draft_ok (ob_receipt b) \<and>
    (''record_count'', JInt (int (length (ob_records b)))) \<in> set (rd_payload (ob_receipt b)) \<and>
    ob_idem b = \<lparr>ic_key = key, ic_sha = hb body\<rparr>"
  using assms by (rule ingest_Inr) blast

text \<open>One number escapes the declared errors.  A JSON integer beyond the range of a binary64
  float, as a gauge value, makes \<open>float(value)\<close> raise \<open>OverflowError\<close>, which is neither
  \<open>PayloadValidationError\<close> nor \<open>ValueError\<close>: the finiteness check that was meant to refuse it
  never runs.\<close>

theorem huge_number_escapes:
  assumes "2 ^ 1024 \<le> n"
  shows "otlp_number path (JInt n) = Inl (OverflowError ''int too large to convert to float'') \<and>
    otlp_number path (JFloat PInf) = Inl (PayloadValidationError (path @ '' must be finite''))"
  using float_of_int_huge [OF assms] by (simp add: otlp_number_def)

subsection \<open>Witnesses\<close>

definition ox_request :: fields where
  "ox_request = [(''resourceLogs'', JList [JObj [(''scopeLogs'', JList [JObj [(''logRecords'', JList [JObj
     [(''timeUnixNano'', JStr ''5''), (''body'', JObj [(''stringValue'', JStr ''up'')]),
      (''attributes'', JList [JObj [(''key'', JStr ''password''), (''value'', JObj [(''boolValue'', JBool True)])],
        JObj [(''key'', JStr ''region''), (''value'', JObj [(''intValue'', JStr ''-7'')])]])]])]])]])]"

definition ox_decode :: "string \<Rightarrow> decoded" where
  "ox_decode s = Decoded (Atom (JObj ox_request))"

definition ox_record :: otlp_record where
  "ox_record = \<lparr>or_signal = ''logs'', or_name = ''log'', or_time = 5, or_resource = [], or_scope = [],
     or_attrs = [(''region'', JInt (-7))], or_data = [(''body'', JStr ''up'')]\<rparr>"

lemma ox_loaded: "strict_json_loads ox_decode 1000000 ''otlp'' ''x'' = Inr (JObj ox_request)"
proof -
  obtain s where "canonical_json (JObj ox_request) = Inr s"
    using canonical_json_total [of "JObj ox_request"] by (auto simp: ox_request_def)
  then show ?thesis
    by (simp add: strict_json_loads_def ox_decode_def assert_finite_json_def) (simp add: ox_request_def)
qed

lemma ox_facts:
  "is_sensitive_key ''password''" "\<not> is_sensitive_key ''region''" "decimal ''5''" "decimal ''7''"
  "decimal_value ''5'' = 5" "decimal_value ''7'' = 7" "dedup [''password''] = [''password'']" "sort [''password''] = [''password'']"
  by code_simp+

lemma ox_parsed:
  "parse_logs default_limits (field ox_request ''resourceLogs'') \<lparr>is_records = [], is_stripped = []\<rparr> =
     Inr ((), \<lparr>is_records = [ox_record], is_stripped = [''password'']\<rparr>)"
  by (simp add: ox_request_def parse_logs_def resource_groups_def resource_group_def scope_group_def parse_log_record_def
      sbind_def slift_def field_def jget_null_def require_list_def require_object_def require_fields_def default_limits_def
      otlp_resource_def otlp_scope_def optional_def has_field_def log_data_def otlp_unsigned_def any_value_def text_json_def
      otlp_text_def log_severity_def int_flags_def otlp_attributes_def otlp_signed_def strip_sensitive_attributes_def
      mk_otlp_record_def append_record_def log_name_def ox_facts ox_record_def Let_def)

lemma ox_receipt:
  "\<exists>d. otlp_receipt hx \<lparr>sc_tenant = 1, sc_workspace = 2\<rparr> ''logs'' s sha key = Inr d"
proof -
  have keys: "name_ok ''ingest.otlp.accepted''" "name_ok ''telemetry_signal''" "strip ''logs'' = ''logs''"
    "\<not> is_sensitive_key ''tenant_id''" "\<not> is_sensitive_key ''workspace_id''" "\<not> is_sensitive_key ''signal''"
    "\<not> is_sensitive_key ''record_count''" "\<not> is_sensitive_key ''payload_sha256''"
    "\<not> is_sensitive_key ''idempotency_key_sha256''" "\<not> is_sensitive_key ''stripped_attribute_count''"
    "\<not> is_sensitive_key ''subset''"
    by code_simp+
  let ?p = "scope_to_dict \<lparr>sc_tenant = 1, sc_workspace = 2\<rparr> @
        [(''signal'', JStr ''logs''), (''record_count'', JInt (int (length (is_records s)))),
         (''payload_sha256'', JStr sha), (''idempotency_key_sha256'', JStr (hx key)),
         (''stripped_attribute_count'', JInt (int (length (is_stripped s)))),
         (''subset'', JStr ''bounded_scalar_v1'')]"
  have "assert_no_sensitive_keys ''payload'' (JObj ?p) = Inr ()" by (simp add: scope_to_dict_def keys)
  moreover obtain t where "canonical_json (JObj ?p) = Inr t"
    using canonical_json_total [of "JObj ?p"] by (auto simp: scope_to_dict_def)
  ultimately show ?thesis using keys(1-3) by (simp add: otlp_receipt_def mk_receipt_draft_def)
qed

lemma otlp_batch_sound_witness:
  "\<exists>b. ingest id (\<lambda>_. replicate 64 (CHR ''b'')) ox_decode default_limits ''x'' \<lparr>sc_tenant = 1, sc_workspace = 2\<rparr>
         ''key-0123456789ab'' = Inr b \<and> ob_records b = [ox_record] \<and> otlp_record_ok (ob_signal b) ox_record"
proof -
  have key: "claim_key_ok ''key-0123456789ab''" "is_hex64 (replicate 64 (CHR ''b''))" by code_simp+
  have top: "top_field ox_request = Inr ''resourceLogs''" "parse_signal default_limits ''resourceLogs'' = (''logs'', parse_logs default_limits)"
    by (simp_all add: top_field_def ox_request_def parse_signal_def)
  obtain d where "otlp_receipt id \<lparr>sc_tenant = 1, sc_workspace = 2\<rparr> ''logs''
      \<lparr>is_records = [ox_record], is_stripped = [''password'']\<rparr> (replicate 64 (CHR ''b'')) ''key-0123456789ab'' = Inr d"
    using ox_receipt by blast
  then obtain b where b: "ingest id (\<lambda>_. replicate 64 (CHR ''b'')) ox_decode default_limits ''x''
      \<lparr>sc_tenant = 1, sc_workspace = 2\<rparr> ''key-0123456789ab'' = Inr b" "ob_records b = [ox_record]"
    using ox_loaded ox_parsed top key
    by (simp add: ingest_def default_limits_def require_Inr Let_def mk_idem_claim_def require_object_def)
  then show ?thesis using otlp_batch_sound [OF b(1)] by auto
qed

lemma huge_number_escapes_witness:
  "otlp_number ''p'' (JInt (2 ^ 1024)) = Inl (OverflowError ''int too large to convert to float'')"
  using huge_number_escapes [of "2 ^ 1024" "''p''"] by (simp del: power_numeral)

end
